(* ===== verification/Prelude.thy ===== *)
theory Prelude
  imports "HOL-Library.Word" "HOL-Library.Multiset"
begin

text \<open>
  Shared vocabulary of the development: the machine types of the C sources, the byte order
  conversions, blocking of a mutex, linear search in an array, and the counting lemmas that the
  pool components use.

  Conventions.  A \<open>uintN_t\<close> is an \<open>N word\<close>, \<open>time_t\<close> is an integer number of seconds, a C string
  is the list of its characters before the terminating NUL, and \<open>struct in_addr\<close> is its member
  \<open>s_addr\<close>: the 32 bit value whose bytes in memory are in network order.  The host is
  little-endian (the Makefiles build for Linux on x86), so \<open>ntohl\<close> and \<open>htonl\<close> reverse the bytes.
  An array with an element count is the list of its first \<open>count\<close> elements, the only ones the code
  reads; a pointer into such an array is an index.
\<close>

unbundle bit_operations_syntax

type_synonym u8 = "8 word"
type_synonym u16 = "16 word"
type_synonym u32 = "32 word"
type_synonym u64 = "64 word"
type_synonym time_t = int
type_synonym in_addr = u32
type_synonym mac = "u8 list"

named_theorems count_simps \<open>how an update at an index changes a count\<close>
named_theorems byte_simps \<open>byte order conversions\<close>

section \<open>Definitions\<close>

subsection \<open>Calls that may not return normally\<close>

text \<open>
  A thread that locks a default (non-recursive) pthread mutex it already holds waits for itself:
  the call \<open>Blocks\<close>.  An access outside an array is \<open>Undefined\<close>.
\<close>

datatype 'a outcome = Returns 'a | Blocks | Undefined

primrec and_then :: "'a outcome \<Rightarrow> ('a \<Rightarrow> 'b outcome) \<Rightarrow> 'b outcome" where
  "and_then (Returns x) f = f x"
| "and_then Blocks f = Blocks"
| "and_then Undefined f = Undefined"

subsection \<open>Bytes of a 32 bit value\<close>

definition le_bytes32 :: "u32 \<Rightarrow> u8 list" where
  "le_bytes32 x = [ucast x, ucast (drop_bit 8 x), ucast (drop_bit 16 x), ucast (drop_bit 24 x)]"

fun le_word32 :: "u8 list \<Rightarrow> u32" where
  "le_word32 [a, b, c, d] =
     ucast a OR push_bit 8 (ucast b) OR push_bit 16 (ucast c) OR push_bit 24 (ucast d)"
| "le_word32 _ = 0"

definition bswap32 :: "u32 \<Rightarrow> u32" where
  "bswap32 x = le_word32 (rev (le_bytes32 x))"

abbreviation ntohl :: "u32 \<Rightarrow> u32" where "ntohl \<equiv> bswap32"
abbreviation htonl :: "u32 \<Rightarrow> u32" where "htonl \<equiv> bswap32"

subsection \<open>Linear search\<close>

text \<open>The loops \<open>for (i = 0; i < n; i++) if (P(a[i])) return &a[i]; return NULL;\<close>.\<close>

fun find_idx :: "('a \<Rightarrow> bool) \<Rightarrow> 'a list \<Rightarrow> nat option" where
  "find_idx P [] = None"
| "find_idx P (x # xs) = (if P x then Some 0 else map_option Suc (find_idx P xs))"

definition count_if :: "('a \<Rightarrow> bool) \<Rightarrow> 'a list \<Rightarrow> nat" where
  "count_if P xs = length (filter P xs)"

section \<open>Lemmas\<close>

lemma and_then_Returns: "and_then x f = Returns y \<longleftrightarrow> (\<exists>z. x = Returns z \<and> f z = Returns y)"
  by (cases x) auto

subsection \<open>Bytes\<close>

lemma bit_le_word32:
  "bit (le_word32 [a, b, c, d]) n \<longleftrightarrow>
     (if n < 8 then bit a n else if n < 16 then bit b (n - 8)
      else if n < 24 then bit c (n - 16) else n < 32 \<and> bit d (n - 24))"
  by (auto simp: bit_or_iff bit_push_bit_iff bit_ucast_iff dest: bit_imp_le_length)

lemma le_bytes32_le_word32 [byte_simps]: "le_bytes32 (le_word32 [a, b, c, d]) = [a, b, c, d]"
  unfolding le_bytes32_def
  by (auto simp del: le_word32.simps simp: bit_le_word32 bit_drop_bit_eq bit_ucast_iff
      intro!: bit_word_eqI)

lemma le_word32_le_bytes32 [simp, byte_simps]: "le_word32 (le_bytes32 x) = x"
  unfolding le_bytes32_def
  by (rule bit_word_eqI)
    (auto simp del: le_word32.simps simp: bit_le_word32 bit_drop_bit_eq bit_ucast_iff)

lemma bswap32_bswap32 [simp, byte_simps]: "bswap32 (bswap32 x) = x"
proof -
  have "rev (le_bytes32 (le_word32 (rev (le_bytes32 x)))) = le_bytes32 x"
    by (simp add: le_bytes32_def [of x] le_bytes32_le_word32 del: le_word32.simps)
  then show ?thesis by (simp add: bswap32_def)
qed

lemma bswap32_inj [simp]: "bswap32 x = bswap32 y \<longleftrightarrow> x = y"
  by (metis bswap32_bswap32)

lemma length_le_bytes32 [simp]: "length (le_bytes32 x) = 4"
  by (simp add: le_bytes32_def)

subsection \<open>Linear search\<close>

lemma find_idx_SomeD:
  "find_idx P xs = Some i \<Longrightarrow> i < length xs \<and> P (xs ! i) \<and> (\<forall>j < i. \<not> P (xs ! j))"
proof (induction xs arbitrary: i)
  case (Cons x xs)
  then show ?case
    by (auto split: if_splits simp: nth_Cons split: nat.splits)
qed simp

lemma find_idx_None: "find_idx P xs = None \<longleftrightarrow> (\<forall>x \<in> set xs. \<not> P x)"
  by (induction xs) auto

lemma find_idx_exists: "x \<in> set xs \<Longrightarrow> P x \<Longrightarrow> \<exists>i. find_idx P xs = Some i"
  by (metis find_idx_None not_None_eq)

lemma find_idx_first:
  assumes "i < length xs" "P (xs ! i)" "\<And>j. j < i \<Longrightarrow> \<not> P (xs ! j)"
  shows "find_idx P xs = Some i"
proof -
  obtain k where k: "find_idx P xs = Some k"
    using find_idx_exists assms(1,2) nth_mem by metis
  with find_idx_SomeD [OF k] assms show ?thesis
    by (metis linorder_neqE_nat)
qed

lemma find_idx_unique_key:
  assumes "distinct (map f xs)" "i < length xs" "f (xs ! i) = k"
  shows "find_idx (\<lambda>x. f x = k) xs = Some i"
proof (rule find_idx_first)
  fix j assume "j < i"
  then show "f (xs ! j) \<noteq> k"
    using assms nth_eq_iff_index_eq [OF assms(1), of j i] by simp
qed (use assms in auto)

lemma find_idx_cong:
  "(\<And>x. x \<in> set xs \<Longrightarrow> P x = Q x) \<Longrightarrow> find_idx P xs = find_idx Q xs"
  by (induction xs) auto

lemma find_idx_map: "find_idx P (map f xs) = find_idx (\<lambda>x. P (f x)) xs"
  by (induction xs) auto

lemma find_idx_update_same:
  "(i < length xs \<Longrightarrow> P v = P (xs ! i)) \<Longrightarrow> find_idx P (xs[i := v]) = find_idx P xs"
proof (induction xs arbitrary: i)
  case (Cons x xs)
  then show ?case by (cases i) auto
qed simp

lemma find_upt_idx: "List.find (\<lambda>i. P (xs ! i)) [0..<length xs] = find_idx P xs"
proof (induction xs)
  case (Cons x xs)
  have "[0..<length (x # xs)] = 0 # map Suc [0..<length xs]"
    using upt_conv_Cons [of 0 "length (x # xs)"] by (simp add: map_Suc_upt del: upt_Suc)
  moreover have "List.find Q (map Suc is) = map_option Suc (List.find (\<lambda>i. Q (Suc i)) is)" for Q "is"
    by (induction "is") auto
  ultimately show ?case using Cons.IH by simp
qed simp

subsection \<open>Counting\<close>

lemma count_if_Nil [simp]: "count_if P [] = 0"
  by (simp add: count_if_def)

lemma count_if_Cons [simp]: "count_if P (x # xs) = (if P x then 1 else 0) + count_if P xs"
  by (simp add: count_if_def)

lemma count_if_append [simp]: "count_if P (xs @ ys) = count_if P xs + count_if P ys"
  by (simp add: count_if_def)

lemma count_if_le: "count_if P xs \<le> length xs"
  by (simp add: count_if_def)

lemma count_if_pos: "i < length xs \<Longrightarrow> P (xs ! i) \<Longrightarrow> 0 < count_if P xs"
  by (simp add: count_if_def) (metis nth_mem filter_empty_conv)

lemma count_if_update [count_simps]:
  "i < length xs \<Longrightarrow>
   count_if P (xs[i := v]) + (if P (xs ! i) then 1 else 0) = count_if P xs + (if P v then 1 else 0)"
proof (induction xs arbitrary: i)
  case (Cons x xs)
  then show ?case by (cases i) auto
qed simp

lemma map_update_same: "i < length xs \<Longrightarrow> f v = f (xs ! i) \<Longrightarrow> map f (xs[i := v]) = map f xs"
  by (metis list_update_id map_update)

subsection \<open>Counters\<close>

lemma unat_inc: "n + 1 \<noteq> 0 \<Longrightarrow> unat (n + 1) = Suc (unat n)" for n :: "'a::len word"
  using unatSuc [of n] by (simp add: add.commute)

lemma less_inc: "n + 1 \<noteq> 0 \<Longrightarrow> n < n + 1" for n :: "'a::len word"
  by (simp add: word_less_nat_alt unat_inc)

lemma less_imp_inc: "v < w \<Longrightarrow> v + 1 \<noteq> 0" for v w :: "'a::len word"
  by (metis eq_neg_iff_add_eq_0 leD word_order.extremum)

lemma unat_of_nat_u32: "x < 2 ^ 32 \<Longrightarrow> unat (of_nat x :: u32) = x"
  by (simp add: unat_of_nat take_bit_nat_eq_self)

lemma of_nat_u32_inj: "(of_nat x :: u32) = of_nat y \<Longrightarrow> x < 2 ^ 32 \<Longrightarrow> y < 2 ^ 32 \<Longrightarrow> x = y"
  by (metis unat_of_nat_u32)

text \<open>A 32 bit counter that follows a count moves with it, whatever the order of its updates.\<close>

lemma unat_count_step:
  fixes a :: u32
  assumes "unat a = c" "c' + of_bool out = c + of_bool in'" "c' < 2 ^ 32"
  shows "unat (a - of_bool out + of_bool in') = c'"
proof -
  have "a = of_nat c" using assms(1) by auto
  moreover have "of_nat c' + of_bool out = (of_nat c + of_bool in' :: u32)"
    using assms(2) by (metis of_nat_add of_nat_of_bool)
  ultimately have "a - of_bool out + of_bool in' = of_nat c'"
    by (simp add: algebra_simps)
  then show ?thesis using unat_of_nat_u32 [OF assms(3)] by simp
qed

section \<open>Transition systems\<close>

text \<open>
  The contract of an invariant: it holds initially and every step keeps it.  The threads of the
  servers interpret it on their step relations.
\<close>

locale invariant_system =
  fixes init :: "'s \<Rightarrow> bool"
    and step :: "'s \<Rightarrow> 's \<Rightarrow> bool"
    and inv :: "'s \<Rightarrow> bool"
  assumes init_inv: "init s \<Longrightarrow> inv s"
    and step_inv: "inv s \<Longrightarrow> step s s' \<Longrightarrow> inv s'"
begin

lemma steps_inv: "step\<^sup>*\<^sup>* s s' \<Longrightarrow> inv s \<Longrightarrow> inv s'"
  by (induction rule: rtranclp_induct) (auto intro: step_inv)

lemma reachable_inv: "init s \<Longrightarrow> step\<^sup>*\<^sup>* s s' \<Longrightarrow> inv s'"
  using init_inv steps_inv by blast

end

end
