(* ===== verification/Keyed_Table.thy ===== *)
theory Keyed_Table
  imports Prelude
begin

text \<open>
  The contract of the linear lookups (\<open>lease_db_find_by_ip\<close>, \<open>ip_pool_find_entry\<close> and their kin): the
  result is the index of the first row with the key, and NULL when no row has it.  Some lookups
  refuse certain keys (the lease id 0), hence \<open>valid\<close>.  Before the contract: the map that a table with
  distinct keys denotes, and what the updates of a table do to it.
\<close>

section \<open>The map of a table\<close>

definition key_rows :: "('r \<Rightarrow> 'k) \<Rightarrow> 'r list \<Rightarrow> ('k \<times> 'r) list" where
  "key_rows key rs = map (\<lambda>r. (key r, r)) rs"

lemma key_rows_simps [simp]:
  "key_rows key [] = []" "key_rows key (r # rs) = (key r, r) # key_rows key rs"
  "key_rows key (rs @ rs') = key_rows key rs @ key_rows key rs'"
  by (simp_all add: key_rows_def)

lemma fst_key_rows [simp]: "map fst (key_rows key rs) = map key rs"
  by (simp add: key_rows_def comp_def)

lemma dom_key_rows: "dom (map_of (key_rows key rs)) = key ` set rs"
  by (simp add: dom_map_of_conv_image_fst key_rows_def image_image)

lemma key_rows_None: "map_of (key_rows key rs) k = None \<longleftrightarrow> k \<notin> key ` set rs"
  by (induction rs) auto

lemma card_key_rows: "distinct (map key rs) \<Longrightarrow> card (dom (map_of (key_rows key rs))) = length rs"
  using distinct_card [of "map key rs"] by (simp add: dom_key_rows)

lemma key_rows_nth:
  "distinct (map key rs) \<Longrightarrow> i < length rs \<Longrightarrow> map_of (key_rows key rs) (key (rs ! i)) = Some (rs ! i)"
  by (simp add: key_rows_def comp_def map_of_eq_Some_iff image_iff)

lemma key_rows_find: "map_option ((!) rs) (find_idx (\<lambda>r. key r = k) rs) = map_of (key_rows key rs) k"
  by (induction rs) (auto simp: option.map_comp comp_def)

lemma key_rows_update:
  assumes "find_idx (\<lambda>r. key r = k) rs = Some i" "key r = k"
  shows "map_of (key_rows key (rs[i := r])) = (map_of (key_rows key rs))(k \<mapsto> r)"
  using assms by (induction rs arbitrary: i) (auto split: if_splits)

lemma key_rows_map:
  assumes "\<And>r. key (f r) = key r"
  shows "map_of (key_rows key (map f rs)) k = map_option f (map_of (key_rows key rs) k)"
  using assms by (induction rs) auto

lemma key_rows_filter:
  assumes "distinct (map key rs)"
  shows "map_of (key_rows key (filter P rs)) k =
    (case map_of (key_rows key rs) k of None \<Rightarrow> None | Some r \<Rightarrow> if P r then Some r else None)"
  using assms
proof (induction rs)
  case (Cons r rs)
  have "map_of (key_rows key rs) (key r) = None"
    using Cons.prems by (simp add: key_rows_None)
  with Cons show ?case by auto
qed simp

lemma key_rows_append:
  assumes "k \<notin> key ` set rs" "key r = k"
  shows "map_of (key_rows key (rs @ [r])) = (map_of (key_rows key rs))(k \<mapsto> r)"
proof -
  have "map_of (key_rows key rs) k = None"
    using assms(1) by (simp add: key_rows_None)
  then show ?thesis using assms(2) by (auto simp: map_add_def split: option.splits)
qed

section \<open>The contract of a look-up\<close>

locale keyed_table =
  fixes rows :: "'db \<Rightarrow> 'r list"
    and key :: "'r \<Rightarrow> 'k"
    and valid :: "'k \<Rightarrow> bool"
    and find :: "'db \<Rightarrow> 'k \<Rightarrow> nat option"
  assumes find_first: "find db k = Some i \<Longrightarrow>
      i < length (rows db) \<and> key (rows db ! i) = k \<and> (\<forall>j < i. key (rows db ! j) \<noteq> k)"
    and find_absent: "valid k \<Longrightarrow> find db k = None \<Longrightarrow> k \<notin> key ` set (rows db)"
begin

lemma find_bound: "find db k = Some i \<Longrightarrow> i < length (rows db)"
  by (simp add: find_first)

lemma find_key: "find db k = Some i \<Longrightarrow> key (rows db ! i) = k"
  by (simp add: find_first)

lemma find_None_iff: "valid k \<Longrightarrow> find db k = None \<longleftrightarrow> k \<notin> key ` set (rows db)"
proof
  assume "k \<notin> key ` set (rows db)"
  then show "find db k = None"
    by (metis find_first imageI nth_mem option.exhaust)
qed (simp add: find_absent)

lemma find_unique:
  assumes "distinct (map key (rows db))" "valid k"
  shows "find db k = Some i \<longleftrightarrow> i < length (rows db) \<and> key (rows db ! i) = k"
proof
  assume i: "i < length (rows db) \<and> key (rows db ! i) = k"
  then have "find db k \<noteq> None" using find_None_iff assms(2) nth_mem by fastforce
  then obtain j where j: "find db k = Some j" by auto
  then have "j < length (rows db)" "key (rows db ! j) = k" using find_first by auto
  then have "j = i"
    using assms(1) i nth_eq_iff_index_eq [of "map key (rows db)" j i] by simp
  with j show "find db k = Some i" by simp
qed (simp add: find_first)

lemma find_by_rows:
  assumes "valid k" "map key (rows db') = map key (rows db)"
  shows "find db' k = find db k"
proof (cases "find db k")
  case None
  then have "k \<notin> set (map key (rows db))" using find_None_iff [OF assms(1)] by simp
  then have "k \<notin> set (map key (rows db'))" using assms(2) by simp
  then show ?thesis using None find_None_iff [OF assms(1), of db'] by simp
next
  case (Some i)
  have nth: "key (rows db' ! j) = key (rows db ! j)" if "j < length (rows db)" for j
    using that assms(2) by (metis length_map nth_map)
  have len: "length (rows db') = length (rows db)" using assms(2) by (metis length_map)
  have i: "i < length (rows db)" "key (rows db ! i) = k" "\<forall>j < i. key (rows db ! j) \<noteq> k"
    using find_first [OF Some] by auto
  then have "k \<in> key ` set (rows db')" using nth len by (metis image_eqI nth_mem)
  then obtain i' where i': "find db' k = Some i'" using find_None_iff [OF assms(1), of db'] by auto
  have "i' = i"
    using find_first [OF i'] i nth len by (metis linorder_neqE_nat less_trans)
  with i' Some show ?thesis by simp
qed

end

end
