(* ===== verification/Lease_Db.thy ===== *)
theory Lease_Db
  imports Keyed_Table
begin

text \<open>
  The DHCPv4 lease database (src/lease_v4.c, include/src/lease_v4.h): leases, their states, and the
  operations on the table, with and without the database mutex.  \<open>time(NULL)\<close> is the argument \<open>now\<close>.
  The table is the list of its first \<open>lease_count\<close> rows, and a \<open>struct dhcp_lease_t *\<close> returned by the
  unsafe operations is an index into it; a pointer to the database itself is never NULL.
\<close>

named_theorems lease_simps \<open>lease operations on single rows\<close>

section \<open>Definitions\<close>

datatype lease_state_t = LEASE_STATE_FREE | LEASE_STATE_ACTIVE | LEASE_STATE_EXPIRED
  | LEASE_STATE_RELEASED | LEASE_STATE_ABANDONED | LEASE_STATE_RESERVED | LEASE_STATE_BACKUP
  | LEASE_STATE_UNKNOWN

abbreviation "MAX_LEASES \<equiv> (1024 :: nat)"
abbreviation "MAX_CLIENT_ID_LEN \<equiv> (64 :: nat)"
abbreviation "MAX_VENDOR_CLASS_LEN \<equiv> (128 :: nat)"

record dhcp_lease_t =
  lease_id :: u64
  ip_address :: in_addr
  mac_address :: mac
  start_time :: time_t
  end_time :: time_t
  tstp :: time_t
  cltt :: time_t
  lease_state :: lease_state_t
  next_binding_state :: lease_state_t
  rewind_binding_state :: lease_state_t
  client_id :: "u8 list"
  client_id_len :: u32
  client_hostname :: string
  vendor_class_identifier :: string
  is_abandoned :: bool
  is_bootp :: bool
  binding_state :: string

record lease_database_t =
  leases :: "dhcp_lease_t list"
  filename :: string
  next_lease_id :: u64
  db_mutex :: bool
  db_mutex_initialized :: bool

fun lease_state_to_string :: "lease_state_t \<Rightarrow> string" where
  "lease_state_to_string LEASE_STATE_FREE = ''free''"
| "lease_state_to_string LEASE_STATE_ACTIVE = ''active''"
| "lease_state_to_string LEASE_STATE_EXPIRED = ''expired''"
| "lease_state_to_string LEASE_STATE_RELEASED = ''released''"
| "lease_state_to_string LEASE_STATE_ABANDONED = ''abandoned''"
| "lease_state_to_string LEASE_STATE_RESERVED = ''reserved''"
| "lease_state_to_string LEASE_STATE_BACKUP = ''backup''"
| "lease_state_to_string _ = ''unknown''"

definition lease_state_from_string :: "string \<Rightarrow> lease_state_t" where
  "lease_state_from_string str =
     (if str = ''free'' then LEASE_STATE_FREE
      else if str = ''active'' then LEASE_STATE_ACTIVE
      else if str = ''expired'' then LEASE_STATE_EXPIRED
      else if str = ''released'' then LEASE_STATE_RELEASED
      else if str = ''abandoned'' then LEASE_STATE_ABANDONED
      else if str = ''reserved'' then LEASE_STATE_RESERVED
      else if str = ''backup'' then LEASE_STATE_BACKUP
      else LEASE_STATE_UNKNOWN)"

definition lease_is_expired :: "time_t \<Rightarrow> dhcp_lease_t \<Rightarrow> bool" where
  "lease_is_expired now lease \<longleftrightarrow> lease_state lease = LEASE_STATE_ACTIVE \<and> end_time lease < now"

text \<open>The struct after \<open>memset(..., 0, ...)\<close>.\<close>

definition lease_zero :: dhcp_lease_t where
  "lease_zero = \<lparr>lease_id = 0, ip_address = 0, mac_address = replicate 6 0, start_time = 0,
     end_time = 0, tstp = 0, cltt = 0, lease_state = LEASE_STATE_FREE,
     next_binding_state = LEASE_STATE_FREE, rewind_binding_state = LEASE_STATE_FREE,
     client_id = replicate MAX_CLIENT_ID_LEN 0, client_id_len = 0, client_hostname = [],
     vendor_class_identifier = [], is_abandoned = False, is_bootp = False, binding_state = []\<rparr>"

definition db_zero :: lease_database_t where
  "db_zero = \<lparr>leases = [], filename = [], next_lease_id = 0, db_mutex = False,
     db_mutex_initialized = False\<rparr>"

text \<open>\<open>mutex_ok\<close>: \<open>pthread_mutex_init\<close> succeeds; \<open>filename\<close> NULL is None.\<close>

definition lease_db_init :: "bool \<Rightarrow> string option \<Rightarrow> lease_database_t \<Rightarrow> int \<times> lease_database_t" where
  "lease_db_init mutex_ok filenm db = (case filenm of
     None \<Rightarrow> (-1, db)
   | Some f \<Rightarrow> (let db1 = db_zero\<lparr>filename := List.take 255 f, next_lease_id := 1\<rparr> in
       if \<not> mutex_ok then (-1, db1) else (0, db1\<lparr>db_mutex_initialized := True\<rparr>)))"

definition lease_db_free :: "lease_database_t \<Rightarrow> lease_database_t" where
  "lease_db_free db = db_zero"

definition lease_db_generate_id :: "lease_database_t \<Rightarrow> u64 \<times> lease_database_t" where
  "lease_db_generate_id db = (next_lease_id db, db\<lparr>next_lease_id := next_lease_id db + 1\<rparr>)"

definition lease_db_find_by_id :: "lease_database_t \<Rightarrow> u64 \<Rightarrow> nat option" where
  "lease_db_find_by_id db lid =
     (if lid = 0 then None else find_idx (\<lambda>l. lease_id l = lid) (leases db))"

definition lease_db_find_by_ip :: "lease_database_t \<Rightarrow> in_addr \<Rightarrow> nat option" where
  "lease_db_find_by_ip db ip = find_idx (\<lambda>l. ip_address l = ip) (leases db)"

definition lease_db_find_by_mac :: "lease_database_t \<Rightarrow> mac \<Rightarrow> nat option" where
  "lease_db_find_by_mac db m = find_idx (\<lambda>l. mac_address l = m) (leases db)"

definition new_lease :: "time_t \<Rightarrow> u64 \<Rightarrow> in_addr \<Rightarrow> mac \<Rightarrow> u32 \<Rightarrow> dhcp_lease_t" where
  "new_lease now lid ip m lease_time = lease_zero\<lparr>
     lease_id := lid, ip_address := ip, mac_address := m,
     start_time := now, end_time := now + uint lease_time, tstp := now, cltt := now,
     lease_state := LEASE_STATE_ACTIVE, next_binding_state := LEASE_STATE_FREE,
     rewind_binding_state := LEASE_STATE_FREE, binding_state := ''active'',
     is_abandoned := False, is_bootp := False\<rparr>"

definition lease_db_add_lease ::
  "time_t \<Rightarrow> lease_database_t \<Rightarrow> in_addr \<Rightarrow> mac \<Rightarrow> u32 \<Rightarrow> nat option \<times> lease_database_t" where
  "lease_db_add_lease now db ip m lease_time =
     (if length (leases db) \<ge> MAX_LEASES then (None, db)
      else let (lid, db1) = lease_db_generate_id db in
        (Some (length (leases db)), db1\<lparr>leases := leases db @ [new_lease now lid ip m lease_time]\<rparr>))"

definition released_lease :: "time_t \<Rightarrow> dhcp_lease_t \<Rightarrow> dhcp_lease_t" where
  "released_lease now lease = lease\<lparr>lease_state := LEASE_STATE_RELEASED, end_time := now, tstp := now,
     cltt := now, binding_state := ''released''\<rparr>"

definition lease_db_release_lease :: "time_t \<Rightarrow> lease_database_t \<Rightarrow> in_addr \<Rightarrow> int \<times> lease_database_t" where
  "lease_db_release_lease now db ip = (case lease_db_find_by_ip db ip of
     None \<Rightarrow> (-1, db)
   | Some i \<Rightarrow> (0, db\<lparr>leases := (leases db)[i := released_lease now (leases db ! i)]\<rparr>))"

definition renewed_lease :: "time_t \<Rightarrow> u32 \<Rightarrow> dhcp_lease_t \<Rightarrow> dhcp_lease_t" where
  "renewed_lease now lease_time lease =
     (let l1 = lease\<lparr>start_time := now, end_time := now + uint lease_time,
                 lease_state := LEASE_STATE_ACTIVE, cltt := now\<rparr>;
          l2 = (if lease_state l1 \<noteq> LEASE_STATE_ACTIVE then l1\<lparr>tstp := now\<rparr> else l1)
      in l2\<lparr>binding_state := ''active''\<rparr>)"

definition lease_db_renew_lease ::
  "time_t \<Rightarrow> lease_database_t \<Rightarrow> in_addr \<Rightarrow> u32 \<Rightarrow> int \<times> lease_database_t" where
  "lease_db_renew_lease now db ip lease_time = (case lease_db_find_by_ip db ip of
     None \<Rightarrow> (-1, db)
   | Some i \<Rightarrow> (0, db\<lparr>leases := (leases db)[i := renewed_lease now lease_time (leases db ! i)]\<rparr>))"

fun expire_loop :: "time_t \<Rightarrow> dhcp_lease_t list \<Rightarrow> int \<times> dhcp_lease_t list" where
  "expire_loop now [] = (0, [])"
| "expire_loop now (lease # rest) = (let (n, rest') = expire_loop now rest in
     if lease_state lease = LEASE_STATE_ACTIVE \<and> end_time lease < now
     then (n + 1, lease\<lparr>lease_state := LEASE_STATE_EXPIRED, tstp := now,
                        binding_state := ''expired''\<rparr> # rest')
     else (n, lease # rest'))"

definition lease_db_expire_old_leases :: "time_t \<Rightarrow> lease_database_t \<Rightarrow> int \<times> lease_database_t" where
  "lease_db_expire_old_leases now db =
     (let (n, ls) = expire_loop now (leases db) in (n, db\<lparr>leases := ls\<rparr>))"

text \<open>The \<open>memmove\<close> of \<open>lease_db_cleanup_expired\<close> closes the gap at row \<open>i\<close>.\<close>

function cleanup_loop :: "nat \<Rightarrow> int \<Rightarrow> dhcp_lease_t list \<Rightarrow> int \<times> dhcp_lease_t list" where
  "cleanup_loop i removed ls =
     (if i < length ls then
        if lease_state (ls ! i) = LEASE_STATE_EXPIRED \<or> lease_state (ls ! i) = LEASE_STATE_RELEASED
        then cleanup_loop i (removed + 1) (List.take i ls @ drop (i + 1) ls)
        else cleanup_loop (i + 1) removed ls
      else (removed, ls))"
  by pat_completeness auto
termination
  by (relation "measure (\<lambda>(i, _, ls). length ls - i)") auto

definition lease_db_cleanup_expired :: "lease_database_t \<Rightarrow> int \<times> lease_database_t" where
  "lease_db_cleanup_expired db =
     (let (n, ls) = cleanup_loop 0 0 (leases db) in (n, db\<lparr>leases := ls\<rparr>))"

text \<open>Setters of a single lease; None is a NULL pointer.\<close>

definition lease_set_client_id :: "dhcp_lease_t \<Rightarrow> u8 list option \<Rightarrow> u32 \<Rightarrow> int \<times> dhcp_lease_t" where
  "lease_set_client_id lease cid len = (case cid of
     None \<Rightarrow> (-1, lease)
   | Some bytes \<Rightarrow> if unat len > MAX_CLIENT_ID_LEN then (-1, lease)
       else (0, lease\<lparr>client_id := List.take (unat len) bytes @ drop (unat len) (client_id lease),
                      client_id_len := len\<rparr>))"

definition lease_set_vendor_class :: "dhcp_lease_t \<Rightarrow> string option \<Rightarrow> int \<times> dhcp_lease_t" where
  "lease_set_vendor_class lease vendor_class = (case vendor_class of
     None \<Rightarrow> (-1, lease)
   | Some v \<Rightarrow> (0, lease\<lparr>vendor_class_identifier := List.take (MAX_VENDOR_CLASS_LEN - 1) v\<rparr>))"

definition lease_update_timestamps :: "dhcp_lease_t \<Rightarrow> time_t \<Rightarrow> dhcp_lease_t" where
  "lease_update_timestamps lease now = lease\<lparr>cltt := now\<rparr>"

definition lease_set_state_transition ::
  "time_t \<Rightarrow> dhcp_lease_t \<Rightarrow> lease_state_t \<Rightarrow> lease_state_t \<Rightarrow> lease_state_t \<Rightarrow> dhcp_lease_t" where
  "lease_set_state_transition now lease current nxt rewind =
     lease\<lparr>lease_state := current, next_binding_state := nxt, rewind_binding_state := rewind,
       tstp := now, binding_state := List.take 31 (lease_state_to_string current)\<rparr>"

subsection \<open>Operations under the database mutex\<close>

definition lease_db_lock :: "lease_database_t \<Rightarrow> lease_database_t outcome" where
  "lease_db_lock db =
     (if db_mutex_initialized db
      then if db_mutex db then Blocks else Returns (db\<lparr>db_mutex := True\<rparr>)
      else Returns db)"

definition lease_db_unlock :: "lease_database_t \<Rightarrow> lease_database_t" where
  "lease_db_unlock db = (if db_mutex_initialized db then db\<lparr>db_mutex := False\<rparr> else db)"

text \<open>
  The results carry what is copied to \<open>*out_lease\<close>; \<open>out\<close> says whether the caller passed a buffer.
\<close>

definition lease_db_add_lease_safe ::
  "time_t \<Rightarrow> lease_database_t \<Rightarrow> in_addr \<Rightarrow> mac \<Rightarrow> u32 \<Rightarrow> bool
     \<Rightarrow> (u64 \<times> dhcp_lease_t option \<times> lease_database_t) outcome" where
  "lease_db_add_lease_safe now db ip m lease_time out =
     and_then (lease_db_lock db) (\<lambda>db1.
       let (r, db2) = lease_db_add_lease now db1 ip m lease_time in
       case r of
         None \<Rightarrow> Returns (0, None, lease_db_unlock db2)
       | Some i \<Rightarrow> Returns (lease_id (leases db2 ! i),
                     if out then Some (leases db2 ! i) else None, lease_db_unlock db2))"

definition lease_db_find_by_ip_safe ::
  "lease_database_t \<Rightarrow> in_addr \<Rightarrow> bool \<Rightarrow> (int \<times> dhcp_lease_t option \<times> lease_database_t) outcome" where
  "lease_db_find_by_ip_safe db ip out =
     (if \<not> out then Returns (-1, None, db)
      else and_then (lease_db_lock db) (\<lambda>db1.
        case find_idx (\<lambda>l. ip_address l = ip) (leases db1) of
          None \<Rightarrow> Returns (-1, None, lease_db_unlock db1)
        | Some i \<Rightarrow> Returns (0, Some (leases db1 ! i), lease_db_unlock db1)))"

definition lease_db_find_by_mac_safe ::
  "lease_database_t \<Rightarrow> mac \<Rightarrow> bool \<Rightarrow> (int \<times> dhcp_lease_t option \<times> lease_database_t) outcome" where
  "lease_db_find_by_mac_safe db m out =
     (if \<not> out then Returns (-1, None, db)
      else and_then (lease_db_lock db) (\<lambda>db1.
        case lease_db_find_by_mac db1 m of
          Some i \<Rightarrow> Returns (0, Some (leases db1 ! i), lease_db_unlock db1)
        | None \<Rightarrow> Returns (-1, None, lease_db_unlock db1)))"

definition lease_db_find_by_id_safe ::
  "lease_database_t \<Rightarrow> u64 \<Rightarrow> bool \<Rightarrow> (int \<times> dhcp_lease_t option \<times> lease_database_t) outcome" where
  "lease_db_find_by_id_safe db lid out =
     (if \<not> out then Returns (-1, None, db)
      else and_then (lease_db_lock db) (\<lambda>db1.
        case lease_db_find_by_id db1 lid of
          Some i \<Rightarrow> Returns (0, Some (leases db1 ! i), lease_db_unlock db1)
        | None \<Rightarrow> Returns (-1, None, lease_db_unlock db1)))"

definition lease_db_release_lease_safe ::
  "time_t \<Rightarrow> lease_database_t \<Rightarrow> in_addr \<Rightarrow> (int \<times> lease_database_t) outcome" where
  "lease_db_release_lease_safe now db ip = and_then (lease_db_lock db) (\<lambda>db1.
     let (r, db2) = lease_db_release_lease now db1 ip in Returns (r, lease_db_unlock db2))"

definition lease_db_renew_lease_safe ::
  "time_t \<Rightarrow> lease_database_t \<Rightarrow> in_addr \<Rightarrow> u32 \<Rightarrow> (int \<times> lease_database_t) outcome" where
  "lease_db_renew_lease_safe now db ip lease_time = and_then (lease_db_lock db) (\<lambda>db1.
     let (r, db2) = lease_db_renew_lease now db1 ip lease_time in Returns (r, lease_db_unlock db2))"

definition lease_db_expire_old_leases_safe ::
  "time_t \<Rightarrow> lease_database_t \<Rightarrow> (int \<times> lease_database_t) outcome" where
  "lease_db_expire_old_leases_safe now db = and_then (lease_db_lock db) (\<lambda>db1.
     let (r, db2) = lease_db_expire_old_leases now db1 in Returns (r, lease_db_unlock db2))"

definition lease_db_cleanup_expired_safe :: "lease_database_t \<Rightarrow> (int \<times> lease_database_t) outcome" where
  "lease_db_cleanup_expired_safe db = and_then (lease_db_lock db) (\<lambda>db1.
     let (r, db2) = lease_db_cleanup_expired db1 in Returns (r, lease_db_unlock db2))"

subsection \<open>Specification: the database as a map from addresses to leases\<close>

definition lease_map :: "lease_database_t \<Rightarrow> in_addr \<Rightarrow> dhcp_lease_t option" where
  "lease_map db ip = map_option (\<lambda>i. leases db ! i) (lease_db_find_by_ip db ip)"

definition expired_lease :: "time_t \<Rightarrow> dhcp_lease_t \<Rightarrow> dhcp_lease_t" where
  "expired_lease now l = (if lease_is_expired now l
     then l\<lparr>lease_state := LEASE_STATE_EXPIRED, tstp := now, binding_state := ''expired''\<rparr> else l)"

definition is_dead :: "dhcp_lease_t \<Rightarrow> bool" where
  "is_dead l \<longleftrightarrow> lease_state l = LEASE_STATE_EXPIRED \<or> lease_state l = LEASE_STATE_RELEASED"

text \<open>
  Well-formedness: the table fits, the rows have different addresses, the ids are different, not 0
  and below the counter, and hardware addresses have six bytes.
\<close>

definition lease_wf :: "u64 \<Rightarrow> dhcp_lease_t \<Rightarrow> bool" where
  "lease_wf next l \<longleftrightarrow> 0 < lease_id l \<and> lease_id l < next \<and> length (mac_address l) = 6"

definition lease_db_wf :: "lease_database_t \<Rightarrow> bool" where
  "lease_db_wf db \<longleftrightarrow> length (leases db) \<le> MAX_LEASES
     \<and> distinct (map ip_address (leases db)) \<and> distinct (map lease_id (leases db))
     \<and> (\<forall>l \<in> set (leases db). lease_wf (next_lease_id db) l)"

datatype db_cmd = Add in_addr mac u32 | Release in_addr | Renew in_addr u32 | Expire | Cleanup

fun db_exec :: "time_t \<Rightarrow> db_cmd \<Rightarrow> lease_database_t \<Rightarrow> lease_database_t" where
  "db_exec now (Add ip m t) db = snd (lease_db_add_lease now db ip m t)"
| "db_exec now (Release ip) db = snd (lease_db_release_lease now db ip)"
| "db_exec now (Renew ip t) db = snd (lease_db_renew_lease now db ip t)"
| "db_exec now Expire db = snd (lease_db_expire_old_leases now db)"
| "db_exec now Cleanup db = snd (lease_db_cleanup_expired db)"

text \<open>The callers add a lease only for an address without one; the id counter has not run out.\<close>

fun db_cmd_ok :: "db_cmd \<Rightarrow> lease_database_t \<Rightarrow> bool" where
  "db_cmd_ok (Add ip m t) db \<longleftrightarrow>
     ip \<notin> ip_address ` set (leases db) \<and> length m = 6 \<and> 0 < next_lease_id db \<and> next_lease_id db + 1 \<noteq> 0"
| "db_cmd_ok _ db \<longleftrightarrow> True"

type_synonym lease_spec = "(in_addr \<Rightarrow> dhcp_lease_t option) \<times> u64"

definition db_abs :: "lease_database_t \<Rightarrow> lease_spec" where
  "db_abs db = (lease_map db, next_lease_id db)"

fun spec_exec :: "time_t \<Rightarrow> db_cmd \<Rightarrow> lease_spec \<Rightarrow> lease_spec" where
  "spec_exec now (Add ip m t) (f, n) =
     (if card (dom f) < MAX_LEASES then (f(ip \<mapsto> new_lease now n ip m t), n + 1) else (f, n))"
| "spec_exec now (Release ip) (f, n) = (f(ip := map_option (released_lease now) (f ip)), n)"
| "spec_exec now (Renew ip t) (f, n) = (f(ip := map_option (renewed_lease now t) (f ip)), n)"
| "spec_exec now Expire (f, n) = (\<lambda>ip. map_option (expired_lease now) (f ip), n)"
| "spec_exec now Cleanup (f, n) = (\<lambda>ip. case f ip of None \<Rightarrow> None
     | Some l \<Rightarrow> if is_dead l then None else Some l, n)"

fun db_run :: "(time_t \<times> db_cmd) list \<Rightarrow> lease_database_t \<Rightarrow> lease_database_t" where
  "db_run [] db = db"
| "db_run ((now, c) # cs) db = db_run cs (db_exec now c db)"

fun db_run_ok :: "(time_t \<times> db_cmd) list \<Rightarrow> lease_database_t \<Rightarrow> bool" where
  "db_run_ok [] db \<longleftrightarrow> True"
| "db_run_ok ((now, c) # cs) db \<longleftrightarrow> db_cmd_ok c db \<and> db_run_ok cs (db_exec now c db)"

fun spec_run :: "(time_t \<times> db_cmd) list \<Rightarrow> lease_spec \<Rightarrow> lease_spec" where
  "spec_run [] f = f"
| "spec_run ((now, c) # cs) f = spec_run cs (spec_exec now c f)"

section \<open>Lemmas\<close>

subsection \<open>Lookups\<close>

interpretation by_ip: keyed_table leases ip_address "\<lambda>_. True" lease_db_find_by_ip
  by unfold_locales (auto simp: lease_db_find_by_ip_def find_idx_None dest: find_idx_SomeD)

interpretation by_mac: keyed_table leases mac_address "\<lambda>_. True" lease_db_find_by_mac
  by unfold_locales (auto simp: lease_db_find_by_mac_def find_idx_None dest: find_idx_SomeD)

interpretation by_id: keyed_table leases lease_id "\<lambda>lid. lid \<noteq> 0" lease_db_find_by_id
  by unfold_locales (auto simp: lease_db_find_by_id_def find_idx_None dest: find_idx_SomeD split: if_splits)

lemma lease_map_rows: "lease_map db = map_of (key_rows ip_address (leases db))"
  by (auto simp: lease_map_def lease_db_find_by_ip_def key_rows_find)

subsection \<open>The loops\<close>

lemma expire_loop_eq:
  "expire_loop now ls = (int (count_if (lease_is_expired now) ls), map (expired_lease now) ls)"
  by (induction ls) (auto simp: expired_lease_def lease_is_expired_def)

declare cleanup_loop.simps [simp del]

lemma cleanup_loop_eq:
  "i \<le> length ls \<Longrightarrow> cleanup_loop i removed ls =
     (removed + int (count_if is_dead (drop i ls)),
      List.take i ls @ filter (\<lambda>l. \<not> is_dead l) (drop i ls))"
proof (induction i removed ls rule: cleanup_loop.induct)
  case (1 i removed ls)
  show ?case
  proof (cases "i < length ls")
    case True
    then have d: "drop i ls = ls ! i # drop (Suc i) ls" by (simp add: Cons_nth_drop_Suc)
    show ?thesis
      using 1 True d
      by (subst cleanup_loop.simps) (auto simp: is_dead_def [abs_def] take_Suc_conv_app_nth min_def)
  next
    case False
    with 1(3) show ?thesis by (subst cleanup_loop.simps) auto
  qed
qed

lemma lease_db_expire_eq:
  "lease_db_expire_old_leases now db = (int (count_if (lease_is_expired now) (leases db)),
     db\<lparr>leases := map (expired_lease now) (leases db)\<rparr>)"
  by (simp add: lease_db_expire_old_leases_def expire_loop_eq)

lemma lease_db_cleanup_eq:
  "lease_db_cleanup_expired db = (int (count_if is_dead (leases db)),
     db\<lparr>leases := filter (\<lambda>l. \<not> is_dead l) (leases db)\<rparr>)"
  by (simp add: lease_db_cleanup_expired_def cleanup_loop_eq)

subsection \<open>Single rows\<close>

lemma row_fields [lease_simps]:
  "ip_address (released_lease now l) = ip_address l" "lease_id (released_lease now l) = lease_id l"
  "mac_address (released_lease now l) = mac_address l"
  "ip_address (renewed_lease now t l) = ip_address l" "lease_id (renewed_lease now t l) = lease_id l"
  "mac_address (renewed_lease now t l) = mac_address l" "tstp (renewed_lease now t l) = tstp l"
  "lease_state (renewed_lease now t l) = LEASE_STATE_ACTIVE"
  "ip_address (expired_lease now l) = ip_address l" "lease_id (expired_lease now l) = lease_id l"
  "mac_address (expired_lease now l) = mac_address l"
  "ip_address (new_lease now k ip m t) = ip" "lease_id (new_lease now k ip m t) = k"
  "mac_address (new_lease now k ip m t) = m" "lease_state (new_lease now k ip m t) = LEASE_STATE_ACTIVE"
  by (simp_all add: released_lease_def renewed_lease_def expired_lease_def new_lease_def)

lemma row_wf [lease_simps]:
  "lease_wf n l \<Longrightarrow> lease_wf n (released_lease now l)"
  "lease_wf n l \<Longrightarrow> lease_wf n (renewed_lease now t l)"
  "lease_wf n l \<Longrightarrow> lease_wf n (expired_lease now l)"
  by (auto simp: lease_wf_def released_lease_def renewed_lease_def expired_lease_def)

subsection \<open>Well-formedness and refinement, per operation\<close>

lemma distinct_update_key:
  "distinct (map f xs) \<Longrightarrow> i < length xs \<Longrightarrow> f v = f (xs ! i) \<Longrightarrow> distinct (map f (xs[i := v]))"
  by (simp add: map_update_same)

lemma lease_db_wf_update:
  assumes "lease_db_wf db" "i < length (leases db)" "ip_address v = ip_address (leases db ! i)"
    "lease_id v = lease_id (leases db ! i)" "lease_wf (next_lease_id db) v"
  shows "lease_db_wf (db\<lparr>leases := (leases db)[i := v]\<rparr>)"
  using assms
  by (auto simp: lease_db_wf_def distinct_update_key dest!: set_update_subset_insert [THEN subsetD])

lemma lease_db_wf_nth: "lease_db_wf db \<Longrightarrow> i < length (leases db) \<Longrightarrow> lease_wf (next_lease_id db) (leases db ! i)"
  by (simp add: lease_db_wf_def)

lemma wf_next_step:
  "n + 1 \<noteq> 0 \<Longrightarrow> lease_wf n l \<Longrightarrow> lease_wf (n + 1) l" for n :: u64
  using less_inc [of n] by (auto simp: lease_wf_def intro: less_trans)

lemma add_wf:
  assumes "lease_db_wf db" "db_cmd_ok (Add ip m t) db"
  shows "lease_db_wf (snd (lease_db_add_lease now db ip m t))"
proof (cases "length (leases db) \<ge> MAX_LEASES")
  case False
  let ?n = "next_lease_id db"
  have n: "0 < ?n" "?n + 1 \<noteq> 0" "?n < ?n + 1" using assms(2) by (auto intro: less_inc)
  have "lease_wf (?n + 1) l" if "l \<in> set (leases db)" for l
    using that assms(1) n wf_next_step by (auto simp: lease_db_wf_def)
  moreover have "lease_wf (?n + 1) (new_lease now ?n ip m t)"
    using assms(2) n by (simp add: lease_wf_def new_lease_def)
  moreover have "?n \<notin> lease_id ` set (leases db)"
    using assms(1) by (auto simp: lease_db_wf_def lease_wf_def)
  ultimately show ?thesis
    using False assms
    by (auto simp: lease_db_wf_def lease_db_add_lease_def lease_db_generate_id_def lease_simps)
qed (use assms in \<open>simp add: lease_db_add_lease_def\<close>)

lemma db_exec_wf: "lease_db_wf db \<Longrightarrow> db_cmd_ok c db \<Longrightarrow> lease_db_wf (db_exec now c db)"
proof (cases c)
  case (Add ip m t)
  then show "lease_db_wf db \<Longrightarrow> db_cmd_ok c db \<Longrightarrow> ?thesis" using add_wf by simp
next
  case (Release ip)
  then show "lease_db_wf db \<Longrightarrow> db_cmd_ok c db \<Longrightarrow> ?thesis"
    by (auto simp: lease_db_release_lease_def lease_simps lease_db_wf_nth by_ip.find_bound
        intro!: lease_db_wf_update split: option.splits)
next
  case (Renew ip t)
  then show "lease_db_wf db \<Longrightarrow> db_cmd_ok c db \<Longrightarrow> ?thesis"
    by (auto simp: lease_db_renew_lease_def lease_simps lease_db_wf_nth by_ip.find_bound
        intro!: lease_db_wf_update split: option.splits)
next
  case Expire
  then show "lease_db_wf db \<Longrightarrow> db_cmd_ok c db \<Longrightarrow> ?thesis"
    by (auto simp: lease_db_expire_eq lease_db_wf_def comp_def lease_simps)
next
  case Cleanup
  then show "lease_db_wf db \<Longrightarrow> db_cmd_ok c db \<Longrightarrow> ?thesis"
    by (auto simp: lease_db_cleanup_eq lease_db_wf_def distinct_map_filter
        intro: le_trans [OF length_filter_le])
qed

lemma lease_map_update:
  assumes "lease_db_find_by_ip db ip = Some i" "ip_address v = ip"
  shows "lease_map (db\<lparr>leases := (leases db)[i := v]\<rparr>) = (lease_map db)(ip \<mapsto> v)"
  using assms key_rows_update [of ip_address ip "leases db" i v]
  by (simp add: lease_map_rows lease_db_find_by_ip_def)

lemma lease_map_found: "lease_db_find_by_ip db ip = Some i \<Longrightarrow> lease_map db ip = Some (leases db ! i)"
  by (simp add: lease_map_def)

lemma lease_map_absent: "lease_db_find_by_ip db ip = None \<Longrightarrow> lease_map db ip = None"
  by (simp add: lease_map_def)

lemma db_exec_refines:
  assumes "lease_db_wf db" "db_cmd_ok c db"
  shows "db_abs (db_exec now c db) = spec_exec now c (db_abs db)"
proof (cases c)
  case (Add ip m t)
  have "card (dom (lease_map db)) = length (leases db)"
    using assms(1) by (simp add: lease_map_rows card_key_rows lease_db_wf_def)
  then show ?thesis
    using Add assms(2) key_rows_append [of ip ip_address "leases db" "new_lease now (next_lease_id db) ip m t"]
    by (auto simp: db_abs_def lease_db_add_lease_def lease_db_generate_id_def lease_map_rows lease_simps)
next
  case (Release ip)
  show ?thesis
  proof (cases "lease_db_find_by_ip db ip")
    case None
    with Release show ?thesis
      by (auto simp: db_abs_def lease_db_release_lease_def lease_map_absent)
  next
    case (Some i)
    with Release show ?thesis
      by (simp add: db_abs_def lease_db_release_lease_def lease_simps by_ip.find_key [OF Some]
          lease_map_update [OF Some] lease_map_found [OF Some])
  qed
next
  case (Renew ip t)
  show ?thesis
  proof (cases "lease_db_find_by_ip db ip")
    case None
    with Renew show ?thesis
      by (auto simp: db_abs_def lease_db_renew_lease_def lease_map_absent)
  next
    case (Some i)
    with Renew show ?thesis
      by (simp add: db_abs_def lease_db_renew_lease_def lease_simps by_ip.find_key [OF Some]
          lease_map_update [OF Some] lease_map_found [OF Some])
  qed
next
  case Expire
  then show ?thesis
    by (auto simp: db_abs_def lease_db_expire_eq lease_map_rows key_rows_map lease_simps)
next
  case Cleanup
  then show ?thesis
    using assms(1)
    by (auto simp: db_abs_def lease_db_cleanup_eq lease_map_rows lease_db_wf_def key_rows_filter
        split: option.splits)
qed

lemma db_run_refines:
  "lease_db_wf db \<Longrightarrow> db_run_ok cmds db \<Longrightarrow>
   lease_db_wf (db_run cmds db) \<and> db_abs (db_run cmds db) = spec_run cmds (db_abs db)"
proof (induction cmds arbitrary: db)
  case (Cons nc cmds)
  then show ?case
    by (cases nc) (simp add: db_exec_wf db_exec_refines)
qed simp

text \<open>What identifies a row: operations keep it or drop the row; only an addition makes a new one.\<close>

definition row_ids :: "lease_database_t \<Rightarrow> (u64 \<times> in_addr \<times> mac) set" where
  "row_ids db = (\<lambda>l. (lease_id l, ip_address l, mac_address l)) ` set (leases db)"

lemma row_ids_update:
  assumes "i < length (leases db)" "lease_id v = lease_id (leases db ! i)"
    "ip_address v = ip_address (leases db ! i)" "mac_address v = mac_address (leases db ! i)"
  shows "row_ids (db\<lparr>leases := (leases db)[i := v]\<rparr>) = row_ids db"
proof -
  let ?f = "\<lambda>l. (lease_id l, ip_address l, mac_address l)"
  have "map ?f ((leases db)[i := v]) = map ?f (leases db)"
    using assms by (simp add: map_update_same)
  then have "set (map ?f ((leases db)[i := v])) = set (map ?f (leases db))" by simp
  then show ?thesis by (simp add: row_ids_def)
qed

lemma db_exec_row_ids:
  "lease_db_wf db \<Longrightarrow> db_cmd_ok c db \<Longrightarrow> x \<in> row_ids (db_exec now c db) \<Longrightarrow>
   x \<in> row_ids db \<or> next_lease_id db \<le> fst x"
proof (cases c)
  case (Release ip)
  then show "x \<in> row_ids (db_exec now c db) \<Longrightarrow> ?thesis"
    by (auto simp: lease_db_release_lease_def row_ids_update lease_simps by_ip.find_bound split: option.splits)
next
  case (Renew ip t)
  then show "x \<in> row_ids (db_exec now c db) \<Longrightarrow> ?thesis"
    by (auto simp: lease_db_renew_lease_def row_ids_update lease_simps by_ip.find_bound split: option.splits)
qed (auto simp: row_ids_def lease_db_add_lease_def lease_db_generate_id_def lease_db_expire_eq
    lease_db_cleanup_eq lease_simps image_image split: if_splits)

lemma db_exec_next_id:
  assumes "db_cmd_ok c db"
  shows "next_lease_id db \<le> next_lease_id (db_exec now c db)"
proof (cases c)
  case (Add ip m t)
  then have "next_lease_id db < next_lease_id db + 1" using assms by (auto intro: less_inc)
  then show ?thesis
    using Add by (simp add: lease_db_add_lease_def lease_db_generate_id_def order_less_imp_le)
qed (auto simp: lease_db_release_lease_def lease_db_renew_lease_def lease_db_expire_eq
    lease_db_cleanup_eq split: option.splits)

lemma db_run_row_ids:
  "lease_db_wf db \<Longrightarrow> db_run_ok cmds db \<Longrightarrow> x \<in> row_ids (db_run cmds db) \<Longrightarrow>
   x \<in> row_ids db \<or> next_lease_id db \<le> fst x"
proof (induction cmds arbitrary: db)
  case (Cons nc cmds)
  obtain now c where nc: "nc = (now, c)" by (cases nc)
  have ok: "db_cmd_ok c db" using Cons.prems nc by simp
  have "x \<in> row_ids (db_exec now c db) \<or> next_lease_id (db_exec now c db) \<le> fst x"
    using Cons nc by (simp add: db_exec_wf)
  then show ?case
    using db_exec_row_ids [OF Cons.prems(1) ok] db_exec_next_id [OF ok] order_trans by blast
qed simp

subsection \<open>Operations under the mutex\<close>

lemma locked_fields [simp]:
  "lease_db_find_by_ip (db\<lparr>db_mutex := b\<rparr>) ip = lease_db_find_by_ip db ip"
  "lease_db_find_by_mac (db\<lparr>db_mutex := b\<rparr>) m = lease_db_find_by_mac db m"
  "lease_db_find_by_id (db\<lparr>db_mutex := b\<rparr>) lid = lease_db_find_by_id db lid"
  by (simp_all add: lease_db_find_by_ip_def lease_db_find_by_mac_def lease_db_find_by_id_def)

lemma db_mutex_same: "\<not> db_mutex db \<Longrightarrow> db\<lparr>db_mutex := False\<rparr> = db"
  by (cases db) simp

lemma db_mutex_same_leases: "\<not> db_mutex db \<Longrightarrow> db\<lparr>leases := ls, db_mutex := False\<rparr> = db\<lparr>leases := ls\<rparr>"
  by (cases db) simp

lemmas safe_simps = lease_db_lock_def lease_db_unlock_def db_mutex_same db_mutex_same_leases

lemma safe_find:
  assumes "\<not> db_mutex db"
  shows "lease_db_find_by_ip_safe db ip True =
      Returns (if lease_map db ip = None then -1 else 0, lease_map db ip, db)"
    and "lease_db_find_by_mac_safe db m True = (let r = lease_db_find_by_mac db m in
      Returns (if r = None then -1 else 0, map_option ((!) (leases db)) r, db))"
    and "lease_db_find_by_id_safe db lid True = (let r = lease_db_find_by_id db lid in
      Returns (if r = None then -1 else 0, map_option ((!) (leases db)) r, db))"
proof -
  show "lease_db_find_by_ip_safe db ip True =
      Returns (if lease_map db ip = None then -1 else 0, lease_map db ip, db)"
    using assms by (cases "find_idx (\<lambda>l. ip_address l = ip) (leases db)")
      (simp_all add: lease_db_find_by_ip_safe_def lease_map_def safe_simps
        lease_db_find_by_ip_def)
  show "lease_db_find_by_mac_safe db m True = (let r = lease_db_find_by_mac db m in
      Returns (if r = None then -1 else 0, map_option ((!) (leases db)) r, db))"
    using assms by (simp add: lease_db_find_by_mac_safe_def safe_simps split: option.splits)
  show "lease_db_find_by_id_safe db lid True = (let r = lease_db_find_by_id db lid in
      Returns (if r = None then -1 else 0, map_option ((!) (leases db)) r, db))"
    using assms by (simp add: lease_db_find_by_id_safe_def safe_simps split: option.splits)
qed

lemma safe_add:
  assumes "\<not> db_mutex db"
  shows "lease_db_add_lease_safe now db ip m t True =
      (let (r, db') = lease_db_add_lease now db ip m t in
       Returns (case r of None \<Rightarrow> 0 | Some i \<Rightarrow> lease_id (leases db' ! i),
         map_option ((!) (leases db')) r, db'))"
  using assms by (cases db)
    (simp add: lease_db_add_lease_safe_def lease_db_add_lease_def lease_db_generate_id_def safe_simps)

lemma safe_update:
  assumes "\<not> db_mutex db"
  shows "lease_db_release_lease_safe now db ip = Returns (lease_db_release_lease now db ip)"
    and "lease_db_renew_lease_safe now db ip t = Returns (lease_db_renew_lease now db ip t)"
    and "lease_db_expire_old_leases_safe now db = Returns (lease_db_expire_old_leases now db)"
    and "lease_db_cleanup_expired_safe db = Returns (lease_db_cleanup_expired db)"
  using assms
  by (simp_all add: lease_db_release_lease_safe_def lease_db_release_lease_def
      lease_db_renew_lease_safe_def lease_db_renew_lease_def lease_db_expire_old_leases_safe_def
      lease_db_expire_eq lease_db_cleanup_expired_safe_def lease_db_cleanup_eq safe_simps
      split: option.splits)

section \<open>Properties\<close>

text \<open>
  C8: The lease table refines a map from addresses to leases.  For every sequence of additions (for
  addresses without a lease), releases, renewals, expiry passes and clean-ups on a well-formed
  database, the table stays well-formed (it fits in \<open>MAX_LEASES\<close> rows, no address has two leases,
  ids are unique, not 0 and below the counter) and what \<open>lease_db_find_by_ip\<close> sees afterwards is the map
  that the abstract operations give.
\<close>

theorem lease_db_refinement:
  assumes "lease_db_wf db" "db_run_ok cmds db"
  shows "lease_db_wf (db_run cmds db) \<and> db_abs (db_run cmds db) = spec_run cmds (db_abs db)"
  using db_run_refines [OF assms] .

definition db_example :: lease_database_t where
  "db_example = snd (lease_db_init True (Some ''leases'') db_zero)"

lemma db_example_wf: "lease_db_wf db_example"
  by (simp add: db_example_def lease_db_init_def db_zero_def lease_db_wf_def)

definition mac_a :: mac where "mac_a = [2, 0, 0, 0, 0, 1]"
definition mac_b :: mac where "mac_b = [2, 0, 0, 0, 0, 2]"

definition cmds_example :: "(time_t \<times> db_cmd) list" where
  "cmds_example = [(100, Add 5 mac_a 60), (110, Add 6 mac_b 60), (120, Renew 6 600), (300, Expire), (301, Cleanup)]"

lemmas example_simps = db_example_def lease_db_init_def db_zero_def cmds_example_def mac_a_def mac_b_def
  lease_db_add_lease_def lease_db_generate_id_def lease_db_renew_lease_def lease_db_release_lease_def
  lease_db_find_by_ip_def lease_db_expire_eq lease_db_cleanup_eq new_lease_def renewed_lease_def
  released_lease_def expired_lease_def lease_is_expired_def is_dead_def

lemma cmds_example_ok: "db_run_ok cmds_example db_example"
  by (simp add: example_simps)

theorem lease_db_refinement_witness:
  "lease_db_wf (db_run cmds_example db_example)
   \<and> lease_map (db_run cmds_example db_example) 5 = None
   \<and> lease_map (db_run cmds_example db_example) 6 = Some (renewed_lease 120 600 (new_lease 110 2 6 mac_b 60))"
proof -
  have m: "lease_map (db_run cmds_example db_example) = fst (spec_run cmds_example (db_abs db_example))"
    using lease_db_refinement [OF db_example_wf cmds_example_ok]
    by (simp add: db_abs_def [of "db_run _ _"] prod_eq_iff)
  show ?thesis
    using lease_db_refinement [OF db_example_wf cmds_example_ok]
    by (simp add: m) (simp add: example_simps db_abs_def lease_map_rows)
qed

text \<open>
  A lease id names one binding for ever.  Whatever sequence of operations runs on a well-formed
  database, a row whose id was handed out before the run has the address and the hardware address
  that this id had before the run: ids are never reused and no operation moves an id to another
  client or address.
\<close>

lemma lease_id_stable:
  assumes "lease_db_wf db" "db_run_ok cmds db" "l' \<in> set (leases (db_run cmds db))"
    and "lease_id l' < next_lease_id db"
  shows "\<exists>l \<in> set (leases db). lease_id l = lease_id l' \<and> ip_address l = ip_address l'
    \<and> mac_address l = mac_address l'"
proof -
  have "(lease_id l', ip_address l', mac_address l') \<in> row_ids (db_run cmds db)"
    using assms(3) by (auto simp: row_ids_def)
  then have "(lease_id l', ip_address l', mac_address l') \<in> row_ids db"
    using db_run_row_ids [OF assms(1,2)] assms(4) by fastforce
  then show ?thesis by (auto simp: row_ids_def)
qed

definition db_one :: lease_database_t where
  "db_one = db_run [(100, Add 5 mac_a 60)] db_example"

text \<open>
  The in-place clean-up loop, which closes each gap with \<open>memmove\<close> and re-examines the same index,
  removes exactly the expired and released rows, keeps the others in their order, and returns the
  number of removed rows.
\<close>

lemma lease_db_cleanup_correct:
  "lease_db_cleanup_expired db = (int (count_if is_dead (leases db)),
     db\<lparr>leases := filter (\<lambda>l. \<not> is_dead l) (leases db)\<rparr>)"
  by (rule lease_db_cleanup_eq)

text \<open>
  The operations with the suffix \<open>_safe\<close> are the unsafe ones under the mutex: called while the mutex
  is free they do not block, they return what the unsafe operation returns (with a copy of the row
  instead of a pointer) and they leave the mutex free, on the failure branches too.
\<close>

lemma lease_db_safe_operations:
  assumes "\<not> db_mutex db"
  shows "lease_db_add_lease_safe now db ip m t True =
      (let (r, db') = lease_db_add_lease now db ip m t in
       Returns (case r of None \<Rightarrow> 0 | Some i \<Rightarrow> lease_id (leases db' ! i),
         map_option ((!) (leases db')) r, db'))
    \<and> lease_db_find_by_ip_safe db ip True =
      Returns (if lease_map db ip = None then -1 else 0, lease_map db ip, db)
    \<and> lease_db_find_by_mac_safe db m True = (let r = lease_db_find_by_mac db m in
      Returns (if r = None then -1 else 0, map_option ((!) (leases db)) r, db))
    \<and> lease_db_find_by_id_safe db lid True = (let r = lease_db_find_by_id db lid in
      Returns (if r = None then -1 else 0, map_option ((!) (leases db)) r, db))
    \<and> lease_db_release_lease_safe now db ip = Returns (lease_db_release_lease now db ip)
    \<and> lease_db_renew_lease_safe now db ip t = Returns (lease_db_renew_lease now db ip t)
    \<and> lease_db_expire_old_leases_safe now db = Returns (lease_db_expire_old_leases now db)
    \<and> lease_db_cleanup_expired_safe db = Returns (lease_db_cleanup_expired db)"
  using assms by (simp add: safe_add safe_find safe_update)

text \<open>
  \<open>lease_db_renew_lease\<close> never records the change of state: it stores \<open>LEASE_STATE_ACTIVE\<close> before it
  tests whether the state was different, so \<open>tstp\<close>, the time of the last state change, keeps its old
  value when an expired or released lease becomes active again.
\<close>

lemma renew_keeps_tstp:
  assumes "lease_db_find_by_ip db ip = Some i" "lease_state (leases db ! i) \<noteq> LEASE_STATE_ACTIVE"
  shows "fst (lease_db_renew_lease now db ip t) = 0
    \<and> (let l = leases (snd (lease_db_renew_lease now db ip t)) ! i in
       lease_state l = LEASE_STATE_ACTIVE \<and> tstp l = tstp (leases db ! i))"
  using assms by_ip.find_bound [OF assms(1)]
  by (simp add: lease_db_renew_lease_def Let_def lease_simps)

end
