(* ===== verification/Config_V4.thy ===== *)
theory Config_V4
  imports Prelude
begin

text \<open>
  The configuration of the DHCPv4 server (include/src/config_v4.h, src/config_v4.c): the structures
  and the lookups.  An array with its count is a list.  Global options that a subnet
  overrides carry the prefix \<open>g_\<close>.
\<close>

section \<open>Definitions\<close>

datatype ddns_update_style_t = DDNS_NONE | DDNS_INTERIM | DDNS_STANDARD | DDNS_AD_HOC | DDNS_UNKNOWN

record dhcp_global_options_t =
  authoritative :: bool
  ping_check :: bool
  ping_timeout :: u32
  ddns_update_style :: ddns_update_style_t
  g_default_lease_time :: u32
  g_max_lease_time :: u32
  g_dns_servers :: "in_addr list"
  g_ntp_servers :: "in_addr list"
  g_netbios_servers :: "in_addr list"
  g_time_offset :: "32 word"
  g_next_server :: in_addr
  g_filename :: string
  g_tftp_server_name :: string
  g_bootfile_name :: string
  g_renewal_time :: u32
  g_rebinding_time :: u32
  allow_unknown_clients :: bool
  allow_bootp :: bool
  update_conflict_detection :: bool

record dhcp_host_reservation_t =
  host_name :: string
  host_mac :: mac
  fixed_address :: in_addr
  hostname :: string

record dhcp_subnet_t =
  network :: in_addr
  netmask :: in_addr
  range_start :: in_addr
  range_end :: in_addr
  router :: in_addr
  broadcast :: in_addr
  subnet_mask :: in_addr
  domain_name :: string
  dns_servers :: "in_addr list"
  ntp_servers :: "in_addr list"
  netbios_servers :: "in_addr list"
  time_offset :: "32 word"
  default_lease_time :: u32
  max_lease_time :: u32
  next_server :: in_addr
  boot_filename :: string
  tftp_server_name :: string
  bootfile_name :: string
  renewal_time :: u32
  rebinding_time :: u32
  hosts :: "dhcp_host_reservation_t list"

record dhcp_config_t =
  global :: dhcp_global_options_t
  subnets :: "dhcp_subnet_t list"

text \<open>The first subnet whose network and mask match the address.\<close>

definition find_subnet_for_ip :: "dhcp_config_t \<Rightarrow> in_addr \<Rightarrow> nat option" where
  "find_subnet_for_ip config ip =
     find_idx (\<lambda>s. (ntohl ip AND ntohl (netmask s)) = ntohl (network s))
       (subnets config)"

definition find_host_by_mac :: "dhcp_subnet_t \<Rightarrow> mac \<Rightarrow> nat option" where
  "find_host_by_mac subnet m = find_idx (\<lambda>h. host_mac h = m) (hosts subnet)"

end
