(* ===== verification/Counted_Pool.thy ===== *)
theory Counted_Pool
  imports Prelude
begin

text \<open>
  The contract of an address pool that keeps a count of its free and of its allocated entries
  beside the entries: replacing an entry moves both 32 bit counters with the states.  Whoever only
  changes the pool through such moves keeps the counters exact.
\<close>

locale counted_pool =
  fixes rows :: "'p \<Rightarrow> 'e list"
    and free :: "'e \<Rightarrow> bool"
    and used :: "'e \<Rightarrow> bool"
    and free_count :: "'p \<Rightarrow> u32"
    and used_count :: "'p \<Rightarrow> u32"
    and move :: "nat \<Rightarrow> 'e \<Rightarrow> 'p \<Rightarrow> 'p"
  assumes rows_move: "i < length (rows p) \<Longrightarrow> rows (move i e p) = (rows p)[i := e]"
    and free_move: "i < length (rows p) \<Longrightarrow>
      free_count (move i e p) = free_count p - of_bool (free (rows p ! i)) + of_bool (free e)"
    and used_move: "i < length (rows p) \<Longrightarrow>
      used_count (move i e p) = used_count p - of_bool (used (rows p ! i)) + of_bool (used e)"
begin

lemma count_below: "length (rows p) \<le> 1024 \<Longrightarrow> count_if P (rows p) < 2 ^ 32"
  using count_if_le [of P "rows p"] by simp

lemma count_moved:
  assumes "i < length (rows p)"
  shows "count_if P (rows (move i e p)) + of_bool (P (rows p ! i)) = count_if P (rows p) + of_bool (P e)"
  using count_if_update [OF assms, of P e] rows_move [OF assms, of e] by (auto split: if_splits)

lemma length_move: "i < length (rows p) \<Longrightarrow> length (rows (move i e p)) = length (rows p)"
  by (simp add: rows_move)

lemma free_exact:
  assumes "i < length (rows p)" "length (rows p) \<le> 1024"
    and "unat (free_count p) = count_if free (rows p)"
  shows "unat (free_count (move i e p)) = count_if free (rows (move i e p))"
  unfolding free_move [OF assms(1)]
  using unat_count_step [OF assms(3) count_moved [OF assms(1)]] count_below assms(1,2)
  by (simp add: length_move)

lemma used_exact:
  assumes "i < length (rows p)" "length (rows p) \<le> 1024"
    and "unat (used_count p) = count_if used (rows p)"
  shows "unat (used_count (move i e p)) = count_if used (rows (move i e p))"
  unfolding used_move [OF assms(1)]
  using unat_count_step [OF assms(3) count_moved [OF assms(1)]] count_below assms(1,2)
  by (simp add: length_move)

end

text \<open>
  The same contract for one counter that is decremented only while it is positive: as long as the
  counter is exact, the test changes nothing.
\<close>

locale saturating_counter =
  fixes rows :: "'p \<Rightarrow> 'e list"
    and member :: "'e \<Rightarrow> bool"
    and counter :: "'p \<Rightarrow> u32"
    and move :: "nat \<Rightarrow> 'e \<Rightarrow> 'p \<Rightarrow> 'p"
  assumes rows_move: "i < length (rows p) \<Longrightarrow> rows (move i e p) = (rows p)[i := e]"
    and counter_move: "i < length (rows p) \<Longrightarrow> counter (move i e p) =
      (if member (rows p ! i) \<and> counter p \<noteq> 0 then counter p - 1 else counter p) + of_bool (member e)"
begin

lemma exact_move:
  assumes "i < length (rows p)" "length (rows p) < 2 ^ 32" "unat (counter p) = count_if member (rows p)"
  shows "unat (counter (move i e p)) = count_if member (rows (move i e p))"
proof -
  have "counter p \<noteq> 0" if "member (rows p ! i)"
    using count_if_pos [of i "rows p" member] assms(1,3) that by auto
  then have "counter (move i e p) = counter p - of_bool (member (rows p ! i)) + of_bool (member e)"
    using counter_move [OF assms(1)] by auto
  moreover have "count_if member (rows (move i e p)) + of_bool (member (rows p ! i))
      = count_if member (rows p) + of_bool (member e)"
    using count_if_update [OF assms(1), of member e] rows_move [OF assms(1), of e] by (auto split: if_splits)
  moreover have "count_if member (rows (move i e p)) < 2 ^ 32"
    using count_if_le [of member "rows (move i e p)"] assms(1,2) by (simp add: rows_move)
  ultimately show ?thesis using unat_count_step [OF assms(3)] by simp
qed

end

end
