(* ===== verification/Ip_Pool.thy ===== *)
theory Ip_Pool
  imports Lease_Db Config_V4 Counted_Pool
begin

text \<open>
  The address pool of a DHCPv4 subnet (src/ip_pool.c, include/src/ip_pool.h): initialisation from
  the configuration and the lease table, allocation, reservation, release, conflicts and the
  synchronisation with the leases.  \<open>time(NULL)\<close> is the argument \<open>now\<close>; the ICMP probe
  \<open>ip_ping_check\<close>, which talks to the network, is the function argument \<open>ping\<close>.  The mutex of
  the pool is explicit, so a second lock by the same call is visible as \<open>Blocks\<close>.
\<close>

named_theorems pool_simps \<open>effect of the pool operations\<close>

section \<open>Definitions\<close>

datatype ip_state_t = IP_STATE_AVAILABLE | IP_STATE_ALLOCATED | IP_STATE_RESERVED
  | IP_STATE_EXCLUDED | IP_STATE_CONFLICT | IP_STATE_UNKNOWN

record ip_pool_entry_t =
  entry_ip :: in_addr
  entry_state :: ip_state_t
  entry_mac :: mac
  last_allocated :: time_t
  entry_lease_id :: u64

record ip_pool_t =
  subnet :: dhcp_subnet_t
  entries :: "ip_pool_entry_t list"
  allocated_count :: u32
  available_count :: u32
  mutex :: bool

record ip_allocation_result_t =
  success :: bool
  result_ip :: in_addr
  error_message :: string

abbreviation "MAX_POOL_SIZE \<equiv> (1024 :: nat)"

fun ip_state_to_string :: "ip_state_t \<Rightarrow> string" where
  "ip_state_to_string IP_STATE_AVAILABLE = ''available''"
| "ip_state_to_string IP_STATE_ALLOCATED = ''allocated''"
| "ip_state_to_string IP_STATE_RESERVED = ''reserved''"
| "ip_state_to_string IP_STATE_EXCLUDED = ''excluded''"
| "ip_state_to_string IP_STATE_CONFLICT = ''conflict''"
| "ip_state_to_string _ = ''unknown''"

definition ip_state_from_string :: "string \<Rightarrow> ip_state_t" where
  "ip_state_from_string str =
     (if str = ''available'' then IP_STATE_AVAILABLE
      else if str = ''allocated'' then IP_STATE_ALLOCATED
      else if str = ''reserved'' then IP_STATE_RESERVED
      else if str = ''excluded'' then IP_STATE_EXCLUDED
      else if str = ''conflict'' then IP_STATE_CONFLICT
      else IP_STATE_UNKNOWN)"

fun ip_state_from_lease_state :: "lease_state_t \<Rightarrow> ip_state_t" where
  "ip_state_from_lease_state LEASE_STATE_ACTIVE = IP_STATE_ALLOCATED"
| "ip_state_from_lease_state LEASE_STATE_RESERVED = IP_STATE_RESERVED"
| "ip_state_from_lease_state LEASE_STATE_ABANDONED = IP_STATE_CONFLICT"
| "ip_state_from_lease_state LEASE_STATE_FREE = IP_STATE_AVAILABLE"
| "ip_state_from_lease_state LEASE_STATE_EXPIRED = IP_STATE_AVAILABLE"
| "ip_state_from_lease_state LEASE_STATE_RELEASED = IP_STATE_AVAILABLE"
| "ip_state_from_lease_state LEASE_STATE_BACKUP = IP_STATE_ALLOCATED"
| "ip_state_from_lease_state LEASE_STATE_UNKNOWN = IP_STATE_UNKNOWN"

definition ip_is_network_address :: "in_addr \<Rightarrow> in_addr \<Rightarrow> in_addr \<Rightarrow> bool" where
  "ip_is_network_address ip net msk =
     (let ip_val = ntohl ip; net_val = ntohl net; mask_val = ntohl msk
      in (ip_val AND mask_val) = net_val \<and> ip_val = net_val)"

definition ip_is_broadcast_address :: "in_addr \<Rightarrow> in_addr \<Rightarrow> in_addr \<Rightarrow> bool" where
  "ip_is_broadcast_address ip net msk =
     (let ip_val = ntohl ip; net_val = ntohl net; mask_val = ntohl msk;
          broadcast_val = net_val OR NOT mask_val
      in ip_val = broadcast_val)"

definition ip_is_gateway :: "in_addr \<Rightarrow> in_addr \<Rightarrow> bool" where
  "ip_is_gateway ip gateway \<longleftrightarrow> ip = gateway"

definition ip_is_loopback :: "in_addr \<Rightarrow> bool" where
  "ip_is_loopback ip \<longleftrightarrow> 0x7F000000 \<le> ntohl ip \<and> ntohl ip \<le> 0x7FFFFFFF"

definition ip_pool_find_entry :: "ip_pool_t \<Rightarrow> in_addr \<Rightarrow> nat option" where
  "ip_pool_find_entry pool ip = find_idx (\<lambda>e. entry_ip e = ip) (entries pool)"

definition ip_pool_is_in_range :: "ip_pool_t \<Rightarrow> in_addr \<Rightarrow> bool" where
  "ip_pool_is_in_range pool ip \<longleftrightarrow>
     ntohl (range_start (subnet pool)) \<le> ntohl ip \<and> ntohl ip \<le> ntohl (range_end (subnet pool))"

definition ip_pool_is_available :: "ip_pool_t \<Rightarrow> in_addr \<Rightarrow> bool" where
  "ip_pool_is_available pool ip = (case ip_pool_find_entry pool ip of
     None \<Rightarrow> False
   | Some i \<Rightarrow> entry_state (entries pool ! i) = IP_STATE_AVAILABLE)"

definition pool_lock :: "ip_pool_t \<Rightarrow> ip_pool_t outcome" where
  "pool_lock pool = (if mutex pool then Blocks else Returns (pool\<lparr>mutex := True\<rparr>))"

definition pool_unlock :: "ip_pool_t \<Rightarrow> ip_pool_t" where
  "pool_unlock pool = pool\<lparr>mutex := False\<rparr>"

definition set_entry :: "nat \<Rightarrow> ip_pool_entry_t \<Rightarrow> ip_pool_t \<Rightarrow> ip_pool_t" where
  "set_entry i e pool = pool\<lparr>entries := (entries pool)[i := e]\<rparr>"

abbreviation zero_mac :: mac where "zero_mac \<equiv> replicate 6 0"

subsection \<open>Initialisation\<close>

definition init_entry :: "dhcp_subnet_t \<Rightarrow> u32 \<Rightarrow> ip_pool_entry_t" where
  "init_entry sub ip_val =
     (let ip = htonl ip_val in
      \<lparr>entry_ip = ip,
       entry_state =
         (if ip_is_network_address ip (network sub) (netmask sub) then IP_STATE_EXCLUDED
          else if ip_is_broadcast_address ip (network sub) (netmask sub) then IP_STATE_EXCLUDED
          else if ip_is_gateway ip (router sub) then IP_STATE_EXCLUDED
          else IP_STATE_AVAILABLE),
       entry_mac = zero_mac, last_allocated = 0, entry_lease_id = 0\<rparr>)"

function init_range :: "dhcp_subnet_t \<Rightarrow> u32 \<Rightarrow> u32 \<Rightarrow> ip_pool_t \<Rightarrow> ip_pool_t" where
  "init_range sub ip_val end_ip pool =
     (if ip_val \<le> end_ip \<and> length (entries pool) < MAX_POOL_SIZE then
        let e = init_entry sub ip_val in
        init_range sub (ip_val + 1) end_ip
          (pool\<lparr>entries := entries pool @ [e],
             available_count := (if entry_state e = IP_STATE_AVAILABLE
               then available_count pool + 1 else available_count pool)\<rparr>)
      else pool)"
  by pat_completeness auto
termination
  by (relation "measure (\<lambda>(_, _, _, pool). MAX_POOL_SIZE - length (entries pool))") auto

fun init_hosts :: "dhcp_host_reservation_t list \<Rightarrow> ip_pool_t \<Rightarrow> ip_pool_t" where
  "init_hosts [] pool = pool"
| "init_hosts (host # rest) pool = (case ip_pool_find_entry pool (fixed_address host) of
     None \<Rightarrow> init_hosts rest pool
   | Some i \<Rightarrow> init_hosts rest
       (set_entry i ((entries pool ! i)\<lparr>entry_state := IP_STATE_RESERVED, entry_mac := host_mac host\<rparr>)
          (pool\<lparr>available_count := available_count pool - 1\<rparr>)))"

text \<open>The lease after the expiry test that the pool code applies to each lease it looks at.\<close>

definition expire_in_place :: "time_t \<Rightarrow> dhcp_lease_t \<Rightarrow> dhcp_lease_t" where
  "expire_in_place now lease =
     (if lease_state lease = LEASE_STATE_ACTIVE \<and> end_time lease < now
      then lease\<lparr>lease_state := LEASE_STATE_EXPIRED\<rparr> else lease)"

definition init_lease :: "dhcp_lease_t \<Rightarrow> ip_pool_t \<Rightarrow> ip_pool_t" where
  "init_lease lease pool = (case ip_pool_find_entry pool (ip_address lease) of
     None \<Rightarrow> pool
   | Some i \<Rightarrow>
     (let e = entries pool ! i; new_state = ip_state_from_lease_state (lease_state lease) in
      if entry_state e = IP_STATE_RESERVED then pool
      else if new_state = IP_STATE_ALLOCATED then
        set_entry i (e\<lparr>entry_state := IP_STATE_ALLOCATED, entry_mac := mac_address lease,
            last_allocated := start_time lease, entry_lease_id := lease_id lease\<rparr>)
          (if entry_state e = IP_STATE_AVAILABLE
           then pool\<lparr>available_count := available_count pool - 1,
                     allocated_count := allocated_count pool + 1\<rparr> else pool)
      else if new_state = IP_STATE_CONFLICT then
        set_entry i (e\<lparr>entry_state := IP_STATE_CONFLICT, entry_lease_id := lease_id lease\<rparr>)
          (if entry_state e = IP_STATE_AVAILABLE
           then pool\<lparr>available_count := available_count pool - 1\<rparr> else pool)
      else if new_state = IP_STATE_AVAILABLE then
        set_entry i (e\<lparr>entry_state := IP_STATE_AVAILABLE, entry_mac := zero_mac,
            entry_lease_id := lease_id lease\<rparr>)
          (if entry_state e = IP_STATE_ALLOCATED
           then pool\<lparr>allocated_count := allocated_count pool - 1,
                     available_count := available_count pool + 1\<rparr> else pool)
      else pool))"

fun init_leases :: "time_t \<Rightarrow> dhcp_lease_t list \<Rightarrow> ip_pool_t \<Rightarrow> dhcp_lease_t list \<times> ip_pool_t" where
  "init_leases now [] pool = ([], pool)"
| "init_leases now (lease # rest) pool =
     (let lease' = expire_in_place now lease;
          (rest', pool') = init_leases now rest (init_lease lease' pool)
      in (lease' # rest', pool'))"

text \<open>\<open>mutex_ok\<close>: \<open>pthread_mutex_init\<close> succeeds.  A NULL lease database is None.\<close>

definition ip_pool_init :: "bool \<Rightarrow> time_t \<Rightarrow> dhcp_subnet_t \<Rightarrow> lease_database_t option
    \<Rightarrow> (ip_pool_t \<times> lease_database_t option) option" where
  "ip_pool_init mutex_ok now sub lease_db =
     (if \<not> mutex_ok then None
      else
        let pool0 = \<lparr>subnet = sub, entries = [], allocated_count = 0, available_count = 0, mutex = False\<rparr>;
            pool1 = init_range sub (ntohl (range_start sub)) (ntohl (range_end sub)) pool0;
            pool2 = init_hosts (hosts sub) pool1
        in Some (case lease_db of
             None \<Rightarrow> (pool2, None)
           | Some db \<Rightarrow> (let (ls, pool3) = init_leases now (leases db) pool2
                         in (pool3, Some (db\<lparr>leases := ls\<rparr>)))))"

subsection \<open>Changes of one entry\<close>

definition ip_pool_reserve_ip :: "time_t \<Rightarrow> ip_pool_t \<Rightarrow> in_addr \<Rightarrow> mac \<Rightarrow> (int \<times> ip_pool_t) outcome" where
  "ip_pool_reserve_ip now pool0 ip m = and_then (pool_lock pool0) (\<lambda>pool.
     case ip_pool_find_entry pool ip of
       None \<Rightarrow> Returns (-1, pool_unlock pool)
     | Some i \<Rightarrow>
       (let e = entries pool ! i in
        if entry_state e = IP_STATE_ALLOCATED \<and> entry_mac e \<noteq> m then Returns (-1, pool_unlock pool)
        else if entry_state e = IP_STATE_RESERVED \<or> entry_state e = IP_STATE_EXCLUDED
          then Returns (-1, pool_unlock pool)
        else if entry_state e = IP_STATE_ALLOCATED \<and> entry_mac e = m
          then Returns (0, pool_unlock (set_entry i (e\<lparr>last_allocated := now\<rparr>) pool))
        else
          let pool1 =
            (if entry_state e = IP_STATE_AVAILABLE
             then pool\<lparr>available_count := available_count pool - 1,
                       allocated_count := allocated_count pool + 1\<rparr>
             else if entry_state e = IP_STATE_CONFLICT
             then pool\<lparr>allocated_count := allocated_count pool + 1\<rparr>
             else pool)
          in Returns (0, pool_unlock (set_entry i
               (e\<lparr>entry_state := IP_STATE_ALLOCATED, entry_mac := m, last_allocated := now\<rparr>) pool1))))"

definition ip_pool_release_ip :: "ip_pool_t \<Rightarrow> in_addr \<Rightarrow> (int \<times> ip_pool_t) outcome" where
  "ip_pool_release_ip pool0 ip = and_then (pool_lock pool0) (\<lambda>pool.
     case ip_pool_find_entry pool ip of
       None \<Rightarrow> Returns (-1, pool_unlock pool)
     | Some i \<Rightarrow>
       (let e = entries pool ! i in
        if entry_state e = IP_STATE_ALLOCATED then
          Returns (0, pool_unlock (set_entry i
            (e\<lparr>entry_state := IP_STATE_AVAILABLE, entry_mac := zero_mac\<rparr>)
            (pool\<lparr>allocated_count := allocated_count pool - 1,
                  available_count := available_count pool + 1\<rparr>)))
        else Returns (0, pool_unlock pool)))"

definition ip_pool_mark_conflict :: "ip_pool_t \<Rightarrow> in_addr \<Rightarrow> (int \<times> ip_pool_t) outcome" where
  "ip_pool_mark_conflict pool0 ip = and_then (pool_lock pool0) (\<lambda>pool.
     case ip_pool_find_entry pool ip of
       None \<Rightarrow> Returns (-1, pool_unlock pool)
     | Some i \<Rightarrow>
       (let e = entries pool ! i;
            pool1 =
              (if entry_state e = IP_STATE_AVAILABLE
               then pool\<lparr>available_count := available_count pool - 1\<rparr>
               else if entry_state e = IP_STATE_ALLOCATED
               then pool\<lparr>allocated_count := allocated_count pool - 1\<rparr>
               else pool)
        in Returns (0, pool_unlock (set_entry i (e\<lparr>entry_state := IP_STATE_CONFLICT\<rparr>) pool1))))"

subsection \<open>Allocation\<close>

definition alloc_ok :: "in_addr \<Rightarrow> ip_allocation_result_t" where
  "alloc_ok ip = \<lparr>success = True, result_ip = ip, error_message = []\<rparr>"

definition alloc_failed :: ip_allocation_result_t where
  "alloc_failed = \<lparr>success = False, result_ip = 0, error_message = ''No available IPs in pool''\<rparr>"

text \<open>The reservation written out inside \<open>ip_pool_allocate\<close> for the requested address.\<close>

definition take_requested :: "time_t \<Rightarrow> mac \<Rightarrow> in_addr \<Rightarrow> ip_pool_t \<Rightarrow> ip_pool_t" where
  "take_requested now m ip pool = (case ip_pool_find_entry pool ip of
     None \<Rightarrow> pool
   | Some i \<Rightarrow>
     (let e = entries pool ! i;
          pool1 = (if entry_state e = IP_STATE_AVAILABLE
            then pool\<lparr>available_count := available_count pool - 1\<rparr> else pool)
      in set_entry i (e\<lparr>entry_state := IP_STATE_ALLOCATED, entry_mac := m, last_allocated := now\<rparr>)
           (pool1\<lparr>allocated_count := allocated_count pool1 + 1\<rparr>)))"

definition probe_needed :: "dhcp_config_t \<Rightarrow> in_addr \<Rightarrow> bool" where
  "probe_needed config ip \<longleftrightarrow> ping_check (global config) \<and> \<not> ip_is_loopback ip"

text \<open>The loop over the entries, here over their indices.\<close>

fun alloc_first :: "(in_addr \<Rightarrow> u32 \<Rightarrow> bool) \<Rightarrow> time_t \<Rightarrow> mac \<Rightarrow> dhcp_config_t \<Rightarrow> nat list \<Rightarrow> ip_pool_t
    \<Rightarrow> (ip_allocation_result_t \<times> ip_pool_t) outcome" where
  "alloc_first ping now m config [] pool = Returns (alloc_failed, pool_unlock pool)"
| "alloc_first ping now m config (i # is) pool =
     (let e = entries pool ! i in
      if entry_state e = IP_STATE_AVAILABLE then
        if probe_needed config (entry_ip e) \<and> ping (entry_ip e) (ping_timeout (global config) * 1000)
        then and_then (ip_pool_mark_conflict pool (entry_ip e)) (\<lambda>(_, pool').
               alloc_first ping now m config is pool')
        else Returns (alloc_ok (entry_ip e), pool_unlock (set_entry i
               (e\<lparr>entry_state := IP_STATE_ALLOCATED, entry_mac := m, last_allocated := now\<rparr>)
               (pool\<lparr>available_count := available_count pool - 1,
                     allocated_count := allocated_count pool + 1\<rparr>)))
      else alloc_first ping now m config is pool)"

definition ip_pool_allocate :: "(in_addr \<Rightarrow> u32 \<Rightarrow> bool) \<Rightarrow> time_t \<Rightarrow> ip_pool_t \<Rightarrow> mac \<Rightarrow> in_addr
    \<Rightarrow> dhcp_config_t \<Rightarrow> (ip_allocation_result_t \<times> ip_pool_t) outcome" where
  "ip_pool_allocate ping now pool0 m requested_ip config = and_then (pool_lock pool0) (\<lambda>pool.
     case find_idx (\<lambda>h. host_mac h = m) (hosts (subnet pool)) of
       Some h \<Rightarrow> Returns (alloc_ok (fixed_address (hosts (subnet pool) ! h)), pool_unlock pool)
     | None \<Rightarrow>
     (case find_idx (\<lambda>e. entry_state e = IP_STATE_ALLOCATED \<and> entry_mac e = m) (entries pool) of
       Some i \<Rightarrow> Returns (alloc_ok (entry_ip (entries pool ! i)), pool_unlock pool)
     | None \<Rightarrow>
       if requested_ip \<noteq> 0 \<and> ip_pool_is_in_range pool requested_ip
          \<and> ip_pool_is_available pool requested_ip then
         if probe_needed config requested_ip then
           if ping requested_ip (ping_timeout (global config) * 1000) then
             and_then (ip_pool_mark_conflict pool requested_ip) (\<lambda>(_, pool').
               alloc_first ping now m config [0..<length (entries pool')] pool')
           else Returns (alloc_ok requested_ip, pool_unlock (take_requested now m requested_ip pool))
         else Returns (alloc_ok requested_ip, pool_unlock (take_requested now m requested_ip pool))
       else alloc_first ping now m config [0..<length (entries pool)] pool))"

subsection \<open>Synchronisation with the leases\<close>

definition count_out :: "ip_state_t \<Rightarrow> ip_pool_t \<Rightarrow> ip_pool_t" where
  "count_out st pool =
     (if st = IP_STATE_AVAILABLE then pool\<lparr>available_count := available_count pool - 1\<rparr>
      else if st = IP_STATE_ALLOCATED then pool\<lparr>allocated_count := allocated_count pool - 1\<rparr>
      else pool)"

definition count_in :: "ip_state_t \<Rightarrow> ip_pool_t \<Rightarrow> ip_pool_t" where
  "count_in st pool =
     (if st = IP_STATE_AVAILABLE then pool\<lparr>available_count := available_count pool + 1\<rparr>
      else if st = IP_STATE_ALLOCATED then pool\<lparr>allocated_count := allocated_count pool + 1\<rparr>
      else pool)"

definition ip_pool_update_from_lease ::
  "time_t \<Rightarrow> ip_pool_t \<Rightarrow> dhcp_lease_t \<Rightarrow> int \<times> ip_pool_t \<times> dhcp_lease_t" where
  "ip_pool_update_from_lease now pool lease = (case ip_pool_find_entry pool (ip_address lease) of
     None \<Rightarrow> (-1, pool, lease)
   | Some i \<Rightarrow>
     (let e = entries pool ! i in
      if entry_state e = IP_STATE_RESERVED then (0, pool, lease)
      else
        let lease' = expire_in_place now lease;
            old_state = entry_state e;
            new_state = ip_state_from_lease_state (lease_state lease');
            e1 = e\<lparr>entry_state := new_state, entry_lease_id := lease_id lease'\<rparr>;
            e2 = (if new_state = IP_STATE_ALLOCATED
                  then e1\<lparr>entry_mac := mac_address lease', last_allocated := start_time lease'\<rparr>
                  else if new_state = IP_STATE_AVAILABLE then e1\<lparr>entry_mac := zero_mac\<rparr>
                  else e1)
        in (0, set_entry i e2 (count_in new_state (count_out old_state pool)), lease')))"

fun sync_leases :: "time_t \<Rightarrow> dhcp_lease_t list \<Rightarrow> ip_pool_t \<Rightarrow> dhcp_lease_t list \<times> ip_pool_t" where
  "sync_leases now [] pool = ([], pool)"
| "sync_leases now (lease # rest) pool =
     (let (_, pool1, lease') = ip_pool_update_from_lease now pool lease;
          (rest', pool2) = sync_leases now rest pool1
      in (lease' # rest', pool2))"

definition ip_pool_sync_with_leases ::
  "time_t \<Rightarrow> ip_pool_t \<Rightarrow> lease_database_t \<Rightarrow> (int \<times> ip_pool_t \<times> lease_database_t) outcome" where
  "ip_pool_sync_with_leases now pool0 db = and_then (pool_lock pool0) (\<lambda>pool.
     let (ls, pool') = sync_leases now (leases db) pool
     in Returns (0, pool_unlock pool', db\<lparr>leases := ls\<rparr>))"

text \<open>One pass of the synchronisation thread, under the mutex of the pool and that of the database.\<close>

definition sync_entry :: "time_t \<Rightarrow> dhcp_lease_t \<Rightarrow> ip_pool_t \<Rightarrow> nat \<times> dhcp_lease_t \<times> ip_pool_t" where
  "sync_entry now lease pool = (case ip_pool_find_entry pool (ip_address lease) of
     None \<Rightarrow> (0, lease, pool)
   | Some i \<Rightarrow>
     (let e = entries pool ! i in
      if entry_state e = IP_STATE_RESERVED \<or> entry_state e = IP_STATE_EXCLUDED then (0, lease, pool)
      else
        let lease' = expire_in_place now lease;
            expected_state = ip_state_from_lease_state (lease_state lease')
        in if entry_state e \<noteq> expected_state then
             let e1 = e\<lparr>entry_state := expected_state\<rparr>;
                 e2 = (if expected_state = IP_STATE_AVAILABLE then e1\<lparr>entry_mac := zero_mac\<rparr>
                       else if expected_state = IP_STATE_ALLOCATED
                       then e1\<lparr>entry_mac := mac_address lease'\<rparr> else e1)
             in (1, lease', set_entry i e2 (count_in expected_state (count_out (entry_state e) pool)))
           else (0, lease', pool)))"

fun sync_pass :: "time_t \<Rightarrow> dhcp_lease_t list \<Rightarrow> ip_pool_t \<Rightarrow> nat \<times> dhcp_lease_t list \<times> ip_pool_t" where
  "sync_pass now [] pool = (0, [], pool)"
| "sync_pass now (lease # rest) pool =
     (let (n, lease', pool1) = sync_entry now lease pool;
          (k, rest', pool2) = sync_pass now rest pool1
      in (n + k, lease' # rest', pool2))"

record ip_pool_sync_t =
  sync_interval_sec :: u32
  sync_running :: bool
  sync_mutex_initialized :: bool
  sync_count :: u64
  entries_updated :: u64

definition ip_pool_sync_init :: "bool \<Rightarrow> bool \<Rightarrow> u32 \<Rightarrow> ip_pool_sync_t \<Rightarrow> int \<times> ip_pool_sync_t" where
  "ip_pool_sync_init mutex_ok cond_ok interval sync =
     (if interval = 0 then (-1, sync)
      else
        let sync1 = \<lparr>sync_interval_sec = interval, sync_running = False,
              sync_mutex_initialized = False, sync_count = 0, entries_updated = 0\<rparr>
        in if \<not> mutex_ok then (-1, sync1)
           else if \<not> cond_ok then (-1, sync1)
           else (0, sync1\<lparr>sync_mutex_initialized := True\<rparr>))"

text \<open>The result says whether a thread was created.\<close>

definition ip_pool_sync_start :: "bool \<Rightarrow> ip_pool_sync_t \<Rightarrow> int \<times> ip_pool_sync_t" where
  "ip_pool_sync_start create_ok sync =
     (if \<not> sync_mutex_initialized sync then (-1, sync)
      else if sync_running sync then (-1, sync)
      else if \<not> create_ok then (-1, sync\<lparr>sync_running := False\<rparr>)
      else (0, sync\<lparr>sync_running := True\<rparr>))"

definition ip_pool_sync_is_running :: "ip_pool_sync_t \<Rightarrow> bool" where
  "ip_pool_sync_is_running sync \<longleftrightarrow> sync_mutex_initialized sync \<and> sync_running sync"

text \<open>
  One round of the thread after its timed wait: None when the thread leaves its loop.
\<close>

definition ip_pool_sync_thread_func :: "time_t \<Rightarrow> ip_pool_sync_t \<Rightarrow> ip_pool_t \<Rightarrow> lease_database_t
    \<Rightarrow> (ip_pool_sync_t \<times> ip_pool_t \<times> lease_database_t) option outcome" where
  "ip_pool_sync_thread_func now sync pool0 db0 =
     (if \<not> sync_running sync then Returns None
      else and_then (pool_lock pool0) (\<lambda>pool.
        if db_mutex db0 then Blocks
        else let (updated, ls, pool') = sync_pass now (leases db0) pool
             in Returns (Some (sync\<lparr>sync_count := sync_count sync + 1,
                    entries_updated := entries_updated sync + of_nat updated\<rparr>,
                  pool_unlock pool', db0\<lparr>leases := ls\<rparr>))))"

subsection \<open>Allocation with a lease\<close>

definition set_lease_ref :: "in_addr \<Rightarrow> u64 \<Rightarrow> ip_pool_t \<Rightarrow> ip_pool_t" where
  "set_lease_ref ip lid pool = (case ip_pool_find_entry pool ip of
     None \<Rightarrow> pool
   | Some i \<Rightarrow> set_entry i ((entries pool ! i)\<lparr>entry_lease_id := lid\<rparr>) pool)"

definition ip_pool_allocate_and_create_lease :: "(in_addr \<Rightarrow> u32 \<Rightarrow> bool) \<Rightarrow> time_t \<Rightarrow> ip_pool_t
    \<Rightarrow> lease_database_t \<Rightarrow> mac \<Rightarrow> in_addr \<Rightarrow> dhcp_config_t \<Rightarrow> u32
    \<Rightarrow> (nat option \<times> ip_pool_t \<times> lease_database_t) outcome" where
  "ip_pool_allocate_and_create_lease ping now pool db m requested_ip config lease_time =
     and_then (ip_pool_allocate ping now pool m requested_ip config) (\<lambda>(result, pool1).
       if \<not> success result then Returns (None, pool1, db)
       else let ip = result_ip result in
         case lease_db_find_by_ip db ip of
           Some li \<Rightarrow>
             (let (r, db1) = lease_db_renew_lease now db ip lease_time in
              if r = 0 then Returns (Some li, set_lease_ref ip (lease_id (leases db1 ! li)) pool1, db1)
              else and_then (ip_pool_release_ip pool1 ip) (\<lambda>(_, pool2). Returns (None, pool2, db1)))
         | None \<Rightarrow>
             (case lease_db_add_lease now db ip m lease_time of
                (Some li, db1) \<Rightarrow>
                  Returns (Some li, set_lease_ref ip (lease_id (leases db1 ! li)) pool1, db1)
              | (None, db1) \<Rightarrow>
                  and_then (ip_pool_release_ip pool1 ip) (\<lambda>(_, pool2). Returns (None, pool2, db1))))"

subsection \<open>Specification\<close>

text \<open>
  The one kind of step a pool makes: an entry is replaced and the counters follow its states.  The
  well-formed pool has different addresses and counters that agree with the entries.
\<close>

definition pool_move :: "nat \<Rightarrow> ip_pool_entry_t \<Rightarrow> ip_pool_t \<Rightarrow> ip_pool_t" where
  "pool_move i e pool =
     set_entry i e (count_in (entry_state e) (count_out (entry_state (entries pool ! i)) pool))"

definition taken :: "time_t \<Rightarrow> mac \<Rightarrow> ip_pool_entry_t \<Rightarrow> ip_pool_entry_t" where
  "taken now m e = e\<lparr>entry_state := IP_STATE_ALLOCATED, entry_mac := m, last_allocated := now\<rparr>"

text \<open>The entry that an allocation tries: the requested one if it is free, else the first free one.\<close>

definition alloc_candidate :: "ip_pool_t \<Rightarrow> in_addr \<Rightarrow> nat option" where
  "alloc_candidate pool ip =
     (if ip \<noteq> 0 \<and> ip_pool_is_in_range pool ip \<and> ip_pool_is_available pool ip
      then ip_pool_find_entry pool ip
      else find_idx (\<lambda>e. entry_state e = IP_STATE_AVAILABLE) (entries pool))"

definition answers :: "(in_addr \<Rightarrow> u32 \<Rightarrow> bool) \<Rightarrow> dhcp_config_t \<Rightarrow> in_addr \<Rightarrow> bool" where
  "answers ping config ip \<longleftrightarrow>
     probe_needed config ip \<and> ping ip (ping_timeout (global config) * 1000)"

definition host_of :: "ip_pool_t \<Rightarrow> mac \<Rightarrow> nat option" where
  "host_of pool m = find_idx (\<lambda>h. host_mac h = m) (hosts (subnet pool))"

definition own_entry :: "ip_pool_t \<Rightarrow> mac \<Rightarrow> nat option" where
  "own_entry pool m =
     find_idx (\<lambda>e. entry_state e = IP_STATE_ALLOCATED \<and> entry_mac e = m) (entries pool)"

definition in_state :: "ip_state_t \<Rightarrow> ip_pool_entry_t \<Rightarrow> bool" where
  "in_state st e \<longleftrightarrow> entry_state e = st"

definition pool_counts :: "ip_pool_t \<Rightarrow> bool" where
  "pool_counts pool \<longleftrightarrow>
     unat (available_count pool) = count_if (in_state IP_STATE_AVAILABLE) (entries pool)
   \<and> unat (allocated_count pool) = count_if (in_state IP_STATE_ALLOCATED) (entries pool)"

definition pool_wf :: "ip_pool_t \<Rightarrow> bool" where
  "pool_wf pool \<longleftrightarrow> length (entries pool) \<le> MAX_POOL_SIZE \<and> distinct (map entry_ip (entries pool))
     \<and> pool_counts pool"

text \<open>Everything that changes a pool after its initialisation, whichever thread calls it.\<close>

inductive pool_step :: "ip_pool_t \<Rightarrow> ip_pool_t \<Rightarrow> bool" where
  reserve: "\<lbrakk>ip_pool_reserve_ip now p ip m = Returns (r, p');
    \<forall>i. ip_pool_find_entry p ip = Some i \<longrightarrow> entry_state (entries p ! i) \<noteq> IP_STATE_UNKNOWN\<rbrakk>
    \<Longrightarrow> pool_step p p'"
| release: "ip_pool_release_ip p ip = Returns (r, p') \<Longrightarrow> pool_step p p'"
| conflict: "ip_pool_mark_conflict p ip = Returns (r, p') \<Longrightarrow> pool_step p p'"
| allocate: "ip_pool_allocate ping now p m req config = Returns (res, p') \<Longrightarrow> pool_step p p'"
| allocate_lease: "ip_pool_allocate_and_create_lease ping now p db m req config t = Returns (li, p', db')
    \<Longrightarrow> pool_step p p'"
| update: "ip_pool_update_from_lease now p l = (r, p', l') \<Longrightarrow> pool_step p p'"
| sync: "ip_pool_sync_with_leases now p db = Returns (r, p', db') \<Longrightarrow> pool_step p p'"
| sync_thread: "ip_pool_sync_thread_func now sync p db = Returns (Some (sync', p', db'))
    \<Longrightarrow> pool_step p p'"

section \<open>Lemmas\<close>

subsection \<open>Moves\<close>

interpretation by_entry: keyed_table entries entry_ip "\<lambda>_. True" ip_pool_find_entry
  by unfold_locales (auto simp: ip_pool_find_entry_def find_idx_None dest: find_idx_SomeD)

lemma count_fields [simp]:
  "entries (count_in st p) = entries p" "entries (count_out st p) = entries p"
  "subnet (count_in st p) = subnet p" "subnet (count_out st p) = subnet p"
  "mutex (count_in st p) = mutex p" "mutex (count_out st p) = mutex p"
  by (simp_all add: count_in_def count_out_def)

lemma set_entry_fields [simp]:
  "entries (set_entry i e p) = (entries p)[i := e]" "subnet (set_entry i e p) = subnet p"
  "mutex (set_entry i e p) = mutex p" "available_count (set_entry i e p) = available_count p"
  "allocated_count (set_entry i e p) = allocated_count p"
  by (simp_all add: set_entry_def)

interpretation ipc: counted_pool entries "in_state IP_STATE_AVAILABLE" "in_state IP_STATE_ALLOCATED"
  available_count allocated_count pool_move
  by unfold_locales (simp_all add: pool_move_def count_in_def count_out_def in_state_def)

lemma pool_move_fields [simp]:
  "entries (pool_move i e p) = (entries p)[i := e]" "subnet (pool_move i e p) = subnet p"
  "mutex (pool_move i e p) = mutex p"
  by (simp_all add: pool_move_def)

lemma pool_wf_mutex [simp]: "pool_wf (p\<lparr>mutex := b\<rparr>) = pool_wf p"
  by (simp add: pool_wf_def pool_counts_def)

lemma pool_move_wf:
  assumes "pool_wf p" "i < length (entries p)" "entry_ip e = entry_ip (entries p ! i)"
  shows "pool_wf (pool_move i e p)"
  using assms ipc.free_exact [OF assms(2), of e] ipc.used_exact [OF assms(2), of e]
  by (simp add: pool_wf_def pool_counts_def map_update_same)

lemma pool_mutex_same: "\<not> mutex p \<Longrightarrow> p\<lparr>mutex := False\<rparr> = p"
  by (cases p) simp

lemma pool_move_mutex: "pool_move i e (p\<lparr>mutex := b\<rparr>) = (pool_move i e p)\<lparr>mutex := b\<rparr>"
  by (simp add: pool_move_def set_entry_def count_in_def count_out_def)

lemma find_entry_mutex [simp]: "ip_pool_find_entry (p\<lparr>mutex := b\<rparr>) ip = ip_pool_find_entry p ip"
  by (simp add: ip_pool_find_entry_def)

lemma unlock_locked: "\<not> mutex p \<Longrightarrow> pool_unlock (p\<lparr>mutex := True\<rparr>) = p"
  by (cases p) (simp add: pool_unlock_def)

lemma unlock_move: "\<not> mutex p \<Longrightarrow> pool_unlock (pool_move i e (p\<lparr>mutex := True\<rparr>)) = pool_move i e p"
  by (simp add: pool_move_mutex pool_unlock_def pool_mutex_same)

lemma lock_free: "\<not> mutex p \<Longrightarrow> pool_lock p = Returns (p\<lparr>mutex := True\<rparr>)"
  by (simp add: pool_lock_def)

lemmas pool_run_simps = lock_free unlock_locked unlock_move

text \<open>The moves the operations make, with the counter updates as the code writes them.\<close>

lemma move_take:
  "entry_state (entries p ! i) = IP_STATE_AVAILABLE \<Longrightarrow> entry_state e = IP_STATE_ALLOCATED \<Longrightarrow>
   set_entry i e (p\<lparr>available_count := available_count p - 1,
     allocated_count := allocated_count p + 1\<rparr>) = pool_move i e p"
  by (simp add: pool_move_def count_in_def count_out_def set_entry_def)

lemma move_give_back:
  "entry_state (entries p ! i) = IP_STATE_ALLOCATED \<Longrightarrow> entry_state e = IP_STATE_AVAILABLE \<Longrightarrow>
   set_entry i e (p\<lparr>allocated_count := allocated_count p - 1,
     available_count := available_count p + 1\<rparr>) = pool_move i e p"
  by (simp add: pool_move_def count_in_def count_out_def set_entry_def)

lemma move_same:
  "entry_state (entries p ! i) = entry_state e \<Longrightarrow> set_entry i e p = pool_move i e p"
  by (cases p) (simp add: pool_move_def count_in_def count_out_def set_entry_def)

lemma move_uncounted:
  "entry_state e \<noteq> IP_STATE_AVAILABLE \<Longrightarrow> entry_state e \<noteq> IP_STATE_ALLOCATED \<Longrightarrow>
   set_entry i e (count_out (entry_state (entries p ! i)) p) = pool_move i e p"
  by (simp add: pool_move_def count_in_def)

subsection \<open>The operations as moves\<close>

lemma taken_fields [simp]:
  "entry_ip (taken now m e) = entry_ip e" "entry_state (taken now m e) = IP_STATE_ALLOCATED"
  "entry_mac (taken now m e) = m"
  by (simp_all add: taken_def)

lemma touch_taken:
  "entry_state e = IP_STATE_ALLOCATED \<Longrightarrow> entry_mac e = m \<Longrightarrow> e\<lparr>last_allocated := now\<rparr> = taken now m e"
  by (cases e) (simp add: taken_def)

lemma reserve_eq:
  assumes "\<not> mutex p" "\<And>i. ip_pool_find_entry p ip = Some i \<Longrightarrow> entry_state (entries p ! i) \<noteq> IP_STATE_UNKNOWN"
  shows "ip_pool_reserve_ip now p ip m = (case ip_pool_find_entry p ip of
      None \<Rightarrow> Returns (-1, p)
    | Some i \<Rightarrow> let e = entries p ! i in
        if entry_state e = IP_STATE_AVAILABLE \<or> entry_state e = IP_STATE_CONFLICT
          \<or> entry_state e = IP_STATE_ALLOCATED \<and> entry_mac e = m
        then Returns (0, pool_move i (taken now m e) p) else Returns (-1, p))"
proof (cases "ip_pool_find_entry p ip")
  case None
  with assms show ?thesis by (simp add: ip_pool_reserve_ip_def pool_run_simps)
next
  case (Some i)
  let ?e = "entries p ! i" and ?q = "p\<lparr>mutex := True\<rparr>"
  have q: "entries ?q ! i = ?e" by simp
  have conflict: "set_entry i (taken now m ?e) (?q\<lparr>allocated_count := allocated_count ?q + 1\<rparr>)
      = pool_move i (taken now m ?e) ?q" if "entry_state ?e = IP_STATE_CONFLICT"
    using that by (simp add: pool_move_def count_in_def count_out_def)
  show ?thesis
    using assms Some touch_taken [of ?e m now] conflict
      move_take [of ?q i "taken now m ?e"] move_same [of ?q i "taken now m ?e"]
    by (cases "entry_state ?e")
      (auto simp: ip_pool_reserve_ip_def Let_def pool_run_simps taken_def [symmetric])
qed

lemma release_eq:
  assumes "\<not> mutex p"
  shows "ip_pool_release_ip p ip = (case ip_pool_find_entry p ip of
      None \<Rightarrow> Returns (-1, p)
    | Some i \<Rightarrow> let e = entries p ! i in
        if entry_state e = IP_STATE_ALLOCATED
        then Returns (0, pool_move i (e\<lparr>entry_state := IP_STATE_AVAILABLE, entry_mac := zero_mac\<rparr>) p)
        else Returns (0, p))"
proof (cases "ip_pool_find_entry p ip")
  case None
  with assms show ?thesis by (simp add: ip_pool_release_ip_def pool_run_simps)
next
  case (Some i)
  then show ?thesis
    using assms move_give_back [of "p\<lparr>mutex := True\<rparr>" i
        "(entries p ! i)\<lparr>entry_state := IP_STATE_AVAILABLE, entry_mac := zero_mac\<rparr>"]
    by (simp add: ip_pool_release_ip_def Let_def pool_run_simps)
qed

lemma mark_conflict_eq:
  assumes "\<not> mutex p"
  shows "ip_pool_mark_conflict p ip = (case ip_pool_find_entry p ip of
      None \<Rightarrow> Returns (-1, p)
    | Some i \<Rightarrow> Returns (0, pool_move i ((entries p ! i)\<lparr>entry_state := IP_STATE_CONFLICT\<rparr>) p))"
proof (cases "ip_pool_find_entry p ip")
  case None
  with assms show ?thesis by (simp add: ip_pool_mark_conflict_def pool_run_simps)
next
  case (Some i)
  then show ?thesis
    using assms
    by (auto simp: ip_pool_mark_conflict_def Let_def lock_free pool_unlock_def pool_move_def
        count_in_def count_out_def set_entry_def intro!: ip_pool_t.equality)
qed

lemma mark_conflict_locked: "mutex p \<Longrightarrow> ip_pool_mark_conflict p ip = Blocks"
  by (simp add: ip_pool_mark_conflict_def pool_lock_def)

lemma take_requested_eq:
  assumes "ip_pool_find_entry p ip = Some i" "entry_state (entries p ! i) = IP_STATE_AVAILABLE"
  shows "take_requested now m ip p = pool_move i (taken now m (entries p ! i)) p"
  using assms move_take [of p i "taken now m (entries p ! i)"]
  by (simp add: take_requested_def Let_def taken_def [symmetric])

lemma update_move:
  assumes "ip_pool_update_from_lease now p l = (r, p', l')"
  shows "(p' = p \<or> (\<exists>i e. ip_pool_find_entry p (ip_address l) = Some i \<and> p' = pool_move i e p
     \<and> entry_ip e = entry_ip (entries p ! i))) \<and> (l' = l \<or> l' = expire_in_place now l)"
proof (cases "ip_pool_find_entry p (ip_address l)")
  case None
  with assms show ?thesis by (simp add: ip_pool_update_from_lease_def)
next
  case (Some i)
  show ?thesis
    using assms Some
      by_entry.find_bound [OF Some]
    by (auto simp: ip_pool_update_from_lease_def Let_def pool_move_def split: if_splits
        intro!: exI [of _ i] exI [of _ "entries p' ! i"])
qed

lemma sync_entry_move:
  assumes "sync_entry now l p = (n, l', p')"
  shows "(p' = p \<or> (\<exists>i e. ip_pool_find_entry p (ip_address l) = Some i \<and> p' = pool_move i e p
     \<and> entry_ip e = entry_ip (entries p ! i))) \<and> (l' = l \<or> l' = expire_in_place now l)"
proof (cases "ip_pool_find_entry p (ip_address l)")
  case None
  with assms show ?thesis by (simp add: sync_entry_def)
next
  case (Some i)
  show ?thesis
    using assms Some
      by_entry.find_bound [OF Some]
    by (auto simp: sync_entry_def Let_def pool_move_def split: if_splits
        intro!: exI [of _ i] exI [of _ "entries p' ! i"])
qed

subsection \<open>Allocation\<close>

lemma alloc_first_eq:
  assumes "mutex p"
  shows "alloc_first ping now m config is p =
    (case List.find (\<lambda>i. entry_state (entries p ! i) = IP_STATE_AVAILABLE) is of
       None \<Rightarrow> Returns (alloc_failed, pool_unlock p)
     | Some i \<Rightarrow> if answers ping config (entry_ip (entries p ! i)) then Blocks
         else Returns (alloc_ok (entry_ip (entries p ! i)),
                pool_unlock (pool_move i (taken now m (entries p ! i)) p)))"
proof (induction "is")
  case (Cons i "is")
  show ?case
    using Cons.IH mark_conflict_locked [OF assms] move_take [of p i "taken now m (entries p ! i)"]
    by (simp add: Let_def answers_def taken_def [symmetric])
qed simp

lemma available_entry:
  "ip_pool_is_available p ip \<longleftrightarrow>
     (\<exists>i. ip_pool_find_entry p ip = Some i \<and> entry_state (entries p ! i) = IP_STATE_AVAILABLE)"
  by (auto simp: ip_pool_is_available_def split: option.splits)

lemma alloc_candidate_available:
  assumes "alloc_candidate p ip = Some i"
  shows "i < length (entries p) \<and> entry_state (entries p ! i) = IP_STATE_AVAILABLE"
  using assms
  by (auto simp: alloc_candidate_def available_entry dest: find_idx_SomeD by_entry.find_bound
      split: if_splits)

lemma alloc_candidate_None:
  "alloc_candidate p ip = None \<longleftrightarrow> (\<forall>e \<in> set (entries p). entry_state e \<noteq> IP_STATE_AVAILABLE)"
proof -
  have "entries p ! i \<in> set (entries p)" if "ip_pool_find_entry p ip = Some i" for i
    using that by_entry.find_bound by simp
  then show ?thesis by (auto simp: alloc_candidate_def available_entry find_idx_None)
qed

lemma allocate_eq:
  assumes "\<not> mutex p"
  shows "ip_pool_allocate ping now p m req config =
    (case host_of p m of
       Some h \<Rightarrow> Returns (alloc_ok (fixed_address (hosts (subnet p) ! h)), p)
     | None \<Rightarrow> (case own_entry p m of
         Some i \<Rightarrow> Returns (alloc_ok (entry_ip (entries p ! i)), p)
       | None \<Rightarrow> (case alloc_candidate p req of
           None \<Rightarrow> Returns (alloc_failed, p)
         | Some i \<Rightarrow> if answers ping config (entry_ip (entries p ! i)) then Blocks
             else Returns (alloc_ok (entry_ip (entries p ! i)),
                    pool_move i (taken now m (entries p ! i)) p))))"
proof -
  let ?q = "p\<lparr>mutex := True\<rparr>"
  have range: "ip_pool_is_in_range ?q req = ip_pool_is_in_range p req"
    "ip_pool_is_available ?q req = ip_pool_is_available p req"
    by (simp_all add: ip_pool_is_in_range_def available_entry)
  have first: "alloc_first ping now m config [0..<length (entries ?q)] ?q =
      (case find_idx (\<lambda>e. entry_state e = IP_STATE_AVAILABLE) (entries p) of
         None \<Rightarrow> Returns (alloc_failed, p)
       | Some i \<Rightarrow> if answers ping config (entry_ip (entries p ! i)) then Blocks
           else Returns (alloc_ok (entry_ip (entries p ! i)), pool_move i (taken now m (entries p ! i)) p))"
    using assms find_upt_idx [of "\<lambda>e. entry_state e = IP_STATE_AVAILABLE" "entries p"]
    by (cases "find_idx (\<lambda>e. entry_state e = IP_STATE_AVAILABLE) (entries p)")
      (simp_all add: alloc_first_eq pool_run_simps)
  show ?thesis
  proof (cases "req \<noteq> 0 \<and> ip_pool_is_in_range p req \<and> ip_pool_is_available p req")
    case True
    then obtain i where i: "ip_pool_find_entry p req = Some i"
      "entry_state (entries p ! i) = IP_STATE_AVAILABLE" by (auto simp: available_entry)
    then have "take_requested now m req ?q = pool_move i (taken now m (entries p ! i)) ?q"
      using take_requested_eq [of ?q req i] by simp
    then show ?thesis
      using assms True i range by_entry.find_key [OF i(1)]
      by (simp add: ip_pool_allocate_def lock_free mark_conflict_locked host_of_def own_entry_def
          alloc_candidate_def answers_def pool_run_simps split: option.splits)
  next
    case False
    then show ?thesis
      using assms range first
      by (auto simp: ip_pool_allocate_def lock_free host_of_def own_entry_def
          alloc_candidate_def pool_run_simps cong: option.case_cong)
  qed
qed

subsection \<open>Every step keeps a pool well-formed\<close>

abbreviation pool_inv :: "ip_pool_t \<Rightarrow> bool" where
  "pool_inv p \<equiv> pool_wf p \<and> \<not> mutex p"

lemma move_found_wf:
  assumes "pool_wf p" "ip_pool_find_entry p ip = Some i" "entry_ip e = entry_ip (entries p ! i)"
  shows "pool_wf (pool_move i e p)"
  using assms pool_move_wf by_entry.find_bound by blast

lemma set_lease_ref_wf: "pool_inv p \<Longrightarrow> pool_inv (set_lease_ref ip lid p)"
  by (auto simp: set_lease_ref_def move_same intro!: move_found_wf split: option.splits)

lemma release_inv: "ip_pool_release_ip p ip = Returns (r, p') \<Longrightarrow> pool_inv p \<Longrightarrow> pool_inv p'"
  by (auto simp: release_eq Let_def intro!: move_found_wf split: option.splits if_splits)

lemma allocate_inv:
  assumes "ip_pool_allocate ping now p m req config = Returns (res, p')" "pool_inv p"
  shows "pool_inv p'"
  using assms alloc_candidate_available [of p req]
  by (auto simp: allocate_eq intro!: pool_move_wf split: option.splits if_splits)

lemma allocate_lease_inv:
  assumes "ip_pool_allocate_and_create_lease ping now p db m req config t = Returns (li, p', db')"
    and "pool_inv p"
  shows "pool_inv p'"
proof -
  obtain res p1 where a: "ip_pool_allocate ping now p m req config = Returns (res, p1)"
    using assms(1) by (auto simp: ip_pool_allocate_and_create_lease_def and_then_Returns)
  have p1: "pool_inv p1" using allocate_inv [OF a assms(2)] .
  then show ?thesis
    using assms(1) a release_inv [of p1] set_lease_ref_wf [of p1]
    by (auto simp: ip_pool_allocate_and_create_lease_def Let_def and_then_Returns
        split: option.splits if_splits prod.splits)
qed

lemma update_inv:
  assumes "ip_pool_update_from_lease now p l = (r, p', l')" "pool_wf p"
  shows "pool_wf p' \<and> mutex p' = mutex p"
  using update_move [OF assms(1)] assms(2) move_found_wf by auto

lemma sync_leases_inv:
  "sync_leases now ls p = (ls', p') \<Longrightarrow> pool_wf p \<Longrightarrow> pool_wf p' \<and> mutex p' = mutex p"
proof (induction ls arbitrary: p ls' p')
  case (Cons l ls)
  then show ?case
    by (fastforce split: prod.splits dest: update_inv)
qed simp

lemma sync_entry_inv:
  assumes "sync_entry now l p = (n, l', p')" "pool_wf p"
  shows "pool_wf p' \<and> mutex p' = mutex p"
  using sync_entry_move [OF assms(1)] assms(2) move_found_wf by auto

lemma sync_pass_inv:
  "sync_pass now ls p = (n, ls', p') \<Longrightarrow> pool_wf p \<Longrightarrow> pool_wf p' \<and> mutex p' = mutex p"
proof (induction ls arbitrary: p n ls' p')
  case (Cons l ls)
  then show ?case
    by (fastforce split: prod.splits dest: sync_entry_inv)
qed simp

lemma pool_unlock_wf [simp]: "pool_wf (pool_unlock p) = pool_wf p" "\<not> mutex (pool_unlock p)"
  by (simp_all add: pool_unlock_def)

lemma pool_step_inv: "pool_step p p' \<Longrightarrow> pool_inv p \<Longrightarrow> pool_inv p'"
proof (induction rule: pool_step.induct)
  case (reserve now p ip m r p')
  then show ?case
    by (auto simp: reserve_eq Let_def intro!: move_found_wf split: option.splits if_splits)
next
  case (release p ip r p')
  then show ?case using release_inv by blast
next
  case (conflict p ip r p')
  then show ?case
    by (auto simp: mark_conflict_eq intro!: move_found_wf split: option.splits)
next
  case (allocate ping now p m req config res p')
  then show ?case using allocate_inv by blast
next
  case (allocate_lease ping now p db m req config t li p' db')
  then show ?case using allocate_lease_inv by blast
next
  case (update now p l r p' l')
  then show ?case using update_inv by blast
next
  case (sync now p db r p' db')
  then show ?case
    by (auto simp: ip_pool_sync_with_leases_def lock_free split: prod.splits dest!: sync_leases_inv)
next
  case (sync_thread now sync p db sync' p' db')
  then show ?case
    by (auto simp: ip_pool_sync_thread_func_def lock_free split: prod.splits if_splits dest!: sync_pass_inv)
qed

interpretation pool_run: invariant_system pool_inv pool_step pool_inv
  by unfold_locales (use pool_step_inv in blast)+

subsection \<open>Initialisation\<close>

declare init_range.simps [simp del]

definition range_ok :: "u32 \<Rightarrow> dhcp_subnet_t \<Rightarrow> ip_pool_t \<Rightarrow> bool" where
  "range_ok s0 sub p \<longleftrightarrow>
     entries p = map (\<lambda>k. init_entry sub (s0 + of_nat k)) [0..<length (entries p)]
   \<and> length (entries p) \<le> MAX_POOL_SIZE \<and> \<not> mutex p
   \<and> unat (available_count p) = count_if (in_state IP_STATE_AVAILABLE) (entries p) \<and> allocated_count p = 0"

lemma ip_state_roundtrip: "ip_state_from_string (ip_state_to_string s) = s"
  by (cases s) (simp_all add: ip_state_from_string_def)

lemma init_entry_fields [simp]:
  "entry_ip (init_entry sub v) = htonl v" "entry_state (init_entry sub v) \<noteq> IP_STATE_ALLOCATED"
  "entry_state (init_entry sub v) \<noteq> IP_STATE_RESERVED"
  by (simp_all add: init_entry_def Let_def)

lemma range_ok_append:
  assumes "range_ok s0 sub p" "v = s0 + of_nat (length (entries p))" "length (entries p) < MAX_POOL_SIZE"
  shows "range_ok s0 sub (p\<lparr>entries := entries p @ [init_entry sub v],
    available_count := (if entry_state (init_entry sub v) = IP_STATE_AVAILABLE
      then available_count p + 1 else available_count p)\<rparr>)"
proof -
  have "count_if (in_state IP_STATE_AVAILABLE) (entries p) < MAX_POOL_SIZE"
    using count_if_le assms(3) le_less_trans by blast
  then have "unat (available_count p + 1) = Suc (unat (available_count p))"
    if "entry_state (init_entry sub v) = IP_STATE_AVAILABLE"
    using assms(1) unat_count_step [of "available_count p" _ "Suc (unat (available_count p))" False True]
    by (simp add: range_ok_def)
  then show ?thesis using assms by (auto simp: range_ok_def in_state_def)
qed

lemma init_range_ok:
  "range_ok s0 sub p \<Longrightarrow> v = s0 + of_nat (length (entries p)) \<Longrightarrow> range_ok s0 sub (init_range sub v e p)"
proof (induction sub v e p rule: init_range.induct)
  case (1 sub v e p)
  show ?case
  proof (cases "v \<le> e \<and> length (entries p) < MAX_POOL_SIZE")
    case True
    then show ?thesis
      using 1 range_ok_append [of s0 sub p v]
      by (subst init_range.simps) (simp add: Let_def add.assoc add.commute)
  next
    case False
    then show ?thesis using 1(2) by (subst init_range.simps) auto
  qed
qed

lemma init_range_subnet: "subnet (init_range sub v e p) = subnet p"
proof (induction sub v e p rule: init_range.induct)
  case (1 sub v e p)
  then show ?case by (subst init_range.simps) (simp add: Let_def)
qed

lemma init_range_prefix: "set (entries p) \<subseteq> set (entries (init_range sub v e p))"
proof (induction sub v e p rule: init_range.induct)
  case (1 sub v e p)
  then show ?case by (subst init_range.simps) (auto simp: Let_def)
qed

lemma init_range_covers:
  "v \<le> w \<Longrightarrow> w \<le> e \<Longrightarrow> unat w - unat v + length (entries p) < MAX_POOL_SIZE \<Longrightarrow>
   htonl w \<in> entry_ip ` set (entries (init_range sub v e p))"
proof (induction sub v e p rule: init_range.induct)
  case (1 sub v e p)
  let ?p = "p\<lparr>entries := entries p @ [init_entry sub v],
    available_count := (if entry_state (init_entry sub v) = IP_STATE_AVAILABLE
      then available_count p + 1 else available_count p)\<rparr>"
  have guard: "v \<le> e \<and> length (entries p) < MAX_POOL_SIZE"
    using 1(2-4) order_trans [OF 1(2,3)] by simp
  have step: "init_range sub v e p = init_range sub (v + 1) e ?p"
    using guard by (subst init_range.simps) (simp add: Let_def)
  show ?case
  proof (cases "v = w")
    case True
    have "init_entry sub v \<in> set (entries (init_range sub (v + 1) e ?p))"
      using init_range_prefix [of ?p sub "v + 1" e] by auto
    then have "entry_ip (init_entry sub v) \<in> entry_ip ` set (entries (init_range sub (v + 1) e ?p))"
      by (rule imageI)
    then show ?thesis using True step by simp
  next
    case False
    then have "v < w" using 1(2) by simp
    then have v1: "unat (v + 1) = Suc (unat v)" "v + 1 \<le> w"
      using unat_inc [OF less_imp_inc, of v w] by (simp_all add: word_less_nat_alt word_le_nat_alt)
    then have "unat w - unat (v + 1) + length (entries ?p) < MAX_POOL_SIZE"
      using 1(4) \<open>v < w\<close> by (simp add: word_less_nat_alt)
    then show ?thesis using 1(1) [OF guard refl] v1(2) 1(3) step by simp
  qed
qed

lemma range_ok_wf:
  assumes "range_ok s0 sub p"
  shows "pool_wf p"
proof -
  let ?n = "length (entries p)"
  have e: "entries p = map (\<lambda>k. init_entry sub (s0 + of_nat k)) [0..<?n]" "?n \<le> MAX_POOL_SIZE"
    using assms by (simp_all add: range_ok_def)
  have "inj_on (\<lambda>k. s0 + of_nat k :: u32) {0..<?n}"
    using e(2) by (auto simp: inj_on_def intro: of_nat_u32_inj)
  then have "distinct (map (\<lambda>k. htonl (s0 + of_nat k)) [0..<?n])"
    by (auto simp: distinct_map inj_on_def)
  then have "distinct (map entry_ip (entries p))"
    using arg_cong [OF e(1), of "map entry_ip"] by (simp add: comp_def)
  moreover have "entry_state x \<noteq> IP_STATE_ALLOCATED" if "x \<in> set (entries p)" for x
    using that arg_cong [OF e(1), of set] by auto
  then have "count_if (in_state IP_STATE_ALLOCATED) (entries p) = 0"
    by (simp add: count_if_def in_state_def filter_empty_conv)
  ultimately show ?thesis
    using assms e(2) by (simp add: pool_wf_def pool_counts_def range_ok_def)
qed

text \<open>An address that initialisation excludes: the network, the broadcast and the router address.\<close>

definition excluded :: "dhcp_subnet_t \<Rightarrow> in_addr \<Rightarrow> bool" where
  "excluded sub ip \<longleftrightarrow> ip_is_network_address ip (network sub) (netmask sub)
     \<or> ip_is_broadcast_address ip (network sub) (netmask sub) \<or> ip_is_gateway ip (router sub)"

lemma range_ok_state:
  assumes "range_ok s0 sub p" "ip_pool_find_entry p ip = Some i"
  shows "entry_state (entries p ! i) = (if excluded sub ip then IP_STATE_EXCLUDED else IP_STATE_AVAILABLE)"
proof -
  have i: "i < length (entries p)" "entry_ip (entries p ! i) = ip"
    using by_entry.find_first [OF assms(2)] by auto
  have "entries p ! i = map (\<lambda>k. init_entry sub (s0 + of_nat k)) [0..<length (entries p)] ! i"
    using assms(1) by (auto simp: range_ok_def)
  then have e: "entries p ! i = init_entry sub (s0 + of_nat i)" using i(1) by simp
  then have "htonl (s0 + of_nat i) = ip" using i(2) by simp
  with e show ?thesis by (simp add: init_entry_def excluded_def Let_def)
qed

definition states_ok :: "ip_state_t set \<Rightarrow> ip_pool_t \<Rightarrow> in_addr \<Rightarrow> bool" where
  "states_ok S p ip \<longleftrightarrow> (\<forall>i. ip_pool_find_entry p ip = Some i \<longrightarrow> entry_state (entries p ! i) \<in> S)"

lemma states_ok_move:
  assumes "ip_pool_find_entry p ip = Some i" "entry_ip e = ip" "ip' \<noteq> ip" "states_ok S p ip'"
  shows "states_ok S (pool_move i e p) ip'"
proof -
  have i: "i < length (entries p)" "entry_ip (entries p ! i) = ip"
    using by_entry.find_first [OF assms(1)] by auto
  then have same: "ip_pool_find_entry (pool_move i e p) ip' = ip_pool_find_entry p ip'"
    using by_entry.find_by_rows [where k = ip' and db' = "pool_move i e p" and db = p] assms(2) by (simp add: map_update_same)
  have "j \<noteq> i" if "ip_pool_find_entry p ip' = Some j" for j
    using by_entry.find_key [OF that] i(2) assms(3) by auto
  then show ?thesis
    using assms(4) same by (auto simp: states_ok_def)
qed

lemma host_move:
  assumes "entry_state (entries p ! i) = IP_STATE_AVAILABLE"
  shows "set_entry i ((entries p ! i)\<lparr>entry_state := IP_STATE_RESERVED, entry_mac := m\<rparr>)
      (p\<lparr>available_count := available_count p - 1\<rparr>) =
    pool_move i ((entries p ! i)\<lparr>entry_state := IP_STATE_RESERVED, entry_mac := m\<rparr>) p"
  using assms by (simp add: pool_move_def count_in_def count_out_def)

lemma init_hosts_ok:
  "pool_inv p \<Longrightarrow> distinct (map fixed_address hs) \<Longrightarrow>
   (\<forall>h \<in> set hs. states_ok {IP_STATE_AVAILABLE} p (fixed_address h)) \<Longrightarrow>
   pool_inv (init_hosts hs p)
   \<and> (\<forall>ip. states_ok {IP_STATE_AVAILABLE, IP_STATE_RESERVED} p ip \<longrightarrow>
        states_ok {IP_STATE_AVAILABLE, IP_STATE_RESERVED} (init_hosts hs p) ip)"
proof (induction hs arbitrary: p)
  case (Cons h hs)
  show ?case
  proof (cases "ip_pool_find_entry p (fixed_address h)")
    case None
    with Cons show ?thesis by simp
  next
    case (Some i)
    let ?e = "(entries p ! i)\<lparr>entry_state := IP_STATE_RESERVED, entry_mac := host_mac h\<rparr>"
    let ?q = "pool_move i ?e p"
    have i: "i < length (entries p)" "entry_ip (entries p ! i) = fixed_address h"
      using by_entry.find_first [OF Some] by auto
    have st: "entry_state (entries p ! i) = IP_STATE_AVAILABLE"
      using Cons.prems(3) Some by (auto simp: states_ok_def)
    have q: "pool_inv ?q" using move_found_wf [OF _ Some] Cons.prems(1) by simp
    have "\<forall>h' \<in> set hs. states_ok {IP_STATE_AVAILABLE} ?q (fixed_address h')"
    proof
      fix h' assume h': "h' \<in> set hs"
      moreover have "fixed_address h \<notin> fixed_address ` set hs" using Cons.prems(2) by simp
      ultimately have "fixed_address h' \<noteq> fixed_address h" by (metis imageI)
      then show "states_ok {IP_STATE_AVAILABLE} ?q (fixed_address h')"
        using states_ok_move [OF Some] i(2) Cons.prems(3) h' by simp
    qed
    moreover have "states_ok {IP_STATE_AVAILABLE, IP_STATE_RESERVED} ?q ip"
      if "states_ok {IP_STATE_AVAILABLE, IP_STATE_RESERVED} p ip" for ip
    proof -
      have "ip_pool_find_entry ?q ip = ip_pool_find_entry p ip"
        using by_entry.find_by_rows [where k = ip and db' = ?q and db = p] i by (simp add: map_update_same)
      then show ?thesis using that i(1) by (auto simp: states_ok_def nth_list_update)
    qed
    ultimately show ?thesis
      using Cons.IH [OF q] Cons.prems(2) Some host_move [OF st] by simp
  qed
qed simp

lemma init_lease_move:
  assumes "states_ok {IP_STATE_AVAILABLE, IP_STATE_RESERVED} p (ip_address l)"
  shows "init_lease l p = p \<or> (\<exists>i e. ip_pool_find_entry p (ip_address l) = Some i
    \<and> init_lease l p = pool_move i e p \<and> entry_ip e = entry_ip (entries p ! i))"
proof (cases "ip_pool_find_entry p (ip_address l)")
  case None
  then show ?thesis by (simp add: init_lease_def)
next
  case (Some i)
  then have "entry_state (entries p ! i) = IP_STATE_AVAILABLE \<or> entry_state (entries p ! i) = IP_STATE_RESERVED"
    using assms by (simp add: states_ok_def)
  then show ?thesis
  proof
    assume st: "entry_state (entries p ! i) = IP_STATE_AVAILABLE"
    let ?e = "entries (init_lease l p) ! i"
    have "init_lease l p = p \<or> init_lease l p = pool_move i ?e p \<and> entry_ip ?e = entry_ip (entries p ! i)"
      using Some st by_entry.find_bound [OF Some]
      by (cases "ip_state_from_lease_state (lease_state l)")
        (simp_all add: init_lease_def Let_def pool_move_def count_in_def count_out_def)
    then show ?thesis using Some by blast
  qed (use Some in \<open>simp add: init_lease_def Let_def\<close>)
qed

lemma expire_in_place_fields [simp]:
  "ip_address (expire_in_place now l) = ip_address l" "mac_address (expire_in_place now l) = mac_address l"
  "lease_id (expire_in_place now l) = lease_id l"
  by (simp_all add: expire_in_place_def)

lemma init_leases_ok:
  "init_leases now ls p = (ls', p') \<Longrightarrow> pool_inv p \<Longrightarrow> distinct (map ip_address ls) \<Longrightarrow>
   (\<forall>l \<in> set ls. states_ok {IP_STATE_AVAILABLE, IP_STATE_RESERVED} p (ip_address l)) \<Longrightarrow> pool_inv p'"
proof (induction ls arbitrary: p ls')
  case (Cons l ls)
  let ?l = "expire_in_place now l"
  let ?q = "init_lease ?l p"
  obtain rest where r: "init_leases now ls ?q = (rest, p')"
    using Cons.prems(1) by (auto simp: Let_def split: prod.splits)
  have m: "?q = p \<or> (\<exists>i e. ip_pool_find_entry p (ip_address l) = Some i
    \<and> ?q = pool_move i e p \<and> entry_ip e = entry_ip (entries p ! i))"
    using init_lease_move [of p ?l] Cons.prems(4) by simp
  then have q: "pool_inv ?q" using move_found_wf Cons.prems(2) by auto
  have "\<forall>l' \<in> set ls. states_ok {IP_STATE_AVAILABLE, IP_STATE_RESERVED} ?q (ip_address l')"
  proof
    fix l' assume l': "l' \<in> set ls"
    moreover have "ip_address l \<notin> ip_address ` set ls" using Cons.prems(3) by simp
    ultimately have "ip_address l' \<noteq> ip_address l" by (metis imageI)
    then show "states_ok {IP_STATE_AVAILABLE, IP_STATE_RESERVED} ?q (ip_address l')"
      using m states_ok_move by_entry.find_key Cons.prems(4) l' by (metis list.set_intros(2))
  qed
  then show ?case using Cons.IH [OF r q] Cons.prems(3) by simp
qed simp

lemma init_hosts_ips: "map entry_ip (entries (init_hosts hs p)) = map entry_ip (entries p)"
proof (induction hs arbitrary: p)
  case (Cons h hs)
  then show ?case
    by (auto simp: map_update_same by_entry.find_bound split: option.splits)
qed simp

lemma init_lease_ips: "map entry_ip (entries (init_lease l p)) = map entry_ip (entries p)"
  by (auto simp: init_lease_def Let_def map_update_same by_entry.find_bound split: option.splits)

lemma init_leases_ips:
  "init_leases now ls p = (ls', p') \<Longrightarrow> map entry_ip (entries p') = map entry_ip (entries p)"
proof (induction ls arbitrary: p ls')
  case (Cons l ls)
  then show ?case by (auto simp: Let_def init_lease_ips split: prod.splits)
qed simp

lemma init_pool0_ok:
  "range_ok s0 sub (init_range sub s0 e
     \<lparr>subnet = sub, entries = [], allocated_count = 0, available_count = 0, mutex = False\<rparr>)"
  by (rule init_range_ok) (simp_all add: range_ok_def)

lemma ip_pool_init_inv:
  assumes "ip_pool_init True now sub (Some db) = Some (p, db')"
    and "distinct (map fixed_address (hosts sub))" "\<forall>h \<in> set (hosts sub). \<not> excluded sub (fixed_address h)"
    and "distinct (map ip_address (leases db))" "\<forall>l \<in> set (leases db). \<not> excluded sub (ip_address l)"
  shows "pool_inv p"
proof -
  let ?p0 = "\<lparr>subnet = sub, entries = [], allocated_count = 0, available_count = 0, mutex = False\<rparr>"
  let ?p1 = "init_range sub (ntohl (range_start sub)) (ntohl (range_end sub)) ?p0"
  let ?p2 = "init_hosts (hosts sub) ?p1"
  obtain ls where r: "init_leases now (leases db) ?p2 = (ls, p)"
    using assms(1) by (auto simp: ip_pool_init_def Let_def split: prod.splits)
  have ok: "range_ok (ntohl (range_start sub)) sub ?p1" by (rule init_pool0_ok)
  have st: "states_ok {IP_STATE_AVAILABLE} ?p1 ip" if "\<not> excluded sub ip" for ip
    using that range_ok_state [OF ok] by (simp add: states_ok_def)
  have p1: "pool_inv ?p1" using range_ok_wf [OF ok] ok by (simp add: range_ok_def)
  have p2: "pool_inv ?p2 \<and> (\<forall>ip. states_ok {IP_STATE_AVAILABLE, IP_STATE_RESERVED} ?p1 ip \<longrightarrow>
        states_ok {IP_STATE_AVAILABLE, IP_STATE_RESERVED} ?p2 ip)"
    using init_hosts_ok [OF p1 assms(2)] st assms(3) by simp
  have "states_ok {IP_STATE_AVAILABLE, IP_STATE_RESERVED} ?p2 (ip_address l)" if "l \<in> set (leases db)" for l
  proof -
    have "states_ok {IP_STATE_AVAILABLE} ?p1 (ip_address l)" using st assms(5) that by simp
    then have "states_ok {IP_STATE_AVAILABLE, IP_STATE_RESERVED} ?p1 (ip_address l)"
      by (simp add: states_ok_def)
    then show ?thesis using p2 by blast
  qed
  then show ?thesis using init_leases_ok [OF r] p2 assms(4) by blast
qed

subsection \<open>A synchronisation pass\<close>

definition entry_agrees :: "ip_pool_t \<Rightarrow> dhcp_lease_t \<Rightarrow> bool" where
  "entry_agrees p l \<longleftrightarrow> (\<forall>i. ip_pool_find_entry p (ip_address l) = Some i \<longrightarrow>
     entry_state (entries p ! i) \<in> {IP_STATE_RESERVED, IP_STATE_EXCLUDED}
     \<or> entry_state (entries p ! i) = ip_state_from_lease_state (lease_state l))"

lemma find_entry_move:
  assumes "ip_pool_find_entry p ip = Some i" "entry_ip e = entry_ip (entries p ! i)"
  shows "ip_pool_find_entry (pool_move i e p) ip' = ip_pool_find_entry p ip'"
  using by_entry.find_by_rows [where k = ip' and db' = "pool_move i e p" and db = p]
    by_entry.find_bound [OF assms(1)] assms(2)
  by (simp add: map_update_same)

lemma sync_entry_agrees:
  assumes "sync_entry now l p = (n, l', p')"
  shows "entry_agrees p' l'"
proof (cases "ip_pool_find_entry p (ip_address l)")
  case None
  then show ?thesis using assms by (auto simp: sync_entry_def entry_agrees_def)
next
  case (Some i)
  have ips: "map entry_ip (entries p') = map entry_ip (entries p)" and "ip_address l' = ip_address l"
    using sync_entry_move [OF assms] by_entry.find_bound by (auto simp: map_update_same)
  then have f: "ip_pool_find_entry p' (ip_address l') = Some i"
    using by_entry.find_by_rows [where k = "ip_address l" and db' = p' and db = p] Some by simp
  show ?thesis
    using assms Some by_entry.find_bound [OF Some] f
    by (auto simp: sync_entry_def Let_def entry_agrees_def split: if_splits)
qed

lemma sync_pass_ips:
  "sync_pass now ls p = (n, ls', p') \<Longrightarrow> map ip_address ls' = map ip_address ls"
proof (induction ls arbitrary: p n ls' p')
  case (Cons l ls)
  then show ?case by (fastforce split: prod.splits dest: sync_entry_move)
qed simp

lemma sync_pass_keeps:
  "sync_pass now ls p = (n, ls', p') \<Longrightarrow> ip_address l \<notin> ip_address ` set ls \<Longrightarrow> entry_agrees p l \<Longrightarrow>
   entry_agrees p' l"
proof (induction ls arbitrary: p n ls')
  case (Cons k ls)
  obtain n1 k' p1 where s: "sync_entry now k p = (n1, k', p1)" by (cases "sync_entry now k p") auto
  obtain n2 rest where r: "sync_pass now ls p1 = (n2, rest, p')"
    using Cons.prems(1) s by (auto split: prod.splits)
  have ne: "ip_address l \<noteq> ip_address k" using Cons.prems(2) by simp
  have "entry_agrees p1 l"
  proof (cases "p1 = p")
    case False
    then obtain i e where m: "ip_pool_find_entry p (ip_address k) = Some i" "p1 = pool_move i e p"
      "entry_ip e = entry_ip (entries p ! i)" using sync_entry_move [OF s] by auto
    then have "j \<noteq> i" if "ip_pool_find_entry p (ip_address l) = Some j" for j
      using by_entry.find_key that ne by metis
    then show ?thesis
      using m Cons.prems(3) by (auto simp: entry_agrees_def find_entry_move)
  qed (use Cons.prems(3) in simp)
  then show ?case using Cons.IH [OF r] Cons.prems(2) by simp
qed simp

lemma sync_pass_agrees:
  "sync_pass now ls p = (n, ls', p') \<Longrightarrow> distinct (map ip_address ls) \<Longrightarrow>
   \<forall>l \<in> set ls'. entry_agrees p' l"
proof (induction ls arbitrary: p n ls')
  case (Cons k ls)
  obtain n1 k' p1 where s: "sync_entry now k p = (n1, k', p1)" by (cases "sync_entry now k p") auto
  obtain n2 rest where r: "sync_pass now ls p1 = (n2, rest, p')" and ls': "ls' = k' # rest"
    using Cons.prems(1) s by (auto split: prod.splits)
  have "ip_address k' = ip_address k" using sync_entry_move [OF s] by auto
  then have "entry_agrees p' k'"
    using sync_pass_keeps [OF r] sync_entry_agrees [OF s] Cons.prems(2) by simp
  then show ?case using Cons.IH [OF r] Cons.prems(2) ls' by simp
qed simp

section \<open>Properties\<close>


text \<open>A small subnet: 10.0.0.0/29 with the router 10.0.0.1 and the range 10.0.0.1 to 10.0.0.3.\<close>

definition small_subnet :: dhcp_subnet_t where
  "small_subnet = \<lparr>network = htonl 0x0A000000, netmask = htonl 0xFFFFFFF8,
     range_start = htonl 0x0A000001, range_end = htonl 0x0A000003, router = htonl 0x0A000001,
     broadcast = htonl 0x0A000007, subnet_mask = htonl 0xFFFFFFF8, domain_name = [],
     dns_servers = [], ntp_servers = [], netbios_servers = [], time_offset = 0,
     default_lease_time = 600, max_lease_time = 7200, next_server = 0, boot_filename = [],
     tftp_server_name = [], bootfile_name = [], renewal_time = 0, rebinding_time = 0, hosts = []\<rparr>"

definition small_ip_pool :: ip_pool_t where
  "small_ip_pool = \<lparr>subnet = small_subnet,
     entries = [\<lparr>entry_ip = 0x0100000A, entry_state = IP_STATE_EXCLUDED, entry_mac = zero_mac,
           last_allocated = 0, entry_lease_id = 0\<rparr>,
         \<lparr>entry_ip = 0x0200000A, entry_state = IP_STATE_AVAILABLE, entry_mac = zero_mac,
           last_allocated = 0, entry_lease_id = 0\<rparr>,
         \<lparr>entry_ip = 0x0300000A, entry_state = IP_STATE_AVAILABLE, entry_mac = zero_mac,
           last_allocated = 0, entry_lease_id = 0\<rparr>],
     allocated_count = 0, available_count = 2, mutex = False\<rparr>"

lemma small_pool_init: "ip_pool_init True 100 small_subnet (Some db_zero) = Some (small_ip_pool, Some db_zero)"
  by (simp add: ip_pool_init_def small_subnet_def small_ip_pool_def init_range.simps init_entry_def
      Let_def db_zero_def bswap32_def le_bytes32_def ip_is_network_address_def
      ip_is_broadcast_address_def ip_is_gateway_def)

definition small_config :: dhcp_config_t where
  "small_config = \<lparr>global = \<lparr>authoritative = False, ping_check = True, ping_timeout = 1,
       ddns_update_style = DDNS_NONE, g_default_lease_time = 600, g_max_lease_time = 7200,
       g_dns_servers = [], g_ntp_servers = [], g_netbios_servers = [], g_time_offset = 0,
       g_next_server = 0, g_filename = [], g_tftp_server_name = [], g_bootfile_name = [],
       g_renewal_time = 0, g_rebinding_time = 0, allow_unknown_clients = True, allow_bootp = True,
       update_conflict_detection = False\<rparr>,
     subnets = [small_subnet]\<rparr>"

definition small_ip_pool1 :: ip_pool_t where
  "small_ip_pool1 = pool_move 1 (taken 100 mac_a (entries small_ip_pool ! 1)) small_ip_pool"

lemmas small_pool_simps = small_ip_pool_def small_subnet_def small_config_def mac_a_def mac_b_def
  allocate_eq host_of_def own_entry_def alloc_candidate_def answers_def probe_needed_def
  ip_is_loopback_def bswap32_def le_bytes32_def

lemma small_ip_pool_free: "\<not> mutex small_ip_pool"
  by (simp add: small_ip_pool_def)

lemma small_allocate:
  "ip_pool_allocate (\<lambda>_ _. False) 100 small_ip_pool mac_a 0 small_config =
     Returns (alloc_ok 0x0200000A, small_ip_pool1)"
  by (simp add: small_ip_pool1_def allocate_eq small_ip_pool_free)
    (simp add: small_pool_simps)

lemma small_pool_inv: "pool_inv small_ip_pool"
  by (simp add: pool_wf_def pool_counts_def small_ip_pool_def in_state_def)


text \<open>
  C7: An allocation never takes an address from another client.  When \<open>ip_pool_allocate\<close> succeeds, the
  address is either the fixed address of a host reservation for this hardware address, with the
  pool unchanged, or the address of an entry that was available or already allocated to this
  client; afterwards that entry is allocated to the client and every other entry is as before.
  Reserved, excluded and conflicting addresses and those of other clients are never handed out.
\<close>

theorem allocate_never_steals:
  assumes "pool_inv p" "ip_pool_allocate ping now p m req config = Returns (res, p')" "success res"
  shows "(\<exists>h \<in> set (hosts (subnet p)). host_mac h = m \<and> result_ip res = fixed_address h \<and> p' = p)
    \<or> (\<exists>i < length (entries p). entry_ip (entries p ! i) = result_ip res
        \<and> (entry_state (entries p ! i) = IP_STATE_AVAILABLE
           \<or> entry_state (entries p ! i) = IP_STATE_ALLOCATED \<and> entry_mac (entries p ! i) = m)
        \<and> entry_state (entries p' ! i) = IP_STATE_ALLOCATED \<and> entry_mac (entries p' ! i) = m
        \<and> (\<forall>j. j \<noteq> i \<longrightarrow> entries p' ! j = entries p ! j))"
proof (cases "host_of p m")
  case (Some h)
  then have "h < length (hosts (subnet p))" "host_mac (hosts (subnet p) ! h) = m"
    by (auto simp: host_of_def dest: find_idx_SomeD)
  then show ?thesis using assms Some by (auto simp: allocate_eq alloc_ok_def)
next
  case no_host: None
  show ?thesis
  proof (cases "own_entry p m")
    case (Some i)
    then have "i < length (entries p)" "entry_state (entries p ! i) = IP_STATE_ALLOCATED"
      "entry_mac (entries p ! i) = m" by (auto simp: own_entry_def dest: find_idx_SomeD)
    then show ?thesis using assms Some no_host by (auto simp: allocate_eq alloc_ok_def)
  next
    case None
    then show ?thesis
      using assms no_host alloc_candidate_available [of p req]
      by (auto simp: allocate_eq alloc_ok_def alloc_failed_def split: option.splits if_splits)
  qed
qed

theorem allocate_never_steals_witness:
  "ip_pool_allocate (\<lambda>_ _. False) 100 small_ip_pool mac_a 0 small_config =
     Returns (alloc_ok 0x0200000A, small_ip_pool1)
   \<and> (\<exists>i < length (entries small_ip_pool). entry_ip (entries small_ip_pool ! i) = 0x0200000A
        \<and> entry_state (entries small_ip_pool1 ! i) = IP_STATE_ALLOCATED
        \<and> entry_mac (entries small_ip_pool1 ! i) = mac_a)"
proof -
  have s: "success (alloc_ok 0x0200000A)" "hosts (subnet small_ip_pool) = []"
    by (simp_all add: alloc_ok_def small_ip_pool_def small_subnet_def)
  show ?thesis
    using allocate_never_steals [OF small_pool_inv small_allocate s(1)] s(2) small_allocate
    by (auto simp: alloc_ok_def)
qed

text \<open>
  C31: An allocation that returns fails only when nothing can be given: there is no reservation for the
  client, it holds no address, and no entry of the pool is available.
\<close>

theorem allocate_fails_iff_exhausted:
  assumes "\<not> mutex p" "ip_pool_allocate ping now p m req config = Returns (res, p')"
  shows "\<not> success res \<longleftrightarrow> (\<forall>h \<in> set (hosts (subnet p)). host_mac h \<noteq> m)
    \<and> (\<forall>e \<in> set (entries p). \<not> (entry_state e = IP_STATE_ALLOCATED \<and> entry_mac e = m)
         \<and> entry_state e \<noteq> IP_STATE_AVAILABLE)"
proof -
  have "host_of p m = None \<longleftrightarrow> (\<forall>h \<in> set (hosts (subnet p)). host_mac h \<noteq> m)"
    "own_entry p m = None \<longleftrightarrow> (\<forall>e \<in> set (entries p). \<not> (entry_state e = IP_STATE_ALLOCATED \<and> entry_mac e = m))"
    by (simp_all add: host_of_def own_entry_def find_idx_None)
  moreover have "\<not> success res \<longleftrightarrow> host_of p m = None \<and> own_entry p m = None \<and> alloc_candidate p req = None"
    using assms by (auto simp: allocate_eq alloc_ok_def alloc_failed_def split: option.splits if_splits)
  ultimately show ?thesis using alloc_candidate_None [of p req] by auto
qed

theorem allocate_fails_iff_exhausted_witness:
  "ip_pool_allocate (\<lambda>_ _. False) 100 (small_ip_pool\<lparr>entries := [entries small_ip_pool ! 0]\<rparr>) mac_a 0 small_config =
     Returns (alloc_failed, small_ip_pool\<lparr>entries := [entries small_ip_pool ! 0]\<rparr>)
   \<and> entry_state (entries small_ip_pool ! 0) \<noteq> IP_STATE_AVAILABLE"
proof -
  let ?p = "small_ip_pool\<lparr>entries := [entries small_ip_pool ! 0]\<rparr>"
  have m: "\<not> mutex ?p" by (simp add: small_ip_pool_def)
  have a: "ip_pool_allocate (\<lambda>_ _. False) 100 ?p mac_a 0 small_config = Returns (alloc_failed, ?p)"
    by (simp add: allocate_eq m) (simp add: small_pool_simps)
  show ?thesis using a allocate_fails_iff_exhausted [OF m a] by (simp add: alloc_failed_def)
qed

text \<open>
  C33: When the address that an allocation tries answers the ping probe, the call never returns:
  \<open>ip_pool_allocate\<close> holds \<open>pool->mutex\<close> and calls \<open>ip_pool_mark_conflict\<close>, which locks the same
  non-recursive mutex.  This is the only way an allocation on an unlocked pool fails to return.
\<close>

theorem allocate_deadlock:
  assumes "\<not> mutex p"
  shows "(ip_pool_allocate ping now p m req config = Blocks \<longleftrightarrow>
      host_of p m = None \<and> own_entry p m = None \<and>
      (\<exists>i. alloc_candidate p req = Some i \<and> answers ping config (entry_ip (entries p ! i))))
    \<and> ip_pool_allocate ping now p m req config \<noteq> Undefined"
  using assms by (auto simp: allocate_eq split: option.splits)

theorem allocate_deadlock_witness:
  "ip_pool_allocate (\<lambda>ip _. ip = 0x0200000A) 100 small_ip_pool mac_a 0 small_config = Blocks"
proof -
  have "host_of small_ip_pool mac_a = None" "own_entry small_ip_pool mac_a = None"
    "alloc_candidate small_ip_pool 0 = Some 1"
    "answers (\<lambda>ip _. ip = 0x0200000A) small_config (entry_ip (entries small_ip_pool ! 1))"
    by (simp_all add: small_pool_simps)
  then show ?thesis using allocate_deadlock [OF small_ip_pool_free] by blast
qed

text \<open>
  Releasing an address that an allocation has just taken from the free entries undoes the
  allocation: both counters have their old values and every entry has its old address and state.
\<close>

lemma allocate_release_roundtrip:
  assumes "pool_inv p" "host_of p m = None" "own_entry p m = None"
    and "ip_pool_allocate ping now p m req config = Returns (res, p1)" "success res"
  shows "\<exists>p2. ip_pool_release_ip p1 (result_ip res) = Returns (0, p2)
    \<and> available_count p2 = available_count p \<and> allocated_count p2 = allocated_count p
    \<and> map entry_ip (entries p2) = map entry_ip (entries p)
    \<and> map entry_state (entries p2) = map entry_state (entries p)"
proof -
  obtain i where c: "alloc_candidate p req = Some i" and r: "result_ip res = entry_ip (entries p ! i)"
    and p1: "p1 = pool_move i (taken now m (entries p ! i)) p"
    using assms by (auto simp: allocate_eq alloc_ok_def alloc_failed_def split: option.splits if_splits)
  have i: "i < length (entries p)" "entry_state (entries p ! i) = IP_STATE_AVAILABLE"
    using alloc_candidate_available [OF c] by auto
  have "map entry_ip (entries p1) = map entry_ip (entries p)"
    using p1 i by (simp add: map_update_same)
  then have f: "ip_pool_find_entry p1 (result_ip res) = Some i"
    using by_entry.find_unique [of p1 "result_ip res" i] assms(1) p1 i r by (simp add: pool_wf_def)
  define e where "e = (entries p1 ! i)\<lparr>entry_state := IP_STATE_AVAILABLE, entry_mac := zero_mac\<rparr>"
  have "ip_pool_release_ip p1 (result_ip res) = Returns (0, pool_move i e p1)"
    using f p1 i assms(1) by (simp add: release_eq Let_def e_def)
  then show ?thesis
    using p1 i by (auto simp: e_def pool_move_def count_in_def count_out_def taken_def map_update_same)
qed

text \<open>
  Initialisation gives every address of a configured range of at most 1024 addresses exactly one
  entry, and the pool never has an entry twice, whatever the reservations and leases are.
\<close>

lemma pool_init_covers_range:
  assumes "ip_pool_init True now sub db = Some (p, db')"
    and "ntohl (range_start sub) \<le> v" "v \<le> ntohl (range_end sub)"
    and "unat (ntohl (range_end sub)) - unat (ntohl (range_start sub)) < MAX_POOL_SIZE"
  shows "\<exists>!i. i < length (entries p) \<and> entry_ip (entries p ! i) = htonl v"
proof -
  let ?p0 = "\<lparr>subnet = sub, entries = [], allocated_count = 0, available_count = 0, mutex = False\<rparr>"
  let ?p1 = "init_range sub (ntohl (range_start sub)) (ntohl (range_end sub)) ?p0"
  have ips: "map entry_ip (entries p) = map entry_ip (entries ?p1)"
    using assms(1) init_hosts_ips [of "hosts sub" ?p1] init_leases_ips
    by (auto simp: ip_pool_init_def Let_def split: option.splits prod.splits)
  have "unat v \<le> unat (ntohl (range_end sub))" using assms(3) by (simp add: word_le_nat_alt)
  then have "htonl v \<in> entry_ip ` set (entries ?p1)"
    using assms(2-4) by (intro init_range_covers) auto
  then have "htonl v \<in> set (map entry_ip (entries p))" using ips by simp
  moreover have "distinct (map entry_ip (entries p))"
    using ips range_ok_wf [OF init_pool0_ok [of "ntohl (range_start sub)" sub "ntohl (range_end sub)"]]
    by (simp add: pool_wf_def)
  ultimately have "\<exists>!i. i < length (map entry_ip (entries p)) \<and> map entry_ip (entries p) ! i = htonl v"
    by (intro distinct_Ex1) auto
  then show ?thesis by (simp cong: conj_cong)
qed

text \<open>
  A round of the synchronisation thread brings the pool in line with the lease table: with one
  lease per address, afterwards every entry that has a lease and is neither reserved nor excluded is
  in the state its lease (expired by this round if it is over) stands for, the pool stays
  well-formed, and both mutexes are free again.
\<close>

lemma sync_thread_agrees:
  assumes "pool_inv p" "\<not> db_mutex db" "sync_running sync" "distinct (map ip_address (leases db))"
  shows "\<exists>sync' p' db'. ip_pool_sync_thread_func now sync p db = Returns (Some (sync', p', db'))
    \<and> (\<forall>l \<in> set (leases db'). entry_agrees p' l) \<and> pool_inv p' \<and> \<not> db_mutex db'
    \<and> map ip_address (leases db') = map ip_address (leases db)"
proof -
  let ?q = "p\<lparr>mutex := True\<rparr>"
  obtain n ls p1 where s: "sync_pass now (leases db) ?q = (n, ls, p1)"
    by (cases "sync_pass now (leases db) ?q") auto
  have "entry_agrees (pool_unlock p1) l = entry_agrees p1 l" for l
    by (simp add: entry_agrees_def pool_unlock_def)
  then show ?thesis
    using s assms sync_pass_agrees [OF s] sync_pass_ips [OF s] sync_pass_inv [OF s]
    by (simp add: ip_pool_sync_thread_func_def lock_free)
qed

text \<open>
  \<open>ip_pool_init\<close> counts a reservation down without looking at the entry.  A second reservation for
  the same address, or one for the excluded router address, takes the entry off \<open>available_count\<close>
  again; with a range of one address the counter wraps to \<open>UINT32_MAX\<close> while nothing is available.
\<close>

lemma pool_init_double_reservation:
  assumes "hosts sub = [ha, hb]" "fixed_address ha = htonl v" "fixed_address hb = htonl v"
    and "range_start sub = htonl v" "range_end sub = htonl v" "\<not> excluded sub (htonl v)" "v + 1 \<noteq> 0"
  shows "\<exists>p. ip_pool_init True now sub None = Some (p, None) \<and> available_count p = 0xFFFFFFFF
    \<and> count_if (in_state IP_STATE_AVAILABLE) (entries p) = 0"
proof -
  let ?p0 = "\<lparr>subnet = sub, entries = [], allocated_count = 0, available_count = 0, mutex = False\<rparr>"
  have v: "\<not> v + 1 \<le> v" using less_inc [OF assms(7)] by (simp add: not_le)
  have "entry_state (init_entry sub v) = IP_STATE_AVAILABLE"
    using assms(6) by (simp add: init_entry_def excluded_def Let_def)
  then have "init_range sub v v ?p0 = init_range sub (v + 1) v
      (?p0\<lparr>entries := [init_entry sub v], available_count := 1\<rparr>)"
    by (subst init_range.simps) (simp add: Let_def)
  also have "\<dots> = ?p0\<lparr>entries := [init_entry sub v], available_count := 1\<rparr>"
    using v by (subst init_range.simps) simp
  finally show ?thesis
    using assms(1-5)
    by (simp add: ip_pool_init_def Let_def ip_pool_find_entry_def set_entry_def in_state_def)
qed

end
