(* ===== verification/Dhcp_Message.thy ===== *)
theory Dhcp_Message
  imports Lease_Db Config_V4
begin

text \<open>
  DHCPv4 packets (include/src/dhcp_common.h, src/dhcp_message.c): appending and finding options in
  the 312 byte options field and building OFFER, ACK and NAK.  The offsets of the code are indices
  into the field; a read at or beyond its end is \<open>Undefined\<close>.
\<close>

named_theorems option_simps \<open>options of a packet under the packet operations\<close>

section \<open>Definitions\<close>

record dhcp_packet =
  op :: u8
  htype :: u8
  hlen :: u8
  hops :: u8
  xid :: u32
  secs :: u16
  flags :: u16
  ciaddr :: in_addr
  yiaddr :: in_addr
  siaddr :: in_addr
  giaddr :: in_addr
  chaddr :: "u8 list"
  sname :: "u8 list"
  boot_file :: "u8 list"
  options :: "u8 list"

abbreviation "DHCP_MAGIC_COOKIE \<equiv> (0x63825363 :: u32)"
abbreviation "DHCP_DISCOVER \<equiv> (1 :: u8)"
abbreviation "DHCP_OFFER \<equiv> (2 :: u8)"
abbreviation "DHCP_REQUEST \<equiv> (3 :: u8)"
abbreviation "DHCP_ACK \<equiv> (5 :: u8)"
abbreviation "DHCP_NAK \<equiv> (6 :: u8)"
abbreviation "DHCP_RELEASE \<equiv> (7 :: u8)"
abbreviation "DHCP_OPT_PAD \<equiv> (0 :: u8)"
abbreviation "DHCP_OPT_SUBNET_MASK \<equiv> (1 :: u8)"
abbreviation "DHCP_OPT_ROUTER \<equiv> (3 :: u8)"
abbreviation "DHCP_OPT_DNS_SERVERS \<equiv> (6 :: u8)"
abbreviation "DHCP_OPT_REQUESTED_IP \<equiv> (50 :: u8)"
abbreviation "DHCP_OPT_LEASE_TIME \<equiv> (51 :: u8)"
abbreviation "DHCP_OPT_MESSAGE_TYPE \<equiv> (53 :: u8)"
abbreviation "DHCP_OPT_SERVER_ID \<equiv> (54 :: u8)"
abbreviation "DHCP_OPT_END \<equiv> (255 :: u8)"
abbreviation "BOOTREPLY \<equiv> (2 :: u8)"
abbreviation "HTYPE_ETHER \<equiv> (1 :: u8)"
abbreviation "OPTIONS_SIZE \<equiv> (312 :: nat)"

text \<open>\<open>memcpy(&a[off], bytes, length bytes)\<close> inside the array.\<close>

definition write_at :: "nat \<Rightarrow> 'a list \<Rightarrow> 'a list \<Rightarrow> 'a list" where
  "write_at off bytes a = take off a @ bytes @ drop (off + length bytes) a"

definition packet_zero :: dhcp_packet where
  "packet_zero = \<lparr>op = 0, htype = 0, hlen = 0, hops = 0, xid = 0, secs = 0, flags = 0, ciaddr = 0,
     yiaddr = 0, siaddr = 0, giaddr = 0, chaddr = replicate 16 0, sname = replicate 64 0,
     boot_file = replicate 128 0, options = replicate OPTIONS_SIZE 0\<rparr>"

definition dhcp_message_init :: "u8 \<Rightarrow> u32 \<Rightarrow> u8 list option \<Rightarrow> dhcp_packet" where
  "dhcp_message_init opc x hw = (let p = packet_zero\<lparr>op := opc, htype := HTYPE_ETHER, hlen := 6, xid := x,
       chaddr := (case hw of None \<Rightarrow> replicate 16 0 | Some c \<Rightarrow> write_at 0 (take 6 c) (replicate 16 0))\<rparr>
     in p\<lparr>options := (write_at 0 (le_bytes32 (htonl DHCP_MAGIC_COOKIE)) (options p))[4 := DHCP_OPT_END]\<rparr>)"

text \<open>The loop of \<open>dhcp_message_add_option\<close> that looks for the end of the options.\<close>

function opt_end :: "u8 list \<Rightarrow> nat \<Rightarrow> nat" where
  "opt_end opts offset =
     (if offset < 308 then
        if opts ! offset = DHCP_OPT_END then offset
        else if opts ! offset = DHCP_OPT_PAD then opt_end opts (offset + 1)
        else opt_end opts (offset + 2 + unat (opts ! (offset + 1)))
      else offset)"
  by pat_completeness auto
termination
  by (relation "measure (\<lambda>(_, offset). 308 - offset)") auto

definition dhcp_message_add_option :: "dhcp_packet \<Rightarrow> u8 \<Rightarrow> u8 \<Rightarrow> u8 list \<Rightarrow> int \<times> dhcp_packet" where
  "dhcp_message_add_option packet option_code len data =
     (let offset = opt_end (options packet) 4 in
      if offset + 2 + unat len + 1 > OPTIONS_SIZE then (-1, packet)
      else (0, packet\<lparr>options :=
             write_at offset (option_code # len # take (unat len) data @ [DHCP_OPT_END])
               (options packet)\<rparr>))"

definition dhcp_message_add_option32 :: "dhcp_packet \<Rightarrow> u8 \<Rightarrow> u32 \<Rightarrow> int \<times> dhcp_packet" where
  "dhcp_message_add_option32 packet option_code data =
     dhcp_message_add_option packet option_code 4 (le_bytes32 (htonl data))"

definition dhcp_message_add_option_ip :: "dhcp_packet \<Rightarrow> u8 \<Rightarrow> in_addr \<Rightarrow> int \<times> dhcp_packet" where
  "dhcp_message_add_option_ip packet option_code ip =
     dhcp_message_add_option packet option_code 4 (le_bytes32 ip)"

text \<open>The loop of \<open>dhcp_message_get_option\<close>; a found option is the offset of its data and its length.\<close>

function opt_find :: "u8 list \<Rightarrow> u8 \<Rightarrow> nat \<Rightarrow> (nat \<times> u8) option outcome" where
  "opt_find opts option_code offset =
     (if offset < OPTIONS_SIZE then
        if opts ! offset = DHCP_OPT_END then Returns None
        else if opts ! offset = DHCP_OPT_PAD then opt_find opts option_code (offset + 1)
        else if offset + 1 \<ge> OPTIONS_SIZE then Undefined
        else if opts ! offset = option_code then Returns (Some (offset + 2, opts ! (offset + 1)))
        else opt_find opts option_code (offset + 2 + unat (opts ! (offset + 1)))
      else Returns None)"
  by pat_completeness auto
termination
  by (relation "measure (\<lambda>(_, _, offset). OPTIONS_SIZE - offset)") auto

definition dhcp_message_get_option :: "dhcp_packet \<Rightarrow> u8 \<Rightarrow> (nat \<times> u8) option outcome" where
  "dhcp_message_get_option packet option_code =
     (if ntohl (le_word32 (take 4 (options packet))) \<noteq> DHCP_MAGIC_COOKIE then Returns None
      else opt_find (options packet) option_code 4)"

text \<open>What a caller reads through the returned pointer.\<close>

definition opt_bytes :: "dhcp_packet \<Rightarrow> nat \<Rightarrow> nat \<Rightarrow> u8 list outcome" where
  "opt_bytes packet off n =
     (if off + n \<le> OPTIONS_SIZE then Returns (take n (drop off (options packet))) else Undefined)"

definition dhcp_message_get_type :: "dhcp_packet \<Rightarrow> u8 outcome" where
  "dhcp_message_get_type packet =
     and_then (dhcp_message_get_option packet DHCP_OPT_MESSAGE_TYPE) (\<lambda>r. case r of
       None \<Rightarrow> Returns 0
     | Some (off, _) \<Rightarrow> and_then (opt_bytes packet off 1) (\<lambda>b. Returns (hd b)))"

text \<open>\<open>sizeof(struct dhcp_packet)\<close> is 548, so the test is for the 236 header bytes and the cookie.\<close>

definition dhcp_message_validate :: "dhcp_packet \<Rightarrow> int \<Rightarrow> int" where
  "dhcp_message_validate packet len =
     (if len < 548 - 312 + 4 then -1
      else if ntohl (le_word32 (take 4 (options packet))) \<noteq> DHCP_MAGIC_COOKIE then -1
      else 0)"

text \<open>The options that OFFER and ACK share, in the order of the code; results of the calls are ignored.\<close>

definition add_lease_options :: "u8 \<Rightarrow> dhcp_lease_t \<Rightarrow> dhcp_subnet_t \<Rightarrow> dhcp_packet \<Rightarrow> dhcp_packet" where
  "add_lease_options type lease sub p0 =
     (let p1 = snd (dhcp_message_add_option p0 DHCP_OPT_MESSAGE_TYPE 1 [type]);
          p2 = snd (dhcp_message_add_option_ip p1 DHCP_OPT_SUBNET_MASK (netmask sub));
          p3 = snd (dhcp_message_add_option_ip p2 DHCP_OPT_ROUTER (router sub));
          p4 = snd (dhcp_message_add_option32 p3 DHCP_OPT_LEASE_TIME
                 (word_of_int (end_time lease - start_time lease)));
          p5 = snd (dhcp_message_add_option_ip p4 DHCP_OPT_SERVER_ID (router sub))
      in if dns_servers sub \<noteq> []
         then snd (dhcp_message_add_option p5 DHCP_OPT_DNS_SERVERS
                (of_nat (length (dns_servers sub) * 4)) (concat (map le_bytes32 (dns_servers sub))))
         else p5)"

definition dhcp_message_make_offer :: "dhcp_packet \<Rightarrow> dhcp_lease_t \<Rightarrow> dhcp_subnet_t \<Rightarrow> dhcp_packet" where
  "dhcp_message_make_offer discover lease sub =
     (let offer = dhcp_message_init BOOTREPLY (xid discover) (Some (chaddr discover))
      in add_lease_options DHCP_OFFER lease sub
           (offer\<lparr>yiaddr := ip_address lease, siaddr := next_server sub\<rparr>))"

definition dhcp_message_make_ack :: "dhcp_packet \<Rightarrow> dhcp_lease_t \<Rightarrow> dhcp_subnet_t \<Rightarrow> dhcp_packet" where
  "dhcp_message_make_ack request lease sub =
     (let ack = dhcp_message_init BOOTREPLY (xid request) (Some (chaddr request))
      in add_lease_options DHCP_ACK lease sub (ack\<lparr>yiaddr := ip_address lease\<rparr>))"

definition dhcp_message_make_nak :: "dhcp_packet \<Rightarrow> in_addr \<Rightarrow> dhcp_packet" where
  "dhcp_message_make_nak request server_id =
     (let nak = dhcp_message_init BOOTREPLY (xid request) (Some (chaddr request));
          p1 = snd (dhcp_message_add_option nak DHCP_OPT_MESSAGE_TYPE 1 [DHCP_NAK])
      in snd (dhcp_message_add_option_ip p1 DHCP_OPT_SERVER_ID server_id))"

subsection \<open>Specification: the options as a list of tagged values\<close>

type_synonym opt_list = "(u8 \<times> u8 list) list"

definition enc_option :: "u8 \<times> u8 list \<Rightarrow> u8 list" where
  "enc_option x = fst x # of_nat (length (snd x)) # snd x"

definition enc_options :: "opt_list \<Rightarrow> u8 list" where
  "enc_options os = concat (map enc_option os)"

definition option_ok :: "u8 \<times> u8 list \<Rightarrow> bool" where
  "option_ok x \<longleftrightarrow> fst x \<noteq> DHCP_OPT_PAD \<and> fst x \<noteq> DHCP_OPT_END \<and> length (snd x) < 256"

definition has_options :: "dhcp_packet \<Rightarrow> opt_list \<Rightarrow> bool" where
  "has_options packet os \<longleftrightarrow> list_all option_ok os \<and> length (options packet) = OPTIONS_SIZE
     \<and> (\<exists>rest. options packet =
          le_bytes32 (htonl DHCP_MAGIC_COOKIE) @ enc_options os @ DHCP_OPT_END # rest)"

definition opt_data :: "dhcp_packet \<Rightarrow> u8 \<Rightarrow> u8 list option outcome" where
  "opt_data packet code = and_then (dhcp_message_get_option packet code) (\<lambda>r. case r of
     None \<Rightarrow> Returns None
   | Some (off, len) \<Rightarrow> and_then (opt_bytes packet off (unat len)) (\<lambda>b. Returns (Some b)))"

section \<open>Lemmas\<close>

declare opt_end.simps [simp del] opt_find.simps [simp del]

lemma enc_options_simps [simp]:
  "enc_options [] = []" "enc_options (x # os) = fst x # of_nat (length (snd x)) # snd x @ enc_options os"
  "enc_options (os @ os') = enc_options os @ enc_options os'"
  by (simp_all add: enc_options_def enc_option_def)

lemma unat_of_nat_u8: "n < 256 \<Longrightarrow> unat (of_nat n :: u8) = n"
  by (simp add: unat_of_nat take_bit_nat_eq_self)

lemma opt_end_encoded:
  "list_all option_ok os \<Longrightarrow> length pre + length (enc_options os) \<le> 308 \<Longrightarrow>
   opt_end (pre @ enc_options os @ DHCP_OPT_END # rest) (length pre) = length pre + length (enc_options os)"
proof (induction os arbitrary: pre)
  case Nil
  then show ?case by (subst opt_end.simps) (simp add: nth_append)
next
  case (Cons x os)
  let ?pre = "pre @ fst x # of_nat (length (snd x)) # snd x"
  let ?opts = "pre @ enc_options (x # os) @ DHCP_OPT_END # rest"
  have x: "fst x \<noteq> DHCP_OPT_PAD" "fst x \<noteq> DHCP_OPT_END" "unat (of_nat (length (snd x)) :: u8) = length (snd x)"
    using Cons.prems(1) by (simp_all add: option_ok_def unat_of_nat_u8)
  have "opt_end ?opts (length pre) = opt_end ?opts (length pre + 2 + length (snd x))"
    using Cons.prems(2) x by (subst opt_end.simps) (simp add: nth_append)
  also have "\<dots> = opt_end (?pre @ enc_options os @ DHCP_OPT_END # rest) (length ?pre)" by simp
  also have "\<dots> = length ?pre + length (enc_options os)"
    using Cons.prems by (intro Cons.IH) simp_all
  finally show ?case by simp
qed

lemma opt_find_encoded:
  "list_all option_ok os \<Longrightarrow> length pre + length (enc_options os) < OPTIONS_SIZE \<Longrightarrow>
   code \<noteq> DHCP_OPT_PAD \<Longrightarrow> code \<noteq> DHCP_OPT_END \<Longrightarrow>
   (case map_of os code of
      None \<Rightarrow> opt_find (pre @ enc_options os @ DHCP_OPT_END # rest) code (length pre) = Returns None
    | Some d \<Rightarrow> \<exists>off. opt_find (pre @ enc_options os @ DHCP_OPT_END # rest) code (length pre) =
          Returns (Some (off, of_nat (length d))) \<and> length d < 256
        \<and> off + length d \<le> length pre + length (enc_options os)
        \<and> take (length d) (drop off (pre @ enc_options os @ DHCP_OPT_END # rest)) = d)"
proof (induction os arbitrary: pre)
  case Nil
  then show ?case by (subst opt_find.simps) (simp add: nth_append)
next
  case (Cons x os)
  let ?pre = "pre @ fst x # of_nat (length (snd x)) # snd x"
  let ?opts = "pre @ enc_options (x # os) @ DHCP_OPT_END # rest"
  have x: "fst x \<noteq> DHCP_OPT_PAD" "fst x \<noteq> DHCP_OPT_END" "length (snd x) < 256"
    using Cons.prems(1) by (simp_all add: option_ok_def)
  show ?case
  proof (cases "fst x = code")
    case True
    then have "opt_find ?opts code (length pre) = Returns (Some (length pre + 2, of_nat (length (snd x))))"
      using Cons.prems(2) x by (subst opt_find.simps) (simp add: nth_append)
    then show ?thesis using True x by (cases x) simp
  next
    case False
    have "opt_find ?opts code (length pre) = opt_find ?opts code (length pre + 2 + length (snd x))"
      using Cons.prems(2) x False by (subst opt_find.simps) (simp add: nth_append unat_of_nat_u8)
    also have "\<dots> = opt_find (?pre @ enc_options os @ DHCP_OPT_END # rest) code (length ?pre)" by simp
    finally have step: "opt_find ?opts code (length pre) =
      opt_find (?pre @ enc_options os @ DHCP_OPT_END # rest) code (length ?pre)" .
    have os: "map_of (x # os) code = map_of os code" using False by (cases x) simp
    show ?thesis
      using Cons.IH [of ?pre] Cons.prems
      unfolding os step by (auto simp: add.assoc split: option.splits)
  qed
qed

lemma cookie_read: "le_word32 (take 4 (le_bytes32 c @ xs)) = c"
  by simp

lemma has_options_cookie:
  assumes "has_options p os"
  shows "ntohl (le_word32 (take 4 (options p))) = DHCP_MAGIC_COOKIE"
  using assms cookie_read [of "htonl DHCP_MAGIC_COOKIE"] by (auto simp: has_options_def)

lemma has_options_length: "has_options p os \<Longrightarrow> 4 + length (enc_options os) < OPTIONS_SIZE"
  by (auto simp: has_options_def)

lemma opt_data_found:
  assumes "has_options p os" "code \<noteq> DHCP_OPT_PAD" "code \<noteq> DHCP_OPT_END"
  shows "opt_data p code = Returns (map_of os code)"
proof -
  obtain rest where o: "options p = le_bytes32 (htonl DHCP_MAGIC_COOKIE) @ enc_options os @ DHCP_OPT_END # rest"
    and ok: "list_all option_ok os" using assms(1) by (auto simp: has_options_def)
  note f = opt_find_encoded [OF ok, of "le_bytes32 (htonl DHCP_MAGIC_COOKIE)" code rest, OF _ assms(2,3),
      folded o]
  have len: "4 + length (enc_options os) < OPTIONS_SIZE" using has_options_length [OF assms(1)] .
  show ?thesis
  proof (cases "map_of os code")
    case None
    then show ?thesis
      using f len has_options_cookie [OF assms(1)]
      by (simp add: opt_data_def dhcp_message_get_option_def)
  next
    case (Some d)
    then obtain off where "opt_find (options p) code 4 = Returns (Some (off, of_nat (length d)))"
      "length d < 256" "off + length d < OPTIONS_SIZE" "take (length d) (drop off (options p)) = d"
      using f len by auto
    then show ?thesis
      using Some has_options_cookie [OF assms(1)]
      by (simp add: opt_data_def dhcp_message_get_option_def opt_bytes_def unat_of_nat_u8)
  qed
qed

lemma add_option_encoded:
  assumes "has_options p os" "option_ok (code, d)" "4 + length (enc_options os) \<le> 308"
  shows "dhcp_message_add_option p code (of_nat (length d)) d =
     (if 4 + length (enc_options os) + 3 + length d > OPTIONS_SIZE then (-1, p)
      else (0, p\<lparr>options := write_at (4 + length (enc_options os))
             (code # of_nat (length d) # d @ [DHCP_OPT_END]) (options p)\<rparr>))"
    and "4 + length (enc_options os) + 3 + length d \<le> OPTIONS_SIZE \<Longrightarrow>
     has_options (snd (dhcp_message_add_option p code (of_nat (length d)) d)) (os @ [(code, d)])"
proof -
  obtain rest where o: "options p = le_bytes32 (htonl DHCP_MAGIC_COOKIE) @ enc_options os @ DHCP_OPT_END # rest"
    and ok: "list_all option_ok os" and l: "length (options p) = OPTIONS_SIZE"
    using assms(1) by (auto simp: has_options_def)
  have e: "opt_end (options p) 4 = 4 + length (enc_options os)"
    using opt_end_encoded [OF ok, of "le_bytes32 (htonl DHCP_MAGIC_COOKIE)" rest] assms(3) o by simp
  have d: "unat (of_nat (length d) :: u8) = length d"
    using assms(2) by (simp add: option_ok_def unat_of_nat_u8)
  show add: "dhcp_message_add_option p code (of_nat (length d)) d =
     (if 4 + length (enc_options os) + 3 + length d > OPTIONS_SIZE then (-1, p)
      else (0, p\<lparr>options := write_at (4 + length (enc_options os))
             (code # of_nat (length d) # d @ [DHCP_OPT_END]) (options p)\<rparr>))"
    by (simp add: dhcp_message_add_option_def e d)
  assume fits: "4 + length (enc_options os) + 3 + length d \<le> OPTIONS_SIZE"
  have "write_at (4 + length (enc_options os)) (code # of_nat (length d) # d @ [DHCP_OPT_END]) (options p) =
    le_bytes32 (htonl DHCP_MAGIC_COOKIE) @ enc_options (os @ [(code, d)]) @ DHCP_OPT_END
      # drop (2 + length d) rest"
    unfolding o write_at_def by (simp add: drop_Cons')
  moreover have "length (write_at (4 + length (enc_options os))
      (code # of_nat (length d) # d @ [DHCP_OPT_END]) (options p)) = OPTIONS_SIZE"
    using l fits by (simp add: write_at_def)
  ultimately show "has_options (snd (dhcp_message_add_option p code (of_nat (length d)) d)) (os @ [(code, d)])"
    using ok assms(2) add fits by (simp add: has_options_def)
qed

lemma init_has_options: "has_options (dhcp_message_init opc x hw) []"
proof -
  let ?c = "le_bytes32 (htonl DHCP_MAGIC_COOKIE)"
  have "replicate 308 0 = (0 :: u8) # replicate 307 0"
    using replicate_Suc [of 307 "0 :: u8"] by simp
  then have "write_at 0 ?c (replicate OPTIONS_SIZE 0) = ?c @ 0 # replicate 307 0"
    by (simp add: write_at_def)
  then have "(write_at 0 ?c (replicate OPTIONS_SIZE 0))[4 := DHCP_OPT_END] =
      ?c @ DHCP_OPT_END # replicate 307 0"
    using list_update_length [of ?c 0 "replicate 307 0" DHCP_OPT_END] by simp
  then show ?thesis
    by (simp add: has_options_def dhcp_message_init_def packet_zero_def Let_def)
qed

lemma add_option_fields [option_simps]:
  "op (snd (dhcp_message_add_option p c l d)) = op p" "xid (snd (dhcp_message_add_option p c l d)) = xid p"
  "yiaddr (snd (dhcp_message_add_option p c l d)) = yiaddr p"
  "siaddr (snd (dhcp_message_add_option p c l d)) = siaddr p"
  "chaddr (snd (dhcp_message_add_option p c l d)) = chaddr p"
  by (simp_all add: dhcp_message_add_option_def Let_def)

lemma init_fields [option_simps]:
  "op (dhcp_message_init opc x hw) = opc" "xid (dhcp_message_init opc x hw) = x"
  "length c \<ge> 6 \<Longrightarrow> take 6 (chaddr (dhcp_message_init opc x (Some c))) = take 6 c"
  by (simp_all add: dhcp_message_init_def Let_def write_at_def)

text \<open>\<open>n\<close> bytes of options are in use.\<close>

definition has_options_len :: "dhcp_packet \<Rightarrow> opt_list \<Rightarrow> nat \<Rightarrow> bool" where
  "has_options_len p os n \<longleftrightarrow> has_options p os \<and> length (enc_options os) = n"

lemma add_option_step:
  assumes "has_options_len p os n" "code \<noteq> DHCP_OPT_PAD" "code \<noteq> DHCP_OPT_END" "length d = k"
    and "k < 256" "n + k + 7 \<le> 308" "len = of_nat k"
  shows "has_options_len (snd (dhcp_message_add_option p code len d)) (os @ [(code, d)]) (n + k + 2)"
  using add_option_encoded(2) [of p os code d] assms
  by (simp add: has_options_len_def option_ok_def)

lemma length_dns_bytes [simp]: "length (concat (map le_bytes32 xs)) = 4 * length xs"
  by (induction xs) auto

definition lease_options :: "u8 \<Rightarrow> dhcp_lease_t \<Rightarrow> dhcp_subnet_t \<Rightarrow> opt_list" where
  "lease_options type lease sub =
     [(DHCP_OPT_MESSAGE_TYPE, [type]), (DHCP_OPT_SUBNET_MASK, le_bytes32 (netmask sub)),
      (DHCP_OPT_ROUTER, le_bytes32 (router sub)),
      (DHCP_OPT_LEASE_TIME, le_bytes32 (htonl (word_of_int (end_time lease - start_time lease)))),
      (DHCP_OPT_SERVER_ID, le_bytes32 (router sub))] @
     (if dns_servers sub = [] then []
      else [(DHCP_OPT_DNS_SERVERS, concat (map le_bytes32 (dns_servers sub)))])"

lemma add_lease_options_eq:
  assumes "has_options p []" "length (dns_servers sub) \<le> 4"
  shows "has_options (add_lease_options type lease sub p) (lease_options type lease sub)"
proof -
  let ?t = "le_bytes32 (htonl (word_of_int (end_time lease - start_time lease)))"
  define p1 where "p1 = snd (dhcp_message_add_option p DHCP_OPT_MESSAGE_TYPE 1 [type])"
  define p2 where "p2 = snd (dhcp_message_add_option p1 DHCP_OPT_SUBNET_MASK 4 (le_bytes32 (netmask sub)))"
  define p3 where "p3 = snd (dhcp_message_add_option p2 DHCP_OPT_ROUTER 4 (le_bytes32 (router sub)))"
  define p4 where "p4 = snd (dhcp_message_add_option p3 DHCP_OPT_LEASE_TIME 4 ?t)"
  define p5 where "p5 = snd (dhcp_message_add_option p4 DHCP_OPT_SERVER_ID 4 (le_bytes32 (router sub)))"
  have "has_options_len p [] 0" using assms(1) by (simp add: has_options_len_def)
  then have "has_options_len p1 ([] @ [(DHCP_OPT_MESSAGE_TYPE, [type])]) (0 + 1 + 2)"
    unfolding p1_def by (rule add_option_step) simp_all
  then have "has_options_len p2 (([] @ [(DHCP_OPT_MESSAGE_TYPE, [type])])
      @ [(DHCP_OPT_SUBNET_MASK, le_bytes32 (netmask sub))]) (0 + 1 + 2 + 4 + 2)"
    unfolding p2_def by (rule add_option_step) simp_all
  then have "has_options_len p3 ((([] @ [(DHCP_OPT_MESSAGE_TYPE, [type])])
      @ [(DHCP_OPT_SUBNET_MASK, le_bytes32 (netmask sub))])
      @ [(DHCP_OPT_ROUTER, le_bytes32 (router sub))]) (0 + 1 + 2 + 4 + 2 + 4 + 2)"
    unfolding p3_def by (rule add_option_step) simp_all
  then have "has_options_len p4 (((([] @ [(DHCP_OPT_MESSAGE_TYPE, [type])])
      @ [(DHCP_OPT_SUBNET_MASK, le_bytes32 (netmask sub))])
      @ [(DHCP_OPT_ROUTER, le_bytes32 (router sub))])
      @ [(DHCP_OPT_LEASE_TIME, ?t)]) (0 + 1 + 2 + 4 + 2 + 4 + 2 + 4 + 2)"
    unfolding p4_def by (rule add_option_step) simp_all
  then have p5: "has_options_len p5 ((((([] @ [(DHCP_OPT_MESSAGE_TYPE, [type])])
      @ [(DHCP_OPT_SUBNET_MASK, le_bytes32 (netmask sub))])
      @ [(DHCP_OPT_ROUTER, le_bytes32 (router sub))])
      @ [(DHCP_OPT_LEASE_TIME, ?t)])
      @ [(DHCP_OPT_SERVER_ID, le_bytes32 (router sub))]) (0 + 1 + 2 + 4 + 2 + 4 + 2 + 4 + 2 + 4 + 2)"
    unfolding p5_def by (rule add_option_step) simp_all
  have eq: "add_lease_options type lease sub p = (if dns_servers sub \<noteq> []
      then snd (dhcp_message_add_option p5 DHCP_OPT_DNS_SERVERS (of_nat (length (dns_servers sub) * 4))
        (concat (map le_bytes32 (dns_servers sub)))) else p5)"
    by (simp add: add_lease_options_def dhcp_message_add_option_ip_def dhcp_message_add_option32_def
        Let_def p1_def p2_def p3_def p4_def p5_def)
  show ?thesis
  proof (cases "dns_servers sub = []")
    case True
    then show ?thesis unfolding eq using p5 by (simp add: lease_options_def has_options_len_def)
  next
    case False
    have "has_options_len (snd (dhcp_message_add_option p5 DHCP_OPT_DNS_SERVERS
        (of_nat (length (dns_servers sub) * 4)) (concat (map le_bytes32 (dns_servers sub)))))
      ((((((([] @ [(DHCP_OPT_MESSAGE_TYPE, [type])])
      @ [(DHCP_OPT_SUBNET_MASK, le_bytes32 (netmask sub))])
      @ [(DHCP_OPT_ROUTER, le_bytes32 (router sub))])
      @ [(DHCP_OPT_LEASE_TIME, ?t)])
      @ [(DHCP_OPT_SERVER_ID, le_bytes32 (router sub))]))
      @ [(DHCP_OPT_DNS_SERVERS, concat (map le_bytes32 (dns_servers sub)))])
      (0 + 1 + 2 + 4 + 2 + 4 + 2 + 4 + 2 + 4 + 2 + 4 * length (dns_servers sub) + 2)"
      using p5 by (rule add_option_step) (use assms(2) in simp_all)
    then show ?thesis unfolding eq using False by (simp add: lease_options_def has_options_len_def)
  qed
qed

lemma has_options_update [simp]:
  "has_options (p\<lparr>yiaddr := a\<rparr>) os = has_options p os" "has_options (p\<lparr>siaddr := b\<rparr>) os = has_options p os"
  by (simp_all add: has_options_def)

lemma add_lease_options_fields [option_simps]:
  "op (add_lease_options ty l sub p) = op p" "xid (add_lease_options ty l sub p) = xid p"
  "yiaddr (add_lease_options ty l sub p) = yiaddr p" "siaddr (add_lease_options ty l sub p) = siaddr p"
  "chaddr (add_lease_options ty l sub p) = chaddr p"
  by (simp_all add: add_lease_options_def Let_def option_simps dhcp_message_add_option_ip_def
      dhcp_message_add_option32_def)

lemma make_nak_options:
  "has_options (dhcp_message_make_nak req sid)
     [(DHCP_OPT_MESSAGE_TYPE, [DHCP_NAK]), (DHCP_OPT_SERVER_ID, le_bytes32 sid)]"
proof -
  let ?p = "dhcp_message_init BOOTREPLY (xid req) (Some (chaddr req))"
  have "has_options_len ?p [] 0" using init_has_options by (simp add: has_options_len_def)
  then have "has_options_len (snd (dhcp_message_add_option ?p DHCP_OPT_MESSAGE_TYPE 1 [DHCP_NAK]))
      ([] @ [(DHCP_OPT_MESSAGE_TYPE, [DHCP_NAK])]) (0 + 1 + 2)"
    by (rule add_option_step) simp_all
  then have "has_options_len (snd (dhcp_message_add_option
        (snd (dhcp_message_add_option ?p DHCP_OPT_MESSAGE_TYPE 1 [DHCP_NAK])) DHCP_OPT_SERVER_ID 4 (le_bytes32 sid)))
      (([] @ [(DHCP_OPT_MESSAGE_TYPE, [DHCP_NAK])]) @ [(DHCP_OPT_SERVER_ID, le_bytes32 sid)]) (0 + 1 + 2 + 4 + 2)"
    by (rule add_option_step) simp_all
  then show ?thesis
    by (simp add: dhcp_message_make_nak_def dhcp_message_add_option_ip_def Let_def has_options_len_def)
qed

lemma make_nak_yiaddr: "yiaddr (dhcp_message_make_nak req sid) = 0"
  by (simp add: dhcp_message_make_nak_def dhcp_message_add_option_ip_def Let_def option_simps
      dhcp_message_init_def packet_zero_def)

lemma make_ack_options:
  "length (dns_servers sub) \<le> 4 \<Longrightarrow>
   has_options (dhcp_message_make_ack req l sub) (lease_options DHCP_ACK l sub)"
  using add_lease_options_eq init_has_options by (simp add: dhcp_message_make_ack_def Let_def)

lemma opt_find_pads:
  "(\<forall>i. off \<le> i \<and> i < n \<longrightarrow> opts ! i = DHCP_OPT_PAD) \<Longrightarrow> off \<le> n \<Longrightarrow> n < OPTIONS_SIZE \<Longrightarrow>
   opt_find opts code off = opt_find opts code n"
proof (induction "n - off" arbitrary: off)
  case (Suc k)
  then have "opt_find opts code off = opt_find opts code (off + 1)"
    by (subst opt_find.simps) simp
  also have "\<dots> = opt_find opts code n" using Suc by (intro Suc.hyps) simp_all
  finally show ?case .
qed simp

lemma opt_end_stops:
  "list_all option_ok os \<Longrightarrow> length pre + length (enc_options os) = 308 \<Longrightarrow>
   opt_end (pre @ enc_options os @ rest) (length pre) = 308"
proof (induction os arbitrary: pre)
  case Nil
  then show ?case by (subst opt_end.simps) simp
next
  case (Cons x os)
  let ?pre = "pre @ fst x # of_nat (length (snd x)) # snd x"
  let ?opts = "pre @ enc_options (x # os) @ rest"
  have x: "fst x \<noteq> DHCP_OPT_PAD" "fst x \<noteq> DHCP_OPT_END" "unat (of_nat (length (snd x)) :: u8) = length (snd x)"
    using Cons.prems(1) by (simp_all add: option_ok_def unat_of_nat_u8)
  have "opt_end ?opts (length pre) = opt_end ?opts (length pre + 2 + length (snd x))"
    using Cons.prems(2) x by (subst opt_end.simps) (simp add: nth_append)
  also have "\<dots> = opt_end (?pre @ enc_options os @ rest) (length ?pre)" by simp
  also have "\<dots> = 308" using Cons.prems by (intro Cons.IH) simp_all
  finally show ?case .
qed

section \<open>Properties\<close>



text \<open>
  An OFFER and an ACK carry the lease.  With at most four DNS servers (the size of the array), the
  packet is a BOOTREPLY with the transaction id and hardware address of the request, \<open>yiaddr\<close> is the
  leased address, and its options decode to the message type, the mask, the router, the duration
  of the lease as 32 bit seconds in network order, the server id (the router address) and the DNS
  servers; nothing is cut off.
\<close>

lemma replies_carry_lease:
  assumes "length (dns_servers sub) \<le> 4" "length (chaddr req) = 16"
  shows "\<forall>(reply, type) \<in> {(dhcp_message_make_offer req lease sub, DHCP_OFFER),
                          (dhcp_message_make_ack req lease sub, DHCP_ACK)}.
      op reply = BOOTREPLY \<and> xid reply = xid req \<and> take 6 (chaddr reply) = take 6 (chaddr req)
      \<and> yiaddr reply = ip_address lease
      \<and> (\<forall>code. code \<noteq> DHCP_OPT_PAD \<and> code \<noteq> DHCP_OPT_END \<longrightarrow>
           opt_data reply code = Returns (map_of (lease_options type lease sub) code))"
proof -
  have o: "has_options (dhcp_message_make_offer req lease sub) (lease_options DHCP_OFFER lease sub)"
    "has_options (dhcp_message_make_ack req lease sub) (lease_options DHCP_ACK lease sub)"
    using assms(1) add_lease_options_eq init_has_options
    by (simp_all add: dhcp_message_make_offer_def dhcp_message_make_ack_def Let_def)
  show ?thesis
    using opt_data_found [OF o(1)] opt_data_found [OF o(2)] assms(2)
    by (auto simp: dhcp_message_make_offer_def dhcp_message_make_ack_def Let_def option_simps)
qed

text \<open>
  A packet that passes validation can make the server read outside its options field: when the
  options are padding up to the last byte and that byte is a tag, \<open>dhcp_message_get_option\<close> reads the
  length at index 312.  The look-up of the message type, the first thing done with a packet, does so.
\<close>

lemma get_option_reads_past_end:
  assumes "ntohl (le_word32 (take 4 (options p))) = DHCP_MAGIC_COOKIE" "len \<ge> 240"
    and "\<forall>i. 4 \<le> i \<and> i < 311 \<longrightarrow> options p ! i = DHCP_OPT_PAD"
    and "options p ! 311 \<noteq> DHCP_OPT_PAD" "options p ! 311 \<noteq> DHCP_OPT_END"
  shows "dhcp_message_validate p len = 0 \<and> dhcp_message_get_type p = Undefined"
proof -
  have "opt_find (options p) c 4 = Undefined" for c
    using opt_find_pads [OF assms(3), of c] assms(4,5)
    by (simp add: opt_find.simps [of "options p" c 311])
  then show ?thesis
    using assms(1,2)
    by (simp add: dhcp_message_validate_def dhcp_message_get_type_def dhcp_message_get_option_def)
qed

text \<open>
  The search for the end of the options stops at offset 308 without looking at the byte there.  When
  the options end exactly at 308, a one byte option still fits and is appended; the next one
  byte option is written over it, and both calls report success.
\<close>

lemma add_option_overwrites:
  assumes "has_options p os" "4 + length (enc_options os) = 308"
    and "option_ok (a, [x])" "option_ok (b, [y])" "a \<noteq> b" "map_of os a = None"
  shows "\<exists>p1 p2. dhcp_message_add_option p a 1 [x] = (0, p1) \<and> opt_data p1 a = Returns (Some [x])
    \<and> dhcp_message_add_option p1 b 1 [y] = (0, p2) \<and> opt_data p2 a = Returns None"
proof -
  let ?c = "le_bytes32 (htonl DHCP_MAGIC_COOKIE)"
  obtain rest where o: "options p = ?c @ enc_options os @ DHCP_OPT_END # rest"
    and ok: "list_all option_ok os" and l: "length (options p) = OPTIONS_SIZE"
    using assms(1) by (auto simp: has_options_def)
  have r: "length rest = 3" using o l assms(2) by simp
  have e: "opt_end (?c @ enc_options os @ zs) 4 = 308" for zs
    using opt_end_stops [OF ok, of ?c zs] assms(2) by simp
  have w: "write_at 308 [c, 1, z, DHCP_OPT_END] (?c @ enc_options os @ zs) =
      ?c @ enc_options os @ [c, 1, z, DHCP_OPT_END]" if "length zs = 4" for c z zs
    using assms(2) that by (simp add: write_at_def)
  define p1 where "p1 = p\<lparr>options := ?c @ enc_options os @ [a, 1, x, DHCP_OPT_END]\<rparr>"
  define p2 where "p2 = p1\<lparr>options := ?c @ enc_options os @ [b, 1, y, DHCP_OPT_END]\<rparr>"
  have "dhcp_message_add_option p a 1 [x] = (0, p1)"
    using w [of "DHCP_OPT_END # rest" a x] r
    by (simp add: dhcp_message_add_option_def o e p1_def)
  moreover have "dhcp_message_add_option p1 b 1 [y] = (0, p2)"
    using w [of "[a, 1, x, DHCP_OPT_END]" b y] by (simp add: dhcp_message_add_option_def p1_def p2_def e)
  moreover have "has_options p1 (os @ [(a, [x])])" "has_options p2 (os @ [(b, [y])])"
    using ok assms(2-4) by (simp_all add: has_options_def p1_def p2_def)
  then have "opt_data p1 a = Returns (Some [x])" "opt_data p2 a = Returns None"
    using assms(3,5,6) opt_data_found [of p1 _ a] opt_data_found [of p2 _ a]
    by (simp_all add: option_ok_def map_add_def)
  ultimately show ?thesis by blast
qed

end
