(* ===== verification/Server_V4.thy ===== *)
theory Server_V4
  imports Ip_Pool Dhcp_Message
begin

text \<open>
  The packet handler of the DHCPv4 server (src/main.c).  The state is the lease database and the pool
  of subnet 0, the only subnet and pool that \<open>packet_processor\<close> uses; \<open>pool->subnet\<close> is
  \<open>&config.subnets[0]\<close>.  The handler returns what it passes to \<open>sendto\<close>, if anything, and the new
  state.  Logging has no effect on the state and is left out.
\<close>

named_theorems srv_simps \<open>effect of the handler on the server state\<close>

section \<open>Definitions\<close>

record sockaddr_in =
  sin_addr :: in_addr
  sin_port :: u16

record packet_task_t =
  task_packet :: dhcp_packet
  task_len :: int
  client_addr :: sockaddr_in

record server_context_t =
  srv_db :: lease_database_t
  srv_config :: dhcp_config_t
  srv_pool :: ip_pool_t

definition htons :: "u16 \<Rightarrow> u16" where
  "htons x = push_bit 8 x OR drop_bit 8 x"

abbreviation "DHCP_CLIENT_PORT \<equiv> (68 :: u16)"
abbreviation "INADDR_BROADCAST \<equiv> (0xFFFFFFFF :: in_addr)"

text \<open>\<open>memcpy(&a.s_addr, opt, 4)\<close> through the pointer that \<open>dhcp_message_get_option\<close> returns.\<close>

definition opt_addr :: "dhcp_packet \<Rightarrow> u8 \<Rightarrow> in_addr option outcome" where
  "opt_addr req code = and_then (dhcp_message_get_option req code) (\<lambda>r. case r of
     None \<Rightarrow> Returns None
   | Some (off, _) \<Rightarrow> and_then (opt_bytes req off 4) (\<lambda>b. Returns (Some (le_word32 b))))"

text \<open>Where OFFER, ACK to a selecting client, NAK and ACK to a renewing client are sent.\<close>

definition offer_dest :: "packet_task_t \<Rightarrow> sockaddr_in" where
  "offer_dest task =
     (if giaddr (task_packet task) \<noteq> 0
      then \<lparr>sin_addr = giaddr (task_packet task), sin_port = htons DHCP_CLIENT_PORT\<rparr>
      else if (ntohl (sin_addr (client_addr task)) AND 0xFF000000) = 0x7F000000
      then client_addr task
      else \<lparr>sin_addr = INADDR_BROADCAST, sin_port = htons DHCP_CLIENT_PORT\<rparr>)"

definition ack_dest :: "packet_task_t \<Rightarrow> sockaddr_in" where
  "ack_dest task =
     (if giaddr (task_packet task) \<noteq> 0
      then \<lparr>sin_addr = giaddr (task_packet task), sin_port = htons DHCP_CLIENT_PORT\<rparr>
      else if ip_is_loopback (sin_addr (client_addr task)) then client_addr task
      else \<lparr>sin_addr = INADDR_BROADCAST, sin_port = htons DHCP_CLIENT_PORT\<rparr>)"

definition nak_dest :: "packet_task_t \<Rightarrow> sockaddr_in" where
  "nak_dest task =
     (if ip_is_loopback (sin_addr (client_addr task)) then client_addr task
      else \<lparr>sin_addr = INADDR_BROADCAST, sin_port = htons DHCP_CLIENT_PORT\<rparr>)"

definition renew_dest :: "packet_task_t \<Rightarrow> sockaddr_in" where
  "renew_dest task =
     \<lparr>sin_addr = ciaddr (task_packet task),
      sin_port = (if ip_is_loopback (sin_addr (client_addr task))
        then sin_port (client_addr task) else htons DHCP_CLIENT_PORT)\<rparr>"

definition client_mac :: "dhcp_packet \<Rightarrow> mac" where
  "client_mac req = take 6 (chaddr req)"

type_synonym reply = "(dhcp_packet \<times> sockaddr_in) option"

definition handle_discover :: "(in_addr \<Rightarrow> u32 \<Rightarrow> bool) \<Rightarrow> time_t \<Rightarrow> packet_task_t \<Rightarrow> server_context_t
    \<Rightarrow> (reply \<times> server_context_t) outcome" where
  "handle_discover ping now task srv =
     (let req = task_packet task; sub = subnet (srv_pool srv) in
      and_then
        (case lease_db_find_by_mac (srv_db srv) (client_mac req) of
           Some li \<Rightarrow> Returns (Some li, srv_pool srv, srv_db srv)
         | None \<Rightarrow>
             and_then (opt_addr req DHCP_OPT_REQUESTED_IP) (\<lambda>req_ip.
               ip_pool_allocate_and_create_lease ping now (srv_pool srv) (srv_db srv) (client_mac req)
                 (case req_ip of None \<Rightarrow> 0 | Some ip \<Rightarrow> ip) (srv_config srv) (default_lease_time sub)))
        (\<lambda>(lease, pool, db).
           Returns (case lease of
                      None \<Rightarrow> None
                    | Some li \<Rightarrow> Some (dhcp_message_make_offer req (leases db ! li) sub, offer_dest task),
                    srv\<lparr>srv_pool := pool, srv_db := db\<rparr>)))"

definition handle_request :: "time_t \<Rightarrow> packet_task_t \<Rightarrow> server_context_t
    \<Rightarrow> (reply \<times> server_context_t) outcome" where
  "handle_request now task srv =
     (let req = task_packet task; sub = subnet (srv_pool srv) in
      and_then (opt_addr req DHCP_OPT_REQUESTED_IP) (\<lambda>req_ip_opt.
      and_then (opt_addr req DHCP_OPT_SERVER_ID) (\<lambda>sid_opt.
        let req_ip = (case req_ip_opt of None \<Rightarrow> 0 | Some ip \<Rightarrow> ip) in
        if sid_opt \<noteq> None then
          (case lease_db_find_by_ip (srv_db srv) req_ip of
             Some li \<Rightarrow>
               if mac_address (leases (srv_db srv) ! li) = client_mac req then
                 let db = snd (lease_db_renew_lease now (srv_db srv)
                            (ip_address (leases (srv_db srv) ! li)) (default_lease_time sub))
                 in Returns (Some (dhcp_message_make_ack req (leases db ! li) sub, ack_dest task),
                      srv\<lparr>srv_db := db\<rparr>)
               else Returns (Some (dhcp_message_make_nak req (router sub), nak_dest task), srv)
           | None \<Rightarrow> Returns (Some (dhcp_message_make_nak req (router sub), nak_dest task), srv))
        else if ciaddr req \<noteq> 0 then
          (case lease_db_find_by_ip (srv_db srv) (ciaddr req) of
             Some li \<Rightarrow>
               let db = snd (lease_db_renew_lease now (srv_db srv)
                          (ip_address (leases (srv_db srv) ! li)) (default_lease_time sub))
               in Returns (Some (dhcp_message_make_ack req (leases db ! li) sub, renew_dest task),
                    srv\<lparr>srv_db := db\<rparr>)
           | None \<Rightarrow> Returns (None, srv))
        else Returns (None, srv))))"

definition handle_release :: "time_t \<Rightarrow> packet_task_t \<Rightarrow> server_context_t
    \<Rightarrow> (reply \<times> server_context_t) outcome" where
  "handle_release now task srv =
     (let req = task_packet task in
      if ciaddr req \<noteq> 0 then
        let db = snd (lease_db_release_lease now (srv_db srv) (ciaddr req)) in
        and_then (ip_pool_release_ip (srv_pool srv) (ciaddr req)) (\<lambda>(_, pool).
          Returns (None, srv\<lparr>srv_db := db, srv_pool := pool\<rparr>))
      else Returns (None, srv))"

definition packet_processor :: "(in_addr \<Rightarrow> u32 \<Rightarrow> bool) \<Rightarrow> time_t \<Rightarrow> packet_task_t \<Rightarrow> server_context_t
    \<Rightarrow> (reply \<times> server_context_t) outcome" where
  "packet_processor ping now task srv =
     (if dhcp_message_validate (task_packet task) (task_len task) \<noteq> 0 then Returns (None, srv)
      else and_then (dhcp_message_get_type (task_packet task)) (\<lambda>msg_type.
        if msg_type = DHCP_DISCOVER then handle_discover ping now task srv
        else if msg_type = DHCP_REQUEST then handle_request now task srv
        else if msg_type = DHCP_RELEASE then handle_release now task srv
        else Returns (None, srv)))"

text \<open>
  The server with its threads: a worker handles a packet, the timer expires leases, the
  synchronisation thread runs a round.  Packets have the array sizes of \<open>struct dhcp_packet\<close> and the
  64 bit lease id counter has not run out.
\<close>

definition packet_sized :: "dhcp_packet \<Rightarrow> bool" where
  "packet_sized p \<longleftrightarrow> length (chaddr p) = 16 \<and> length (options p) = OPTIONS_SIZE"

inductive server_step :: "server_context_t \<Rightarrow> server_context_t \<Rightarrow> bool" where
  packet: "\<lbrakk>packet_sized (task_packet task); next_lease_id (srv_db srv) + 1 \<noteq> 0;
    packet_processor ping now task srv = Returns (out, srv')\<rbrakk> \<Longrightarrow> server_step srv srv'"
| timer: "lease_db_expire_old_leases_safe now (srv_db srv) = Returns (n, db') \<Longrightarrow>
    server_step srv (srv\<lparr>srv_db := db'\<rparr>)"
| sync_round: "ip_pool_sync_thread_func now sync (srv_pool srv) (srv_db srv) = Returns (Some (sync', pool', db'))
    \<Longrightarrow> server_step srv (srv\<lparr>srv_pool := pool', srv_db := db'\<rparr>)"

text \<open>
  The invariant: a well-formed lease table, a pool with exact counters, and both mutexes free.
\<close>

definition server_inv :: "server_context_t \<Rightarrow> bool" where
  "server_inv srv \<longleftrightarrow> lease_db_wf (srv_db srv) \<and> 0 < next_lease_id (srv_db srv)
     \<and> \<not> db_mutex (srv_db srv) \<and> pool_wf (srv_pool srv) \<and> \<not> mutex (srv_pool srv)"

text \<open>The client that a row of the lease table belongs to.\<close>

definition lease_owner :: "lease_database_t \<Rightarrow> in_addr \<Rightarrow> (u64 \<times> mac) option" where
  "lease_owner db ip = map_option (\<lambda>l. (lease_id l, mac_address l)) (lease_map db ip)"

section \<open>Lemmas\<close>

subsection \<open>The lease table seen by owner\<close>

definition row_key :: "dhcp_lease_t \<Rightarrow> u64 \<times> in_addr \<times> mac" where
  "row_key l = (lease_id l, ip_address l, mac_address l)"

lemma lease_owner_keys:
  "lease_owner db ip = map_of (map (\<lambda>(i, a, m). (a, (i, m))) (map row_key (leases db))) ip"
proof -
  have "map_option (\<lambda>l. (lease_id l, mac_address l)) (map_of (key_rows ip_address ls) ip) =
      map_of (map (\<lambda>(i, a, m). (a, (i, m))) (map row_key ls)) ip" for ls
    by (induction ls) (auto simp: row_key_def)
  then show ?thesis by (simp add: lease_owner_def lease_map_rows)
qed

lemma wf_keys:
  "lease_db_wf db \<longleftrightarrow> length (map row_key (leases db)) \<le> MAX_LEASES
     \<and> distinct (map (fst \<circ> snd) (map row_key (leases db))) \<and> distinct (map fst (map row_key (leases db)))
     \<and> (\<forall>(i, a, m) \<in> set (map row_key (leases db)). 0 < i \<and> i < next_lease_id db \<and> length m = 6)"
  by (auto simp: lease_db_wf_def lease_wf_def row_key_def comp_def)

lemma same_keys:
  assumes "map row_key (leases db') = map row_key (leases db)" "next_lease_id db' = next_lease_id db"
  shows "lease_db_wf db' = lease_db_wf db" "lease_owner db' ip = lease_owner db ip"
  using assms by (simp_all add: wf_keys lease_owner_keys)

lemma expire_in_place_key [simp]: "row_key (expire_in_place now l) = row_key l"
  by (simp add: row_key_def)

lemma sync_pass_keys:
  "sync_pass now ls p = (n, ls', p') \<Longrightarrow> map row_key ls' = map row_key ls"
proof (induction ls arbitrary: p n ls' p')
  case (Cons l ls)
  then show ?case by (fastforce split: prod.splits dest: sync_entry_move)
qed simp

lemma owner_None: "lease_owner db ip = None \<longleftrightarrow> lease_db_find_by_ip db ip = None"
  by (simp add: lease_owner_def lease_map_def)

lemma owner_Some:
  "lease_owner db ip = Some (lid, m) \<longleftrightarrow> (\<exists>i. lease_db_find_by_ip db ip = Some i
     \<and> lease_id (leases db ! i) = lid \<and> mac_address (leases db ! i) = m)"
  by (auto simp: lease_owner_def lease_map_def)

lemma exec_owner:
  assumes "lease_db_wf db" "db_cmd_ok c db" "c \<noteq> Cleanup" "lease_owner db ip = Some x"
  shows "lease_owner (db_exec now c db) ip = Some x"
proof -
  have m: "lease_map (db_exec now c db) = fst (spec_exec now c (lease_map db, next_lease_id db))"
    using db_exec_refines [OF assms(1,2), of now] by (simp add: db_abs_def prod_eq_iff)
  obtain l where l: "lease_map db ip = Some l" "x = (lease_id l, mac_address l)"
    using assms(4) by (auto simp: lease_owner_def)
  then have "ip \<in> ip_address ` set (leases db)"
    using key_rows_None [of ip_address "leases db" ip] by (simp add: lease_map_rows)
  then show ?thesis
    using assms(2,3) l m by (cases c) (auto simp: lease_owner_def lease_simps simp del: db_exec.simps)
qed

lemma exec_next_pos:
  "db_cmd_ok c db \<Longrightarrow> 0 < next_lease_id db \<Longrightarrow> 0 < next_lease_id (db_exec now c db)"
  using db_exec_next_id less_le_trans by blast

lemma exec_mutex: "db_mutex (db_exec now c db) = db_mutex db"
  by (cases c) (simp_all add: lease_db_add_lease_def lease_db_generate_id_def lease_db_release_lease_def
      lease_db_renew_lease_def lease_db_expire_eq lease_db_cleanup_eq split: option.splits)

text \<open>What a server step may do to the database.\<close>

definition db_good :: "lease_database_t \<Rightarrow> bool" where
  "db_good db \<longleftrightarrow> lease_db_wf db \<and> 0 < next_lease_id db \<and> \<not> db_mutex db"

definition db_keeps :: "lease_database_t \<Rightarrow> lease_database_t \<Rightarrow> bool" where
  "db_keeps db db' \<longleftrightarrow> (\<forall>ip x. lease_owner db ip = Some x \<longrightarrow> lease_owner db' ip = Some x)"

lemma db_keeps_refl [simp]: "db_keeps db db"
  by (simp add: db_keeps_def)

lemma exec_good:
  assumes "db_good db" "db_cmd_ok c db" "c \<noteq> Cleanup"
  shows "db_good (db_exec now c db) \<and> db_keeps db (db_exec now c db)"
  using assms db_exec_wf exec_owner exec_next_pos by (simp add: db_good_def db_keeps_def exec_mutex)

lemma alloc_create_db:
  assumes "ip_pool_allocate_and_create_lease ping now p db m req config t = Returns (li, p', db')"
  shows "db' = db \<or> (\<exists>ip. db' = db_exec now (Renew ip t) db)
    \<or> (\<exists>ip. lease_db_find_by_ip db ip = None \<and> db' = db_exec now (Add ip m t) db)"
proof -
  obtain res p1 where a: "ip_pool_allocate ping now p m req config = Returns (res, p1)"
    using assms by (auto simp: ip_pool_allocate_and_create_lease_def and_then_Returns)
  show ?thesis
  proof (cases "lease_db_find_by_ip db (result_ip res)")
    case None
    then have "db' = db \<or> db' = db_exec now (Add (result_ip res) m t) db"
      using assms a
      by (cases "lease_db_add_lease now db (result_ip res) m t")
        (auto simp: ip_pool_allocate_and_create_lease_def Let_def and_then_Returns
          split: option.splits if_splits prod.splits)
    then show ?thesis using None by blast
  next
    case (Some i)
    then have "db' = db \<or> db' = db_exec now (Renew (result_ip res) t) db"
      using assms a
      by (cases "lease_db_renew_lease now db (result_ip res) t")
        (auto simp: ip_pool_allocate_and_create_lease_def Let_def and_then_Returns
          split: if_splits prod.splits)
    then show ?thesis by blast
  qed
qed

lemma alloc_create_good:
  assumes "ip_pool_allocate_and_create_lease ping now p db m req config t = Returns (li, p', db')"
    and "db_good db" "length m = 6" "next_lease_id db + 1 \<noteq> 0"
  shows "db_good db' \<and> db_keeps db db'"
  using alloc_create_db [OF assms(1)]
proof (elim disjE exE conjE)
  fix ip assume *: "lease_db_find_by_ip db ip = None" "db' = db_exec now (Add ip m t) db"
  then have "db_cmd_ok (Add ip m t) db"
    using assms(2-4) by_ip.find_absent [of db ip] by (simp add: db_good_def)
  then show ?thesis using exec_good [OF assms(2), of "Add ip m t" now] * by simp
next
  fix ip assume "db' = db_exec now (Renew ip t) db"
  then show ?thesis using exec_good [OF assms(2), of "Renew ip t"] by simp
qed (use assms(2) in simp)

subsection \<open>Handlers and threads\<close>

lemma client_mac_length: "packet_sized p \<Longrightarrow> length (client_mac p) = 6"
  by (simp add: packet_sized_def client_mac_def)

lemma discover_good:
  assumes "handle_discover ping now task srv = Returns (out, srv')" "packet_sized (task_packet task)"
    and "db_good (srv_db srv)" "pool_inv (srv_pool srv)" "next_lease_id (srv_db srv) + 1 \<noteq> 0"
  shows "db_good (srv_db srv') \<and> db_keeps (srv_db srv) (srv_db srv') \<and> pool_inv (srv_pool srv')"
proof (cases "lease_db_find_by_mac (srv_db srv) (client_mac (task_packet task))")
  case (Some li)
  then show ?thesis using assms by (auto simp: handle_discover_def)
next
  case None
  then obtain r li pool db where
    c: "ip_pool_allocate_and_create_lease ping now (srv_pool srv) (srv_db srv) (client_mac (task_packet task))
          r (srv_config srv) (default_lease_time (subnet (srv_pool srv))) = Returns (li, pool, db)"
    and s: "srv_pool srv' = pool" "srv_db srv' = db"
    using assms(1) by (auto simp: handle_discover_def Let_def and_then_Returns)
  then show ?thesis
    using alloc_create_good [OF c assms(3) client_mac_length [OF assms(2)] assms(5)]
      allocate_lease_inv [OF c assms(4)] by simp
qed

lemma renew_good:
  "db_good db \<Longrightarrow> db_good (snd (lease_db_renew_lease now db ip t))"
  "db_good db \<Longrightarrow> db_keeps db (snd (lease_db_renew_lease now db ip t))"
  using exec_good [of db "Renew ip t" now] by simp_all

lemma request_good:
  assumes "handle_request now task srv = Returns (out, srv')" "db_good (srv_db srv)"
  shows "db_good (srv_db srv') \<and> db_keeps (srv_db srv) (srv_db srv') \<and> srv_pool srv' = srv_pool srv"
  using assms renew_good [OF assms(2)]
  by (auto simp: handle_request_def Let_def and_then_Returns split: if_splits option.splits)

lemma release_good:
  assumes "handle_release now task srv = Returns (out, srv')" "db_good (srv_db srv)" "pool_inv (srv_pool srv)"
  shows "db_good (srv_db srv') \<and> db_keeps (srv_db srv) (srv_db srv') \<and> pool_inv (srv_pool srv')"
proof (cases "ciaddr (task_packet task) = 0")
  case True
  then show ?thesis using assms by (simp add: handle_release_def)
next
  case False
  let ?ip = "ciaddr (task_packet task)"
  obtain r pool where p: "ip_pool_release_ip (srv_pool srv) ?ip = Returns (r, pool)" "srv_pool srv' = pool"
    and d: "srv_db srv' = db_exec now (Release ?ip) (srv_db srv)"
    using assms(1) False by (auto simp: handle_release_def Let_def and_then_Returns)
  then show ?thesis
    using exec_good [OF assms(2), of "Release ?ip" now] release_inv [OF p(1) assms(3)] by simp
qed

lemma processor_good:
  assumes "packet_processor ping now task srv = Returns (out, srv')" "packet_sized (task_packet task)"
    and "db_good (srv_db srv)" "pool_inv (srv_pool srv)" "next_lease_id (srv_db srv) + 1 \<noteq> 0"
  shows "db_good (srv_db srv') \<and> db_keeps (srv_db srv) (srv_db srv') \<and> pool_inv (srv_pool srv')"
  using assms discover_good [of ping now task srv out srv'] request_good [of now task srv out srv']
    release_good [of now task srv out srv']
  by (auto simp: packet_processor_def and_then_Returns split: if_splits)

lemma sync_good:
  assumes "ip_pool_sync_thread_func now sync pool db = Returns (Some (sync', pool', db'))"
    and "db_good db" "pool_inv pool"
  shows "db_good db' \<and> db_keeps db db' \<and> pool_inv pool'"
proof -
  obtain n ls p1 where s: "sync_pass now (leases db) (pool\<lparr>mutex := True\<rparr>) = (n, ls, p1)"
    and r: "pool' = pool_unlock p1" "db' = db\<lparr>leases := ls\<rparr>"
    using assms by (auto simp: ip_pool_sync_thread_func_def lock_free split: if_splits prod.splits)
  have "map row_key (leases db') = map row_key (leases db)" "next_lease_id db' = next_lease_id db"
    using sync_pass_keys [OF s] r by simp_all
  then show ?thesis
    using same_keys [of db' db] sync_pass_inv [OF s] r assms(2,3)
    by (simp add: db_good_def db_keeps_def)
qed

lemma server_step_good:
  "server_step srv srv' \<Longrightarrow> db_good (srv_db srv) \<and> pool_inv (srv_pool srv) \<Longrightarrow>
   db_good (srv_db srv') \<and> db_keeps (srv_db srv) (srv_db srv') \<and> pool_inv (srv_pool srv')"
proof (induction rule: server_step.induct)
  case (packet task srv ping now out srv')
  then show ?case using processor_good by blast
next
  case (timer now srv n db')
  then have "db' = db_exec now Expire (srv_db srv)"
    using safe_update(3) [of "srv_db srv" now] by (auto simp: db_good_def lease_db_expire_eq)
  then show ?case using timer exec_good [of "srv_db srv" Expire now] by simp
next
  case (sync_round now sync srv sync' pool' db')
  then show ?case using sync_good by auto
qed

lemma server_inv_good: "server_inv srv \<longleftrightarrow> db_good (srv_db srv) \<and> pool_inv (srv_pool srv)"
  by (auto simp: server_inv_def db_good_def)

interpretation server_run: invariant_system server_inv server_step server_inv
  by unfold_locales (use server_step_good server_inv_good in blast)+

lemma server_steps_keep:
  "server_step\<^sup>*\<^sup>* srv srv' \<Longrightarrow> server_inv srv \<Longrightarrow> db_keeps (srv_db srv) (srv_db srv')"
proof (induction rule: rtranclp_induct)
  case (step s1 s2)
  then have "server_inv s1" using server_run.steps_inv by blast
  then have "db_keeps (srv_db s1) (srv_db s2)"
    using server_step_good [OF step(2)] by (simp add: server_inv_good)
  then show ?case using step by (simp add: db_keeps_def)
qed simp

subsection \<open>Reading a request\<close>

lemma found_option:
  assumes "opt_data p code = Returns (Some d)" "length (options p) = OPTIONS_SIZE"
  shows "\<exists>off len. dhcp_message_get_option p code = Returns (Some (off, len)) \<and> unat len = length d
    \<and> off + length d \<le> OPTIONS_SIZE \<and> take (length d) (drop off (options p)) = d"
proof -
  obtain r where r: "dhcp_message_get_option p code = Returns r" and
    c: "(case r of None \<Rightarrow> Returns None
      | Some (off, len) \<Rightarrow> and_then (opt_bytes p off (unat len)) (\<lambda>b. Returns (Some b))) = Returns (Some d)"
    using assms(1) by (auto simp: opt_data_def and_then_Returns)
  then obtain off len where o: "r = Some (off, len)" by (cases r) auto
  then have "opt_bytes p off (unat len) = Returns d" using c by (simp add: and_then_Returns)
  then have "off + unat len \<le> OPTIONS_SIZE" "take (unat len) (drop off (options p)) = d"
    by (simp_all add: opt_bytes_def split: if_splits)
  moreover from this assms(2) have "unat len = length d" by auto
  ultimately show ?thesis using r o by auto
qed

lemma opt_addr_found:
  assumes "has_options p os" "map_of os code = Some (le_bytes32 ip)" "code \<noteq> DHCP_OPT_PAD" "code \<noteq> DHCP_OPT_END"
  shows "opt_addr p code = Returns (Some ip)"
proof -
  have "opt_data p code = Returns (Some (le_bytes32 ip))"
    using opt_data_found [OF assms(1,3,4)] assms(2) by simp
  then show ?thesis
    using found_option [of p code "le_bytes32 ip"] assms(1)
    by (auto simp: opt_addr_def opt_bytes_def has_options_def)
qed

lemma opt_addr_none:
  assumes "has_options p os" "map_of os code = None" "code \<noteq> DHCP_OPT_PAD" "code \<noteq> DHCP_OPT_END"
  shows "opt_addr p code = Returns None"
  using opt_data_found [OF assms(1,3,4)] assms(2)
  by (auto simp: opt_addr_def opt_data_def and_then_Returns split: option.splits)

lemma get_type_found:
  assumes "has_options p os" "map_of os DHCP_OPT_MESSAGE_TYPE = Some [t]"
  shows "dhcp_message_get_type p = Returns t"
proof -
  have "opt_data p DHCP_OPT_MESSAGE_TYPE = Returns (Some [t])"
    using opt_data_found [OF assms(1), of DHCP_OPT_MESSAGE_TYPE] assms(2) by simp
  then show ?thesis
    using found_option [of p DHCP_OPT_MESSAGE_TYPE "[t]"] assms(1)
    by (auto simp: dhcp_message_get_type_def opt_bytes_def has_options_def)
qed

lemma make_ack_type:
  "length (dns_servers sub) \<le> 4 \<Longrightarrow> dhcp_message_get_type (dhcp_message_make_ack req l sub) = Returns DHCP_ACK"
  using get_type_found [OF make_ack_options] by (simp add: lease_options_def)

lemma make_ack_yiaddr: "yiaddr (dhcp_message_make_ack req l sub) = ip_address l"
  by (simp add: dhcp_message_make_ack_def option_simps Let_def)

lemma validate_ok: "has_options p os \<Longrightarrow> 240 \<le> len \<Longrightarrow> dhcp_message_validate p len = 0"
  using has_options_cookie by (simp add: dhcp_message_validate_def)

text \<open>A DISCOVER, and a REQUEST that answers an OFFER (it carries a server id and the address).\<close>

definition discover_task :: "packet_task_t \<Rightarrow> mac \<Rightarrow> bool" where
  "discover_task task m \<longleftrightarrow> 240 \<le> task_len task \<and> client_mac (task_packet task) = m
     \<and> length (chaddr (task_packet task)) = 16
     \<and> (\<exists>os. has_options (task_packet task) os \<and> map_of os DHCP_OPT_MESSAGE_TYPE = Some [DHCP_DISCOVER]
          \<and> (map_of os DHCP_OPT_REQUESTED_IP = None))"

definition selecting_task :: "packet_task_t \<Rightarrow> mac \<Rightarrow> in_addr \<Rightarrow> bool" where
  "selecting_task task m ip \<longleftrightarrow> 240 \<le> task_len task \<and> client_mac (task_packet task) = m
     \<and> length (chaddr (task_packet task)) = 16
     \<and> (\<exists>os sid. has_options (task_packet task) os \<and> map_of os DHCP_OPT_MESSAGE_TYPE = Some [DHCP_REQUEST]
          \<and> map_of os DHCP_OPT_REQUESTED_IP = Some (le_bytes32 ip)
          \<and> map_of os DHCP_OPT_SERVER_ID = Some (le_bytes32 sid))"

lemma discover_processed:
  assumes "discover_task task m"
  shows "packet_processor ping now task srv = handle_discover ping now task srv"
    "opt_addr (task_packet task) DHCP_OPT_REQUESTED_IP = Returns None"
  using assms validate_ok get_type_found opt_addr_none
  by (fastforce simp: discover_task_def packet_processor_def)+

lemma selecting_processed:
  assumes "selecting_task task m ip"
  shows "packet_processor ping now task srv = handle_request now task srv"
    "opt_addr (task_packet task) DHCP_OPT_REQUESTED_IP = Returns (Some ip)"
    "\<exists>sid. opt_addr (task_packet task) DHCP_OPT_SERVER_ID = Returns (Some sid)"
  using assms validate_ok get_type_found opt_addr_found
  by (fastforce simp: selecting_task_def packet_processor_def)+

lemma selecting_result:
  assumes "selecting_task task m ip"
  shows "packet_processor ping now task srv = Returns
    (case lease_owner (srv_db srv) ip of
       Some (lid, m') \<Rightarrow>
         if m' = m then
           let l = renewed_lease now (default_lease_time (subnet (srv_pool srv))) (the (lease_map (srv_db srv) ip))
           in (Some (dhcp_message_make_ack (task_packet task) l (subnet (srv_pool srv)), ack_dest task),
               srv\<lparr>srv_db := db_exec now (Renew ip (default_lease_time (subnet (srv_pool srv)))) (srv_db srv)\<rparr>)
         else (Some (dhcp_message_make_nak (task_packet task) (router (subnet (srv_pool srv))), nak_dest task), srv)
     | None \<Rightarrow> (Some (dhcp_message_make_nak (task_packet task) (router (subnet (srv_pool srv))), nak_dest task), srv))"
proof -
  obtain sid where o: "opt_addr (task_packet task) DHCP_OPT_REQUESTED_IP = Returns (Some ip)"
    "opt_addr (task_packet task) DHCP_OPT_SERVER_ID = Returns (Some sid)"
    using selecting_processed [OF assms] by blast
  have m: "client_mac (task_packet task) = m" using assms by (simp add: selecting_task_def)
  show ?thesis
  proof (cases "lease_db_find_by_ip (srv_db srv) ip")
    case None
    then show ?thesis
      using o owner_None [of "srv_db srv" ip]
      by (simp add: selecting_processed(1) [OF assms] handle_request_def)
  next
    case (Some i)
    then show ?thesis
      using o m by_ip.find_first [OF Some]
      by (simp add: selecting_processed(1) [OF assms] handle_request_def lease_owner_def lease_map_def
          lease_db_renew_lease_def Let_def)
  qed
qed

lemma discover_new:
  assumes "discover_task task m" "\<not> mutex (srv_pool srv)" "lease_db_find_by_mac (srv_db srv) m = None"
    and "host_of (srv_pool srv) m = None" "own_entry (srv_pool srv) m = None"
    and "alloc_candidate (srv_pool srv) 0 = Some i" "entry_ip (entries (srv_pool srv) ! i) = ip"
    and "\<not> answers ping (srv_config srv) ip" "lease_db_find_by_ip (srv_db srv) ip = None"
    and "length (leases (srv_db srv)) < MAX_LEASES"
  shows "packet_processor ping now task srv = Returns
    (Some (dhcp_message_make_offer (task_packet task) (new_lease now (next_lease_id (srv_db srv)) ip m
        (default_lease_time (subnet (srv_pool srv)))) (subnet (srv_pool srv)), offer_dest task),
     srv\<lparr>srv_pool := set_lease_ref ip (next_lease_id (srv_db srv))
           (pool_move i (taken now m (entries (srv_pool srv) ! i)) (srv_pool srv)),
         srv_db := db_exec now (Add ip m (default_lease_time (subnet (srv_pool srv)))) (srv_db srv)\<rparr>)"
proof -
  have m: "client_mac (task_packet task) = m" using assms(1) by (simp add: discover_task_def)
  have "ip_pool_allocate ping now (srv_pool srv) m 0 (srv_config srv) =
      Returns (alloc_ok ip, pool_move i (taken now m (entries (srv_pool srv) ! i)) (srv_pool srv))"
    using assms by (simp add: allocate_eq)
  then show ?thesis
    using assms m
    by (simp add: discover_processed [OF assms(1)] handle_discover_def Let_def lease_simps
        ip_pool_allocate_and_create_lease_def alloc_ok_def lease_db_add_lease_def lease_db_generate_id_def)
qed

lemma own_entry_lease_ref: "own_entry (set_lease_ref ip lid p) m = own_entry p m"
  by (auto simp: own_entry_def set_lease_ref_def intro!: find_idx_update_same split: option.splits)

lemma own_entry_taken:
  assumes "own_entry p m = None" "i < length (entries p)"
  shows "own_entry (pool_move i (taken now m (entries p ! i)) p) m = Some i"
  unfolding own_entry_def pool_move_fields
proof (rule find_idx_first)
  fix j assume "j < i"
  then show "\<not> (entry_state ((entries p)[i := taken now m (entries p ! i)] ! j) = IP_STATE_ALLOCATED
      \<and> entry_mac ((entries p)[i := taken now m (entries p ! i)] ! j) = m)"
    using assms by (auto simp: own_entry_def find_idx_None)
qed (use assms in auto)

lemma add_lease_map:
  assumes "lease_db_wf db" "db_cmd_ok (Add ip m t) db" "length (leases db) < MAX_LEASES"
  shows "lease_map (db_exec now (Add ip m t) db) ip = Some (new_lease now (next_lease_id db) ip m t)"
proof -
  have "card (dom (lease_map db)) < MAX_LEASES"
    using assms(1,3) card_key_rows [of ip_address "leases db"] by (simp add: lease_map_rows lease_db_wf_def)
  then show ?thesis
    using db_exec_refines [OF assms(1,2), of now] by (simp add: db_abs_def del: db_exec.simps)
qed

lemma renew_lease_map:
  assumes "lease_db_wf db" "lease_map db ip = Some l"
  shows "lease_map (db_exec now (Renew ip t) db) ip = Some (renewed_lease now t l)"
  using db_exec_refines [OF assms(1), of "Renew ip t" now] assms(2)
  by (simp add: db_abs_def del: db_exec.simps)

text \<open>An acknowledged REQUEST of the owner of a row.\<close>

lemma selecting_ack:
  fixes now :: time_t
  assumes "selecting_task r m ip" "server_inv srv" "lease_map (srv_db srv) ip = Some l" "mac_address l = m"
  defines "t \<equiv> default_lease_time (subnet (srv_pool srv))"
  defines "srv' \<equiv> srv\<lparr>srv_db := db_exec now (Renew ip t) (srv_db srv)\<rparr>"
  shows "packet_processor ping now r srv = Returns (Some (dhcp_message_make_ack (task_packet r)
      (renewed_lease now t l) (subnet (srv_pool srv)), ack_dest r), srv')"
    and "lease_map (srv_db srv') ip = Some (renewed_lease now t l)" and "server_inv srv'"
proof -
  have "lease_owner (srv_db srv) ip = Some (lease_id l, m)"
    using assms(3,4) by (simp add: lease_owner_def)
  then show "packet_processor ping now r srv = Returns (Some (dhcp_message_make_ack (task_packet r)
      (renewed_lease now t l) (subnet (srv_pool srv)), ack_dest r), srv')"
    using selecting_result [OF assms(1), of ping now srv] assms(3)
    by (simp add: srv'_def t_def Let_def del: db_exec.simps)
  show "lease_map (srv_db srv') ip = Some (renewed_lease now t l)"
    using renew_lease_map assms(2,3) by (simp add: srv'_def server_inv_def del: db_exec.simps)
  show "server_inv srv'"
    using exec_good [of "srv_db srv" "Renew ip t" now] assms(2)
    by (simp add: server_inv_good srv'_def del: db_exec.simps)
qed

lemma subnet_lease_ref [simp]: "subnet (set_lease_ref ip lid p) = subnet p"
  by (simp add: set_lease_ref_def split: option.splits)

lemma entry_ip_lease_ref: "map entry_ip (entries (set_lease_ref ip lid p)) = map entry_ip (entries p)"
  by (auto simp: set_lease_ref_def map_update_same by_entry.find_bound split: option.splits)

lemma renew_macs: "map mac_address (leases (snd (lease_db_renew_lease now db ip t))) = map mac_address (leases db)"
  by (auto simp: lease_db_renew_lease_def map_update_same by_ip.find_bound lease_simps split: option.splits)

text \<open>
  A client whose pool entry has an address that the lease table gives to another client.
\<close>

definition stuck_client :: "server_context_t \<Rightarrow> in_addr \<Rightarrow> mac \<Rightarrow> bool" where
  "stuck_client srv ip m \<longleftrightarrow> lease_db_find_by_mac (srv_db srv) m = None \<and> host_of (srv_pool srv) m = None
     \<and> (\<exists>i. own_entry (srv_pool srv) m = Some i \<and> entry_ip (entries (srv_pool srv) ! i) = ip)
     \<and> (\<exists>lid m'. lease_owner (srv_db srv) ip = Some (lid, m') \<and> m' \<noteq> m)"

lemma discover_stuck:
  assumes "discover_task task m" "server_inv srv" "stuck_client srv ip m"
  shows "\<exists>offer srv'. packet_processor ping now task srv = Returns (Some (offer, offer_dest task), srv')
    \<and> yiaddr offer = ip \<and> server_inv srv' \<and> stuck_client srv' ip m"
proof -
  let ?t = "default_lease_time (subnet (srv_pool srv))"
  have m: "client_mac (task_packet task) = m" using assms(1) by (simp add: discover_task_def)
  obtain i li where i: "own_entry (srv_pool srv) m = Some i" "entry_ip (entries (srv_pool srv) ! i) = ip"
    and h: "host_of (srv_pool srv) m = None" "lease_db_find_by_mac (srv_db srv) m = None"
    and li: "lease_db_find_by_ip (srv_db srv) ip = Some li"
    using assms(3) by (auto simp: stuck_client_def owner_Some)
  define db' where "db' = snd (lease_db_renew_lease now (srv_db srv) ip ?t)"
  define pool' where "pool' = set_lease_ref ip (lease_id (leases db' ! li)) (srv_pool srv)"
  define srv' where "srv' = srv\<lparr>srv_pool := pool', srv_db := db'\<rparr>"
  have "ip_pool_allocate ping now (srv_pool srv) m 0 (srv_config srv) = Returns (alloc_ok ip, srv_pool srv)"
    using assms(2) i h by (simp add: allocate_eq server_inv_def)
  then have r: "packet_processor ping now task srv =
      Returns (Some (dhcp_message_make_offer (task_packet task) (leases db' ! li) (subnet (srv_pool srv)),
        offer_dest task), srv')"
    using h m li
    by (simp add: discover_processed [OF assms(1)] handle_discover_def Let_def db'_def pool'_def srv'_def
        ip_pool_allocate_and_create_lease_def alloc_ok_def lease_db_renew_lease_def)
  have good: "db_good db'" "db_keeps (srv_db srv) db'" "pool_inv pool'"
    using renew_good [of "srv_db srv"] set_lease_ref_wf assms(2)
    by (simp_all add: server_inv_good db'_def pool'_def)
  have "lease_db_find_by_mac db' m = None"
    using by_mac.find_by_rows [of db' "srv_db srv" m] renew_macs h by (simp add: db'_def)
  moreover have "own_entry pool' m = Some i" "host_of pool' m = None"
    using i h by (simp_all add: pool'_def own_entry_lease_ref host_of_def)
  moreover have "entry_ip (entries pool' ! i) = ip"
  proof -
    have b: "i < length (entries (srv_pool srv))"
      using i(1) by (auto simp: own_entry_def dest: find_idx_SomeD)
    have e: "map entry_ip (entries pool') = map entry_ip (entries (srv_pool srv))"
      by (simp add: pool'_def entry_ip_lease_ref)
    then have "length (entries pool') = length (entries (srv_pool srv))" by (rule map_eq_imp_length_eq)
    then show ?thesis using b i(2) arg_cong [OF e, of "\<lambda>xs. xs ! i"] by simp
  qed
  ultimately have "stuck_client srv' ip m"
    using assms(3) good(2) by (auto simp: stuck_client_def srv'_def db_keeps_def)
  moreover have "yiaddr (dhcp_message_make_offer (task_packet task) (leases db' ! li) (subnet (srv_pool srv))) = ip"
    using li by_ip.find_first [OF li]
    by (simp add: dhcp_message_make_offer_def Let_def option_simps db'_def lease_db_renew_lease_def lease_simps)
  ultimately show ?thesis
    using r good by (auto simp: server_inv_good srv'_def)
qed

section \<open>Properties\<close>

text \<open>Packets and states for the examples: a client on the small subnet of the pool examples.\<close>

definition packet_with :: "mac \<Rightarrow> opt_list \<Rightarrow> dhcp_packet" where
  "packet_with m os = packet_zero\<lparr>chaddr := m @ replicate 10 0,
     options := le_bytes32 (htonl DHCP_MAGIC_COOKIE) @ enc_options os @ DHCP_OPT_END
       # replicate (307 - length (enc_options os)) 0\<rparr>"

definition task_with :: "mac \<Rightarrow> opt_list \<Rightarrow> packet_task_t" where
  "task_with m os = \<lparr>task_packet = packet_with m os, task_len = 548,
     client_addr = \<lparr>sin_addr = 0, sin_port = htons DHCP_CLIENT_PORT\<rparr>\<rparr>"

definition discover_of :: "mac \<Rightarrow> packet_task_t" where
  "discover_of m = task_with m [(DHCP_OPT_MESSAGE_TYPE, [DHCP_DISCOVER])]"

definition request_of :: "mac \<Rightarrow> in_addr \<Rightarrow> packet_task_t" where
  "request_of m ip = task_with m [(DHCP_OPT_MESSAGE_TYPE, [DHCP_REQUEST]),
     (DHCP_OPT_REQUESTED_IP, le_bytes32 ip), (DHCP_OPT_SERVER_ID, le_bytes32 0x0100000A)]"

definition small_server :: server_context_t where
  "small_server = \<lparr>srv_db = db_example, srv_config = small_config, srv_pool = small_ip_pool\<rparr>"

lemma packet_with_options:
  "list_all option_ok os \<Longrightarrow> length (enc_options os) \<le> 307 \<Longrightarrow> has_options (packet_with m os) os"
  by (auto simp: has_options_def packet_with_def)

lemma packet_with_mac: "length m = 6 \<Longrightarrow> client_mac (packet_with m os) = m \<and> length (chaddr (packet_with m os)) = 16"
  by (simp add: client_mac_def packet_with_def)

lemma discover_of_task: "length m = 6 \<Longrightarrow> discover_task (discover_of m) m"
  using packet_with_mac packet_with_options [of "[(DHCP_OPT_MESSAGE_TYPE, [DHCP_DISCOVER])]" m]
  by (auto simp: discover_task_def discover_of_def task_with_def option_ok_def
      intro!: exI [of _ "[(DHCP_OPT_MESSAGE_TYPE, [DHCP_DISCOVER])]"])

lemma request_of_task: "length m = 6 \<Longrightarrow> selecting_task (request_of m ip) m ip"
  using packet_with_mac packet_with_options [of "[(DHCP_OPT_MESSAGE_TYPE, [DHCP_REQUEST]),
     (DHCP_OPT_REQUESTED_IP, le_bytes32 ip), (DHCP_OPT_SERVER_ID, le_bytes32 0x0100000A)]" m]
  by (auto simp: selecting_task_def request_of_def task_with_def option_ok_def
      intro!: exI [of _ "[(DHCP_OPT_MESSAGE_TYPE, [DHCP_REQUEST]),
     (DHCP_OPT_REQUESTED_IP, le_bytes32 ip), (DHCP_OPT_SERVER_ID, le_bytes32 0x0100000A)]"])

lemma small_server_inv: "server_inv small_server"
  using small_pool_inv db_example_wf
  by (simp add: server_inv_def small_server_def) (simp add: db_example_def lease_db_init_def db_zero_def)



lemma discover_then_request:
  assumes "server_inv srv" "discover_task d m" "lease_db_find_by_mac (srv_db srv) m = None"
    and "host_of (srv_pool srv) m = None" "own_entry (srv_pool srv) m = None"
    and "alloc_candidate (srv_pool srv) 0 = Some i" "entry_ip (entries (srv_pool srv) ! i) = ip"
    and "\<not> answers ping (srv_config srv) ip" "lease_db_find_by_ip (srv_db srv) ip = None"
    and "length (leases (srv_db srv)) < MAX_LEASES" "next_lease_id (srv_db srv) + 1 \<noteq> 0"
    and "selecting_task r m ip" "length m = 6"
  shows "\<exists>offer srv1 ack srv2 l1 l. packet_processor ping ta d srv = Returns (Some (offer, offer_dest d), srv1)
    \<and> offer = dhcp_message_make_offer (task_packet d) l1 (subnet (srv_pool srv)) \<and> ip_address l1 = ip
    \<and> yiaddr offer = ip \<and> packet_processor ping tb r srv1 = Returns (Some (ack, ack_dest r), srv2)
    \<and> ack = dhcp_message_make_ack (task_packet r) l (subnet (srv_pool srv)) \<and> yiaddr ack = ip
    \<and> lease_map (srv_db srv2) ip = Some l \<and> mac_address l = m \<and> lease_state l = LEASE_STATE_ACTIVE
    \<and> end_time l = tb + uint (default_lease_time (subnet (srv_pool srv)))
    \<and> own_entry (srv_pool srv2) m = Some i \<and> server_inv srv2"
proof -
  let ?t = "default_lease_time (subnet (srv_pool srv))" and ?n = "next_lease_id (srv_db srv)"
  define pool1 where "pool1 = set_lease_ref ip ?n
    (pool_move i (taken ta m (entries (srv_pool srv) ! i)) (srv_pool srv))"
  define srv1 where "srv1 = srv\<lparr>srv_pool := pool1, srv_db := db_exec ta (Add ip m ?t) (srv_db srv)\<rparr>"
  define l1 where "l1 = new_lease ta ?n ip m ?t"
  have free: "\<not> mutex (srv_pool srv)" and wf: "lease_db_wf (srv_db srv)" "0 < ?n"
    using assms(1) by (simp_all add: server_inv_def)
  have p1: "packet_processor ping ta d srv = Returns
      (Some (dhcp_message_make_offer (task_packet d) l1 (subnet (srv_pool srv)), offer_dest d), srv1)"
    using discover_new [OF assms(2) free assms(3-10)] by (simp add: l1_def srv1_def pool1_def)
  have "packet_sized (task_packet d)"
    using assms(2) by (auto simp: discover_task_def packet_sized_def has_options_def)
  then have inv1: "server_inv srv1"
    using server_run.step_inv [OF assms(1) packet [OF _ assms(11) p1]] by blast
  have "db_cmd_ok (Add ip m ?t) (srv_db srv)"
    using by_ip.find_absent [of "srv_db srv" ip] assms(9,11,13) wf by simp
  then have l1: "lease_map (srv_db srv1) ip = Some l1" "mac_address l1 = m"
    using add_lease_map [OF wf(1) _ assms(10)] by (simp_all add: srv1_def l1_def lease_simps del: db_exec.simps)
  have sub: "subnet (srv_pool srv1) = subnet (srv_pool srv)" by (simp add: srv1_def pool1_def)
  have own: "own_entry (srv_pool srv1) m = Some i"
    using own_entry_taken [OF assms(5)] alloc_candidate_available [OF assms(6)]
    by (simp add: srv1_def pool1_def own_entry_lease_ref)
  have "\<exists>ack srv2 l. packet_processor ping tb r srv1 = Returns (Some (ack, ack_dest r), srv2)
      \<and> ack = dhcp_message_make_ack (task_packet r) l (subnet (srv_pool srv)) \<and> yiaddr ack = ip
      \<and> lease_map (srv_db srv2) ip = Some l \<and> mac_address l = m \<and> lease_state l = LEASE_STATE_ACTIVE
      \<and> end_time l = tb + uint ?t \<and> own_entry (srv_pool srv2) m = Some i \<and> server_inv srv2"
    using selecting_ack(1) [OF assms(12) inv1 l1, of ping tb]
      selecting_ack(2,3) [OF assms(12) inv1 l1, of tb] own
    unfolding sub
    by (intro exI conjI) (auto simp: l1_def lease_simps renewed_lease_def dhcp_message_make_ack_def option_simps Let_def
        simp del: db_exec.simps)
  moreover have "ip_address l1 = ip" by (simp add: l1_def lease_simps)
  moreover from this have "yiaddr (dhcp_message_make_offer (task_packet d) l1 (subnet (srv_pool srv))) = ip"
    by (simp add: dhcp_message_make_offer_def option_simps Let_def)
  ultimately show ?thesis using p1 by blast
qed



text \<open>
  C6: A REQUEST that names a server and an address is acknowledged exactly for the client that the
  lease table has for this address.  The reply is an ACK with that address in \<open>yiaddr\<close> when the row
  of the address has the client's hardware address, and a NAK with \<open>yiaddr\<close> 0 and an unchanged
  server otherwise.
\<close>

theorem selecting_ack_iff_owner:
  assumes "selecting_task task m ip" "length (dns_servers (subnet (srv_pool srv))) \<le> 4"
  shows "\<exists>reply dest srv'. packet_processor ping now task srv = Returns (Some (reply, dest), srv')
    \<and> (if \<exists>lid. lease_owner (srv_db srv) ip = Some (lid, m)
       then dhcp_message_get_type reply = Returns DHCP_ACK \<and> yiaddr reply = ip
       else dhcp_message_get_type reply = Returns DHCP_NAK \<and> yiaddr reply = 0 \<and> srv' = srv)"
proof (cases "\<exists>lid. lease_owner (srv_db srv) ip = Some (lid, m)")
  case True
  then obtain lid where o: "lease_owner (srv_db srv) ip = Some (lid, m)" by blast
  then obtain i where "lease_map (srv_db srv) ip = Some (leases (srv_db srv) ! i)"
    "ip_address (leases (srv_db srv) ! i) = ip"
    using lease_map_found by_ip.find_key by (auto simp: owner_Some)
  then show ?thesis
    using o selecting_result [OF assms(1), of ping now srv] True
      make_ack_type [OF assms(2)]
    by (simp add: Let_def make_ack_yiaddr lease_simps)
next
  case False
  then have "packet_processor ping now task srv = Returns
      (Some (dhcp_message_make_nak (task_packet task) (router (subnet (srv_pool srv))), nak_dest task), srv)"
    using selecting_result [OF assms(1), of ping now srv] by (auto split: option.splits)
  then show ?thesis
    using False get_type_found [OF make_nak_options] by (simp add: make_nak_yiaddr)
qed

theorem selecting_ack_iff_owner_witness:
  "\<exists>reply dest srv'. packet_processor (\<lambda>_ _. False) 100 (request_of mac_a 0x0200000A) small_server =
      Returns (Some (reply, dest), srv') \<and> dhcp_message_get_type reply = Returns DHCP_NAK"
proof -
  have m: "length mac_a = 6" by (simp add: mac_a_def)
  have d: "length (dns_servers (subnet (srv_pool small_server))) \<le> 4"
    by (simp add: small_server_def small_ip_pool_def small_subnet_def)
  have "lease_owner (srv_db small_server) 0x0200000A = None"
    by (simp add: small_server_def owner_None example_simps)
  then show ?thesis
    using selecting_ack_iff_owner [OF request_of_task [OF m] d, of "\<lambda>_ _. False" 100 "0x0200000A"]
    by (simp; blast)
qed

text \<open>
  An address that was once leased never goes to another client.  The server never removes a row
  and \<open>lease_db_renew_lease\<close> keeps its hardware address, so after any further sequence of packets
  (releases included), expiries and synchronisation rounds a REQUEST of any other client for the
  address is answered with a NAK.
\<close>

lemma released_address_never_reassigned:
  assumes "server_inv srv" "lease_owner (srv_db srv) ip = Some (lid, m)" "server_step\<^sup>*\<^sup>* srv srv'"
    and "selecting_task task m' ip" "m' \<noteq> m"
  shows "packet_processor ping now task srv' =
    Returns (Some (dhcp_message_make_nak (task_packet task) (router (subnet (srv_pool srv'))), nak_dest task), srv')"
proof -
  have "lease_owner (srv_db srv') ip = Some (lid, m)"
    using server_steps_keep [OF assms(3,1)] assms(2) by (simp add: db_keeps_def)
  then show ?thesis using selecting_result [OF assms(4), of ping now srv'] assms(5) by simp
qed

definition leased_server :: server_context_t where
  "leased_server = small_server\<lparr>srv_db := db_run [(100, Add 0x0200000A mac_a 600)] db_example\<rparr>"

lemma leased_server_inv: "server_inv leased_server"
proof -
  have ok: "db_cmd_ok (Add 0x0200000A mac_a 600) db_example" by (simp add: example_simps)
  have "db_good db_example" using small_server_inv by (simp add: server_inv_good small_server_def)
  then show ?thesis
    using exec_good [OF _ ok, of 100] small_server_inv
    by (simp add: server_inv_good leased_server_def small_server_def)
qed

lemma leased_server_owner: "lease_owner (srv_db leased_server) 0x0200000A = Some (1, mac_a)"
  by (simp add: leased_server_def owner_Some example_simps)

text \<open>
  A client whose pool entry carries an address that the lease table gives to another client (as
  after the other client released it) is caught in a loop: its DISCOVER is answered with an OFFER
  of that address, its REQUEST for it with a NAK, and afterwards it is in the same situation.
\<close>

lemma discover_request_livelock:
  assumes "server_inv srv" "stuck_client srv ip m" "discover_task d m" "selecting_task r m ip"
  shows "\<exists>offer srv'. packet_processor ping ta d srv = Returns (Some (offer, offer_dest d), srv')
    \<and> yiaddr offer = ip
    \<and> packet_processor ping tb r srv' = Returns (Some (dhcp_message_make_nak (task_packet r)
        (router (subnet (srv_pool srv'))), nak_dest r), srv')
    \<and> server_inv srv' \<and> stuck_client srv' ip m"
proof -
  obtain offer srv' where d: "packet_processor ping ta d srv = Returns (Some (offer, offer_dest d), srv')"
    "yiaddr offer = ip" "server_inv srv'" "stuck_client srv' ip m"
    using discover_stuck [OF assms(3,1,2)] by blast
  then obtain lid m' where "lease_owner (srv_db srv') ip = Some (lid, m')" "m' \<noteq> m"
    by (auto simp: stuck_client_def)
  then show ?thesis using d selecting_result [OF assms(4), of ping tb srv'] by auto
qed

text \<open>A packet that carries only its type, with the address in \<open>ciaddr\<close>.\<close>

definition ciaddr_task :: "packet_task_t \<Rightarrow> u8 \<Rightarrow> in_addr \<Rightarrow> bool" where
  "ciaddr_task task type ip \<longleftrightarrow> 240 \<le> task_len task \<and> ciaddr (task_packet task) = ip \<and> ip \<noteq> 0
     \<and> (\<exists>os. has_options (task_packet task) os \<and> map_of os DHCP_OPT_MESSAGE_TYPE = Some [type]
          \<and> map_of os DHCP_OPT_REQUESTED_IP = None \<and> map_of os DHCP_OPT_SERVER_ID = None)"

lemma release_returns:
  "\<not> mutex p \<Longrightarrow> \<exists>r p'. ip_pool_release_ip p ip = Returns (r, p') \<and> (r = 0 \<or> r = -1)"
  by (cases "ip_pool_find_entry p ip") (auto simp: release_eq Let_def)

lemma ciaddr_processed:
  assumes "ciaddr_task task type ip"
  shows "dhcp_message_validate (task_packet task) (task_len task) = 0"
    "dhcp_message_get_type (task_packet task) = Returns type"
    "opt_addr (task_packet task) DHCP_OPT_REQUESTED_IP = Returns None"
    "opt_addr (task_packet task) DHCP_OPT_SERVER_ID = Returns None"
  using assms validate_ok get_type_found opt_addr_none by (fastforce simp: ciaddr_task_def)+

text \<open>
  C34: Renewal and release do not look at who asks.  A REQUEST without a server id and a RELEASE are
  carried out on the row of \<open>ciaddr\<close> whatever the hardware address of the sender: the first is
  acknowledged with the address and extends the lease, the second ends the lease and, if the pool
  entry is allocated, frees it.
\<close>

theorem renew_and_release_ignore_sender:
  assumes "server_inv srv" "lease_map (srv_db srv) ip = Some l"
    and "ciaddr_task rn DHCP_REQUEST ip" "ciaddr_task rl DHCP_RELEASE ip"
  shows "(\<exists>ack srv1. packet_processor ping now rn srv = Returns (Some (ack, renew_dest rn), srv1)
      \<and> yiaddr ack = ip
      \<and> lease_map (srv_db srv1) ip = Some (renewed_lease now (default_lease_time (subnet (srv_pool srv))) l))
    \<and> (\<exists>srv2. packet_processor ping now rl srv = Returns (None, srv2)
      \<and> lease_map (srv_db srv2) ip = Some (released_lease now l)
      \<and> ip_pool_release_ip (srv_pool srv) ip \<in> {Returns (0, srv_pool srv2), Returns (-1, srv_pool srv2)})"
proof -
  obtain i where i: "lease_db_find_by_ip (srv_db srv) ip = Some i" "l = leases (srv_db srv) ! i"
    using assms(2) by (auto simp: lease_map_def)
  have c: "ciaddr (task_packet rn) = ip" "ciaddr (task_packet rl) = ip" "ip \<noteq> 0"
    using assms(3,4) by (simp_all add: ciaddr_task_def)
  have ipi: "ip_address l = ip" "i < length (leases (srv_db srv))" using by_ip.find_first [OF i(1)] i(2) by auto
  let ?t = "default_lease_time (subnet (srv_pool srv))"
  have rn: "packet_processor ping now rn srv = Returns
      (Some (dhcp_message_make_ack (task_packet rn) (renewed_lease now ?t l) (subnet (srv_pool srv)), renew_dest rn),
       srv\<lparr>srv_db := db_exec now (Renew ip ?t) (srv_db srv)\<rparr>)"
    using i c ipi ciaddr_processed [OF assms(3)]
    by (simp add: packet_processor_def handle_request_def Let_def lease_db_renew_lease_def)
  obtain r pool where p: "ip_pool_release_ip (srv_pool srv) ip = Returns (r, pool)" "r = 0 \<or> r = -1"
    using release_returns [of "srv_pool srv" ip] assms(1) by (auto simp: server_inv_def)
  have rl: "packet_processor ping now rl srv =
      Returns (None, srv\<lparr>srv_db := db_exec now (Release ip) (srv_db srv), srv_pool := pool\<rparr>)"
    using c p ciaddr_processed [OF assms(4)]
    by (simp add: packet_processor_def handle_release_def Let_def)
  have wf: "lease_db_wf (srv_db srv)" using assms(1) by (simp add: server_inv_def)
  have "lease_map (db_exec now (Release ip) (srv_db srv)) ip = Some (released_lease now l)"
    using db_exec_refines [OF wf, of "Release ip" now] assms(2) by (simp add: db_abs_def del: db_exec.simps)
  then show ?thesis
    using rn rl p renew_lease_map [OF wf assms(2)]
    by (auto simp: make_ack_yiaddr lease_simps ipi simp del: db_exec.simps)
qed

definition ciaddr_of :: "u8 \<Rightarrow> mac \<Rightarrow> in_addr \<Rightarrow> packet_task_t" where
  "ciaddr_of type m ip = (task_with m [(DHCP_OPT_MESSAGE_TYPE, [type])])
     \<lparr>task_packet := (packet_with m [(DHCP_OPT_MESSAGE_TYPE, [type])])\<lparr>ciaddr := ip\<rparr>\<rparr>"

lemma ciaddr_of_task: "ip \<noteq> 0 \<Longrightarrow> ciaddr_task (ciaddr_of type m ip) type ip"
  using packet_with_options [of "[(DHCP_OPT_MESSAGE_TYPE, [type])]" m]
  by (auto simp: ciaddr_task_def ciaddr_of_def task_with_def option_ok_def has_options_def
      intro!: exI [of _ "[(DHCP_OPT_MESSAGE_TYPE, [type])]"])

theorem renew_and_release_ignore_sender_witness:
  "mac_b \<noteq> mac_a \<and> lease_owner (srv_db leased_server) 0x0200000A = Some (1, mac_a)
   \<and> (\<exists>srv2. packet_processor (\<lambda>_ _. False) 150 (ciaddr_of DHCP_RELEASE mac_b 0x0200000A) leased_server =
        Returns (None, srv2)
      \<and> lease_map (srv_db srv2) 0x0200000A = Some (released_lease 150 (new_lease 100 1 0x0200000A mac_a 600)))"
proof -
  have l: "lease_map (srv_db leased_server) 0x0200000A = Some (new_lease 100 1 0x0200000A mac_a 600)"
    by (simp add: leased_server_def lease_map_rows) (simp add: example_simps)
  show ?thesis
    using renew_and_release_ignore_sender [OF leased_server_inv l ciaddr_of_task [of _ _ mac_b]
        ciaddr_of_task [of _ _ mac_b], of "\<lambda>_ _. False" 150] leased_server_owner
    by (auto simp: mac_a_def mac_b_def)
qed

end
