(* ===== verification/Bounded_Fifo.thy ===== *)
theory Bounded_Fifo
  imports Prelude
begin

text \<open>
  The circular buffers of the sources.  The lease I/O queue, the thread pool and the DHCPv6 task
  queue each hold an array, a head and a tail index and a count, and push and pop with the same
  three statements; \<open>ring_push\<close> and \<open>ring_pop\<close> are these statements.  The locale \<open>bounded_fifo\<close> is the
  contract that the producers and the consumer rely on; each component interprets it on its own
  push and pop.
\<close>

named_theorems ring_simps \<open>effect of push and pop on a circular buffer\<close>

section \<open>Definitions\<close>

record 'a ring =
  queue :: "'a list"
  head :: nat
  tail :: nat
  count :: nat

definition ring_ok :: "nat \<Rightarrow> ('a, 'b) ring_scheme \<Rightarrow> bool" where
  "ring_ok N r \<longleftrightarrow> 0 < N \<and> length (queue r) = N \<and> head r < N \<and> count r \<le> N
     \<and> tail r = (head r + count r) mod N"

definition ring_items :: "('a, 'b) ring_scheme \<Rightarrow> 'a list" where
  "ring_items r = map (\<lambda>i. queue r ! ((head r + i) mod length (queue r))) [0..<count r]"

definition ring_push :: "nat \<Rightarrow> 'a \<Rightarrow> ('a, 'b) ring_scheme \<Rightarrow> ('a, 'b) ring_scheme" where
  "ring_push N x r =
     r\<lparr>queue := (queue r)[tail r := x], tail := (tail r + 1) mod N, count := count r + 1\<rparr>"

definition ring_pop :: "nat \<Rightarrow> ('a, 'b) ring_scheme \<Rightarrow> 'a \<times> ('a, 'b) ring_scheme" where
  "ring_pop N r = (queue r ! head r, r\<lparr>head := (head r + 1) mod N, count := count r - 1\<rparr>)"

text \<open>A sequence of calls of producers and of the consumer, in the order the mutex admits them.\<close>

datatype 'a fifo_op = Enq 'a | Deq

fun fifo_run :: "('a \<Rightarrow> 'q \<Rightarrow> bool \<times> 'q) \<Rightarrow> ('q \<Rightarrow> 'a option \<times> 'q) \<Rightarrow> 'a fifo_op list \<Rightarrow> 'q
    \<Rightarrow> 'a list \<times> 'a list \<times> 'q" where
  "fifo_run enq deq [] q = ([], [], q)"
| "fifo_run enq deq (Enq x # ops) q =
     (let (ok, q') = enq x q; (accepted, delivered, q'') = fifo_run enq deq ops q'
      in (if ok then x # accepted else accepted, delivered, q''))"
| "fifo_run enq deq (Deq # ops) q =
     (let (r, q') = deq q; (accepted, delivered, q'') = fifo_run enq deq ops q'
      in (accepted, (case r of None \<Rightarrow> delivered | Some x \<Rightarrow> x # delivered), q''))"

section \<open>Lemmas on circular buffers\<close>

lemma length_ring_items [simp]: "length (ring_items r) = count r"
  by (simp add: ring_items_def)

lemma ring_items_Nil [simp]: "ring_items r = [] \<longleftrightarrow> count r = 0"
  by (metis length_0_conv length_ring_items)

lemma ring_slot_inj:
  assumes "(h + i) mod N = (h + j) mod N" "i < N" "j < (N::nat)"
  shows "i = j"
proof -
  have *: "i = j" if "i \<le> j" "(h + j) mod N = (h + i) mod N" "j < N" for i j
  proof -
    have "N dvd (h + j) - (h + i)"
      using that mod_eq_dvd_iff_nat [of "h + i" "h + j" N] by simp
    then have "N dvd j - i" by simp
    then show ?thesis
      using that dvd_imp_le [of N "j - i"] by (cases "j - i = 0") auto
  qed
  show ?thesis
  proof (cases "i \<le> j")
    case True
    then show ?thesis using * [of i j] assms by simp
  next
    case False
    then show ?thesis using * [of j i] assms by simp
  qed
qed

lemma ring_push_ok:
  assumes "ring_ok N r" "count r < N"
  shows "ring_ok N (ring_push N x r)"
  using assms by (auto simp: ring_ok_def ring_push_def mod_Suc_eq)

lemma ring_push_items [ring_simps]:
  assumes ok: "ring_ok N r" and room: "count r < N"
  shows "ring_items (ring_push N x r) = ring_items r @ [x]"
proof -
  have t: "tail r = (head r + count r) mod N" "tail r < N" "length (queue r) = N"
    using ok by (auto simp: ring_ok_def)
  have "(queue r)[tail r := x] ! ((head r + i) mod N) = queue r ! ((head r + i) mod N)"
    if "i < count r" for i
  proof -
    have "(head r + i) mod N \<noteq> tail r"
      using ring_slot_inj [of "head r" i N "count r"] that room t by auto
    then show ?thesis by simp
  qed
  then show ?thesis
    using t by (auto simp: ring_items_def ring_push_def)
qed

lemma ring_pop_ok:
  assumes "ring_ok N r" "0 < count r"
  shows "ring_ok N (snd (ring_pop N r))"
proof -
  obtain c where "count r = Suc c" using assms(2) gr0_implies_Suc by blast
  then show ?thesis
    using assms by (auto simp: ring_ok_def ring_pop_def mod_add_left_eq)
qed

lemma ring_pop_items [ring_simps]:
  assumes ok: "ring_ok N r" and some: "0 < count r"
  shows "ring_items r = fst (ring_pop N r) # ring_items (snd (ring_pop N r))"
proof -
  have h: "head r < N" "length (queue r) = N" using ok by (auto simp: ring_ok_def)
  have "[0..<count r] = 0 # map Suc [0..<count r - 1]"
    using some by (metis Suc_pred' map_Suc_upt upt_conv_Cons)
  then show ?thesis
    using h by (simp add: ring_items_def ring_pop_def comp_def mod_simps add.commute)
qed

section \<open>The contract of a bounded queue\<close>

locale bounded_fifo =
  fixes cap :: "'q \<Rightarrow> nat"
    and items :: "'q \<Rightarrow> 'a list"
    and invar :: "'q \<Rightarrow> bool"
    and accepting :: "'a \<Rightarrow> 'q \<Rightarrow> bool"
    and enq :: "'a \<Rightarrow> 'q \<Rightarrow> bool \<times> 'q"
    and deq :: "'q \<Rightarrow> 'a option \<times> 'q"
  assumes items_le_cap: "invar q \<Longrightarrow> length (items q) \<le> cap q"
    and enq_accept: "invar q \<Longrightarrow> accepting x q \<Longrightarrow> length (items q) < cap q \<Longrightarrow>
      \<exists>q'. enq x q = (True, q') \<and> invar q' \<and> items q' = items q @ [x] \<and> cap q' = cap q"
    and enq_reject: "invar q \<Longrightarrow> \<not> accepting x q \<or> length (items q) = cap q \<Longrightarrow>
      \<exists>q'. enq x q = (False, q') \<and> invar q' \<and> items q' = items q \<and> cap q' = cap q"
    and deq_empty: "invar q \<Longrightarrow> items q = [] \<Longrightarrow> deq q = (None, q)"
    and deq_first: "invar q \<Longrightarrow> items q = x # xs \<Longrightarrow>
      \<exists>q'. deq q = (Some x, q') \<and> invar q' \<and> items q' = xs \<and> cap q' = cap q"
begin

lemma enq_cases:
  assumes "invar q" "enq x q = (ok, q')"
  shows "invar q' \<and> cap q' = cap q \<and> items q' = (if ok then items q @ [x] else items q)"
proof (cases "accepting x q \<and> length (items q) < cap q")
  case True
  then show ?thesis using enq_accept [of q x] assms by auto
next
  case False
  then have "\<not> accepting x q \<or> length (items q) = cap q"
    using items_le_cap [OF assms(1)] by linarith
  then show ?thesis using enq_reject [of q x] assms by auto
qed

lemma deq_cases:
  assumes "invar q" "deq q = (r, q')"
  shows "invar q' \<and> cap q' = cap q \<and> items q = (case r of None \<Rightarrow> [] | Some x \<Rightarrow> [x]) @ items q'"
proof (cases "items q")
  case Nil
  then show ?thesis using deq_empty [of q] assms by auto
next
  case (Cons x xs)
  then show ?thesis using deq_first [of q x xs] assms by auto
qed

lemma run_fifo:
  "invar q \<Longrightarrow> fifo_run enq deq ops q = (accepted, delivered, q') \<Longrightarrow>
   invar q' \<and> cap q' = cap q \<and> items q @ accepted = delivered @ items q'"
proof (induction ops arbitrary: q accepted delivered)
  case Nil
  then show ?case by simp
next
  case (Cons op ops)
  show ?case
  proof (cases op)
    case (Enq x)
    obtain ok p where e: "enq x q = (ok, p)" by (cases "enq x q")
    obtain acc del where r: "fifo_run enq deq ops p = (acc, del, q')"
      and a: "accepted = (if ok then x # acc else acc)" "delivered = del"
      using Cons.prems(2) Enq e by (auto split: prod.splits)
    show ?thesis
      using enq_cases [OF Cons.prems(1) e] Cons.IH [OF _ r] a by auto
  next
    case Deq
    obtain x p where e: "deq q = (x, p)" by (cases "deq q")
    obtain acc del where r: "fifo_run enq deq ops p = (acc, del, q')"
      and a: "accepted = acc" "delivered = (case x of None \<Rightarrow> del | Some y \<Rightarrow> y # del)"
      using Cons.prems(2) Deq e by (auto split: prod.splits)
    show ?thesis
      using deq_cases [OF Cons.prems(1) e] Cons.IH [OF _ r] a by (auto split: option.splits)
  qed
qed

lemma run_bounded:
  assumes "invar q" "fifo_run enq deq ops q = (accepted, delivered, q')"
  shows "length accepted \<le> length delivered + cap q"
proof -
  have "length (items q @ accepted) = length (delivered @ items q')"
    using run_fifo [OF assms] by simp
  moreover have "length (items q') \<le> cap q"
    using run_fifo [OF assms] items_le_cap by metis
  ultimately show ?thesis by simp
qed

end

end
