(* ===== verification/Lease_Io.thy ===== *)
theory Lease_Io
  imports Lease_Db Bounded_Fifo
begin

text \<open>
  The background threads of the lease database (src/lease_v4.c): the expiry timer and the queue of
  disk operations with its I/O thread.  A critical section under the mutex of the queue is one atomic
  step.  Writing to disk is recorded as the list of performed operations.
\<close>

section \<open>Definitions\<close>

subsection \<open>The expiry timer\<close>

record lease_timer_t =
  check_interval_sec :: u32
  timer_running :: bool
  timer_mutex_initialized :: bool

definition lease_timer_init :: "bool \<Rightarrow> bool \<Rightarrow> u32 \<Rightarrow> lease_timer_t \<Rightarrow> int \<times> lease_timer_t" where
  "lease_timer_init mutex_ok cond_ok interval timer =
     (if interval = 0 then (-1, timer)
      else
        let t = \<lparr>check_interval_sec = interval, timer_running = False, timer_mutex_initialized = False\<rparr>
        in if \<not> mutex_ok then (-1, t)
           else if \<not> cond_ok then (-1, t)
           else (0, t\<lparr>timer_mutex_initialized := True\<rparr>))"

definition lease_timer_start :: "bool \<Rightarrow> lease_timer_t \<Rightarrow> int \<times> lease_timer_t" where
  "lease_timer_start create_ok timer =
     (if \<not> timer_mutex_initialized timer then (-1, timer)
      else if timer_running timer then (-1, timer)
      else if \<not> create_ok then (-1, timer\<lparr>timer_running := False\<rparr>)
      else (0, timer\<lparr>timer_running := True\<rparr>))"

text \<open>The stop up to the join; None when there is nothing to stop.\<close>

definition lease_timer_stop_begin :: "lease_timer_t \<Rightarrow> lease_timer_t option" where
  "lease_timer_stop_begin timer =
     (if \<not> timer_mutex_initialized timer then None
      else if \<not> timer_running timer then None
      else Some (timer\<lparr>timer_running := False\<rparr>))"

definition lease_timer_is_running :: "lease_timer_t \<Rightarrow> bool" where
  "lease_timer_is_running timer \<longleftrightarrow> timer_mutex_initialized timer \<and> timer_running timer"

text \<open>One round of the thread after its timed wait; None when the thread leaves its loop.\<close>

definition lease_timer_thread_func ::
  "time_t \<Rightarrow> lease_timer_t \<Rightarrow> lease_database_t \<Rightarrow> lease_database_t option outcome" where
  "lease_timer_thread_func now timer db =
     (if \<not> timer_running timer then Returns None
      else and_then (lease_db_expire_old_leases_safe now db) (\<lambda>(_, db'). Returns (Some db')))"

subsection \<open>The queue of disk operations\<close>

datatype io_operation_type_t = IO_OP_SAVE_LEASE | IO_OP_SAVE_ALL | IO_OP_SHUTDOWN

record io_operation_t =
  io_type :: io_operation_type_t
  io_lease :: dhcp_lease_t
  io_timestamp :: time_t

abbreviation "IO_QUEUE_SIZE \<equiv> (256 :: nat)"

record lease_io_queue_t = "io_operation_t ring" +
  io_running :: bool
  io_mutex_initialized :: bool
  operations_processed :: u64
  operations_dropped :: u64

text \<open>The lease of an operation other than \<open>IO_OP_SAVE_LEASE\<close> is not initialised and never read.\<close>

definition io_op_zero :: io_operation_t where
  "io_op_zero = \<lparr>io_type = IO_OP_SAVE_LEASE, io_lease = lease_zero, io_timestamp = 0\<rparr>"

definition lease_io_init :: "bool \<Rightarrow> bool \<Rightarrow> int \<times> lease_io_queue_t" where
  "lease_io_init mutex_ok cond_ok =
     (let q = \<lparr>queue = replicate IO_QUEUE_SIZE io_op_zero, head = 0, tail = 0, count = 0,
            io_running = False, io_mutex_initialized = False, operations_processed = 0,
            operations_dropped = 0\<rparr>
      in if \<not> mutex_ok then (-1, q)
         else if \<not> cond_ok then (-1, q)
         else (0, q\<lparr>io_mutex_initialized := True\<rparr>))"

definition lease_io_start :: "bool \<Rightarrow> lease_io_queue_t \<Rightarrow> int \<times> lease_io_queue_t" where
  "lease_io_start create_ok q =
     (if \<not> io_mutex_initialized q then (-1, q)
      else if io_running q then (-1, q)
      else if \<not> create_ok then (-1, q\<lparr>io_running := False\<rparr>)
      else (0, q\<lparr>io_running := True\<rparr>))"

definition lease_io_queue_save_lease :: "time_t \<Rightarrow> dhcp_lease_t option \<Rightarrow> lease_io_queue_t \<Rightarrow> int \<times> lease_io_queue_t" where
  "lease_io_queue_save_lease now lease q = (case lease of
     None \<Rightarrow> (-1, q)
   | Some l \<Rightarrow>
       if \<not> io_mutex_initialized q then (-1, q)
       else if count q \<ge> IO_QUEUE_SIZE then (-1, q\<lparr>operations_dropped := operations_dropped q + 1\<rparr>)
       else (0, ring_push IO_QUEUE_SIZE \<lparr>io_type = IO_OP_SAVE_LEASE, io_lease = l, io_timestamp = now\<rparr> q))"

definition lease_io_queue_save_all :: "time_t \<Rightarrow> lease_io_queue_t \<Rightarrow> int \<times> lease_io_queue_t" where
  "lease_io_queue_save_all now q =
     (if \<not> io_mutex_initialized q then (-1, q)
      else if count q \<ge> IO_QUEUE_SIZE then (-1, q\<lparr>operations_dropped := operations_dropped q + 1\<rparr>)
      else (0, ring_push IO_QUEUE_SIZE
             \<lparr>io_type = IO_OP_SAVE_ALL, io_lease = lease_zero, io_timestamp = now\<rparr> q))"

definition lease_io_get_stats :: "lease_io_queue_t \<Rightarrow> (u64 \<times> u64 \<times> nat) option" where
  "lease_io_get_stats q = (if \<not> io_mutex_initialized q then None
     else Some (operations_processed q, operations_dropped q, count q))"

definition lease_io_is_running :: "lease_io_queue_t \<Rightarrow> bool" where
  "lease_io_is_running q \<longleftrightarrow> io_mutex_initialized q \<and> io_running q"

definition shutdown_op :: "time_t \<Rightarrow> io_operation_t" where
  "shutdown_op now = \<lparr>io_type = IO_OP_SHUTDOWN, io_lease = lease_zero, io_timestamp = now\<rparr>"

text \<open>\<open>lease_io_stop\<close> up to the join; None when it returns at once.\<close>

definition lease_io_stop_begin :: "time_t \<Rightarrow> lease_io_queue_t \<Rightarrow> lease_io_queue_t option" where
  "lease_io_stop_begin now q =
     (if \<not> io_mutex_initialized q then None
      else if \<not> io_running q then None
      else if count q < IO_QUEUE_SIZE then Some (ring_push IO_QUEUE_SIZE (shutdown_op now) q)
      else Some q)"

text \<open>The I/O thread: its critical section, and what it does with an operation outside the lock.\<close>

datatype io_round = Io_waits | Io_exits | Io_takes io_operation_t lease_io_queue_t

definition io_dequeue :: "lease_io_queue_t \<Rightarrow> io_round" where
  "io_dequeue q =
     (if count q = 0 \<and> io_running q then Io_waits
      else if count q = 0 \<and> \<not> io_running q then Io_exits
      else (let (op, q') = ring_pop IO_QUEUE_SIZE q in Io_takes op q'))"

datatype io_pc = Io_top | Io_busy io_operation_t | Io_done
datatype io_stop_phase = No_stop | Io_joining | Io_stopped

text \<open>
  \<open>io_accepted\<close> are the operations put into the queue, \<open>io_handled\<close> those the thread is through with,
  \<open>io_log\<close> those written to disk, and \<open>io_before\<close> what was accepted before the stop.
\<close>

record io_sys =
  ioq :: lease_io_queue_t
  io_pc :: io_pc
  io_accepted :: "io_operation_t list"
  io_handled :: "io_operation_t list"
  io_log :: "io_operation_t list"
  io_stop :: io_stop_phase
  io_before :: "io_operation_t list"

definition lease_io_thread_step :: "io_sys \<Rightarrow> io_sys option" where
  "lease_io_thread_step s = (case io_pc s of
     Io_top \<Rightarrow> (case io_dequeue (ioq s) of
         Io_waits \<Rightarrow> None
       | Io_exits \<Rightarrow> Some (s\<lparr>io_pc := Io_done\<rparr>)
       | Io_takes op q \<Rightarrow> Some (s\<lparr>io_pc := Io_busy op, ioq := q\<rparr>))
   | Io_busy op \<Rightarrow>
       if io_type op = IO_OP_SHUTDOWN
       then Some (s\<lparr>io_pc := Io_done, io_handled := io_handled s @ [op], ioq := (ioq s)\<lparr>io_running := False\<rparr>\<rparr>)
       else Some (s\<lparr>io_pc := Io_top, io_handled := io_handled s @ [op], io_log := io_log s @ [op],
              ioq := (ioq s)\<lparr>operations_processed := operations_processed (ioq s) + 1\<rparr>\<rparr>)
   | Io_done \<Rightarrow> None)"

definition io_produce :: "time_t \<Rightarrow> dhcp_lease_t option \<Rightarrow> lease_io_queue_t \<Rightarrow> int \<times> lease_io_queue_t" where
  "io_produce now lease q =
     (case lease of None \<Rightarrow> lease_io_queue_save_all now q | Some l \<Rightarrow> lease_io_queue_save_lease now (Some l) q)"

definition produced_op :: "time_t \<Rightarrow> dhcp_lease_t option \<Rightarrow> io_operation_t" where
  "produced_op now lease = (case lease of
     None \<Rightarrow> \<lparr>io_type = IO_OP_SAVE_ALL, io_lease = lease_zero, io_timestamp = now\<rparr>
   | Some l \<Rightarrow> \<lparr>io_type = IO_OP_SAVE_LEASE, io_lease = l, io_timestamp = now\<rparr>)"

inductive io_step :: "io_sys \<Rightarrow> io_sys \<Rightarrow> bool" where
  accept: "io_produce now lease (ioq s) = (0, q) \<Longrightarrow>
    io_step s (s\<lparr>ioq := q, io_accepted := io_accepted s @ [produced_op now lease]\<rparr>)"
| refuse: "io_produce now lease (ioq s) = (-1, q) \<Longrightarrow> io_step s (s\<lparr>ioq := q\<rparr>)"
| stop: "\<lbrakk>io_stop s = No_stop; lease_io_stop_begin now (ioq s) = Some q\<rbrakk> \<Longrightarrow>
    io_step s (s\<lparr>ioq := q, io_stop := Io_joining, io_before := io_accepted s,
      io_accepted := io_accepted s @ (if count (ioq s) < IO_QUEUE_SIZE then [shutdown_op now] else [])\<rparr>)"
| thread: "lease_io_thread_step s = Some s' \<Longrightarrow> io_step s s'"
| joined: "\<lbrakk>io_stop s = Io_joining; io_pc s = Io_done\<rbrakk> \<Longrightarrow>
    io_step s (s\<lparr>io_stop := Io_stopped, ioq := (ioq s)\<lparr>io_mutex_initialized := False\<rparr>\<rparr>)"

text \<open>The same steps as a function, for runs that are given as a list of events.\<close>

datatype io_event = Ev_produce time_t "dhcp_lease_t option" | Ev_stop time_t | Ev_thread | Ev_join

fun io_exec :: "io_event \<Rightarrow> io_sys \<Rightarrow> io_sys" where
  "io_exec (Ev_produce now lease) s = (let (r, q) = io_produce now lease (ioq s) in
     if r = 0 then s\<lparr>ioq := q, io_accepted := io_accepted s @ [produced_op now lease]\<rparr> else s\<lparr>ioq := q\<rparr>)"
| "io_exec (Ev_stop now) s =
     (if io_stop s = No_stop then case lease_io_stop_begin now (ioq s) of
        None \<Rightarrow> s
      | Some q \<Rightarrow> s\<lparr>ioq := q, io_stop := Io_joining, io_before := io_accepted s,
          io_accepted := io_accepted s @ (if count (ioq s) < IO_QUEUE_SIZE then [shutdown_op now] else [])\<rparr>
      else s)"
| "io_exec Ev_thread s = (case lease_io_thread_step s of None \<Rightarrow> s | Some s' \<Rightarrow> s')"
| "io_exec Ev_join s =
     (if io_stop s = Io_joining \<and> io_pc s = Io_done
      then s\<lparr>io_stop := Io_stopped, ioq := (ioq s)\<lparr>io_mutex_initialized := False\<rparr>\<rparr> else s)"

definition io_begin :: "lease_io_queue_t \<Rightarrow> io_sys" where
  "io_begin q = \<lparr>ioq = q, io_pc = Io_top, io_accepted = [], io_handled = [], io_log = [],
     io_stop = No_stop, io_before = []\<rparr>"

definition writes :: "io_operation_t list \<Rightarrow> io_operation_t list" where
  "writes os = filter (\<lambda>x. io_type x \<noteq> IO_OP_SHUTDOWN) os"

text \<open>The operations taken from the queue, including the one being processed.\<close>

definition io_taken :: "io_sys \<Rightarrow> io_operation_t list" where
  "io_taken s = io_handled s @ (case io_pc s of Io_busy op \<Rightarrow> [op] | _ \<Rightarrow> [])"

definition no_shutdown :: "io_operation_t list \<Rightarrow> bool" where
  "no_shutdown os \<longleftrightarrow> (\<forall>x \<in> set os. io_type x \<noteq> IO_OP_SHUTDOWN)"

text \<open>Before the stop nothing is a shutdown; from then on at most one shutdown follows what was accepted.\<close>

definition stop_ok :: "io_stop_phase \<Rightarrow> io_operation_t list \<Rightarrow> io_operation_t list \<Rightarrow> bool" where
  "stop_ok phase before acc \<longleftrightarrow>
     (if phase = No_stop then no_shutdown acc
      else no_shutdown before \<and>
        (no_shutdown acc \<or> (\<exists>now post. acc = before @ shutdown_op now # post \<and> no_shutdown post)))"

definition io_inv :: "io_sys \<Rightarrow> bool" where
  "io_inv s \<longleftrightarrow> ring_ok IO_QUEUE_SIZE (ioq s)
     \<and> io_accepted s = io_taken s @ ring_items (ioq s) \<and> io_log s = writes (io_handled s)
     \<and> (io_running (ioq s) \<longleftrightarrow> io_pc s \<noteq> Io_done)
     \<and> stop_ok (io_stop s) (io_before s) (io_accepted s)
     \<and> (io_pc s = Io_done \<longrightarrow> (\<exists>now. io_handled s = io_before s @ [shutdown_op now]) \<and> io_stop s \<noteq> No_stop)
     \<and> (io_pc s \<noteq> Io_done \<longrightarrow> no_shutdown (io_handled s) \<and> io_stop s \<noteq> Io_stopped)"

text \<open>Push and pop as the contract of a queue sees them.\<close>

definition io_request :: "io_operation_t \<Rightarrow> dhcp_lease_t option" where
  "io_request x = (if io_type x = IO_OP_SAVE_LEASE then Some (io_lease x) else None)"

definition io_enq :: "io_operation_t \<Rightarrow> lease_io_queue_t \<Rightarrow> bool \<times> lease_io_queue_t" where
  "io_enq x q =
     (if produced_op (io_timestamp x) (io_request x) = x
      then let (r, q') = io_produce (io_timestamp x) (io_request x) q in (r = 0, q')
      else (False, q))"

definition io_deq :: "lease_io_queue_t \<Rightarrow> io_operation_t option \<times> lease_io_queue_t" where
  "io_deq q = (case io_dequeue q of Io_takes x q' \<Rightarrow> (Some x, q') | _ \<Rightarrow> (None, q))"

definition io_serving :: "lease_io_queue_t \<Rightarrow> bool" where
  "io_serving q \<longleftrightarrow> ring_ok IO_QUEUE_SIZE q"

definition io_accepting :: "io_operation_t \<Rightarrow> lease_io_queue_t \<Rightarrow> bool" where
  "io_accepting x q \<longleftrightarrow>
     io_mutex_initialized q \<and> produced_op (io_timestamp x) (io_request x) = x"

text \<open>The I/O thread running alone for at most \<open>n\<close> steps.\<close>

fun io_thread_run :: "nat \<Rightarrow> io_sys \<Rightarrow> io_sys" where
  "io_thread_run 0 s = s"
| "io_thread_run (Suc n) s = (case lease_io_thread_step s of None \<Rightarrow> s | Some s' \<Rightarrow> io_thread_run n s')"

definition io_pending :: "io_sys \<Rightarrow> nat" where
  "io_pending s = 2 * count (ioq s) + (case io_pc s of Io_busy _ \<Rightarrow> 2 | Io_top \<Rightarrow> 1 | Io_done \<Rightarrow> 0)"

section \<open>Lemmas\<close>

lemma ring_ok_io_update [simp]:
  "ring_ok N (q\<lparr>io_running := b\<rparr>) = ring_ok N q"
  "ring_ok N (q\<lparr>io_mutex_initialized := b\<rparr>) = ring_ok N q"
  "ring_ok N (q\<lparr>operations_processed := n\<rparr>) = ring_ok N q"
  "ring_ok N (q\<lparr>operations_dropped := n\<rparr>) = ring_ok N q"
  by (simp_all add: ring_ok_def)

lemma ring_items_io_update [simp]:
  "ring_items (q\<lparr>io_running := b\<rparr>) = ring_items q"
  "ring_items (q\<lparr>io_mutex_initialized := b\<rparr>) = ring_items q"
  "ring_items (q\<lparr>operations_processed := n\<rparr>) = ring_items q"
  "ring_items (q\<lparr>operations_dropped := n\<rparr>) = ring_items q"
  by (simp_all add: ring_items_def)

lemma ring_push_io [simp]:
  "io_running (ring_push N x q) = io_running q"
  "io_mutex_initialized (ring_push N x q) = io_mutex_initialized q"
  "count (ring_push N x q) = count q + 1"
  for q :: lease_io_queue_t
  by (simp_all add: ring_push_def)

lemma ring_pop_io [simp]:
  "io_running (snd (ring_pop N q)) = io_running q"
  "io_mutex_initialized (snd (ring_pop N q)) = io_mutex_initialized q"
  for q :: lease_io_queue_t
  by (simp_all add: ring_pop_def)

lemma no_shutdown_simps [simp]:
  "no_shutdown []" "no_shutdown (x # os) \<longleftrightarrow> io_type x \<noteq> IO_OP_SHUTDOWN \<and> no_shutdown os"
  "no_shutdown (os @ ps) \<longleftrightarrow> no_shutdown os \<and> no_shutdown ps"
  by (auto simp: no_shutdown_def)

lemma writes_simps [simp]:
  "no_shutdown os \<Longrightarrow> writes os = os"
  "writes (os @ ps) = writes os @ writes ps" "writes [shutdown_op now] = []"
  by (auto simp: no_shutdown_def writes_def shutdown_op_def)

lemma produced_type [simp]:
  "io_type (produced_op now lease) \<noteq> IO_OP_SHUTDOWN" "io_type (shutdown_op now) = IO_OP_SHUTDOWN"
  by (simp_all add: produced_op_def shutdown_op_def split: option.splits)

text \<open>A list with one shutdown splits at it in one way.\<close>

lemma shutdown_split:
  assumes "as @ x # bs = cs @ y # ds" "no_shutdown as" "no_shutdown cs"
    and "io_type x = IO_OP_SHUTDOWN" "io_type y = IO_OP_SHUTDOWN"
  shows "as = cs \<and> x = y"
  using assms
proof (induction as arbitrary: cs)
  case Nil
  then show ?case by (cases cs) auto
next
  case (Cons a as)
  then show ?case by (cases cs) auto
qed

lemma produce_accepted:
  "io_produce now lease q = (0, q') \<Longrightarrow>
   io_mutex_initialized q \<and> count q < IO_QUEUE_SIZE \<and> q' = ring_push IO_QUEUE_SIZE (produced_op now lease) q"
  by (auto simp: io_produce_def produced_op_def lease_io_queue_save_all_def lease_io_queue_save_lease_def
      split: option.splits if_splits)

lemma produce_refused:
  "io_produce now lease q = (-1, q') \<Longrightarrow>
   q' = q \<or> count q \<ge> IO_QUEUE_SIZE \<and> q' = q\<lparr>operations_dropped := operations_dropped q + 1\<rparr>"
  by (auto simp: io_produce_def lease_io_queue_save_all_def lease_io_queue_save_lease_def
      split: option.splits if_splits)

lemma io_dequeue_takes:
  assumes "io_dequeue q = Io_takes x q'" "ring_ok IO_QUEUE_SIZE q"
  shows "0 < count q \<and> ring_ok IO_QUEUE_SIZE q' \<and> ring_items q = x # ring_items q'
    \<and> io_running q' = io_running q"
proof -
  have c: "0 < count q" and r: "ring_pop IO_QUEUE_SIZE q = (x, q')"
    using assms(1) by (auto simp: io_dequeue_def split: if_splits prod.splits)
  show ?thesis
    using ring_pop_items [OF assms(2) c] ring_pop_ok [OF assms(2) c] c
      ring_pop_io [of IO_QUEUE_SIZE q] unfolding r by simp
qed

lemma stop_ok_produce:
  "stop_ok phase before acc \<Longrightarrow> stop_ok phase before (acc @ [produced_op now lease])"
  by (fastforce simp: stop_ok_def)

lemma stop_ok_stop:
  "stop_ok No_stop before acc \<Longrightarrow> stop_ok Io_joining acc acc \<and> stop_ok Io_joining acc (acc @ [shutdown_op now])"
  by (fastforce simp: stop_ok_def)

lemma io_begin_inv:
  "\<lbrakk>lease_io_init m c = (0, q0); lease_io_start k q0 = (0, q)\<rbrakk> \<Longrightarrow> io_inv (io_begin q)"
  by (auto simp: Let_def lease_io_init_def lease_io_start_def io_begin_def io_inv_def io_taken_def
      stop_ok_def ring_ok_def ring_items_def writes_def split: if_splits)

lemma io_accept_inv:
  assumes "io_inv s" "io_produce now lease (ioq s) = (0, q)"
  shows "io_inv (s\<lparr>ioq := q, io_accepted := io_accepted s @ [produced_op now lease]\<rparr>)"
  using assms(1) produce_accepted [OF assms(2)]
    stop_ok_produce [of "io_stop s" "io_before s" "io_accepted s" now lease]
  by (auto simp: io_inv_def io_taken_def ring_push_ok ring_push_items)

lemma io_stop_inv:
  assumes "io_inv s" "io_stop s = No_stop" "lease_io_stop_begin now (ioq s) = Some q"
  shows "io_inv (s\<lparr>ioq := q, io_stop := Io_joining, io_before := io_accepted s,
      io_accepted := io_accepted s @ (if count (ioq s) < IO_QUEUE_SIZE then [shutdown_op now] else [])\<rparr>)"
  using assms stop_ok_stop [of "io_before s" "io_accepted s" now]
  by (auto simp: io_inv_def io_taken_def lease_io_stop_begin_def ring_push_ok ring_push_items split: if_splits)

lemma io_shutdown_seen:
  assumes "io_inv s" "io_pc s = Io_busy x" "io_type x = IO_OP_SHUTDOWN"
  shows "io_stop s \<noteq> No_stop \<and> (\<exists>now. io_handled s = io_before s \<and> x = shutdown_op now)"
proof -
  have acc: "io_accepted s = io_handled s @ x # ring_items (ioq s)" "no_shutdown (io_handled s)"
    using assms(1,2) by (auto simp: io_inv_def io_taken_def)
  then have n: "\<not> no_shutdown (io_accepted s)" using assms(3) by simp
  moreover have "stop_ok (io_stop s) (io_before s) (io_accepted s)"
    using assms(1) unfolding io_inv_def by blast
  ultimately obtain now post where "io_accepted s = io_before s @ shutdown_op now # post"
    "no_shutdown (io_before s)" "io_stop s \<noteq> No_stop"
    unfolding stop_ok_def by metis
  then show ?thesis
    using shutdown_split [of "io_handled s" x _ "io_before s" "shutdown_op now"] acc assms(3) by auto
qed

lemma io_thread_inv:
  assumes "io_inv s" "lease_io_thread_step s = Some s'"
  shows "io_inv s'"
proof (cases "io_pc s")
  case Io_top
  then obtain x q where d: "io_dequeue (ioq s) = Io_takes x q" and s': "s' = s\<lparr>io_pc := Io_busy x, ioq := q\<rparr>"
    using assms by (auto simp: lease_io_thread_step_def io_inv_def io_dequeue_def
        split: io_round.splits if_splits prod.splits)
  then show ?thesis
    using assms(1) io_dequeue_takes [OF d] Io_top by (auto simp: io_inv_def io_taken_def)
next
  case (Io_busy x)
  show ?thesis
  proof (cases "io_type x = IO_OP_SHUTDOWN")
    case True
    then show ?thesis
      using assms Io_busy io_shutdown_seen [OF assms(1) Io_busy True]
      by (auto simp: lease_io_thread_step_def io_inv_def io_taken_def)
  next
    case False
    then show ?thesis
      using assms Io_busy by (auto simp: lease_io_thread_step_def io_inv_def io_taken_def)
  qed
next
  case Io_done
  then show ?thesis using assms(2) by (simp add: lease_io_thread_step_def)
qed

lemma io_step_inv: "io_step s s' \<Longrightarrow> io_inv s \<Longrightarrow> io_inv s'"
proof (induction rule: io_step.induct)
  case (accept now lease s q)
  then show ?case by (rule io_accept_inv [rotated])
next
  case (refuse now lease s q)
  then show ?case
    using produce_refused [OF refuse(1)] by (auto simp: io_inv_def io_taken_def)
next
  case (stop s now q)
  then show ?case by (rule io_stop_inv [rotated])
next
  case (thread s s')
  then show ?case by (rule io_thread_inv [rotated])
next
  case (joined s)
  then show ?case by (auto simp: io_inv_def io_taken_def stop_ok_def)
qed

interpretation io_run: invariant_system
  "\<lambda>s. \<exists>m c k q0 q. lease_io_init m c = (0, q0) \<and> lease_io_start k q0 = (0, q) \<and> s = io_begin q"
  io_step io_inv
  by unfold_locales (auto intro: io_begin_inv io_step_inv)

lemma io_produce_cases:
  "io_produce now lease q =
     (if \<not> io_mutex_initialized q then (-1, q)
      else if count q \<ge> IO_QUEUE_SIZE then (-1, q\<lparr>operations_dropped := operations_dropped q + 1\<rparr>)
      else (0, ring_push IO_QUEUE_SIZE (produced_op now lease) q))"
  by (auto simp: io_produce_def produced_op_def lease_io_queue_save_all_def
      lease_io_queue_save_lease_def split: option.splits)

lemma io_deq_first:
  "0 < count q \<Longrightarrow> io_deq q = (Some (fst (ring_pop IO_QUEUE_SIZE q)), snd (ring_pop IO_QUEUE_SIZE q))"
  by (simp add: io_deq_def io_dequeue_def split_beta)

interpretation io_fifo: bounded_fifo "\<lambda>_. IO_QUEUE_SIZE" ring_items io_serving io_accepting io_enq io_deq
proof (unfold_locales, goal_cases)
  case (1 q)
  then show ?case by (simp add: io_serving_def ring_ok_def)
next
  case (2 q x)
  then show ?case
    by (simp add: io_serving_def io_accepting_def io_enq_def io_produce_cases ring_push_items ring_push_ok)
next
  case (3 q x)
  then show ?case by (auto simp: io_serving_def io_accepting_def io_enq_def io_produce_cases)
next
  case (4 q)
  then show ?case by (simp add: io_deq_def io_dequeue_def)
next
  case (5 q x xs)
  then have c: "0 < count q" using length_ring_items [of q] by simp
  show ?case
    using 5 io_deq_first [OF c] ring_pop_items [of IO_QUEUE_SIZE q] ring_pop_ok [of IO_QUEUE_SIZE q] c
    by (simp add: io_serving_def)
qed

lemma io_thread_progress:
  assumes "io_inv s" "\<not> no_shutdown (io_accepted s)" "io_pc s \<noteq> Io_done"
  shows "\<exists>s'. lease_io_thread_step s = Some s' \<and> io_pending s' < io_pending s
    \<and> io_accepted s' = io_accepted s"
proof (cases "io_pc s")
  case Io_top
  have "ring_items (ioq s) \<noteq> []"
    using assms(1,2) Io_top by (auto simp: io_inv_def io_taken_def simp del: ring_items_Nil)
  then have "count (ioq s) \<noteq> 0" by simp
  then show ?thesis
    using Io_top by (auto simp: lease_io_thread_step_def io_dequeue_def io_pending_def ring_pop_def)
qed (use assms in \<open>auto simp: lease_io_thread_step_def io_pending_def\<close>)

lemma io_thread_run_done:
  "\<lbrakk>io_inv s; \<not> no_shutdown (io_accepted s); io_pending s \<le> n\<rbrakk> \<Longrightarrow> io_pc (io_thread_run n s) = Io_done"
proof (induction n arbitrary: s)
  case 0
  then show ?case by (cases "io_pc s") (auto simp: io_pending_def)
next
  case (Suc n)
  show ?case
  proof (cases "io_pc s = Io_done")
    case True
    then show ?thesis by (simp add: lease_io_thread_step_def)
  next
    case False
    then show ?thesis
      using Suc io_thread_progress [OF Suc.prems(1,2)] io_thread_inv [OF Suc.prems(1)] by fastforce
  qed
qed

text \<open>Without a shutdown in the queue the thread never leaves its loop.\<close>

definition io_stuck :: "io_sys \<Rightarrow> bool" where
  "io_stuck s \<longleftrightarrow> io_inv s \<and> no_shutdown (io_accepted s) \<and> io_stop s = Io_joining"

lemma io_stuck_pc: "io_stuck s \<Longrightarrow> io_pc s \<noteq> Io_done"
  by (auto simp: io_stuck_def io_inv_def io_taken_def)

lemma io_thread_accepted:
  "lease_io_thread_step s = Some s' \<Longrightarrow> io_accepted s' = io_accepted s \<and> io_stop s' = io_stop s"
  by (auto simp: lease_io_thread_step_def split: io_pc.splits io_round.splits if_splits)

lemma io_stuck_step:
  assumes st: "io_step s s'" and stuck: "io_stuck s"
  shows "io_stuck s'"
proof -
  have "io_inv s'" using st stuck io_step_inv by (auto simp: io_stuck_def)
  moreover have "no_shutdown (io_accepted s') \<and> io_stop s' = Io_joining"
    using st stuck io_stuck_pc [OF stuck]
    by (auto simp: io_stuck_def elim!: io_step.cases dest: io_thread_accepted)
  ultimately show ?thesis by (simp add: io_stuck_def)
qed

lemma io_stuck_steps: "io_step\<^sup>*\<^sup>* s s' \<Longrightarrow> io_stuck s \<Longrightarrow> io_stuck s'"
  by (induction rule: rtranclp_induct) (auto intro: io_stuck_step)

lemma io_exec_steps: "io_step\<^sup>*\<^sup>* s (io_exec e s)"
proof (cases e)
  case (Ev_produce now lease)
  then show ?thesis
    using io_step.accept [of now lease s] io_step.refuse [of now lease s]
    by (auto simp: io_produce_cases)
next
  case (Ev_stop now)
  then show ?thesis using io_step.stop [of s now] by (auto split: option.splits)
next
  case Ev_thread
  then show ?thesis using io_step.thread [of s] by (auto split: option.splits)
next
  case Ev_join
  then show ?thesis using io_step.joined [of s] by auto
qed

lemma io_fold_steps: "io_step\<^sup>*\<^sup>* s (fold io_exec es s)"
proof (induction es arbitrary: s)
  case (Cons e es)
  then show ?case using io_exec_steps [of s e] rtranclp_trans [of io_step] by fastforce
qed simp

section \<open>Properties\<close>

text \<open>
  C12: When \<open>lease_io_stop\<close> returns, exactly the operations that were accepted before the stop have been
  handed to the disk routines, once each and in the order of acceptance, whatever the interleaving
  of producers, stop and I/O thread.  In particular an operation that a producer queues after the
  shutdown entry is acknowledged with 0 and never carried out.
\<close>

theorem lease_io_stop_flushes:
  assumes "lease_io_init m c = (0, q0)" "lease_io_start k q0 = (0, q)"
    and "io_step\<^sup>*\<^sup>* (io_begin q) s" "io_stop s = Io_stopped"
  shows "io_log s = io_before s \<and> (\<exists>now. io_accepted s = io_before s @ shutdown_op now # ring_items (ioq s))"
proof -
  have inv: "io_inv s" using io_run.reachable_inv assms(1,2,3) by blast
  then have "io_pc s = Io_done" using assms(4) by (auto simp: io_inv_def)
  with inv obtain now where "io_handled s = io_before s @ [shutdown_op now]" "no_shutdown (io_before s)"
    using assms(4) by (auto simp: io_inv_def stop_ok_def)
  then show ?thesis
    using inv \<open>io_pc s = Io_done\<close> by (auto simp: io_inv_def io_taken_def)
qed

definition io_ready :: lease_io_queue_t where
  "io_ready = snd (lease_io_start True (snd (lease_io_init True True)))"

lemma io_ready_started:
  "lease_io_init True True = (0, snd (lease_io_init True True))"
  "lease_io_start True (snd (lease_io_init True True)) = (0, io_ready)"
  by (simp_all add: io_ready_def lease_io_init_def lease_io_start_def Let_def)

text \<open>Two saves, the stop, a save that comes too late, and the thread until it exits.\<close>

definition io_events :: "io_event list" where
  "io_events = [Ev_produce 1 None, Ev_produce 2 (Some lease_zero), Ev_stop 3, Ev_produce 4 None]"

definition io_drain :: "io_event list" where
  "io_drain = [Ev_thread, Ev_thread, Ev_thread, Ev_thread, Ev_thread, Ev_thread, Ev_join]"

lemmas io_eval = io_events_def io_drain_def io_begin_def io_ready_def lease_io_init_def lease_io_start_def Let_def
  io_produce_cases lease_io_stop_begin_def lease_io_thread_step_def io_dequeue_def ring_push_def
  ring_pop_def produced_op_def shutdown_op_def

theorem lease_io_stop_flushes_witness:
  "io_log (fold io_exec (io_events @ io_drain) (io_begin io_ready))
     = [produced_op 1 None, produced_op 2 (Some lease_zero)]
   \<and> produced_op 4 None \<in> set (io_accepted
        (fold io_exec (io_events @ io_drain) (io_begin io_ready)))"
proof -
  let ?s = "fold io_exec (io_events @ io_drain) (io_begin io_ready)"
  have st: "io_stop ?s = Io_stopped" by (simp add: io_eval)
  have be: "io_before ?s = [produced_op 1 None, produced_op 2 (Some lease_zero)]"
    by (simp add: io_eval)
  have ac: "produced_op 4 None \<in> set (io_accepted ?s)" by (simp add: io_eval)
  show ?thesis
    using lease_io_stop_flushes [OF io_ready_started io_fold_steps st] be ac by simp
qed

text \<open>
  C32: A stop that found room for its shutdown entry returns: from every reachable state in which the
  stop waits and the shutdown was queued, the I/O thread reaches its exit within two steps per queued
  operation, plus two, so the join completes.
\<close>

theorem lease_io_stop_returns:
  assumes "lease_io_init m c = (0, q0)" "lease_io_start k q0 = (0, q)"
    and "io_step\<^sup>*\<^sup>* (io_begin q) s" "io_stop s = Io_joining" "\<not> no_shutdown (io_accepted s)"
  shows "io_pc (io_thread_run (2 * count (ioq s) + 2) s) = Io_done"
proof (rule io_thread_run_done)
  show "io_inv s" using io_run.reachable_inv assms(1,2,3) by blast
  show "io_pending s \<le> 2 * count (ioq s) + 2" by (simp add: io_pending_def split: io_pc.splits)
qed (use assms(5) in simp)

theorem lease_io_stop_returns_witness:
  "count (ioq (fold io_exec io_events (io_begin io_ready))) = 4 \<and>
   io_pc (io_thread_run 10 (fold io_exec io_events (io_begin io_ready))) = Io_done"
proof -
  let ?s = "fold io_exec io_events (io_begin io_ready)"
  have f: "io_stop ?s = Io_joining" "\<not> no_shutdown (io_accepted ?s)" "count (ioq ?s) = 4"
    by (simp_all add: io_eval)
  then show ?thesis
    using lease_io_stop_returns [OF io_ready_started io_fold_steps f(1,2)] by simp
qed

text \<open>
  A stop that finds the queue full never returns: the shutdown entry is not queued and \<open>running\<close> stays
  true, so after the backlog is written the I/O thread waits for work for ever, and so does the
  join in \<open>lease_io_stop\<close>.
\<close>

lemma lease_io_stop_full_queue_hangs:
  assumes "lease_io_init m c = (0, q0)" "lease_io_start k q0 = (0, q)" "io_step\<^sup>*\<^sup>* (io_begin q) s"
    and "io_stop s = No_stop" "count (ioq s) = IO_QUEUE_SIZE"
    and "lease_io_stop_begin now (ioq s) = Some q'"
    and "io_step\<^sup>*\<^sup>* (s\<lparr>ioq := q', io_stop := Io_joining, io_before := io_accepted s\<rparr>) s'"
  shows "io_stop s' = Io_joining \<and> io_pc s' \<noteq> Io_done"
proof -
  let ?s = "s\<lparr>ioq := q', io_stop := Io_joining, io_before := io_accepted s\<rparr>"
  have inv: "io_inv s" using io_run.reachable_inv assms(1,2,3) by blast
  then have "no_shutdown (io_accepted s)" using assms(4) unfolding io_inv_def stop_ok_def by metis
  moreover have "io_inv ?s" using io_stop_inv [OF inv assms(4,6)] assms(5) by simp
  ultimately have "io_stuck ?s" by (simp add: io_stuck_def)
  then show ?thesis
    using io_stuck_steps [OF assms(7)] io_stuck_pc by (auto simp: io_stuck_def)
qed

definition io_full :: io_sys where
  "io_full = fold io_exec (replicate IO_QUEUE_SIZE (Ev_produce 0 None)) (io_begin io_ready)"

lemma io_fill:
  "\<lbrakk>count (ioq s) + n \<le> IO_QUEUE_SIZE; io_mutex_initialized (ioq s); io_running (ioq s)\<rbrakk> \<Longrightarrow>
   (let s' = fold io_exec (replicate n (Ev_produce 0 None)) s in
      count (ioq s') = count (ioq s) + n \<and> io_mutex_initialized (ioq s') \<and> io_running (ioq s')
      \<and> io_stop s' = io_stop s)"
  by (induction n arbitrary: s) (auto simp: io_produce_cases Let_def)

lemma io_ready_state:
  "count io_ready = 0" "io_mutex_initialized io_ready" "io_running io_ready"
  by (simp_all add: io_ready_def lease_io_init_def lease_io_start_def Let_def)

lemma io_full_state:
  "io_stop io_full = No_stop" "count (ioq io_full) = IO_QUEUE_SIZE"
  "lease_io_stop_begin 1 (ioq io_full) = Some (ioq io_full)"
proof -
  have i: "ioq (io_begin io_ready) = io_ready" "io_stop (io_begin io_ready) = No_stop"
    by (simp_all add: io_begin_def)
  have "count (ioq io_full) = 256 \<and> io_mutex_initialized (ioq io_full) \<and> io_running (ioq io_full)
      \<and> io_stop io_full = No_stop"
    unfolding io_full_def
    using io_fill [of "io_begin io_ready" IO_QUEUE_SIZE, unfolded Let_def i io_ready_state]
      io_ready_state by simp
  then show "io_stop io_full = No_stop" "count (ioq io_full) = IO_QUEUE_SIZE"
    "lease_io_stop_begin 1 (ioq io_full) = Some (ioq io_full)"
    by (simp_all add: lease_io_stop_begin_def)
qed

text \<open>
  With the database mutex free, a round of the running timer thread completes and leaves no active
  lease past its end: every lease that was active and overdue is marked expired, every other lease
  is unchanged, none is added or removed, and the mutex is free again.
\<close>

lemma timer_round_expires:
  assumes "timer_running timer" "\<not> db_mutex db"
  shows "\<exists>db'. lease_timer_thread_func now timer db = Returns (Some db') \<and> \<not> db_mutex db'
    \<and> list_all (\<lambda>l. \<not> lease_is_expired now l) (leases db')
    \<and> list_all2 (\<lambda>l l'. if lease_is_expired now l then lease_state l' = LEASE_STATE_EXPIRED else l' = l)
        (leases db) (leases db')"
proof -
  have "\<exists>db'. lease_timer_thread_func now timer db = Returns (Some db') \<and> \<not> db_mutex db'
    \<and> leases db' = map (expired_lease now) (leases db)"
    using assms by (auto simp: lease_timer_thread_func_def lease_db_expire_old_leases_safe_def
        lease_db_expire_eq lease_db_lock_def lease_db_unlock_def)
  then show ?thesis
    by (fastforce simp: list_all_length list_all2_conv_all_nth expired_lease_def lease_is_expired_def)
qed

end
