(* ===== verification/Thread_Pool.thy ===== *)
theory Thread_Pool
  imports Bounded_Fifo
begin

text \<open>
  The worker pool of the DHCPv4 server (utils/thread_pool.c).  The pool is the circular buffer
  extended with the counters and flags of \<open>struct thread_pool_t\<close>; a critical section under
  \<open>pool->lock\<close> is one atomic step, and the workers and the caller of \<open>thread_pool_destroy\<close> form the
  step relation \<open>tp_step\<close>.  A default pthread mutex never fails to lock, so the error returns of
  \<open>pthread_mutex_lock\<close> have no branch; \<open>malloc\<close> and \<open>pthread_create\<close> may fail.
\<close>

section \<open>Definitions\<close>

text \<open>Code and data pointers are addresses; 0 is NULL.\<close>

type_synonym thread_func_t = nat
type_synonym void_ptr = nat

record thread_task_t =
  task_function :: thread_func_t
  task_argument :: void_ptr

record thread_pool_t = "thread_task_t ring" +
  lock :: bool
  thread_count :: nat
  queue_size :: nat
  shutdown :: nat
  started :: int

abbreviation "MAX_THREADS \<equiv> (64 :: int)"
abbreviation "MAX_QUEUE \<equiv> (65536 :: int)"

text \<open>
  The parameters say whether the two groups of allocations and the initialisation of the mutex and
  the condition variable succeed, and which calls of \<open>pthread_create\<close> do.
\<close>

definition thread_pool_create ::
  "bool \<Rightarrow> bool \<Rightarrow> bool \<Rightarrow> (nat \<Rightarrow> bool) \<Rightarrow> int \<Rightarrow> int \<Rightarrow> thread_pool_t option" where
  "thread_pool_create malloc_ok arrays_ok sync_ok create_ok num_threads queue_sz =
     (if num_threads \<le> 0 \<or> num_threads > MAX_THREADS \<or> queue_sz \<le> 0 \<or> queue_sz > MAX_QUEUE then None
      else if \<not> malloc_ok then None
      else if \<not> arrays_ok then None
      else if \<not> sync_ok then None
      else if list_all create_ok [0..<nat num_threads] then
        Some \<lparr>queue = replicate (nat queue_sz) \<lparr>task_function = 0, task_argument = 0\<rparr>,
          head = 0, tail = 0, count = 0, lock = False, thread_count = nat num_threads,
          queue_size = nat queue_sz, shutdown = 0, started = num_threads\<rparr>
      else None)"

definition thread_pool_add ::
  "thread_func_t \<Rightarrow> void_ptr \<Rightarrow> thread_pool_t \<Rightarrow> (int \<times> thread_pool_t) outcome" where
  "thread_pool_add function argument pool =
     (if function = 0 then Returns (-1, pool)
      else if lock pool then Blocks
      else if count pool = queue_size pool then Returns (-1, pool)
      else if shutdown pool \<noteq> 0 then Returns (-1, pool)
      else Returns (0, ring_push (queue_size pool)
             \<lparr>task_function = function, task_argument = argument\<rparr> pool))"

text \<open>
  The critical section of \<open>thread_pool_destroy\<close>.  On the first call it sets the mode and releases
  the lock, and the joins follow; on a later call it leaves the loop before the unlock.
\<close>

definition thread_pool_destroy_begin :: "nat \<Rightarrow> thread_pool_t \<Rightarrow> (int \<times> thread_pool_t) outcome" where
  "thread_pool_destroy_begin flags pool =
     (if lock pool then Blocks
      else if shutdown pool \<noteq> 0 then Returns (-1, pool\<lparr>lock := True\<rparr>)
      else Returns (0, pool\<lparr>shutdown := (if odd flags then 2 else 1)\<rparr>))"

text \<open>One round of the worker loop, from the lock to the unlock.\<close>

datatype worker_round = Worker_waits | Worker_exits thread_pool_t | Worker_takes thread_task_t thread_pool_t

definition thread_pool_worker :: "thread_pool_t \<Rightarrow> worker_round" where
  "thread_pool_worker pool =
     (if count pool = 0 \<and> shutdown pool = 0 then Worker_waits
      else if (shutdown pool = 1 \<and> count pool = 0) \<or> shutdown pool = 2
        then Worker_exits (pool\<lparr>started := started pool - 1\<rparr>)
      else (let (task, pool') = ring_pop (queue_size pool) pool in Worker_takes task pool'))"

text \<open>
  The pool with its threads: each worker is before its lock, runs a task, or has exited.
  \<open>accepted\<close>, \<open>taken\<close> and \<open>executed\<close> record the tasks in the order of these events; \<open>destroy\<close> is how far
  \<open>thread_pool_destroy\<close> has come.
\<close>

datatype worker = Idle | Running thread_task_t | Exited
datatype destroy_phase = Not_called | Joining | Freed

record tp_sys =
  tp :: thread_pool_t
  workers :: "worker list"
  accepted :: "thread_task_t list"
  taken :: "thread_task_t list"
  executed :: "thread_task_t list"
  destroy :: destroy_phase

definition tp_start :: "thread_pool_t \<Rightarrow> tp_sys" where
  "tp_start pool = \<lparr>tp = pool, workers = replicate (thread_count pool) Idle, accepted = [],
     taken = [], executed = [], destroy = Not_called\<rparr>"

inductive worker_step :: "tp_sys \<Rightarrow> tp_sys \<Rightarrow> bool" where
  take: "\<lbrakk>i < length (workers s); workers s ! i = Idle; \<not> lock (tp s);
    thread_pool_worker (tp s) = Worker_takes task pool'\<rbrakk> \<Longrightarrow>
    worker_step s (s\<lparr>tp := pool', workers := (workers s)[i := Running task],
      taken := taken s @ [task]\<rparr>)"
| finish: "\<lbrakk>i < length (workers s); workers s ! i = Running task\<rbrakk> \<Longrightarrow>
    worker_step s (s\<lparr>workers := (workers s)[i := Idle], executed := executed s @ [task]\<rparr>)"
| exit: "\<lbrakk>i < length (workers s); workers s ! i = Idle; \<not> lock (tp s);
    thread_pool_worker (tp s) = Worker_exits pool'\<rbrakk> \<Longrightarrow>
    worker_step s (s\<lparr>tp := pool', workers := (workers s)[i := Exited]\<rparr>)"

inductive tp_step :: "tp_sys \<Rightarrow> tp_sys \<Rightarrow> bool" where
  add_accepted: "\<lbrakk>destroy s \<noteq> Freed; thread_pool_add f a (tp s) = Returns (0, pool')\<rbrakk> \<Longrightarrow>
    tp_step s (s\<lparr>tp := pool', accepted := accepted s @ [\<lparr>task_function = f, task_argument = a\<rparr>]\<rparr>)"
| add_refused: "\<lbrakk>destroy s \<noteq> Freed; thread_pool_add f a (tp s) = Returns (-1, pool')\<rbrakk> \<Longrightarrow>
    tp_step s (s\<lparr>tp := pool'\<rparr>)"
| begin_destroy: "\<lbrakk>destroy s = Not_called; thread_pool_destroy_begin flags (tp s) = Returns (0, pool')\<rbrakk>
    \<Longrightarrow> tp_step s (s\<lparr>tp := pool', destroy := Joining\<rparr>)"
| join_all: "\<lbrakk>destroy s = Joining; list_all (\<lambda>w. w = Exited) (workers s)\<rbrakk> \<Longrightarrow>
    tp_step s (s\<lparr>destroy := Freed\<rparr>)"
| work: "worker_step s s' \<Longrightarrow> tp_step s s'"

definition running_tasks :: "worker list \<Rightarrow> thread_task_t list" where
  "running_tasks ws = concat (map (\<lambda>w. case w of Running t \<Rightarrow> [t] | _ \<Rightarrow> []) ws)"

definition tp_inv :: "tp_sys \<Rightarrow> bool" where
  "tp_inv s \<longleftrightarrow> ring_ok (queue_size (tp s)) (tp s) \<and> \<not> lock (tp s)
     \<and> accepted s = taken s @ ring_items (tp s)
     \<and> mset (taken s) = mset (executed s) + mset (running_tasks (workers s))
     \<and> (Exited \<in> set (workers s) \<longrightarrow> shutdown (tp s) = 2 \<or> shutdown (tp s) = 1 \<and> count (tp s) = 0)
     \<and> shutdown (tp s) \<le> 2 \<and> workers s \<noteq> [] \<and> (destroy s \<noteq> Not_called \<longleftrightarrow> shutdown (tp s) \<noteq> 0)
     \<and> (destroy s = Freed \<longrightarrow> list_all (\<lambda>w. w = Exited) (workers s))"

text \<open>Work left for the workers once the pool is shutting down.\<close>

fun worker_weight :: "worker \<Rightarrow> nat" where
  "worker_weight Idle = 1"
| "worker_weight (Running _) = 2"
| "worker_weight Exited = 0"

definition tp_work :: "tp_sys \<Rightarrow> nat" where
  "tp_work s = 2 * count (tp s) + sum_list (map worker_weight (workers s))"

text \<open>Push and pop as the contract of a queue sees them.\<close>

definition tp_enq :: "thread_task_t \<Rightarrow> thread_pool_t \<Rightarrow> bool \<times> thread_pool_t" where
  "tp_enq t pool = (case thread_pool_add (task_function t) (task_argument t) pool of
     Returns (r, pool') \<Rightarrow> (r = 0, pool') | _ \<Rightarrow> (False, pool))"

definition tp_deq :: "thread_pool_t \<Rightarrow> thread_task_t option \<times> thread_pool_t" where
  "tp_deq pool = (case thread_pool_worker pool of
     Worker_takes t pool' \<Rightarrow> (Some t, pool') | _ \<Rightarrow> (None, pool))"

definition tp_serving :: "thread_pool_t \<Rightarrow> bool" where
  "tp_serving pool \<longleftrightarrow> ring_ok (queue_size pool) pool \<and> \<not> lock pool \<and> shutdown pool \<le> 1"

definition tp_accepting :: "thread_task_t \<Rightarrow> thread_pool_t \<Rightarrow> bool" where
  "tp_accepting t pool \<longleftrightarrow> task_function t \<noteq> 0 \<and> shutdown pool = 0"

section \<open>Lemmas\<close>

lemma ring_ok_pool_update [simp]:
  "ring_ok N (p\<lparr>lock := b\<rparr>) = ring_ok N p" "ring_ok N (p\<lparr>shutdown := k\<rparr>) = ring_ok N p"
  "ring_ok N (p\<lparr>started := z\<rparr>) = ring_ok N p"
  by (simp_all add: ring_ok_def)

lemma ring_items_pool_update [simp]:
  "ring_items (p\<lparr>lock := b\<rparr>) = ring_items p" "ring_items (p\<lparr>shutdown := k\<rparr>) = ring_items p"
  "ring_items (p\<lparr>started := z\<rparr>) = ring_items p"
  by (simp_all add: ring_items_def)

lemma ring_push_pool [simp]:
  "queue_size (ring_push N t p) = queue_size p" "lock (ring_push N t p) = lock p"
  "shutdown (ring_push N t p) = shutdown p" "count (ring_push N t p) = count p + 1"
  by (simp_all add: ring_push_def)

lemma ring_pop_pool [simp]:
  "queue_size (snd (ring_pop N p)) = queue_size p" "lock (snd (ring_pop N p)) = lock p"
  "shutdown (snd (ring_pop N p)) = shutdown p" "count (snd (ring_pop N p)) = count p - 1"
  for p :: thread_pool_t
  by (simp_all add: ring_pop_def)

lemma worker_takes:
  assumes "thread_pool_worker p = Worker_takes t p'" "ring_ok (queue_size p) p" "shutdown p \<le> 2"
  shows "0 < count p \<and> shutdown p \<noteq> 2 \<and> ring_ok (queue_size p') p' \<and> ring_items p = t # ring_items p'
    \<and> lock p' = lock p \<and> shutdown p' = shutdown p \<and> queue_size p' = queue_size p \<and> count p' = count p - 1"
proof -
  have c: "0 < count p" "shutdown p \<noteq> 2" and r: "ring_pop (queue_size p) p = (t, p')"
    using assms(1,3) by (auto simp: thread_pool_worker_def split: if_splits prod.splits)
  show ?thesis
    using ring_pop_items [OF assms(2) c(1)] ring_pop_ok [OF assms(2) c(1)] r c
      ring_pop_pool [of "queue_size p" p] by simp
qed

lemma worker_exits:
  assumes "thread_pool_worker p = Worker_exits p'"
  shows "p' = p\<lparr>started := started p - 1\<rparr> \<and> (shutdown p = 2 \<or> shutdown p = 1 \<and> count p = 0)"
  using assms by (auto simp: thread_pool_worker_def split: if_splits prod.splits)

lemma running_tasks_update:
  assumes "i < length ws"
  shows "mset (running_tasks (ws[i := w])) + mset (running_tasks [ws ! i]) =
    mset (running_tasks ws) + mset (running_tasks [w])"
  using assms
proof (induction ws arbitrary: i)
  case (Cons v ws)
  then show ?case by (cases i) (auto simp: running_tasks_def)
qed simp

lemma weight_update:
  assumes "i < length ws"
  shows "sum_list (map worker_weight (ws[i := w])) + worker_weight (ws ! i) =
    sum_list (map worker_weight ws) + worker_weight w"
  using assms
proof (induction ws arbitrary: i)
  case (Cons v ws)
  then show ?case by (cases i) auto
qed simp

lemma running_tasks_single [simp]:
  "running_tasks [Idle] = []" "running_tasks [Exited] = []" "running_tasks [Running t] = [t]"
  by (simp_all add: running_tasks_def)

lemma running_tasks_exited: "list_all (\<lambda>w. w = Exited) ws \<Longrightarrow> running_tasks ws = []"
  by (induction ws) (auto simp: running_tasks_def)

lemma tp_enq_accept:
  assumes "tp_serving p" "tp_accepting t p" "count p < queue_size p"
  shows "tp_enq t p = (True, ring_push (queue_size p) t p)"
  using assms by (cases t) (simp add: tp_serving_def tp_accepting_def tp_enq_def thread_pool_add_def)

lemma tp_enq_reject:
  assumes "tp_serving p" "\<not> tp_accepting t p \<or> count p = queue_size p"
  shows "tp_enq t p = (False, p)"
  using assms by (auto simp: tp_serving_def tp_accepting_def tp_enq_def thread_pool_add_def)

lemma tp_deq_first:
  assumes "tp_serving p" "0 < count p"
  shows "tp_deq p = (Some (fst (ring_pop (queue_size p) p)), snd (ring_pop (queue_size p) p))"
  using assms by (auto simp: tp_serving_def tp_deq_def thread_pool_worker_def split: prod.splits)

lemma tp_deq_empty: "tp_serving p \<Longrightarrow> count p = 0 \<Longrightarrow> tp_deq p = (None, p)"
  by (auto simp: tp_serving_def tp_deq_def thread_pool_worker_def le_Suc_eq)

interpretation tp_fifo: bounded_fifo queue_size ring_items tp_serving tp_accepting tp_enq tp_deq
proof (unfold_locales, goal_cases)
  case (1 p)
  then show ?case by (simp add: tp_serving_def ring_ok_def)
next
  case (2 p t)
  then show ?case
    using tp_enq_accept [of p t] by (simp add: tp_serving_def ring_push_items ring_push_ok)
next
  case (3 p t)
  then show ?case using tp_enq_reject [of p t] by simp
next
  case (4 p)
  then show ?case using tp_deq_empty by simp
next
  case (5 p t ts)
  then have c: "0 < count p" using length_ring_items [of p] by simp
  show ?case
    using 5 tp_deq_first [OF 5(1) c] ring_pop_items [of "queue_size p" p]
      ring_pop_ok [of "queue_size p" p] c
    by (simp add: tp_serving_def)
qed

lemma tp_start_inv:
  "thread_pool_create m1 m2 m3 c n q = Some pool \<Longrightarrow> tp_inv (tp_start pool)"
  by (auto simp: thread_pool_create_def tp_start_def tp_inv_def ring_ok_def ring_items_def
      running_tasks_def map_replicate_const split: if_splits)

lemma worker_step_inv: "worker_step s s' \<Longrightarrow> tp_inv s \<Longrightarrow> tp_inv s'"
proof (induction rule: worker_step.induct)
  case (take i s task pool')
  then show ?case
    using worker_takes [OF take(4)] running_tasks_update [OF take(1), of "Running task"]
    by (auto simp: tp_inv_def list_all_length dest!: set_update_subset_insert [THEN subsetD])
next
  case (finish i s task)
  then show ?case
    using running_tasks_update [OF finish(1), of Idle]
    by (auto simp: tp_inv_def list_all_length dest!: set_update_subset_insert [THEN subsetD])
next
  case (exit i s pool')
  then show ?case
    using worker_exits [OF exit(4)] running_tasks_update [OF exit(1), of Exited]
    by (auto simp: tp_inv_def list_all_length dest!: set_update_subset_insert [THEN subsetD])
qed

lemma tp_step_inv: "tp_step s s' \<Longrightarrow> tp_inv s \<Longrightarrow> tp_inv s'"
proof (induction rule: tp_step.induct)
  case (add_accepted s f a pool')
  then have "pool' = ring_push (queue_size (tp s)) \<lparr>task_function = f, task_argument = a\<rparr> (tp s)"
    "count (tp s) < queue_size (tp s)" "shutdown (tp s) = 0"
    by (auto simp: thread_pool_add_def tp_inv_def ring_ok_def split: if_splits)
  then show ?case
    using add_accepted(3) by (auto simp: tp_inv_def ring_push_ok ring_push_items)
next
  case (add_refused s f a pool')
  then show ?case by (auto simp: thread_pool_add_def split: if_splits)
next
  case (begin_destroy s flags pool')
  then show ?case by (auto simp: thread_pool_destroy_begin_def tp_inv_def split: if_splits)
next
  case (join_all s)
  then show ?case by (auto simp: tp_inv_def)
next
  case (work s s')
  then show ?case by (simp add: worker_step_inv)
qed

interpretation tp_run: invariant_system
  "\<lambda>s. \<exists>m1 m2 m3 c n q pool. thread_pool_create m1 m2 m3 c n q = Some pool \<and> s = tp_start pool"
  tp_step tp_inv
  by unfold_locales (auto intro: tp_start_inv tp_step_inv)

lemma worker_step_work:
  "worker_step s s' \<Longrightarrow> tp_inv s \<Longrightarrow> tp_work s' < tp_work s"
proof (induction rule: worker_step.induct)
  case (take i s task pool')
  then show ?case
    using worker_takes [OF take(4)] weight_update [OF take(1), of "Running task"]
    by (auto simp: tp_inv_def tp_work_def)
next
  case (finish i s task)
  then show ?case using weight_update [OF finish(1), of Idle] by (auto simp: tp_work_def)
next
  case (exit i s pool')
  then show ?case
    using worker_exits [OF exit(4)] weight_update [OF exit(1), of Exited]
    by (auto simp: tp_work_def)
qed

lemma worker_progress:
  assumes "tp_inv s" "shutdown (tp s) \<noteq> 0" "\<not> list_all (\<lambda>w. w = Exited) (workers s)"
  shows "\<exists>s'. worker_step s s'"
proof -
  obtain i where i: "i < length (workers s)" "workers s ! i \<noteq> Exited"
    using assms(3) by (auto simp: list_all_length)
  show ?thesis
  proof (cases "workers s ! i")
    case Idle
    then show ?thesis
      using i assms(1,2) worker_step.take [OF i(1) Idle] worker_step.exit [OF i(1) Idle]
      by (cases "thread_pool_worker (tp s)") (auto simp: tp_inv_def thread_pool_worker_def split: if_splits prod.splits)
  next
    case (Running t)
    then show ?thesis using worker_step.finish [OF i(1) Running] by blast
  next
    case Exited
    then show ?thesis using i by simp
  qed
qed

lemma worker_step_shutdown: "worker_step s s' \<Longrightarrow> tp_inv s \<Longrightarrow> shutdown (tp s') = shutdown (tp s)"
  by (induction rule: worker_step.induct) (auto simp: tp_inv_def dest: worker_takes worker_exits)

lemma workers_all_exit:
  assumes "tp_inv s" "shutdown (tp s) \<noteq> 0"
  shows "\<exists>s'. worker_step\<^sup>*\<^sup>* s s' \<and> list_all (\<lambda>w. w = Exited) (workers s')"
  using assms
proof (induction "tp_work s" arbitrary: s rule: less_induct)
  case less
  show ?case
  proof (cases "list_all (\<lambda>w. w = Exited) (workers s)")
    case False
    then obtain s1 where s1: "worker_step s s1" using worker_progress less.prems by blast
    then have "tp_work s1 < tp_work s" "tp_inv s1" "shutdown (tp s1) \<noteq> 0"
      using worker_step_work worker_step_inv worker_step_shutdown less.prems by auto
    with less.hyps obtain s2 where
      "worker_step\<^sup>*\<^sup>* s1 s2" "list_all (\<lambda>w. w = Exited) (workers s2)" by blast
    with s1 show ?thesis by (meson converse_rtranclp_into_rtranclp)
  qed auto
qed

lemma worker_steps_inv: "worker_step\<^sup>*\<^sup>* s s' \<Longrightarrow> tp_inv s \<Longrightarrow> tp_inv s' \<and> shutdown (tp s') = shutdown (tp s)"
  by (induction rule: rtranclp_induct) (auto simp: worker_step_inv worker_step_shutdown)

lemma worker_steps_bounded:
  "(worker_step ^^ n) s s' \<Longrightarrow> tp_inv s \<Longrightarrow> n + tp_work s' \<le> tp_work s"
proof (induction n arbitrary: s')
  case (Suc n)
  then obtain t where t: "(worker_step ^^ n) s t" "worker_step t s'" by auto
  then have "tp_inv t" using worker_steps_inv Suc.prems(2) relpowp_imp_rtranclp by metis
  then show ?case using Suc.IH [OF t(1) Suc.prems(2)] worker_step_work [OF t(2)] by simp
qed simp

text \<open>A lock that is never released: no worker leaves its loop.\<close>

lemma lock_leaked_step:
  assumes "tp_step s s'" "lock (tp s)" "\<not> list_all (\<lambda>w. w = Exited) (workers s)" "destroy s = Joining"
  shows "lock (tp s') \<and> \<not> list_all (\<lambda>w. w = Exited) (workers s') \<and> destroy s' = Joining"
  using assms
proof (induction rule: tp_step.induct)
  case (work s s')
  then show ?case
  proof (induction rule: worker_step.induct)
    case (finish i s task)
    then show ?case by (auto simp: list_all_length)
  qed auto
qed (auto simp: thread_pool_add_def split: if_splits)

lemma lock_leaked_steps:
  assumes "tp_step\<^sup>*\<^sup>* s s'" "lock (tp s)" "\<not> list_all (\<lambda>w. w = Exited) (workers s)" "destroy s = Joining"
  shows "lock (tp s') \<and> \<not> list_all (\<lambda>w. w = Exited) (workers s') \<and> destroy s' = Joining"
  using assms by (induction rule: rtranclp_induct) (auto dest: lock_leaked_step)

section \<open>Properties\<close>

text \<open>
  C27: The pool is a bounded first-in first-out queue.  For every sequence of \<open>thread_pool_add\<close> calls
  and worker rounds that the lock admits, while the pool serves or drains, the tasks the workers
  take are, in order, the tasks that were queued and then the tasks that were accepted: none is
  lost, none is duplicated, none overtakes another, and at most \<open>queue_size\<close> accepted tasks wait.
\<close>

theorem thread_pool_fifo:
  assumes "tp_serving pool" "fifo_run tp_enq tp_deq ops pool = (acc, del, pool')"
  shows "ring_items pool @ acc = del @ ring_items pool' \<and> length acc \<le> length del + queue_size pool"
  using tp_fifo.run_fifo [OF assms] tp_fifo.run_bounded [OF assms] by simp

definition small_pool :: thread_pool_t where
  "small_pool = \<lparr>queue = replicate 2 \<lparr>task_function = 0, task_argument = 0\<rparr>, head = 0, tail = 0,
     count = 0, lock = False, thread_count = 1, queue_size = 2, shutdown = 0, started = 1\<rparr>"

definition small_task :: thread_task_t where
  "small_task = \<lparr>task_function = 7, task_argument = 9\<rparr>"

lemma small_pool_created: "thread_pool_create True True True (\<lambda>_. True) 1 2 = Some small_pool"
  by (simp add: thread_pool_create_def small_pool_def list_all_iff)

theorem thread_pool_fifo_witness:
  "fifo_run tp_enq tp_deq [Enq small_task, Deq] small_pool = ([small_task], [small_task],
     small_pool\<lparr>queue := [small_task, \<lparr>task_function = 0, task_argument = 0\<rparr>], head := 1, tail := 1\<rparr>)
   \<and> tp_serving small_pool
   \<and> ring_items small_pool @ [small_task] = [small_task] @ ring_items
      (small_pool\<lparr>queue := [small_task, \<lparr>task_function = 0, task_argument = 0\<rparr>], head := 1, tail := 1\<rparr>)"
proof -
  have r: "fifo_run tp_enq tp_deq [Enq small_task, Deq] small_pool = ([small_task], [small_task],
     small_pool\<lparr>queue := [small_task, \<lparr>task_function = 0, task_argument = 0\<rparr>], head := 1, tail := 1\<rparr>)"
    by (simp add: tp_enq_def tp_deq_def thread_pool_add_def thread_pool_worker_def ring_push_def
        ring_pop_def small_pool_def small_task_def numeral_2_eq_2)
  have v: "tp_serving small_pool" by (simp add: tp_serving_def small_pool_def ring_ok_def)
  show ?thesis using r v thread_pool_fifo [OF v r] by simp
qed

text \<open>
  C28: A graceful \<open>thread_pool_destroy\<close> (flag bit 0 clear) runs every accepted task before it frees the
  pool: in each reachable state in which the joins have completed after a shutdown in mode 1, the
  executed tasks are the accepted tasks and none is left in the queue.
\<close>

theorem thread_pool_graceful_shutdown:
  assumes "thread_pool_create m1 m2 m3 c n q = Some pool" "tp_step\<^sup>*\<^sup>* (tp_start pool) s"
    and "destroy s = Freed" "shutdown (tp s) = 1"
  shows "mset (executed s) = mset (accepted s) \<and> count (tp s) = 0"
proof -
  have inv: "tp_inv s" using tp_run.reachable_inv assms(1,2) by metis
  then have all: "list_all (\<lambda>w. w = Exited) (workers s)" "workers s \<noteq> []"
    using assms(3) by (auto simp: tp_inv_def)
  then have "Exited \<in> set (workers s)" by (cases "workers s") auto
  with inv assms(4) have "count (tp s) = 0" by (auto simp: tp_inv_def)
  then show ?thesis
    using inv running_tasks_exited [OF all(1)] ring_items_Nil [of "tp s"] by (auto simp: tp_inv_def)
qed
text \<open>A run of the small pool: one task is added, the pool is destroyed gracefully, the worker drains it.\<close>

definition small_full :: thread_pool_t where
  "small_full = small_pool\<lparr>queue := [small_task, \<lparr>task_function = 0, task_argument = 0\<rparr>],
     tail := 1, count := 1\<rparr>"

definition small_s1 :: tp_sys where
  "small_s1 = \<lparr>tp = small_full\<lparr>shutdown := 1\<rparr>, workers = [Idle], accepted = [small_task],
     taken = [], executed = [], destroy = Joining\<rparr>"

definition small_s2 :: tp_sys where
  "small_s2 = \<lparr>tp = small_full\<lparr>shutdown := 1, head := 1, count := 0, started := 0\<rparr>,
     workers = [Exited], accepted = [small_task], taken = [small_task], executed = [small_task],
     destroy = Freed\<rparr>"

lemmas small_defs = small_pool_def small_task_def small_full_def small_s1_def small_s2_def
  tp_start_def thread_pool_add_def thread_pool_destroy_begin_def thread_pool_worker_def
  ring_push_def ring_pop_def numeral_2_eq_2

lemma small_run1: "tp_step\<^sup>*\<^sup>* (tp_start small_pool) small_s1"
proof -
  define s0 where "s0 = tp_start small_pool"
  define a where "a = s0\<lparr>tp := small_full, accepted := accepted s0 @ [\<lparr>task_function = 7, task_argument = 9\<rparr>]\<rparr>"
  have "tp_step s0 a"
    unfolding a_def by (rule add_accepted) (simp_all add: s0_def small_defs)
  moreover have "tp_step a (a\<lparr>tp := small_full\<lparr>shutdown := 1\<rparr>, destroy := Joining\<rparr>)"
    by (rule begin_destroy [where flags = 0]) (simp_all add: a_def s0_def small_defs)
  moreover have "a\<lparr>tp := small_full\<lparr>shutdown := 1\<rparr>, destroy := Joining\<rparr> = small_s1"
    by (simp add: a_def s0_def small_defs)
  ultimately show ?thesis by (simp add: s0_def)
qed

lemma small_run2: "tp_step\<^sup>*\<^sup>* small_s1 small_s2"
proof -
  define p1 where "p1 = small_full\<lparr>shutdown := 1, head := 1, count := 0\<rparr>"
  define b where "b = small_s1\<lparr>tp := p1, workers := (workers small_s1)[0 := Running small_task],
    taken := taken small_s1 @ [small_task]\<rparr>"
  define c where "c = b\<lparr>workers := (workers b)[0 := Idle], executed := executed b @ [small_task]\<rparr>"
  define d where "d = c\<lparr>tp := p1\<lparr>started := started p1 - 1\<rparr>, workers := (workers c)[0 := Exited]\<rparr>"
  have "worker_step small_s1 b"
    unfolding b_def by (rule take) (simp_all add: p1_def small_defs)
  moreover have "worker_step b c"
    unfolding c_def by (rule finish) (simp_all add: b_def small_defs)
  moreover have "worker_step c d"
    unfolding d_def by (rule exit) (simp_all add: c_def b_def p1_def small_defs)
  moreover have "tp_step d (d\<lparr>destroy := Freed\<rparr>)"
    by (rule join_all) (simp_all add: d_def c_def b_def p1_def small_defs)
  moreover have "d\<lparr>destroy := Freed\<rparr> = small_s2"
    by (simp add: d_def c_def b_def p1_def small_defs)
  ultimately show ?thesis by (metis (no_types) r_into_rtranclp rtranclp_trans work)
qed

theorem thread_pool_graceful_shutdown_witness:
  "thread_pool_create True True True (\<lambda>_. True) 1 2 = Some small_pool
   \<and> tp_step\<^sup>*\<^sup>* (tp_start small_pool) small_s2 \<and> destroy small_s2 = Freed
   \<and> mset (executed small_s2) = mset (accepted small_s2)"
proof -
  have r: "tp_step\<^sup>*\<^sup>* (tp_start small_pool) small_s2"
    using small_run1 small_run2 by (rule rtranclp_trans)
  have f: "destroy small_s2 = Freed" "shutdown (tp small_s2) = 1" by (simp_all add: small_defs)
  show ?thesis
    using thread_pool_graceful_shutdown [OF small_pool_created r f] small_pool_created r f by simp
qed



text \<open>
  A second call of \<open>thread_pool_destroy\<close> while the first one waits for its workers returns -1 with
  \<open>pool->lock\<close> still held (the break skips the unlock).  From then on no worker that is still
  running ever exits, so the first call never returns from its joins.
\<close>

lemma thread_pool_second_destroy_hangs:
  assumes "destroy s = Joining" "\<not> list_all (\<lambda>w. w = Exited) (workers s)"
    and "thread_pool_destroy_begin flags (tp s) = Returns (r, pool')" "shutdown (tp s) \<noteq> 0"
    and "tp_step\<^sup>*\<^sup>* (s\<lparr>tp := pool'\<rparr>) s'"
  shows "r = -1 \<and> lock pool' \<and> destroy s' \<noteq> Freed"
proof -
  have "r = -1" "lock pool'"
    using assms(3,4) by (auto simp: thread_pool_destroy_begin_def split: if_splits)
  then show ?thesis using lock_leaked_steps [OF assms(5)] assms(1,2) by simp
qed

end
