(* ===== verification/C_Text.thy ===== *)
theory C_Text
  imports Prelude "HOL-Library.Monad_Syntax"
begin

text \<open>
  The functions of the C library with which the parsers of the repository read text: character classes,
  \<open>strtok\<close>, \<open>fgets\<close>, \<open>strtoul\<close>, \<open>strtol\<close>, the conversions of \<open>sscanf\<close> that the sources use, and
  \<open>inet_pton\<close> for both address families.  A C string is the list of its characters up to the
  terminator; a file that is read is the list of the characters that are left.
\<close>

section \<open>Definitions\<close>

subsection \<open>Characters\<close>

definition isspace :: "char \<Rightarrow> bool" where
  "isspace c \<longleftrightarrow> c \<in> {CHR '' '', CHR 0x09, CHR 0x0A, CHR 0x0B, CHR 0x0C, CHR 0x0D}"

definition hex_digits :: string where
  "hex_digits = ''0123456789abcdef''"

text \<open>The value of a hexadecimal digit; None when \<open>isxdigit\<close> is false.\<close>

definition xdigit_val :: "char \<Rightarrow> nat option" where
  "xdigit_val c = (case find_idx (\<lambda>d. d = c) hex_digits of
     Some n \<Rightarrow> Some n
   | None \<Rightarrow> map_option (\<lambda>n. n + 10) (find_idx (\<lambda>d. d = c) ''ABCDEF''))"

definition isxdigit :: "char \<Rightarrow> bool" where
  "isxdigit c \<longleftrightarrow> xdigit_val c \<noteq> None"

definition isdigit :: "char \<Rightarrow> bool" where
  "isdigit c \<longleftrightarrow> c \<in> set ''0123456789''"

definition digit_val :: "char \<Rightarrow> int" where
  "digit_val c = of_char c - 48"

definition strip_newline :: "string \<Rightarrow> string" where
  "strip_newline s = takeWhile (\<lambda>c. c \<noteq> CHR 0x0A) s"

subsection \<open>Lines and tokens\<close>

text \<open>
  \<open>fgets\<close> with a buffer of \<open>n\<close> bytes: at most \<open>n - 1\<close> characters, up to and with the first newline.
  What the callers see is the C string in the buffer, which ends at the first zero byte.
\<close>

definition line_length :: "nat \<Rightarrow> string \<Rightarrow> nat" where
  "line_length n f = min (n - 1) (Suc (length (strip_newline f)))"

definition fgets :: "nat \<Rightarrow> string \<Rightarrow> (string \<times> string) option" where
  "fgets n f = (if f = [] \<or> n \<le> 1 then None
     else Some (takeWhile (\<lambda>c. c \<noteq> CHR 0x00) (take (line_length n f) f), drop (line_length n f) f))"

text \<open>\<open>strtok\<close> on the text that is left: the token, if there is one, and the text behind it.\<close>

definition strtok :: "string \<Rightarrow> string \<Rightarrow> string option \<times> string" where
  "strtok delims s =
     (let s1 = dropWhile (\<lambda>c. c \<in> set delims) s
      in if s1 = [] then (None, [])
         else (Some (takeWhile (\<lambda>c. c \<notin> set delims) s1), tl (dropWhile (\<lambda>c. c \<notin> set delims) s1)))"

subsection \<open>Numbers\<close>

definition dec_val :: "string \<Rightarrow> int" where
  "dec_val ds = foldl (\<lambda>n c. n * 10 + digit_val c) 0 ds"

text \<open>The sign in front of a number and the text behind it.\<close>

definition sign_of :: "string \<Rightarrow> bool \<times> string" where
  "sign_of s = (case s of
     [] \<Rightarrow> (False, [])
   | c # cs \<Rightarrow> if c = CHR ''-'' then (True, cs) else if c = CHR ''+'' then (False, cs) else (False, s))"

text \<open>\<open>strtoul\<close> with base 10 and a 64 bit result: the value and the end pointer.\<close>

definition strtoul :: "string \<Rightarrow> int \<times> string" where
  "strtoul s =
     (let (neg, s1) = sign_of (dropWhile isspace s); ds = takeWhile isdigit s1; n = dec_val ds
      in if ds = [] then (0, s)
         else (if n \<ge> 2 ^ 64 then 2 ^ 64 - 1 else if neg \<and> n \<noteq> 0 then 2 ^ 64 - n else n,
               dropWhile isdigit s1))"

definition strtol :: "string \<Rightarrow> int" where
  "strtol s =
     (let (neg, s1) = sign_of (dropWhile isspace s); n = dec_val (takeWhile isdigit s1)
      in if neg then max (- n) (- (2 ^ 63)) else min n (2 ^ 63 - 1))"

subsection \<open>sscanf\<close>

text \<open>
  The directives of the formats in the sources: a character, white space, \<open>%Ns\<close>, \<open>%N[^...]\<close>, \<open>%u\<close>
  and \<open>%d\<close> with the width in bits of the variable.  The result is the list of the values
  that were assigned; its length is the return value (which is EOF instead of 0 when the text ends
  before the first conversion; the sources only compare with positive numbers).
\<close>

datatype scan_item = Lit char | Space | Str nat | Until nat string | UInt nat | SInt nat

datatype scan_value = VStr string | VNum int

definition scan_text :: "string \<Rightarrow> scan_item list" where
  "scan_text = map (\<lambda>c. if isspace c then Space else Lit c)"

fun sscanf :: "scan_item list \<Rightarrow> string \<Rightarrow> scan_value list" where
  "sscanf [] s = []"
| "sscanf (Lit c # fs) s = (if s \<noteq> [] \<and> hd s = c then sscanf fs (tl s) else [])"
| "sscanf (Space # fs) s = sscanf fs (dropWhile isspace s)"
| "sscanf (Str n # fs) s =
     (let t = take n (takeWhile (\<lambda>c. \<not> isspace c) (dropWhile isspace s))
      in if t = [] then [] else VStr t # sscanf fs (drop (length t) (dropWhile isspace s)))"
| "sscanf (Until n cs # fs) s =
     (let t = take n (takeWhile (\<lambda>c. c \<notin> set cs) s)
      in if t = [] then [] else VStr t # sscanf fs (drop (length t) s))"
| "sscanf (UInt w # fs) s =
     (let s1 = snd (sign_of (dropWhile isspace s))
      in if takeWhile isdigit s1 = [] then []
         else VNum (fst (strtoul s) mod 2 ^ w) # sscanf fs (dropWhile isdigit s1))"
| "sscanf (SInt w # fs) s =
     (let s1 = snd (sign_of (dropWhile isspace s))
      in if takeWhile isdigit s1 = [] then []
         else VNum (signed_take_bit (w - 1) (strtol s)) # sscanf fs (dropWhile isdigit s1))"

subsection \<open>Printing numbers\<close>

definition digit_char :: "int \<Rightarrow> char" where
  "digit_char d = char_of (48 + d)"

function print_dec :: "int \<Rightarrow> string" where
  "print_dec n = (if n < 10 then [digit_char n] else print_dec (n div 10) @ [digit_char (n mod 10)])"
  by pat_completeness auto

termination print_dec
  by (relation "measure nat") auto

declare print_dec.simps [simp del]

text \<open>\<open>%d\<close> and \<open>%0wd\<close>.\<close>

definition print_int :: "nat \<Rightarrow> int \<Rightarrow> string" where
  "print_int w n =
     (if n < 0 then CHR ''-'' # replicate (w - 1 - length (print_dec (- n))) (CHR ''0'') @ print_dec (- n)
      else replicate (w - length (print_dec n)) (CHR ''0'') @ print_dec n)"

subsection \<open>Addresses in text form\<close>

text \<open>\<open>inet_pton\<close> for IPv4: the octets that are complete, the digits of the current one.\<close>

fun pton4_octets :: "u8 list \<Rightarrow> string \<Rightarrow> string \<Rightarrow> u8 list option" where
  "pton4_octets os cur [] =
     (if cur = [] \<or> length os \<noteq> 3 then None else Some (os @ [word_of_int (dec_val cur)]))"
| "pton4_octets os cur (c # cs) =
     (if isdigit c then
        if cur \<noteq> [] \<and> dec_val cur = 0 then None
        else if dec_val (cur @ [c]) > 255 then None
        else if length os \<ge> 4 then None
        else pton4_octets os (cur @ [c]) cs
      else if c = CHR ''.'' \<and> cur \<noteq> [] then
        if length os = 3 then None else pton4_octets (os @ [word_of_int (dec_val cur)]) [] cs
      else None)"

definition inet_pton4 :: "string \<Rightarrow> u8 list option" where
  "inet_pton4 s = pton4_octets [] [] s"

definition group_bytes :: "int \<Rightarrow> u8 list" where
  "group_bytes v = [word_of_int (v div 256), word_of_int (v mod 256)]"

text \<open>
  \<open>inet_pton\<close> for IPv6: the bytes so far, the position of the double colon, the text of the current
  group, its digits and their value.  The result are the bytes in front of the double colon, if
  there is one, and all bytes.
\<close>

fun pton6_groups ::
    "u8 list \<Rightarrow> nat option \<Rightarrow> string \<Rightarrow> nat \<Rightarrow> int \<Rightarrow> string \<Rightarrow> (nat option \<times> u8 list) option" where
  "pton6_groups bs colonp curtok xdigits_seen val [] =
     (if xdigits_seen > 0 then
        if length bs + 2 > 16 then None else Some (colonp, bs @ group_bytes val)
      else Some (colonp, bs))"
| "pton6_groups bs colonp curtok xdigits_seen val (ch # src) =
     (case xdigit_val ch of
        Some d \<Rightarrow>
          if xdigits_seen = 4 then None
          else pton6_groups bs colonp curtok (xdigits_seen + 1) (val * 16 + int d) src
      | None \<Rightarrow>
          if ch = CHR '':'' then
            if xdigits_seen = 0 then
              if colonp \<noteq> None then None else pton6_groups bs (Some (length bs)) src 0 val src
            else if src = [] then None
            else if length bs + 2 > 16 then None
            else pton6_groups (bs @ group_bytes val) colonp src 0 0 src
          else if ch = CHR ''.'' \<and> length bs + 4 \<le> 16 then
            (case inet_pton4 curtok of None \<Rightarrow> None | Some os \<Rightarrow> Some (colonp, bs @ os))
          else None)"

definition inet_pton6 :: "string \<Rightarrow> u8 list option" where
  "inet_pton6 s =
     (let src = (if s \<noteq> [] \<and> hd s = CHR '':'' then tl s else s)
      in if s = [] then None
         else if hd s = CHR '':'' \<and> (src = [] \<or> hd src \<noteq> CHR '':'') then None
         else case pton6_groups [] None src 0 0 src of
           None \<Rightarrow> None
         | Some (None, bs) \<Rightarrow> if length bs = 16 then Some bs else None
         | Some (Some c, bs) \<Rightarrow>
             if length bs = 16 then None
             else Some (take c bs @ replicate (16 - length bs) 0 @ drop c bs))"

section \<open>Lemmas\<close>

text \<open>What terminates the loops over lines and tokens.\<close>

lemma fgets_shorter: "fgets n f = Some (line, rest) \<Longrightarrow> length rest < length f"
  by (auto simp: fgets_def line_length_def split: if_splits)

lemma fgets_length: "fgets n f = Some (line, rest) \<Longrightarrow> length line < n"
  using length_takeWhile_le [of "\<lambda>c. c \<noteq> CHR 0x00" "take (line_length n f) f"]
  by (auto simp: fgets_def line_length_def split: if_splits)

lemma strtok_shorter: "strtok delims s = (Some tok, rest) \<Longrightarrow> length rest < length s"
proof -
  assume a: "strtok delims s = (Some tok, rest)"
  let ?s1 = "dropWhile (\<lambda>c. c \<in> set delims) s"
  have n: "?s1 \<noteq> []" and r: "rest = tl (dropWhile (\<lambda>c. c \<notin> set delims) ?s1)"
    using a by (auto simp: strtok_def Let_def split: if_splits)
  have "length (dropWhile (\<lambda>c. c \<notin> set delims) ?s1) \<le> length ?s1" "length ?s1 \<le> length s"
    by (rule length_dropWhile_le)+
  moreover have "0 < length ?s1" using n by simp
  ultimately show ?thesis unfolding r length_tl by linarith
qed

lemma strtok_token: "strtok delims s = (Some tok, rest) \<Longrightarrow> tok \<noteq> [] \<and> length tok \<le> length s"
proof -
  assume a: "strtok delims s = (Some tok, rest)"
  let ?s1 = "dropWhile (\<lambda>c. c \<in> set delims) s"
  have n: "?s1 \<noteq> []" and t: "tok = takeWhile (\<lambda>c. c \<notin> set delims) ?s1"
    using a by (auto simp: strtok_def Let_def split: if_splits)
  have "hd ?s1 \<notin> set delims" using n hd_dropWhile by blast
  then have "tok \<noteq> []" using n t by (cases ?s1) auto
  moreover have "length tok \<le> length ?s1" "length ?s1 \<le> length s"
    unfolding t by (rule length_takeWhile_le, rule length_dropWhile_le)
  ultimately show ?thesis by linarith
qed

text \<open>The tokens that repeated calls of \<open>strtok\<close> with the same delimiters yield.\<close>

function tokens :: "string \<Rightarrow> string \<Rightarrow> string list" where
  "tokens delims s = (case strtok delims s of (None, _) \<Rightarrow> [] | (Some tok, rest) \<Rightarrow> tok # tokens delims rest)"
  by pat_completeness auto

termination tokens
  by (relation "measure (\<lambda>(_, s). length s)")
    (simp, simp only: in_measure prod.case strtok_shorter [OF sym])

declare tokens.simps [simp del]

text \<open>The strings that \<open>sscanf\<close> stores fit the widths of the format.\<close>

fun item_width :: "scan_item \<Rightarrow> nat" where
  "item_width (Str n) = n"
| "item_width (Until n cs) = n"
| "item_width _ = 0"

lemma sscanf_width:
  "VStr t \<in> set (sscanf fs s) \<Longrightarrow> \<exists>f \<in> set fs. t \<noteq> [] \<and> length t \<le> item_width f"
  by (induction fs s rule: sscanf.induct) (auto simp: Let_def split: if_splits)

text \<open>A number that is printed is scanned as the same number.\<close>

lemma digit_facts:
  assumes "0 \<le> d" "d < 10"
  shows "isdigit (digit_char d)" "digit_val (digit_char d) = d"
proof -
  have "list_all (\<lambda>d. isdigit (digit_char d) \<and> digit_val (digit_char d) = d) [0, 1, 2, 3, 4, 5, 6, 7, 8, 9]"
    by code_simp
  moreover have "d \<in> set [0, 1, 2, 3, 4, 5, 6, 7, 8, 9]" using assms by (simp, arith)
  ultimately show "isdigit (digit_char d)" "digit_val (digit_char d) = d" by (simp_all only: list_all_iff)
qed

lemma dec_val_append: "dec_val (xs @ [c]) = dec_val xs * 10 + digit_val c"
  by (simp add: dec_val_def)

lemma print_dec_digits: "0 \<le> n \<Longrightarrow> list_all isdigit (print_dec n) \<and> dec_val (print_dec n) = n \<and> print_dec n \<noteq> []"
proof (induction n rule: print_dec.induct)
  case (1 n)
  show ?case
  proof (cases "n < 10")
    case True
    then show ?thesis using 1(2) digit_facts [of n] by (simp add: print_dec.simps [of n] dec_val_def)
  next
    case False
    then have "list_all isdigit (print_dec (n div 10)) \<and> dec_val (print_dec (n div 10)) = n div 10" using 1 by simp
    then show ?thesis
      using False digit_facts [of "n mod 10"] by (simp add: print_dec.simps [of n] dec_val_append)
  qed
qed

lemma dec_val_zeros: "dec_val (replicate k (CHR ''0'') @ ds) = dec_val ds"
proof -
  have "foldl (\<lambda>n c. n * 10 + digit_val c) 0 (replicate k (CHR ''0'')) = 0"
    by (induction k) (simp_all add: digit_val_def of_char_def)
  then show ?thesis by (simp add: dec_val_def)
qed

lemma print_int_digits:
  assumes "0 \<le> n"
  shows "list_all isdigit (print_int w n)" "dec_val (print_int w n) = n" "print_int w n \<noteq> []"
proof -
  have "isdigit (CHR ''0'')" by (simp add: isdigit_def)
  then show "list_all isdigit (print_int w n)" "dec_val (print_int w n) = n" "print_int w n \<noteq> []"
    using print_dec_digits [OF assms] assms by (auto simp: print_int_def dec_val_zeros list_all_iff)
qed

lemma takeWhile_digits:
  "list_all P xs \<Longrightarrow> rest = [] \<or> \<not> P (hd rest) \<Longrightarrow> takeWhile P (xs @ rest) = xs \<and> dropWhile P (xs @ rest) = rest"
  by (cases rest) (auto simp: list_all_iff takeWhile_append dropWhile_append)

lemma isdigit_plain: "isdigit c \<Longrightarrow> \<not> isspace c \<and> c \<noteq> CHR ''-'' \<and> c \<noteq> CHR ''+''"
  by (auto simp: isdigit_def isspace_def)

lemma digits_front:
  assumes "list_all isdigit ds" "ds \<noteq> []"
  shows "dropWhile isspace (ds @ rest) = ds @ rest" "sign_of (ds @ rest) = (False, ds @ rest)"
  using assms isdigit_plain by (cases ds; simp add: sign_of_def)+

lemma scan_SInt:
  assumes "list_all isdigit ds" "ds \<noteq> []" "rest = [] \<or> \<not> isdigit (hd rest)" "dec_val ds < 2 ^ 31" "31 \<le> w - 1" "w \<le> 64"
  shows "sscanf (SInt w # fs) (ds @ rest) = VNum (dec_val ds) # sscanf fs rest"
proof -
  have nn: "0 \<le> dec_val ds" 
    using assms(1) by (induction ds rule: rev_induct) (auto simp: dec_val_append dec_val_def [of "[]"] digit_val_def isdigit_def of_char_def)
  have "strtol (ds @ rest) = dec_val ds"
    using digits_front [OF assms(1,2)] takeWhile_digits [OF assms(1,3)] assms(4) by (simp add: strtol_def Let_def)
  moreover have "signed_take_bit (w - 1) (dec_val ds) = dec_val ds"
  proof -
    have "(2 :: int) ^ 31 \<le> 2 ^ (w - 1)" using assms(5) by (intro power_increasing) auto
    then show ?thesis using nn assms(4) by (intro signed_take_bit_int_eq_self) auto
  qed
  ultimately show ?thesis
    using digits_front [OF assms(1,2)] takeWhile_digits [OF assms(1,3)] assms(2) by (simp add: Let_def)
qed

lemma scan_UInt:
  assumes "list_all isdigit ds" "ds \<noteq> []" "rest = [] \<or> \<not> isdigit (hd rest)" "dec_val ds < 2 ^ w" "w \<le> 64"
  shows "sscanf (UInt w # fs) (ds @ rest) = VNum (dec_val ds) # sscanf fs rest"
proof -
  have nn: "0 \<le> dec_val ds"
    using assms(1) by (induction ds rule: rev_induct) (auto simp: dec_val_append dec_val_def [of "[]"] digit_val_def isdigit_def of_char_def)
  have "(2 :: int) ^ w \<le> 2 ^ 64" using assms(5) by (intro power_increasing) auto
  then have "fst (strtoul (ds @ rest)) = dec_val ds"
    using digits_front [OF assms(1,2)] takeWhile_digits [OF assms(1,3)] assms(2,4) by (simp add: strtoul_def Let_def)
  then show ?thesis
    using digits_front [OF assms(1,2)] takeWhile_digits [OF assms(1,3)] assms(2,4) nn by (simp add: Let_def)
qed

lemma pton4_length: "pton4_octets os cur s = Some r \<Longrightarrow> length r = 4"
  by (induction os cur s rule: pton4_octets.induct) (auto split: if_splits)

lemma pton6_bound:
  "pton6_groups bs c t x v s = Some (c', r) \<Longrightarrow> length bs \<le> 16 \<Longrightarrow> \<forall>n \<in> set_option c. n \<le> length bs
   \<Longrightarrow> length r \<le> 16 \<and> (\<forall>n \<in> set_option c'. n \<le> length r)"
proof (induction bs c t x v s rule: pton6_groups.induct)
  case (2 bs colonp curtok xs val ch src)
  show ?case
  proof (cases "xdigit_val ch")
    case None
    consider (colon) "ch = CHR '':''" | (dot) "ch = CHR ''.''" "length bs + 4 \<le> 16" "ch \<noteq> CHR '':''"
      using "2.prems"(1) None by (auto split: if_splits)
    then show ?thesis
    proof cases
      case colon
      show ?thesis
      proof (cases "xs = 0")
        case True
        then show ?thesis using "2.prems" "2.IH"(1) [OF None colon True] None colon by (auto split: if_splits)
      next
        case False
        then show ?thesis
          using "2.prems" "2.IH"(2) [OF None colon False] None colon
          by (fastforce simp: group_bytes_def split: if_splits)
      qed
    next
      case dot
      then show ?thesis
        using "2.prems" None by (fastforce simp: inet_pton4_def dest: pton4_length split: option.splits)
    qed
  next
    case (Some d)
    then show ?thesis using "2.prems" "2.IH"(3) [OF Some] by (auto split: if_splits)
  qed
qed (fastforce simp: group_bytes_def split: if_splits)

lemma inet_pton6_length: "inet_pton6 s = Some a \<Longrightarrow> length a = 16"
proof -
  assume a: "inet_pton6 s = Some a"
  let ?src = "if s \<noteq> [] \<and> hd s = CHR '':'' then tl s else s"
  obtain c bs where g: "pton6_groups [] None ?src 0 0 ?src = Some (c, bs)"
    using a by (auto simp: inet_pton6_def Let_def split: if_splits option.splits)
  then have "length bs \<le> 16" "\<forall>n \<in> set_option c. n \<le> length bs"
    using pton6_bound [OF g] by auto
  then show ?thesis
    using a unfolding inet_pton6_def Let_def g by (auto split: if_splits option.splits)
qed

end
