(* ===== verification/Utils_V4.thy ===== *)
theory Utils_V4
  imports C_Text
begin

text \<open>
  The helpers of the DHCPv4 parsers: strings (DHCPv4/utils/string_utils.c), addresses
  (utils/network_utils.c), client identifiers (utils/encoding_utils.c) and skipping of a block
  (utils/file_utils.c).  The pointers that the functions test for NULL are never NULL in their
  callers.  A file is the text that is left to read.
\<close>

section \<open>Definitions\<close>

subsection \<open>Strings\<close>

definition trim4 :: "string \<Rightarrow> string" where
  "trim4 str = rev (dropWhile isspace (rev (dropWhile isspace str)))"

definition remove_quotes :: "string \<Rightarrow> string" where
  "remove_quotes str =
     (let s1 = (if str \<noteq> [] \<and> hd str = CHR 0x22 then tl str else str)
      in if s1 \<noteq> [] \<and> last s1 = CHR 0x22 then butlast s1 else s1)"

text \<open>\<open>strtoul\<close> sets \<open>errno\<close> when the digits do not fit 64 bits.\<close>

definition strtoul_range :: "string \<Rightarrow> bool" where
  "strtoul_range str \<longleftrightarrow> dec_val (takeWhile isdigit (snd (sign_of (dropWhile isspace str)))) \<ge> 2 ^ 64"

definition parse_uint32 :: "string \<Rightarrow> int + u32" where
  "parse_uint32 str =
     (let (val, endptr) = strtoul str
      in if strtoul_range str then Inl (-2)
         else if endptr = str \<or> endptr \<noteq> [] then Inl (-2)
         else if val > 2 ^ 32 - 1 then Inl (-3)
         else Inr (word_of_int val))"

subsection \<open>Addresses\<close>

definition parse_ip_address :: "string \<Rightarrow> int + in_addr" where
  "parse_ip_address str = (case inet_pton4 str of None \<Rightarrow> Inl (-2) | Some bs \<Rightarrow> Inr (le_word32 bs))"

text \<open>The conversion \<open>%x\<close>: the value as 32 bits and the text behind it.\<close>

definition hex_val :: "string \<Rightarrow> int" where
  "hex_val ds = foldl (\<lambda>n c. n * 16 + int (the (xdigit_val c))) 0 ds"

definition scan_hex :: "string \<Rightarrow> (int \<times> string) option" where
  "scan_hex s =
     (let (neg, s1) = sign_of (dropWhile isspace s);
          s2 = (if take 2 s1 = ''0x'' \<or> take 2 s1 = ''0X'' then drop 2 s1 else s1);
          ds = takeWhile isxdigit s2; n = hex_val ds
      in if ds = [] then None
         else Some ((if n \<ge> 2 ^ 64 then 2 ^ 64 - 1 else if neg then - n else n) mod 2 ^ 32,
                    dropWhile isxdigit s2))"

fun scan_mac :: "nat \<Rightarrow> string \<Rightarrow> int list" where
  "scan_mac 0 s = []"
| "scan_mac (Suc n) s =
     (case scan_hex s of
        None \<Rightarrow> []
      | Some (v, rest) \<Rightarrow>
          v # (if n \<noteq> 0 \<and> rest \<noteq> [] \<and> hd rest = CHR '':'' then scan_mac n (tl rest) else []))"

definition parse_mac_address :: "string \<Rightarrow> int + mac" where
  "parse_mac_address str =
     (let values = scan_mac 6 str in if length values = 6 then Inr (map word_of_int values) else Inl (-2))"

definition hex_byte :: "u8 \<Rightarrow> string" where
  "hex_byte b = [hex_digits ! (unat b div 16), hex_digits ! (unat b mod 16)]"

definition mac_text :: "mac \<Rightarrow> string" where
  "mac_text m = butlast (concat (map (\<lambda>b. hex_byte b @ '':'') (take 6 m)))"

definition format_mac_address :: "mac \<Rightarrow> nat \<Rightarrow> string" where
  "format_mac_address m output_len = take (output_len - 1) (mac_text m)"

text \<open>
  The loop over the list: the addresses that were stored, and whether it ended at an invalid one.
\<close>

fun ip_list_loop :: "nat \<Rightarrow> string list \<Rightarrow> in_addr list \<Rightarrow> bool \<times> in_addr list" where
  "ip_list_loop max_count [] addrs = (True, addrs)"
| "ip_list_loop max_count (tok # toks) addrs =
     (if length addrs \<ge> max_count then (True, addrs)
      else case parse_ip_address (trim4 tok) of
        Inl _ \<Rightarrow> (False, addrs)
      | Inr a \<Rightarrow> ip_list_loop max_count toks (addrs @ [a]))"

text \<open>
  The result and the array with its count afterwards.  An invalid list leaves the count but has
  overwritten the first elements.
\<close>

definition parse_ip_list :: "string \<Rightarrow> nat \<Rightarrow> in_addr list \<Rightarrow> int \<times> in_addr list" where
  "parse_ip_list str max_count old =
     (case ip_list_loop max_count (tokens '','' str) [] of
        (True, addrs) \<Rightarrow> (int (length addrs), addrs)
      | (False, addrs) \<Rightarrow> (-2, take (length old) (addrs @ drop (length addrs) old)))"

subsection \<open>Client identifiers\<close>

definition is_octal :: "char \<Rightarrow> bool" where
  "is_octal c \<longleftrightarrow> c \<in> set ''01234567''"

definition octal_val :: "string \<Rightarrow> int" where
  "octal_val ds = foldl (\<lambda>n c. n * 8 + digit_val c) 0 ds"

text \<open>
  One escape or character at the front of the text.  A backslash at the end of the string makes the
  code read behind the terminator.
\<close>

definition client_id_unit :: "string \<Rightarrow> (u8 \<times> string) outcome" where
  "client_id_unit s =
     (case s of
        [] \<Rightarrow> Undefined
      | c # cs \<Rightarrow>
          if c \<noteq> CHR 0x5C then Returns (of_char c, cs)
          else case cs of
            [] \<Rightarrow> Undefined
          | d # ds \<Rightarrow>
              if is_octal d then
                let oct = takeWhile is_octal (take 3 cs)
                in Returns (word_of_int (octal_val oct), drop (length oct) cs)
              else if d = CHR ''x'' then
                let hex = takeWhile isxdigit (take 2 ds)
                in Returns (word_of_int (hex_val hex), drop (length hex) ds)
              else Returns (of_char d, ds))"

fun client_id_loop :: "nat \<Rightarrow> string \<Rightarrow> u8 list outcome" where
  "client_id_loop 0 s = Returns []"
| "client_id_loop (Suc n) s =
     (if s = [] \<or> hd s = CHR 0x22 then Returns []
      else and_then (client_id_unit s) (\<lambda>(b, rest).
        and_then (client_id_loop n rest) (\<lambda>bs. Returns (b # bs))))"

text \<open>The bytes that are stored, at most 64.\<close>

definition parse_client_id_from_string :: "string \<Rightarrow> u8 list outcome" where
  "parse_client_id_from_string str =
     client_id_loop 64 (dropWhile (\<lambda>c. isspace c \<or> c = CHR 0x22) str)"

definition octal_byte :: "u8 \<Rightarrow> string" where
  "octal_byte b = [CHR 0x5C, digit_char (uint b div 64), digit_char (uint b div 8 mod 8), digit_char (uint b mod 8)]"

fun octal_loop :: "u8 list \<Rightarrow> nat \<Rightarrow> string" where
  "octal_loop [] remaining = []"
| "octal_loop (b # bs) remaining = (if remaining > 5 then octal_byte b @ octal_loop bs (remaining - 4) else [])"

definition format_client_id_to_string :: "u8 list \<Rightarrow> nat \<Rightarrow> string" where
  "format_client_id_to_string client_id output_len =
     (if output_len < 3 \<or> client_id = [] then []
      else CHR 0x22 # octal_loop client_id (output_len - 1) @ [CHR 0x22])"

subsection \<open>Files\<close>

fun brace_loop :: "nat \<Rightarrow> string \<Rightarrow> int \<times> string" where
  "brace_loop n [] = (-1, [])"
| "brace_loop n (c # cs) =
     (if c = CHR ''{'' then brace_loop (n + 1) cs
      else if c = CHR ''}'' then if n = 0 then (0, cs) else brace_loop (n - 1) cs
      else brace_loop n cs)"

definition advance_to_next_closed_brace :: "string \<Rightarrow> int \<times> string" where
  "advance_to_next_closed_brace f = brace_loop 0 f"

text \<open>\<open>inet_ntop\<close> for IPv4.\<close>

definition inet_ntop4 :: "in_addr \<Rightarrow> string" where
  "inet_ntop4 a = butlast (concat (map (\<lambda>b. print_dec (uint b) @ ''.'') (le_bytes32 a)))"

section \<open>Lemmas\<close>

lemma brace_loop_shorter: "length (snd (brace_loop n f)) \<le> length f"
  by (induction n f rule: brace_loop.induct) (auto intro: le_SucI)

lemma advance_shorter: "length (snd (advance_to_next_closed_brace f)) \<le> length f"
  by (simp add: advance_to_next_closed_brace_def brace_loop_shorter)

lemma ip_list_loop_length: "ip_list_loop n toks addrs = (b, r) \<Longrightarrow> length addrs \<le> n \<Longrightarrow> length r \<le> n"
  by (induction n toks addrs rule: ip_list_loop.induct) (auto split: if_splits sum.splits)

lemma parse_ip_list_length: "length old \<le> n \<Longrightarrow> length (snd (parse_ip_list str n old)) \<le> n"
  by (auto simp: parse_ip_list_def dest: ip_list_loop_length split: prod.split bool.split)

subsection \<open>Hardware addresses\<close>

lemma hex_char_facts:
  assumes "n < 16"
  shows "isxdigit (hex_digits ! n)" "xdigit_val (hex_digits ! n) = Some n" "\<not> isspace (hex_digits ! n)"
    "hex_digits ! n \<noteq> CHR ''-''" "hex_digits ! n \<noteq> CHR ''+''" "hex_digits ! n \<noteq> CHR ''x''" "hex_digits ! n \<noteq> CHR ''X''"
    "hex_digits ! n \<noteq> CHR '':''"
proof -
  have "list_all (\<lambda>n. let c = hex_digits ! n in isxdigit c \<and> xdigit_val c = Some n \<and> \<not> isspace c \<and> c \<noteq> CHR ''-'' \<and>
      c \<noteq> CHR ''+'' \<and> c \<noteq> CHR ''x'' \<and> c \<noteq> CHR ''X'' \<and> c \<noteq> CHR '':'') [0..<16]"
    by code_simp
  then show "isxdigit (hex_digits ! n)" "xdigit_val (hex_digits ! n) = Some n" "\<not> isspace (hex_digits ! n)"
    "hex_digits ! n \<noteq> CHR ''-''" "hex_digits ! n \<noteq> CHR ''+''" "hex_digits ! n \<noteq> CHR ''x''" "hex_digits ! n \<noteq> CHR ''X''"
    "hex_digits ! n \<noteq> CHR '':''"
    using assms by (simp_all add: list_all_iff Let_def)
qed

lemma unat_byte: "unat (b :: u8) < 256"
  using unsigned_less [of b, where ?'a = nat] by simp

lemma uint_byte: "0 \<le> uint (b :: u8)" "uint b < 256" "uint b \<le> 255"
  using unsigned_less [of b, where ?'a = int] by simp_all

lemma scan_hex_byte:
  assumes "rest = [] \<or> \<not> isxdigit (hd rest)"
  shows "scan_hex (hex_byte b @ rest) = Some (uint b, rest)"
proof -
  let ?h = "unat b div 16" and ?l = "unat b mod 16"
  have h: "?h < 16" and l: "?l < 16" using unat_byte [of b] by simp_all
  note hf = hex_char_facts [OF h] and lf = hex_char_facts [OF l]
  have tw: "takeWhile isxdigit (hex_byte b @ rest) = hex_byte b" "dropWhile isxdigit (hex_byte b @ rest) = rest"
    using takeWhile_digits [of isxdigit "hex_byte b" rest] hf(1) lf(1) assms by (simp_all add: hex_byte_def)
  have "hex_val (hex_byte b) = int ?h * 16 + int ?l" using hf(2) lf(2) by (simp add: hex_val_def hex_byte_def)
  also have "\<dots> = int (?h * 16 + ?l)" by (simp only: of_nat_add of_nat_mult of_nat_numeral)
  finally have v: "hex_val (hex_byte b) = uint b" by (simp only: div_mult_mod_eq uint_nat)
  note lt = uint_byte(2) [of b]
  then have "uint b mod 2 ^ 32 = uint b" by (intro mod_pos_pos_trivial) simp_all
  moreover have "sign_of (dropWhile isspace (hex_byte b @ rest)) = (False, hex_byte b @ rest)"
    using hf(3,4,5) by (simp add: hex_byte_def sign_of_def)
  moreover have "take 2 (hex_byte b @ rest) \<noteq> ''0x''" "take 2 (hex_byte b @ rest) \<noteq> ''0X''" "hex_byte b \<noteq> []"
    using lf(6,7) by (simp_all add: hex_byte_def)
  ultimately show ?thesis using tw v lt by (simp add: scan_hex_def Let_def)
qed

lemma parse_mac_text:
  assumes "length m = 6"
  shows "parse_mac_address (mac_text m) = Inr m"
proof -
  obtain a b c d e f where m: "m = [a, b, c, d, e, f]"
    using assms by (auto simp: length_Suc_conv eval_nat_numeral)
  have colon: "\<not> isxdigit (CHR '':'')" by code_simp
  have last_text: "butlast (hex_byte f @ '':'') = hex_byte f" by simp
  have "mac_text m = hex_byte a @ '':'' @ hex_byte b @ '':'' @ hex_byte c @ '':'' @ hex_byte d @ '':'' @ hex_byte e @ '':'' @ hex_byte f"
    by (simp add: mac_text_def m butlast_append)
  moreover have "scan_mac 6 \<dots> = map uint m"
    using scan_hex_byte [of "[]" f] by (simp add: m eval_nat_numeral scan_hex_byte colon)
  ultimately show ?thesis by (simp add: parse_mac_address_def m)
qed

subsection \<open>IPv4 addresses\<close>

lemma pton4_octet: "0 \<le> n \<Longrightarrow> n \<le> 255 \<Longrightarrow> length os < 4 \<Longrightarrow>
    pton4_octets os [] (print_dec n @ rest) = pton4_octets os (print_dec n) rest"
proof (induction n arbitrary: rest rule: print_dec.induct)
  case (1 n)
  show ?case
  proof (cases "n < 10")
    case True
    then show ?thesis using 1 digit_facts [of n] by (simp add: print_dec.simps [of n] dec_val_def)
  next
    case False
    have d: "isdigit (digit_char (n mod 10))" "digit_val (digit_char (n mod 10)) = n mod 10"
      using digit_facts [of "n mod 10"] by simp_all
    have p: "dec_val (print_dec (n div 10)) = n div 10" "print_dec (n div 10) \<noteq> []"
      using print_dec_digits [of "n div 10"] 1 by simp_all
    have nz: "n div 10 \<noteq> 0" using False by simp
    show ?thesis
      using 1(1) [OF False, of "digit_char (n mod 10) # rest"] 1(2-4) False d p nz
      by (simp add: print_dec.simps [of n] dec_val_append)
  qed
qed

lemma pton4_dot:
  assumes "length os < 3"
  shows "pton4_octets os [] (print_dec (uint (b :: u8)) @ ''.'' @ rest) = pton4_octets (os @ [b]) [] rest"
proof -
  note b = uint_byte(1,3) [of b]
  have "\<not> isdigit (CHR ''.'')" by (simp add: isdigit_def)
  then show ?thesis
    using pton4_octet [OF b, of os "''.'' @ rest"] print_dec_digits [OF b(1)] assms by simp
qed

lemma parse_ntop4: "parse_ip_address (inet_ntop4 a) = Inr a"
proof -
  obtain p q r s where a: "le_bytes32 a = [p, q, r, s]" by (simp add: le_bytes32_def)
  note s = uint_byte(1,3) [of s]
  have "inet_ntop4 a = print_dec (uint p) @ ''.'' @ print_dec (uint q) @ ''.'' @ print_dec (uint r) @ ''.'' @ print_dec (uint s)"
    by (simp add: inet_ntop4_def a butlast_append)
  moreover have "inet_pton4 \<dots> = Some [p, q, r, s]"
    using pton4_octet [OF s, of "[p, q, r]" "[]"] print_dec_digits [OF s(1)]
    by (simp add: inet_pton4_def pton4_dot del: append.simps append_assoc) (simp add: pton4_dot [simplified])
  ultimately show ?thesis
    using le_word32_le_bytes32 [of a] by (simp add: parse_ip_address_def a)
qed

subsection \<open>Client identifiers\<close>

lemma octal_digit_facts:
  assumes "0 \<le> d" "d < 8"
  shows "is_octal (digit_char d)" "digit_val (digit_char d) = d"
proof -
  have "list_all (\<lambda>d. is_octal (digit_char d)) [0, 1, 2, 3, 4, 5, 6, 7]" by code_simp
  moreover have "d \<in> set [0, 1, 2, 3, 4, 5, 6, 7]" using assms by (simp, arith)
  ultimately show "is_octal (digit_char d)" by (simp only: list_all_iff)
  show "digit_val (digit_char d) = d" using digit_facts(2) [of d] assms by simp
qed

lemma client_id_unit_octal: "client_id_unit (octal_byte b @ rest) = Returns (b, rest)"
proof -
  let ?n = "uint b"
  note n = uint_byte(1,2) [of b]
  have h: "0 \<le> ?n div 64" "?n div 64 < 8" using n by presburger+
  have m: "0 \<le> ?n div 8 mod 8" "?n div 8 mod 8 < 8" "0 \<le> ?n mod 8" "?n mod 8 < 8" by simp_all
  note f = octal_digit_facts [OF h] octal_digit_facts [OF m(1,2)] octal_digit_facts [OF m(3,4)]
  have "?n div 64 = ?n div 8 div 8" using zdiv_zmult2_eq [of 8 ?n 8] by simp
  then have sum: "(?n div 64 * 8 + ?n div 8 mod 8) * 8 + ?n mod 8 = ?n" by (simp only: div_mult_mod_eq)
  have "octal_val [digit_char (?n div 64), digit_char (?n div 8 mod 8), digit_char (?n mod 8)] = ?n"
    using f(2,4,6) sum by (simp only: octal_val_def foldl_Cons foldl_Nil) simp
  then show ?thesis using f by (simp add: client_id_unit_def octal_byte_def Let_def)
qed

lemma client_id_loop_octal: "client_id_loop n (octal_loop bs remaining @ [CHR 0x22]) =
    Returns (take n (take ((remaining - 2) div 4) bs))"
proof (induction bs arbitrary: n remaining)
  case Nil
  then show ?case by (cases n) simp_all
next
  case (Cons b bs)
  show ?case
  proof (cases n)
    case (Suc m)
    show ?thesis
    proof (cases "remaining > 5")
      case True
      have front: "octal_byte b @ rest \<noteq> []" "hd (octal_byte b @ rest) \<noteq> CHR 0x22" for rest
        by (simp_all add: octal_byte_def)
      define k where "k = remaining - 6"
      have k: "remaining = k + 6" using True by (simp add: k_def)
      have rest: "client_id_loop m (octal_loop bs (k + 2) @ [CHR 0x22]) = Returns (take m (take (k div 4) bs))"
        using Cons [of m "k + 2"] by simp
      have "(k + 6 - 2) div 4 = Suc (k div 4)" by simp
      then show ?thesis
        using front rest unfolding k Suc by (simp add: client_id_unit_octal)
    next
      case False
      then have "(remaining - 2) div 4 = 0" by simp
      then show ?thesis using Suc False by simp
    qed
  qed simp
qed

text \<open>
  What is written with a buffer of 256 characters is read back, up to 63 bytes: the last byte of an
  identifier of 64 bytes is lost.
\<close>

lemma client_id_roundtrip:
  "parse_client_id_from_string (format_client_id_to_string bs 256) = Returns (take 63 bs)"
proof (cases "bs = []")
  case False
  have "dropWhile (\<lambda>c. isspace c \<or> c = CHR 0x22) (CHR 0x22 # octal_loop bs 255 @ [CHR 0x22]) =
      octal_loop bs 255 @ [CHR 0x22]"
    using False by (cases bs) (simp_all add: octal_byte_def isspace_def)
  then show ?thesis
    using client_id_loop_octal [of 64 bs 255] False
    by (simp add: parse_client_id_from_string_def format_client_id_to_string_def)
qed (simp add: parse_client_id_from_string_def format_client_id_to_string_def eval_nat_numeral)

subsection \<open>Lines and tokens of written text\<close>

lemma fgets_line:
  assumes "CHR 0x0A \<notin> set s" and "CHR 0x00 \<notin> set s" and "length s < n - 1"
  shows "fgets n (s @ CHR 0x0A # rest) = Some (s @ [CHR 0x0A], rest)"
proof -
  have "strip_newline (s @ CHR 0x0A # rest) = s"
    using assms(1) unfolding strip_newline_def by (subst takeWhile_append2) auto
  then have len: "line_length n (s @ CHR 0x0A # rest) = Suc (length s)" using assms(3) by (simp add: line_length_def)
  have "takeWhile (\<lambda>c. c \<noteq> CHR 0x00) (s @ [CHR 0x0A]) = s @ [CHR 0x0A]"
    using assms(2) by (subst takeWhile_append2) auto
  then show ?thesis using assms(3) len by (simp add: fgets_def)
qed

text \<open>A line without white space at its ends, indented or not.\<close>

definition tight :: "string \<Rightarrow> bool" where
  "tight s \<longleftrightarrow> s \<noteq> [] \<and> \<not> isspace (hd s) \<and> \<not> isspace (last s)"

lemma trim4_tight: "tight s \<Longrightarrow> trim4 s = s" "tight s \<Longrightarrow> trim4 (s @ [CHR 0x0A]) = s"
  "tight s \<Longrightarrow> trim4 (CHR 0x09 # s @ [CHR 0x0A]) = s"
proof -
  assume t: "tight s"
  obtain c u where s: "s = c # u" using t by (cases s) (auto simp: tight_def)
  obtain v d where s2: "s = v @ [d]" using t by (cases s rule: rev_cases) (auto simp: tight_def)
  have space: "isspace (CHR 0x0A)" "isspace (CHR 0x09)" by (simp_all add: isspace_def)
  have "dropWhile isspace s = s" "dropWhile isspace (s @ [CHR 0x0A]) = s @ [CHR 0x0A]" using t by (simp_all add: s tight_def)
  moreover have "dropWhile isspace (rev s) = rev s" "dropWhile isspace (rev (s @ [CHR 0x0A])) = rev s"
    using t space by (simp_all add: s2 tight_def)
  ultimately show "trim4 s = s" "trim4 (s @ [CHR 0x0A]) = s" "trim4 (CHR 0x09 # s @ [CHR 0x0A]) = s"
    by (simp_all add: trim4_def space)
qed

lemma strtok_front:
  assumes "w \<noteq> []" and "set w \<inter> set delims = {}" and "d \<in> set delims"
  shows "strtok delims (w @ d # rest) = (Some w, rest)"
proof -
  obtain c u where w: "w = c # u" using assms(1) by (cases w) auto
  have "dropWhile (\<lambda>c. c \<in> set delims) (w @ d # rest) = w @ d # rest" using assms(2) by (simp add: w)
  moreover have "takeWhile (\<lambda>c. c \<notin> set delims) (w @ d # rest) = w" "dropWhile (\<lambda>c. c \<notin> set delims) (w @ d # rest) = d # rest"
    using assms(2,3) by (auto simp: takeWhile_append dropWhile_append disjoint_iff)
  ultimately show ?thesis by (simp add: strtok_def Let_def w)
qed

lemma strtok_end:
  assumes "w \<noteq> []" and "set w \<inter> set delims = {}"
  shows "strtok delims w = (Some w, [])"
proof -
  obtain c u where w: "w = c # u" using assms(1) by (cases w) auto
  have "dropWhile (\<lambda>c. c \<in> set delims) w = w" using assms(2) by (simp add: w)
  moreover have "takeWhile (\<lambda>c. c \<notin> set delims) w = w" "dropWhile (\<lambda>c. c \<notin> set delims) w = []"
    using assms(2) by (auto simp: takeWhile_eq_all_conv disjoint_iff)
  ultimately show ?thesis by (simp add: strtok_def Let_def w)
qed

lemma negative_offset_rejected: "parse_uint32 ''-18000'' = Inl (-3)"
  by code_simp

end
