(* ===== verification/Lease_Time.thy ===== *)
theory Lease_Time
  imports C_Text
begin

text \<open>
  The times in the lease files: writing and reading them (DHCPv4/utils/time_utils.c, which the DHCPv6
  server uses for writing too) and the reader of the DHCPv6 server (\<open>parse_lease_time_any\<close> of
  DHCPv6/sources/leases6.c).  The conversions \<open>localtime\<close> and \<open>mktime\<close> depend on the time zone of
  the machine and are parameters; \<open>mktime\<close> gets the fields that it reads.
\<close>

section \<open>Definitions\<close>

record tm =
  tm_year :: int
  tm_mon :: int
  tm_mday :: int
  tm_hour :: int
  tm_min :: int
  tm_sec :: int
  tm_wday :: int

type_synonym mktime = "int \<times> int \<times> int \<times> int \<times> int \<times> int \<Rightarrow> time_t"

definition time_fields :: "tm \<Rightarrow> int \<times> int \<times> int \<times> int \<times> int \<times> int" where
  "time_fields t = (tm_year t, tm_mon t, tm_mday t, tm_hour t, tm_min t, tm_sec t)"

definition format_lease_time :: "(time_t \<Rightarrow> tm option) \<Rightarrow> time_t \<Rightarrow> nat \<Rightarrow> string" where
  "format_lease_time localtime timestamp output_len = (case localtime timestamp of
     None \<Rightarrow> take (output_len - 1) ''0''
   | Some t \<Rightarrow> take (output_len - 1)
       (print_int 0 (tm_wday t) @ '' '' @ print_int 4 (tm_year t + 1900) @ ''/'' @ print_int 2 (tm_mon t + 1)
        @ ''/'' @ print_int 2 (tm_mday t) @ '' '' @ print_int 2 (tm_hour t) @ '':'' @ print_int 2 (tm_min t)
        @ '':'' @ print_int 2 (tm_sec t)))"

definition lease_time_format :: "scan_item list" where
  "lease_time_format = [SInt 32, Space, SInt 32, Lit CHR ''/'', SInt 32, Lit CHR ''/'', SInt 32, Space,
     SInt 32, Lit CHR '':'', SInt 32, Lit CHR '':'', SInt 32]"

definition parse_lease_time :: "mktime \<Rightarrow> string \<Rightarrow> time_t" where
  "parse_lease_time mktime time_str = (case sscanf lease_time_format time_str of
     [VNum day_of_week, VNum y, VNum mo, VNum d, VNum h, VNum mi, VNum s] \<Rightarrow>
       mktime (y - 1900, mo - 1, d, h, mi, s)
   | _ \<Rightarrow> strtol time_str)"

text \<open>
  A number of \<open>strptime\<close> with at most \<open>n\<close> digits (at least one) between \<open>lo\<close> and \<open>hi\<close>, and the date
  and time format of the sources; \<open>get_digits\<close> is the loop over the digits.
\<close>

fun get_digits :: "nat \<Rightarrow> int \<Rightarrow> int \<Rightarrow> string \<Rightarrow> int \<times> string" where
  "get_digits (Suc n) hi val (c # cs) =
     (if val * 10 \<le> hi \<and> isdigit c then get_digits n hi (val * 10 + digit_val c) cs else (val, c # cs))"
| "get_digits n hi val s = (val, s)"

definition get_number :: "int \<Rightarrow> int \<Rightarrow> nat \<Rightarrow> string \<Rightarrow> (int \<times> string) option" where
  "get_number lo hi n s = (case dropWhile (\<lambda>c. c = CHR '' '') s of
     [] \<Rightarrow> None
   | c # cs \<Rightarrow>
       if \<not> isdigit c then None
       else let (val, rest) = get_digits (n - 1) hi (digit_val c) cs
         in if val < lo \<or> val > hi then None else Some (val, rest))"

definition get_char :: "char \<Rightarrow> string \<Rightarrow> string option" where
  "get_char c s = (case s of [] \<Rightarrow> None | d # ds \<Rightarrow> if d = c then Some ds else None)"

definition strptime :: "string \<Rightarrow> (int \<times> int \<times> int \<times> int \<times> int \<times> int) option" where
  "strptime s0 =
     do { (y, s1) \<leftarrow> get_number 0 9999 4 s0;
          s2 \<leftarrow> get_char CHR ''/'' s1;
          (mo, s3) \<leftarrow> get_number 1 12 2 s2;
          s4 \<leftarrow> get_char CHR ''/'' s3;
          (d, s5) \<leftarrow> get_number 1 31 2 s4;
          (h, s6) \<leftarrow> get_number 0 23 2 (dropWhile isspace s5);
          s7 \<leftarrow> get_char CHR '':'' s6;
          (mi, s8) \<leftarrow> get_number 0 59 2 s7;
          s9 \<leftarrow> get_char CHR '':'' s8;
          (s, s10) \<leftarrow> get_number 0 61 2 s9;
          Some (y - 1900, mo - 1, d, h, mi, s) }"

definition try_date :: "mktime \<Rightarrow> string \<Rightarrow> time_t option" where
  "try_date mktime s = (case strptime s of
     None \<Rightarrow> None | Some f \<Rightarrow> if mktime f > 0 then Some (mktime f) else None)"

definition parse_lease_time_any :: "mktime \<Rightarrow> string \<Rightarrow> time_t" where
  "parse_lease_time_any mktime s =
     (let epoch = (case sscanf [SInt 64] s of [VNum t] \<Rightarrow> t | _ \<Rightarrow> 0);
          with_day = (case sscanf [SInt 32, Space, Until 63 [CHR 0x0A]] s of
            [VNum w, VStr buf] \<Rightarrow> try_date mktime buf | _ \<Rightarrow> None)
      in if epoch > 0 then epoch
         else case with_day of
             Some t \<Rightarrow> t
           | None \<Rightarrow> (case try_date mktime s of Some t \<Rightarrow> t | None \<Rightarrow> 0))"

section \<open>Lemmas\<close>

text \<open>The fields that \<open>localtime\<close> yields for a date between the years 0 and 9999.\<close>

definition tm_ok :: "tm \<Rightarrow> bool" where
  "tm_ok t \<longleftrightarrow> 0 \<le> tm_wday t \<and> tm_wday t \<le> 6 \<and> - 1900 \<le> tm_year t \<and> tm_year t \<le> 8099
     \<and> 0 \<le> tm_mon t \<and> tm_mon t \<le> 11 \<and> 1 \<le> tm_mday t \<and> tm_mday t \<le> 31 \<and> 0 \<le> tm_hour t \<and> tm_hour t \<le> 23
     \<and> 0 \<le> tm_min t \<and> tm_min t \<le> 59 \<and> 0 \<le> tm_sec t \<and> tm_sec t \<le> 61"

lemma scan_printed:
  assumes "0 \<le> n" "n < 10000" "rest = [] \<or> \<not> isdigit (hd rest)" "w = 32 \<or> w = 64"
  shows "sscanf (SInt w # fs) (print_int k n @ rest) = VNum n # sscanf fs rest"
  using scan_SInt [OF print_int_digits(1,3) assms(3), of n k w fs] assms print_int_digits(2) [OF assms(1)]
  by auto

lemma print_dec_length: "0 \<le> n \<Longrightarrow> n < 10 ^ k \<Longrightarrow> 0 < k \<Longrightarrow> length (print_dec n) \<le> k"
proof (induction k arbitrary: n)
  case (Suc k)
  show ?case
  proof (cases "n < 10")
    case True
    then show ?thesis by (simp add: print_dec.simps [of n])
  next
    case False
    then have "0 < k" "n div 10 < 10 ^ k" using Suc.prems(2) by (cases k; simp)+
    then show ?thesis using Suc.IH [of "n div 10"] Suc.prems(1) False by (simp add: print_dec.simps [of n])
  qed
qed simp

lemma print_int_length: "0 \<le> n \<Longrightarrow> n < 10 ^ w \<Longrightarrow> 0 < w \<Longrightarrow> length (print_int w n) = w"
  using print_dec_length [of n w] by (simp add: print_int_def)

lemma print_int_day: "0 \<le> n \<Longrightarrow> n < 10 \<Longrightarrow> print_int 0 n = print_int 1 n"
  by (simp add: print_int_def print_dec.simps [of n])

text \<open>The text of a time has 21 characters, so that the buffers of the callers are large enough.\<close>

lemma format_lease_time_text:
  assumes "localtime t = Some f" "tm_ok f" "22 \<le> n"
  shows "format_lease_time localtime t n =
    print_int 1 (tm_wday f) @ '' '' @ print_int 4 (tm_year f + 1900) @ ''/'' @ print_int 2 (tm_mon f + 1)
    @ ''/'' @ print_int 2 (tm_mday f) @ '' '' @ print_int 2 (tm_hour f) @ '':'' @ print_int 2 (tm_min f)
    @ '':'' @ print_int 2 (tm_sec f)"
proof -
  note l = assms(2) [unfolded tm_ok_def]
  have "length (print_int 1 (tm_wday f)) = 1" "length (print_int 4 (tm_year f + 1900)) = 4"
    "length (print_int 2 (tm_mon f + 1)) = 2" "length (print_int 2 (tm_mday f)) = 2"
    "length (print_int 2 (tm_hour f)) = 2" "length (print_int 2 (tm_min f)) = 2" "length (print_int 2 (tm_sec f)) = 2"
    using l by (auto intro!: print_int_length)
  then show ?thesis
    using assms(1,3) l by (simp add: format_lease_time_def print_int_day)
qed

lemma isdigit_separators:
  "\<not> isdigit CHR '' ''" "\<not> isdigit CHR ''/''" "\<not> isdigit CHR '':''"
  by (auto simp: isdigit_def)

lemma skip_space_printed:
  assumes "0 \<le> n"
  shows "dropWhile isspace (print_int k n @ rest) = print_int k n @ rest"
  using digits_front [OF print_int_digits(1,3) [OF assms]] by simp

text \<open>
  A time that the DHCPv6 server writes on any day but Sunday is read back as the number of the
  weekday: the reader takes the digit in front of the date for a number of seconds since 1970.
\<close>

lemma reads_weekday:
  assumes "localtime t = Some f" "tm_ok f" "tm_wday f \<noteq> 0" "22 \<le> n"
  shows "parse_lease_time_any mktime (format_lease_time localtime t n) = tm_wday f"
proof -
  have w: "0 \<le> tm_wday f" "tm_wday f < 10000" using assms(2) by (auto simp: tm_ok_def)
  have "sscanf [SInt 64] (format_lease_time localtime t n) = [VNum (tm_wday f)]"
    unfolding format_lease_time_text [of localtime, OF assms(1,2,4)]
    using scan_printed [OF w, of _ 64 "[]" 1] isdigit_separators(1) by (simp del: sscanf.simps(7))
  then show ?thesis using w(1) assms(3) by (simp add: parse_lease_time_any_def Let_def)
qed

section \<open>Properties\<close>

text \<open>
  A time that the DHCPv4 server writes into its lease file is read back as the same time, when
  \<open>mktime\<close> inverts \<open>localtime\<close> on it.
\<close>

lemma lease_time_roundtrip:
  assumes "localtime t = Some f" "tm_ok f" "mktime (time_fields f) = t" "22 \<le> n"
  shows "parse_lease_time mktime (format_lease_time localtime t n) = t"
proof -
  note l = assms(2) [unfolded tm_ok_def]
  have "sscanf lease_time_format (format_lease_time localtime t n) =
      [VNum (tm_wday f), VNum (tm_year f + 1900), VNum (tm_mon f + 1), VNum (tm_mday f), VNum (tm_hour f),
       VNum (tm_min f), VNum (tm_sec f)]"
    using l scan_printed [of _ "[]" 32 "[]" 2]
    unfolding format_lease_time_text [of localtime, OF assms(1,2,4)] lease_time_format_def
    by (simp add: scan_printed skip_space_printed isdigit_separators isspace_def [of "CHR '' ''"] del: sscanf.simps(7))
  then show ?thesis
    using assms(3) by (simp add: parse_lease_time_def time_fields_def)
qed

definition epoch_tm :: tm where
  "epoch_tm = \<lparr>tm_year = 124, tm_mon = 9, tm_mday = 26, tm_hour = 14, tm_min = 30, tm_sec = 0, tm_wday = 6\<rparr>"

end
