(* ===== verification/Lease_File_V4.thy ===== *)
theory Lease_File_V4
  imports Lease_Db Utils_V4 Lease_Time
begin

text \<open>
  The DHCPv4 lease file (\<open>parse_lease_block\<close>, \<open>lease_db_load\<close>, \<open>lease_db_save\<close> and
  \<open>lease_db_append_lease\<close> of DHCPv4/src/lease_v4.c).  A file is its text, None where it cannot be opened;
  \<open>localtime\<close>, \<open>mktime\<close> and the text of \<open>ctime\<close> are parameters.
\<close>

section \<open>Definitions\<close>

subsection \<open>Reading\<close>

abbreviation space_tab :: string where "space_tab \<equiv> [CHR '' '', CHR 0x09]"

definition value_of :: "string \<Rightarrow> (string \<Rightarrow> 's \<Rightarrow> 's) \<Rightarrow> 's \<Rightarrow> 's" where
  "value_of rest f s = (case strtok '';'' rest of (None, _) \<Rightarrow> s | (Some v, _) \<Rightarrow> f (trim4 v) s)"

definition store_client_id :: "string \<Rightarrow> dhcp_lease_t \<Rightarrow> dhcp_lease_t outcome" where
  "store_client_id v lease =
     and_then (parse_client_id_from_string v) (\<lambda>bs.
       Returns (lease\<lparr>client_id := bs @ drop (length bs) (client_id lease), client_id_len := of_nat (length bs)\<rparr>))"

definition store_lease_id :: "string \<Rightarrow> dhcp_lease_t \<Rightarrow> dhcp_lease_t" where
  "store_lease_id rest lease =
     (case strtok (space_tab @ ''='') rest of
        (None, _) \<Rightarrow> lease
      | (Some var_name, rest2) \<Rightarrow>
          if trim4 var_name \<noteq> ''lease-id'' then lease
          else (case strtok [CHR '';'', CHR 0x22] rest2 of
                  (None, _) \<Rightarrow> lease
                | (Some v, _) \<Rightarrow>
                    let v1 = trim4 v; v2 = (if v1 \<noteq> [] \<and> hd v1 = CHR 0x22 then tl v1 else v1)
                    in lease\<lparr>lease_id := word_of_int (fst (strtoul v2))\<rparr>))"

text \<open>The state behind the words \<open>binding state\<close>.\<close>

definition transition :: "string \<Rightarrow> (lease_state_t \<Rightarrow> dhcp_lease_t \<Rightarrow> dhcp_lease_t) \<Rightarrow> dhcp_lease_t \<Rightarrow> dhcp_lease_t" where
  "transition rest f lease =
     (case strtok space_tab rest of
        (Some b, rest2) \<Rightarrow>
          if b = ''binding'' then
            (case strtok space_tab rest2 of
               (Some st, rest3) \<Rightarrow>
                 if st = ''state'' then value_of rest3 (\<lambda>v. f (lease_state_from_string v)) lease else lease
             | (None, _) \<Rightarrow> lease)
          else lease
      | (None, _) \<Rightarrow> lease)"

definition store_binding :: "string \<Rightarrow> dhcp_lease_t \<Rightarrow> dhcp_lease_t" where
  "store_binding rest lease =
     (case strtok space_tab rest of
        (Some st, rest2) \<Rightarrow>
          if st = ''state'' then
            value_of rest2 (\<lambda>v l. l\<lparr>lease_state := lease_state_from_string v, binding_state := take 31 v\<rparr>) lease
          else lease
      | (None, _) \<Rightarrow> lease)"

definition lease_line :: "mktime \<Rightarrow> string \<Rightarrow> dhcp_lease_t \<Rightarrow> dhcp_lease_t outcome" where
  "lease_line mktime trimmed lease =
     (case strtok space_tab trimmed of
        (None, _) \<Rightarrow> Returns lease
      | (Some key, rest) \<Rightarrow>
          if key = ''starts'' then Returns (value_of rest (\<lambda>v l. l\<lparr>start_time := parse_lease_time mktime v\<rparr>) lease)
          else if key = ''ends'' then Returns (value_of rest (\<lambda>v l. l\<lparr>end_time := parse_lease_time mktime v\<rparr>) lease)
          else if key = ''tstp'' then Returns (value_of rest (\<lambda>v l. l\<lparr>tstp := parse_lease_time mktime v\<rparr>) lease)
          else if key = ''cltt'' then Returns (value_of rest (\<lambda>v l. l\<lparr>cltt := parse_lease_time mktime v\<rparr>) lease)
          else if key = ''hardware'' then
            Returns (value_of (snd (strtok space_tab rest))
              (\<lambda>v l. case parse_mac_address v of Inl _ \<Rightarrow> l | Inr m \<Rightarrow> l\<lparr>mac_address := m\<rparr>) lease)
          else if key = ''uid'' then
            (case strtok '';'' rest of (None, _) \<Rightarrow> Returns lease | (Some v, _) \<Rightarrow> store_client_id (trim4 v) lease)
          else if key = ''client-hostname'' then
            Returns (value_of rest (\<lambda>v l. l\<lparr>client_hostname := take 255 (remove_quotes v)\<rparr>) lease)
          else if key = ''vendor-class-identifier'' then
            Returns (value_of rest (\<lambda>v l. l\<lparr>vendor_class_identifier := take 127 (remove_quotes v)\<rparr>) lease)
          else if key = ''set'' then Returns (store_lease_id rest lease)
          else if key = ''binding'' then Returns (store_binding rest lease)
          else if key = ''next'' then Returns (transition rest (\<lambda>s l. l\<lparr>next_binding_state := s\<rparr>) lease)
          else if key = ''rewind'' then Returns (transition rest (\<lambda>s l. l\<lparr>rewind_binding_state := s\<rparr>) lease)
          else if key = ''abandoned;'' \<or> key = ''abandoned'' then Returns (lease\<lparr>is_abandoned := True\<rparr>)
          else Returns lease)"

text \<open>
  The lines of a block: whether its end was found, the lease and the rest of the file.
\<close>

function lease_lines :: "mktime \<Rightarrow> dhcp_lease_t \<Rightarrow> string \<Rightarrow> (bool \<times> dhcp_lease_t \<times> string) outcome" where
  "lease_lines mktime lease f =
     (case fgets 1024 f of
        None \<Rightarrow> Returns (False, lease, f)
      | Some (line, rest) \<Rightarrow>
          let trimmed = trim4 line
          in if trimmed = [] \<or> hd trimmed = CHR ''#'' then lease_lines mktime lease rest
             else if hd trimmed = CHR ''}'' then Returns (True, lease, rest)
             else and_then (lease_line mktime trimmed lease) (\<lambda>lease2. lease_lines mktime lease2 rest))"
  by pat_completeness auto
termination
  by (relation "measure (\<lambda>(mk, lease, f). length f)") (auto dest: fgets_shorter)

declare lease_lines.simps [simp del]

definition parse_lease_block :: "mktime \<Rightarrow> string \<Rightarrow> string \<Rightarrow> (bool \<times> dhcp_lease_t \<times> string) outcome" where
  "parse_lease_block mktime first_line f =
     (case strtok (space_tab @ ''{'') first_line of
        (Some token, rest) \<Rightarrow>
          if token \<noteq> ''lease'' then Returns (False, lease_zero, f)
          else (case strtok (space_tab @ ''{'') rest of
                  (Some ip_str, _) \<Rightarrow>
                    (case parse_ip_address ip_str of
                       Inl _ \<Rightarrow> Returns (False, lease_zero, f)
                     | Inr ip \<Rightarrow> lease_lines mktime (lease_zero\<lparr>ip_address := ip\<rparr>) f)
                | (None, _) \<Rightarrow> Returns (False, lease_zero, f))
      | (None, _) \<Rightarrow> Returns (False, lease_zero, f))"

text \<open>A block that was read becomes a row: without an identifier it gets the next one.\<close>

definition add_loaded :: "dhcp_lease_t \<Rightarrow> lease_database_t \<Rightarrow> lease_database_t" where
  "add_loaded lease db =
     (if lease_id lease = 0 then
        (case lease_db_generate_id db of (lid, db1) \<Rightarrow> db1\<lparr>leases := leases db @ [lease\<lparr>lease_id := lid\<rparr>]\<rparr>)
      else db\<lparr>leases := leases db @ [lease],
              next_lease_id := (if lease_id lease \<ge> next_lease_id db then lease_id lease + 1 else next_lease_id db)\<rparr>)"

lemma lease_lines_shorter: "lease_lines mktime lease f = Returns (ok, lease2, rest) \<Longrightarrow> length rest \<le> length f"
proof (induction mktime lease f rule: lease_lines.induct)
  case (1 mktime lease f)
  show ?case
  proof (cases "fgets 1024 f")
    case None
    then show ?thesis using "1.prems" by (simp add: lease_lines.simps [of mktime lease f])
  next
    case (Some lr)
    obtain line more where lr: "lr = (line, more)" by (cases lr)
    show ?thesis
      using "1.prems" "1.IH" [OF Some lr [symmetric] refl] fgets_shorter [OF Some [unfolded lr]]
      by (fastforce simp: lease_lines.simps [of mktime lease f] Some lr Let_def and_then_Returns split: if_splits)
  qed
qed

lemma parse_lease_block_shorter:
  "parse_lease_block mktime line f = Returns (ok, lease, rest) \<Longrightarrow> length rest \<le> length f"
  by (auto simp: parse_lease_block_def dest: lease_lines_shorter split: prod.splits option.splits if_splits sum.splits)

text \<open>One line of the file: the table and the rest of the file.\<close>

definition load_line4 :: "mktime \<Rightarrow> string \<Rightarrow> string \<Rightarrow> lease_database_t \<Rightarrow> (lease_database_t \<times> string) outcome" where
  "load_line4 mktime trimmed f db =
     (if trimmed = [] \<or> hd trimmed = CHR ''#'' then Returns (db, f)
      else if take 5 trimmed = ''lease'' \<and> length (leases db) < MAX_LEASES then
        and_then (parse_lease_block mktime trimmed f) (\<lambda>(ok, lease, rest).
          Returns (if ok then add_loaded lease db else db, rest))
      else Returns (db, f))"

lemma load_line_shorter: "load_line4 mktime trimmed f db = Returns (db2, rest) \<Longrightarrow> length rest \<le> length f"
  by (auto simp: load_line4_def and_then_Returns dest: parse_lease_block_shorter split: if_splits)

function load_lines4 :: "mktime \<Rightarrow> string \<Rightarrow> lease_database_t \<Rightarrow> lease_database_t outcome" where
  "load_lines4 mktime f db =
     (case fgets 1024 f of
        None \<Rightarrow> Returns db
      | Some (line, rest) \<Rightarrow>
          (case load_line4 mktime (trim4 line) rest db of
             Returns (db2, rest2) \<Rightarrow> load_lines4 mktime rest2 db2
           | Blocks \<Rightarrow> Blocks
           | Undefined \<Rightarrow> Undefined))"
  by pat_completeness auto
termination
  by (relation "measure (\<lambda>(mk, f, db). length f)") (auto dest!: fgets_shorter load_line_shorter)

declare load_lines4.simps [simp del]

definition lease_db_load :: "mktime \<Rightarrow> string option \<Rightarrow> lease_database_t \<Rightarrow> (int \<times> lease_database_t) outcome" where
  "lease_db_load mktime file db =
     (case file of
        None \<Rightarrow> Returns (0, db\<lparr>next_lease_id := 1\<rparr>)
      | Some contents \<Rightarrow>
          and_then (load_lines4 mktime contents (db\<lparr>leases := [], next_lease_id := 1\<rparr>)) (\<lambda>db2. Returns (0, db2)))"

subsection \<open>Writing\<close>

definition file_header :: "string list" where
  \<open>file_header =
     [''# The format of this file is documented in the dhcpd.leases(5) manual page.'',
      ''# This lease file was written by DHCPv4 Server'',
      ''#'',
      ''# authoring-byte-order entry is generated, DO NOT DELETE'',
      ''authoring-byte-order little-endian;'',
      [],
      ''# Server duid (DHCP Unique Identifier)'',
      ''server-duid "'' @ concat (map octal_byte [0, 1, 0, 1, 43, 255, 140, 250, 0, 12, 41, 90, 123, 172]) @ ''";'',
      [],
      ''#########################################################################'',
      ''# Lease Database Format'',
      ''#########################################################################'',
      ''# lease <ip-address> { ... }'',
      ''#   starts <epoch|date>;              - When lease started'',
      ''#   ends <epoch|date>;                - When lease expires'',
      ''#   tstp <epoch>;                     - Time State was Put (last state change)'',
      ''#   cltt <epoch>;                     - Client Last Transaction Time'',
      ''#   binding state <state>;            - Current state: active, free, abandoned, etc.'',
      ''#   next binding state <state>;       - State after transition'',
      ''#   hardware ethernet <mac>;          - Client MAC address'',
      ''#   uid <hex-string>;                 - Client identifier (option 61)'',
      ''#   client-hostname "<hostname>";     - Client's hostname'',
      ''#   vendor-class-identifier "<vci>";  - Vendor identification'',
      ''#   set vendor-string = "<string>";   - Vendor specific info'',
      ''#########################################################################'',
      []]\<close>

definition time_text :: "(time_t \<Rightarrow> tm option) \<Rightarrow> time_t \<Rightarrow> string" where
  "time_text localtime t = format_lease_time localtime t 64"

text \<open>The lines that \<open>lease_db_save\<close> and \<open>lease_db_append_lease\<close> write for a lease.\<close>

definition written_lines :: "(time_t \<Rightarrow> tm option) \<Rightarrow> dhcp_lease_t \<Rightarrow> string list" where
  \<open>written_lines localtime l =
     [[], ''lease '' @ inet_ntop4 (ip_address l) @ '' {''] @
     (if lease_id l > 0
      then [CHR 0x09 # ''# Lease ID (custom field)'', CHR 0x09 # ''set lease-id = "'' @ print_dec (uint (lease_id l)) @ ''";'']
      else []) @
     [CHR 0x09 # ''starts '' @ time_text localtime (start_time l) @ '';'',
      CHR 0x09 # ''ends '' @ time_text localtime (end_time l) @ '';''] @
     (if tstp l > 0 then [CHR 0x09 # ''tstp '' @ time_text localtime (tstp l) @ '';''] else []) @
     (if cltt l > 0 then [CHR 0x09 # ''cltt '' @ time_text localtime (cltt l) @ '';''] else []) @
     [CHR 0x09 # ''binding state '' @ lease_state_to_string (lease_state l) @ '';''] @
     (if next_binding_state l \<noteq> LEASE_STATE_FREE
      then [CHR 0x09 # ''next binding state '' @ lease_state_to_string (next_binding_state l) @ '';''] else []) @
     (if rewind_binding_state l \<noteq> LEASE_STATE_FREE
      then [CHR 0x09 # ''rewind binding state '' @ lease_state_to_string (rewind_binding_state l) @ '';''] else []) @
     [CHR 0x09 # ''hardware ethernet '' @ mac_text (mac_address l) @ '';''] @
     (if client_id_len l > 0
      then [CHR 0x09 # ''uid '' @ format_client_id_to_string (take (unat (client_id_len l)) (client_id l)) 256 @ '';'']
      else []) @
     (if client_hostname l \<noteq> [] then [CHR 0x09 # ''client-hostname "'' @ client_hostname l @ ''";''] else []) @
     (if vendor_class_identifier l \<noteq> []
      then [CHR 0x09 # ''vendor-class-identifier "'' @ vendor_class_identifier l @ ''";''] else []) @
     (if is_abandoned l then [CHR 0x09 # ''abandoned;''] else []) @
     [''}'']\<close>

definition text_of :: "string list \<Rightarrow> string" where
  "text_of ls = concat (map (\<lambda>l. l @ [CHR 0x0A]) ls)"

text \<open>The file that is written; \<open>ctime_text\<close> is the text of \<open>ctime\<close> in front of its own newline.\<close>

definition lease_db_save :: "(time_t \<Rightarrow> tm option) \<Rightarrow> string \<Rightarrow> bool \<Rightarrow> lease_database_t \<Rightarrow> int \<times> string option" where
  "lease_db_save localtime ctime_text opened db =
     (if \<not> opened then (-1, None)
      else (0, Some (text_of (file_header @ [''# Last updated: '' @ ctime_text, []] @
                       concat (map (written_lines localtime) (leases db))))))"

text \<open>The file after appending to its text.\<close>

definition lease_db_append_lease :: "(time_t \<Rightarrow> tm option) \<Rightarrow> bool \<Rightarrow> string \<Rightarrow> dhcp_lease_t \<Rightarrow> int \<times> string" where
  "lease_db_append_lease localtime opened contents lease =
     (if \<not> opened then (-1, contents) else (0, contents @ text_of (written_lines localtime lease)))"

section \<open>Lemmas\<close>

subsection \<open>Reading written lines\<close>

definition reads :: "mktime \<Rightarrow> dhcp_lease_t \<Rightarrow> string list \<Rightarrow> dhcp_lease_t \<Rightarrow> bool" where
  "reads mktime l ls l' \<longleftrightarrow> (\<forall>rest. lease_lines mktime l (text_of ls @ rest) = lease_lines mktime l' rest)"

lemma reads_append: "reads mktime l as l1 \<Longrightarrow> reads mktime l1 bs l2 \<Longrightarrow> reads mktime l (as @ bs) l2"
  by (simp add: reads_def text_of_def)

lemma reads_nil: "reads mktime l [] l"
  by (simp add: reads_def text_of_def)

definition line_ok :: "string \<Rightarrow> bool" where
  "line_ok s \<longleftrightarrow> tight s \<and> CHR 0x0A \<notin> set s \<and> CHR 0x00 \<notin> set s \<and> length s < 1000"

lemma fgets_indented: "line_ok s \<Longrightarrow> fgets 1024 (CHR 0x09 # s @ CHR 0x0A # rest) = Some (CHR 0x09 # s @ [CHR 0x0A], rest)"
  using fgets_line [of "CHR 0x09 # s" 1024 rest] by (simp add: line_ok_def)

lemma reads_line:
  assumes "line_ok s" and "hd s \<noteq> CHR ''#''" and "hd s \<noteq> CHR ''}''" and "lease_line mktime s l = Returns l'"
  shows "reads mktime l [CHR 0x09 # s] l'"
  unfolding reads_def
proof
  fix rest
  have "tight s" "s \<noteq> []" using assms(1) by (auto simp: line_ok_def tight_def)
  then show "lease_lines mktime l (text_of [CHR 0x09 # s] @ rest) = lease_lines mktime l' rest"
    using assms(2-4) fgets_indented [OF assms(1)] trim4_tight(3)
    by (subst lease_lines.simps) (simp add: text_of_def Let_def)
qed

lemma reads_comment:
  assumes "line_ok s" and "hd s = CHR ''#''"
  shows "reads mktime l [CHR 0x09 # s] l"
  unfolding reads_def
proof
  fix rest
  have "tight s" using assms(1) by (simp add: line_ok_def)
  then show "lease_lines mktime l (text_of [CHR 0x09 # s] @ rest) = lease_lines mktime l rest"
    using assms(2) fgets_indented [OF assms(1)] trim4_tight(3)
    by (subst lease_lines.simps) (simp add: text_of_def Let_def)
qed

text \<open>A value that stands between a blank and a semicolon.\<close>

definition field_ok :: "string \<Rightarrow> bool" where
  "field_ok v \<longleftrightarrow> tight v \<and> set v \<inter> {CHR 0x0A, CHR 0x00, CHR '';''} = {} \<and> length v < 900"

lemma strtok_word: "w \<noteq> [] \<Longrightarrow> set w \<inter> {CHR '' '', CHR 0x09} = {} \<Longrightarrow> strtok space_tab (w @ CHR '' '' # rest) = (Some w, rest)"
  by (rule strtok_front) auto

lemma value_of_field: "field_ok v \<Longrightarrow> value_of (v @ '';'') f l = f v l"
  using strtok_front [of v "'';''" "CHR '';''" "[]"] trim4_tight(1) [of v]
  by (auto simp: value_of_def field_ok_def tight_def)

lemma line_ok_field:
  assumes "field_ok v" and "w \<noteq> []" and "\<not> isspace (hd w)" and "CHR 0x0A \<notin> set w" and "CHR 0x00 \<notin> set w" and "length w < 50"
  shows "line_ok (w @ v @ '';'')"
  using assms by (auto simp: line_ok_def field_ok_def tight_def isspace_def)

lemma state_field: "field_ok (lease_state_to_string s)"
  by (cases s) (simp_all add: field_ok_def tight_def isspace_def)

lemma state_roundtrip: "lease_state_from_string (lease_state_to_string s) = s"
  by (cases s) (simp_all add: lease_state_from_string_def)

definition time_ok :: "(time_t \<Rightarrow> tm option) \<Rightarrow> mktime \<Rightarrow> time_t \<Rightarrow> bool" where
  "time_ok localtime mktime t \<longleftrightarrow>
     (case localtime t of None \<Rightarrow> False | Some f \<Rightarrow> tm_ok f \<and> mktime (time_fields f) = t)"

definition plain_char :: "char \<Rightarrow> bool" where
  "plain_char c \<longleftrightarrow> \<not> isspace c \<and> c \<noteq> CHR 0x00 \<and> c \<noteq> CHR '';''"

lemma plain_char_not: "plain_char c \<Longrightarrow> c \<noteq> CHR 0x0A \<and> c \<noteq> CHR 0x00 \<and> c \<noteq> CHR '';''"
  by (auto simp: plain_char_def isspace_def)

lemma isdigit_plain_char: "isdigit c \<Longrightarrow> plain_char c"
  by (auto simp: plain_char_def isspace_def isdigit_def)

lemma field_ok_plain: "list_all plain_char s \<Longrightarrow> s \<noteq> [] \<Longrightarrow> length s < 900 \<Longrightarrow> field_ok s"
proof -
  assume s: "list_all plain_char s" "s \<noteq> []" "length s < 900"
  have "set s \<inter> {CHR 0x0A, CHR 0x00, CHR '';''} = {}"
    using s(1) plain_char_not by (simp add: list_all_iff disjoint_iff)
  moreover have "plain_char (hd s)" "plain_char (last s)" using s by (simp_all add: list_all_iff)
  ultimately show ?thesis using s by (simp add: field_ok_def tight_def plain_char_def)
qed

lemma time_field:
  assumes "time_ok localtime mktime t"
  shows "field_ok (time_text localtime t)" and "parse_lease_time mktime (time_text localtime t) = t"
proof -
  obtain f where f: "localtime t = Some f" "tm_ok f" "mktime (time_fields f) = t"
    using assms by (auto simp: time_ok_def split: option.splits)
  show "parse_lease_time mktime (time_text localtime t) = t"
    unfolding time_text_def using lease_time_roundtrip [of localtime t f mktime 64] f by simp
  note l = f(2) [unfolded tm_ok_def]
  have d: "list_all isdigit (print_int w n)" "print_int w n \<noteq> []" if "0 \<le> n" for w n
    using print_int_digits [OF that] by auto
  have len: "length (time_text localtime t) \<le> 63"
    unfolding time_text_def format_lease_time_def by (simp add: f(1))
  define mid where "mid = '' '' @ print_int 4 (tm_year f + 1900) @ ''/'' @ print_int 2 (tm_mon f + 1)
    @ ''/'' @ print_int 2 (tm_mday f) @ '' '' @ print_int 2 (tm_hour f) @ '':'' @ print_int 2 (tm_min f) @ '':''"
  have whole: "time_text localtime t = print_int 1 (tm_wday f) @ mid @ print_int 2 (tm_sec f)"
    unfolding time_text_def mid_def using format_lease_time_text [of localtime t f 64] f by simp
  have set_ok: "set (print_int w n) \<inter> {CHR 0x0A, CHR 0x00, CHR '';''} = {}" if "0 \<le> n" for w n
    using d(1) [OF that, of w] isdigit_plain_char plain_char_not by (simp add: list_all_iff disjoint_iff)
  have "set mid \<inter> {CHR 0x0A, CHR 0x00, CHR '';''} = {}"
    unfolding mid_def using l set_ok by (simp add: Int_Un_distrib2)
  then have "set (time_text localtime t) \<inter> {CHR 0x0A, CHR 0x00, CHR '';''} = {}"
    unfolding whole using l set_ok by (simp add: Int_Un_distrib2)
  moreover have "\<not> isspace (hd (time_text localtime t))" "\<not> isspace (last (time_text localtime t))" "time_text localtime t \<noteq> []"
    unfolding whole using l d [of "tm_wday f" 1] d [of "tm_sec f" 2] isdigit_plain
    by (auto simp: list_all_iff hd_append)
  ultimately show "field_ok (time_text localtime t)" using len by (simp add: field_ok_def tight_def)
qed

lemma reads_time:
  assumes "time_ok localtime mktime t"
  shows "reads mktime l [CHR 0x09 # ''starts '' @ time_text localtime t @ '';''] (l\<lparr>start_time := t\<rparr>)"
    and "reads mktime l [CHR 0x09 # ''ends '' @ time_text localtime t @ '';''] (l\<lparr>end_time := t\<rparr>)"
    and "reads mktime l [CHR 0x09 # ''tstp '' @ time_text localtime t @ '';''] (l\<lparr>tstp := t\<rparr>)"
    and "reads mktime l [CHR 0x09 # ''cltt '' @ time_text localtime t @ '';''] (l\<lparr>cltt := t\<rparr>)"
proof -
  note v = time_field [OF assms]
  note w = strtok_word [where rest = "time_text localtime t @ '';''"]
  have ok: "line_ok (w @ time_text localtime t @ '';'')" if "w \<in> {''starts '', ''ends '', ''tstp '', ''cltt ''}" for w
    using that by (intro line_ok_field [OF v(1)]) (auto simp: isspace_def)
  show "reads mktime l [CHR 0x09 # ''starts '' @ time_text localtime t @ '';''] (l\<lparr>start_time := t\<rparr>)"
    using w [of "''starts''"] v ok [of "''starts ''"] by (intro reads_line) (simp_all add: lease_line_def value_of_field)
  show "reads mktime l [CHR 0x09 # ''ends '' @ time_text localtime t @ '';''] (l\<lparr>end_time := t\<rparr>)"
    using w [of "''ends''"] v ok [of "''ends ''"] by (intro reads_line) (simp_all add: lease_line_def value_of_field)
  show "reads mktime l [CHR 0x09 # ''tstp '' @ time_text localtime t @ '';''] (l\<lparr>tstp := t\<rparr>)"
    using w [of "''tstp''"] v ok [of "''tstp ''"] by (intro reads_line) (simp_all add: lease_line_def value_of_field)
  show "reads mktime l [CHR 0x09 # ''cltt '' @ time_text localtime t @ '';''] (l\<lparr>cltt := t\<rparr>)"
    using w [of "''cltt''"] v ok [of "''cltt ''"] by (intro reads_line) (simp_all add: lease_line_def value_of_field)
qed

lemma reads_binding:
  "reads mktime l [CHR 0x09 # ''binding state '' @ lease_state_to_string s @ '';'']
     (l\<lparr>lease_state := s, binding_state := take 31 (lease_state_to_string s)\<rparr>)"
  "reads mktime l [CHR 0x09 # ''next binding state '' @ lease_state_to_string s @ '';''] (l\<lparr>next_binding_state := s\<rparr>)"
  "reads mktime l [CHR 0x09 # ''rewind binding state '' @ lease_state_to_string s @ '';''] (l\<lparr>rewind_binding_state := s\<rparr>)"
proof -
  let ?v = "lease_state_to_string s"
  note v = state_field [of s] and r = state_roundtrip [of s]
  have ok: "line_ok (w @ ?v @ '';'')" if "w \<in> {''binding state '', ''next binding state '', ''rewind binding state ''}" for w
    using that by (intro line_ok_field [OF v]) (auto simp: isspace_def)
  have st: "strtok space_tab (''state '' @ ?v @ '';'') = (Some ''state'', ?v @ '';'')"
    using strtok_word [of "''state''" "?v @ '';''"] by simp
  have bst: "strtok space_tab (''binding state '' @ ?v @ '';'') = (Some ''binding'', ''state '' @ ?v @ '';'')"
    using strtok_word [of "''binding''" "''state '' @ ?v @ '';''"] by simp
  show "reads mktime l [CHR 0x09 # ''binding state '' @ ?v @ '';''] (l\<lparr>lease_state := s, binding_state := take 31 ?v\<rparr>)"
    using ok [of "''binding state ''"] st bst v r
    by (intro reads_line) (simp_all add: lease_line_def store_binding_def value_of_field)
  show "reads mktime l [CHR 0x09 # ''next binding state '' @ ?v @ '';''] (l\<lparr>next_binding_state := s\<rparr>)"
    using ok [of "''next binding state ''"] st bst v r strtok_word [of "''next''" "''binding state '' @ ?v @ '';''"]
    by (intro reads_line) (simp_all add: lease_line_def transition_def value_of_field)
  show "reads mktime l [CHR 0x09 # ''rewind binding state '' @ ?v @ '';''] (l\<lparr>rewind_binding_state := s\<rparr>)"
    using ok [of "''rewind binding state ''"] st bst v r strtok_word [of "''rewind''" "''binding state '' @ ?v @ '';''"]
    by (intro reads_line) (simp_all add: lease_line_def transition_def value_of_field)
qed

lemma hex_byte_plain: "list_all plain_char (hex_byte b)"
proof -
  have "list_all plain_char hex_digits" by code_simp
  then have "plain_char (hex_digits ! n)" if "n < 16" for n
    using that by (simp add: list_all_length hex_digits_def)
  then show ?thesis using unat_byte [of b] by (simp add: hex_byte_def)
qed

lemma mac_field:
  assumes "length m = 6"
  shows "field_ok (mac_text m)"
proof -
  obtain a b c d e f where m: "m = [a, b, c, d, e, f]"
    using assms by (auto simp: length_Suc_conv eval_nat_numeral)
  have t: "mac_text m = hex_byte a @ '':'' @ hex_byte b @ '':'' @ hex_byte c @ '':'' @ hex_byte d @ '':'' @ hex_byte e @ '':'' @ hex_byte f"
    by (simp add: mac_text_def m butlast_append)
  have "plain_char (CHR '':'')" by (simp add: plain_char_def isspace_def)
  then show ?thesis
    using hex_byte_plain unfolding t by (intro field_ok_plain) (simp_all add: hex_byte_def)
qed

lemma reads_hardware:
  assumes "length m = 6"
  shows "reads mktime l [CHR 0x09 # ''hardware ethernet '' @ mac_text m @ '';''] (l\<lparr>mac_address := m\<rparr>)"
proof -
  have "line_ok (''hardware ethernet '' @ mac_text m @ '';'')"
    by (rule line_ok_field [OF mac_field [OF assms]]) (simp_all add: isspace_def)
  then show ?thesis
    using strtok_word [of "''hardware''" "''ethernet '' @ mac_text m @ '';''"] strtok_word [of "''ethernet''" "mac_text m @ '';''"]
      parse_mac_text [OF assms] mac_field [OF assms]
    by (intro reads_line) (simp_all add: lease_line_def value_of_field)
qed

text \<open>A quoted name.\<close>

definition name_ok :: "nat \<Rightarrow> string \<Rightarrow> bool" where
  "name_ok n s \<longleftrightarrow> length s < n \<and> set s \<inter> {CHR 0x0A, CHR 0x00, CHR '';'', CHR 0x22} = {}"

lemma name_field:
  assumes "name_ok n s" and "n \<le> 256"
  shows "field_ok (CHR 0x22 # s @ [CHR 0x22])" and "take (n - 1) (remove_quotes (CHR 0x22 # s @ [CHR 0x22])) = s"
  using assms by (auto simp: name_ok_def field_ok_def tight_def isspace_def remove_quotes_def)

lemma reads_names:
  shows "name_ok 256 s \<Longrightarrow> reads mktime l [CHR 0x09 # ''client-hostname '' @ (CHR 0x22 # s @ [CHR 0x22]) @ '';''] (l\<lparr>client_hostname := s\<rparr>)"
    and "name_ok 128 s \<Longrightarrow> reads mktime l [CHR 0x09 # ''vendor-class-identifier '' @ (CHR 0x22 # s @ [CHR 0x22]) @ '';'']
      (l\<lparr>vendor_class_identifier := s\<rparr>)"
proof -
  let ?v = "CHR 0x22 # s @ [CHR 0x22]"
  assume n: "name_ok 256 s"
  have v: "field_ok ?v" "take 255 (remove_quotes ?v) = s" using name_field [OF n] by simp_all
  have "line_ok (''client-hostname '' @ ?v @ '';'')" by (rule line_ok_field [OF v(1)]) (simp_all add: isspace_def)
  then show "reads mktime l [CHR 0x09 # ''client-hostname '' @ ?v @ '';''] (l\<lparr>client_hostname := s\<rparr>)"
    using strtok_word [of "''client-hostname''" "?v @ '';''"] v(2)
    by (intro reads_line) (simp_all add: lease_line_def value_of_field [OF v(1), simplified])
next
  let ?v = "CHR 0x22 # s @ [CHR 0x22]"
  assume n: "name_ok 128 s"
  have v: "field_ok ?v" "take 127 (remove_quotes ?v) = s" using name_field [OF n] by simp_all
  have "line_ok (''vendor-class-identifier '' @ ?v @ '';'')" by (rule line_ok_field [OF v(1)]) (simp_all add: isspace_def)
  then show "reads mktime l [CHR 0x09 # ''vendor-class-identifier '' @ ?v @ '';''] (l\<lparr>vendor_class_identifier := s\<rparr>)"
    using strtok_word [of "''vendor-class-identifier''" "?v @ '';''"] v(2)
    by (intro reads_line) (simp_all add: lease_line_def value_of_field [OF v(1), simplified])
qed

lemma octal_loop_plain: "list_all plain_char (octal_loop bs n)"
proof (induction bs n rule: octal_loop.induct)
  case (2 b bs remaining)
  have "uint b div 64 < 8" "0 \<le> uint b div 64" using uint_byte [of b] by presburger+
  then have "isdigit (digit_char (uint b div 64))" "isdigit (digit_char (uint b div 8 mod 8))" "isdigit (digit_char (uint b mod 8))"
    by (auto intro!: digit_facts(1) simp: pos_mod_bound [THEN order_less_le_trans])
  then have "list_all plain_char (octal_byte b)"
    by (simp add: octal_byte_def isdigit_plain_char) (simp add: plain_char_def isspace_def)
  then show ?case using 2 by simp
qed simp

lemma octal_loop_length: "length (octal_loop bs n) \<le> n"
  by (induction bs n rule: octal_loop.induct) (auto simp: octal_byte_def)

lemma reads_uid:
  assumes "bs \<noteq> []" and "length bs \<le> 63"
  shows "reads mktime l [CHR 0x09 # ''uid '' @ format_client_id_to_string bs 256 @ '';'']
    (l\<lparr>client_id := bs @ drop (length bs) (client_id l), client_id_len := of_nat (length bs)\<rparr>)"
proof -
  let ?v = "format_client_id_to_string bs 256"
  have "plain_char (CHR 0x22)" by (simp add: plain_char_def isspace_def)
  then have v: "field_ok ?v"
    using octal_loop_plain octal_loop_length [of bs 255] assms(1)
    by (intro field_ok_plain) (simp_all add: format_client_id_to_string_def)
  have "line_ok (''uid '' @ ?v @ '';'')" by (rule line_ok_field [OF v]) (simp_all add: isspace_def)
  moreover have "strtok '';'' (?v @ '';'') = (Some ?v, [])"
    using v by (intro strtok_front) (auto simp: field_ok_def tight_def)
  ultimately show ?thesis
    using strtok_word [of "''uid''" "?v @ '';''"] client_id_roundtrip [of bs] assms(2) trim4_tight(1) [of ?v] v
    by (intro reads_line) (simp_all add: lease_line_def store_client_id_def field_ok_def)
qed

lemma reads_abandoned: "reads mktime l [CHR 0x09 # ''abandoned;''] (l\<lparr>is_abandoned := True\<rparr>)"
proof -
  have "strtok space_tab ''abandoned;'' = (Some ''abandoned;'', [])" by (rule strtok_end) auto
  then show ?thesis by (intro reads_line) (simp_all add: lease_line_def line_ok_def tight_def isspace_def)
qed

text \<open>
  The value that is read for a lease identifier is the text between the name and the quote, an equals
  sign, and not the number.
\<close>

lemma reads_lease_id:
  fixes n :: int
  assumes "0 \<le> n" and "n < 2 ^ 64"
  shows "reads mktime l [CHR 0x09 # ''set lease-id = '' @ CHR 0x22 # print_dec n @ [CHR 0x22, CHR '';'']] (l\<lparr>lease_id := 0\<rparr>)"
proof -
  let ?v = "CHR 0x22 # print_dec n @ [CHR 0x22, CHR '';'']"
  have "list_all plain_char (print_dec n)"
    using print_dec_digits [of n] assms isdigit_plain_char by (simp add: list_all_iff)
  moreover have "plain_char (CHR 0x22)" by (simp add: plain_char_def isspace_def)
  ultimately have c: "field_ok (CHR 0x22 # print_dec n @ [CHR 0x22])"
    using print_dec_length [of n 20] assms by (intro field_ok_plain) simp_all
  have "line_ok (''set lease-id = '' @ ?v)" 
    using line_ok_field [OF c, of "''set lease-id = ''"] by (simp add: isspace_def)
  moreover have "strtok (space_tab @ ''='') (''lease-id = '' @ ?v) = (Some ''lease-id'', ''= '' @ ?v)"
    using strtok_front [of "''lease-id''" "space_tab @ ''=''" "CHR '' ''" "''= '' @ ?v"] by simp
  moreover have "strtok [CHR '';'', CHR 0x22] (''= '' @ ?v) = (Some ''= '', tl ?v)"
    using strtok_front [of "''= ''" "[CHR '';'', CHR 0x22]" "CHR 0x22" "tl ?v"] by simp
  moreover have "trim4 ''= '' = ''=''" "trim4 ''lease-id'' = ''lease-id''" "fst (strtoul ''='') = 0" by code_simp+
  ultimately show ?thesis
    using strtok_word [of "''set''" "''lease-id = '' @ ?v"]
    by (intro reads_line) (simp_all add: lease_line_def store_lease_id_def Let_def)
qed

subsection \<open>Reading a written block\<close>

definition storable :: "(time_t \<Rightarrow> tm option) \<Rightarrow> mktime \<Rightarrow> dhcp_lease_t \<Rightarrow> bool" where
  "storable localtime mktime l \<longleftrightarrow>
     length (mac_address l) = 6 \<and>
     time_ok localtime mktime (start_time l) \<and> time_ok localtime mktime (end_time l) \<and>
     (tstp l = 0 \<or> 0 < tstp l \<and> time_ok localtime mktime (tstp l)) \<and>
     (cltt l = 0 \<or> 0 < cltt l \<and> time_ok localtime mktime (cltt l)) \<and>
     unat (client_id_len l) \<le> 63 \<and>
     length (client_id l) = 64 \<and> drop (unat (client_id_len l)) (client_id l) = replicate (64 - unat (client_id_len l)) 0 \<and>
     name_ok 256 (client_hostname l) \<and> name_ok 128 (vendor_class_identifier l)"

text \<open>What is left of a lease: its identifier, the BOOTP flag and the text of its state are not kept.\<close>

definition restored :: "dhcp_lease_t \<Rightarrow> dhcp_lease_t" where
  "restored l = l\<lparr>lease_id := 0, is_bootp := False, binding_state := lease_state_to_string (lease_state l)\<rparr>"

lemma reads_final: "reads mktime l ls l1 \<Longrightarrow> l1 = l2 \<Longrightarrow> reads mktime l ls l2"
  by simp

lemma reads_if: "(c \<Longrightarrow> reads mktime l ls l1) \<Longrightarrow> (\<not> c \<Longrightarrow> l1 = l) \<Longrightarrow> reads mktime l (if c then ls else []) l1"
  by (simp add: reads_nil)

lemma reads_id:
  assumes "lease_id l = 0"
  shows "reads mktime l (if 0 < w
      then [CHR 0x09 # ''# Lease ID (custom field)'', CHR 0x09 # ''set lease-id = '' @ CHR 0x22 # print_dec (uint (w :: u64)) @ [CHR 0x22, CHR '';'']]
      else []) l"
proof (rule reads_if)
  have "reads mktime l [CHR 0x09 # ''# Lease ID (custom field)''] l"
    by (rule reads_comment) (simp_all add: line_ok_def tight_def isspace_def)
  moreover have "l\<lparr>lease_id := 0\<rparr> = l" using assms by simp
  moreover have "uint w < 2 ^ 64" using uint_bounded [of w] by simp
  ultimately show "reads mktime l [CHR 0x09 # ''# Lease ID (custom field)'',
      CHR 0x09 # ''set lease-id = '' @ CHR 0x22 # print_dec (uint w) @ [CHR 0x22, CHR '';'']] l"
    using reads_append [of mktime l "[CHR 0x09 # ''# Lease ID (custom field)'']" l] reads_lease_id [of "uint w" mktime l] by fastforce
qed simp

lemma reads_optional:
  "t = 0 \<or> 0 < t \<and> time_ok localtime mktime t \<Longrightarrow> tstp z = 0 \<Longrightarrow>
    reads mktime z (if 0 < t then [CHR 0x09 # ''tstp '' @ time_text localtime t @ '';''] else []) (z\<lparr>tstp := t\<rparr>)"
  "t = 0 \<or> 0 < t \<and> time_ok localtime mktime t \<Longrightarrow> cltt z = 0 \<Longrightarrow>
    reads mktime z (if 0 < t then [CHR 0x09 # ''cltt '' @ time_text localtime t @ '';''] else []) (z\<lparr>cltt := t\<rparr>)"
  "next_binding_state z = LEASE_STATE_FREE \<Longrightarrow>
    reads mktime z (if s \<noteq> LEASE_STATE_FREE then [CHR 0x09 # ''next binding state '' @ lease_state_to_string s @ '';''] else [])
      (z\<lparr>next_binding_state := s\<rparr>)"
  "rewind_binding_state z = LEASE_STATE_FREE \<Longrightarrow>
    reads mktime z (if s \<noteq> LEASE_STATE_FREE then [CHR 0x09 # ''rewind binding state '' @ lease_state_to_string s @ '';''] else [])
      (z\<lparr>rewind_binding_state := s\<rparr>)"
  "name_ok 256 h \<Longrightarrow> client_hostname z = [] \<Longrightarrow>
    reads mktime z (if h \<noteq> [] then [CHR 0x09 # ''client-hostname '' @ (CHR 0x22 # h @ [CHR 0x22]) @ '';''] else [])
      (z\<lparr>client_hostname := h\<rparr>)"
  "name_ok 128 h \<Longrightarrow> vendor_class_identifier z = [] \<Longrightarrow>
    reads mktime z (if h \<noteq> [] then [CHR 0x09 # ''vendor-class-identifier '' @ (CHR 0x22 # h @ [CHR 0x22]) @ '';''] else [])
      (z\<lparr>vendor_class_identifier := h\<rparr>)"
  "\<not> is_abandoned z \<Longrightarrow> reads mktime z (if b then [CHR 0x09 # ''abandoned;''] else []) (z\<lparr>is_abandoned := b\<rparr>)"
  subgoal by (rule reads_if, rule reads_time(3)) auto
  subgoal by (rule reads_if, rule reads_time(4)) auto
  subgoal by (rule reads_if, rule reads_binding(2)) simp
  subgoal by (rule reads_if, rule reads_binding(3)) simp
  subgoal by (rule reads_if, erule reads_names(1)) simp
  subgoal by (rule reads_if, erule reads_names(2)) simp
  subgoal using reads_abandoned [of mktime z] reads_nil [of mktime z] by (cases z; cases b) simp_all
  done

lemma reads_optional_uid:
  fixes n :: u32
  assumes "unat n \<le> 63" and "length bs = 64" and "drop (unat n) bs = replicate (64 - unat n) 0"
    and z: "client_id z = replicate 64 0" "client_id_len z = 0"
  shows "reads mktime z (if 0 < n then [CHR 0x09 # ''uid '' @ format_client_id_to_string (take (unat n) bs) 256 @ '';''] else [])
    (z\<lparr>client_id := bs, client_id_len := n\<rparr>)"
proof (rule reads_if)
  assume "0 < n"
  then have "0 < unat n" by (simp add: unat_gt_0 word_gt_0)
  then have "take (unat n) bs \<noteq> []" "length (take (unat n) bs) = unat n" using assms by auto
  then show "reads mktime z [CHR 0x09 # ''uid '' @ format_client_id_to_string (take (unat n) bs) 256 @ '';'']
      (z\<lparr>client_id := bs, client_id_len := n\<rparr>)"
    using reads_uid [of "take (unat n) bs" mktime z] assms append_take_drop_id [of "unat n" bs] by simp
next
  assume "\<not> 0 < n"
  then have "n = 0" by (simp add: word_gt_0)
  then show "z\<lparr>client_id := bs, client_id_len := n\<rparr> = z" using assms by simp
qed

lemma state_text_short: "take 31 (lease_state_to_string s) = lease_state_to_string s"
  by (cases s) simp_all

text \<open>The lines of a block between its head and its closing brace.\<close>

definition body_lines :: "(time_t \<Rightarrow> tm option) \<Rightarrow> dhcp_lease_t \<Rightarrow> string list" where
  "body_lines localtime l =
     (if 0 < lease_id l
      then [CHR 0x09 # ''# Lease ID (custom field)'', CHR 0x09 # ''set lease-id = '' @ CHR 0x22 # print_dec (uint (lease_id l)) @ [CHR 0x22, CHR '';'']]
      else []) @
     [CHR 0x09 # ''starts '' @ time_text localtime (start_time l) @ '';''] @
     [CHR 0x09 # ''ends '' @ time_text localtime (end_time l) @ '';''] @
     (if 0 < tstp l then [CHR 0x09 # ''tstp '' @ time_text localtime (tstp l) @ '';''] else []) @
     (if 0 < cltt l then [CHR 0x09 # ''cltt '' @ time_text localtime (cltt l) @ '';''] else []) @
     [CHR 0x09 # ''binding state '' @ lease_state_to_string (lease_state l) @ '';''] @
     (if next_binding_state l \<noteq> LEASE_STATE_FREE
      then [CHR 0x09 # ''next binding state '' @ lease_state_to_string (next_binding_state l) @ '';''] else []) @
     (if rewind_binding_state l \<noteq> LEASE_STATE_FREE
      then [CHR 0x09 # ''rewind binding state '' @ lease_state_to_string (rewind_binding_state l) @ '';''] else []) @
     [CHR 0x09 # ''hardware ethernet '' @ mac_text (mac_address l) @ '';''] @
     (if 0 < client_id_len l
      then [CHR 0x09 # ''uid '' @ format_client_id_to_string (take (unat (client_id_len l)) (client_id l)) 256 @ '';'']
      else []) @
     (if client_hostname l \<noteq> []
      then [CHR 0x09 # ''client-hostname '' @ (CHR 0x22 # client_hostname l @ [CHR 0x22]) @ '';''] else []) @
     (if vendor_class_identifier l \<noteq> []
      then [CHR 0x09 # ''vendor-class-identifier '' @ (CHR 0x22 # vendor_class_identifier l @ [CHR 0x22]) @ '';''] else []) @
     (if is_abandoned l then [CHR 0x09 # ''abandoned;''] else [])"

lemma written_lines_body:
  "written_lines localtime l = [[], ''lease '' @ inet_ntop4 (ip_address l) @ '' {''] @ body_lines localtime l @ [''}'']"
  by (simp add: written_lines_def body_lines_def)

lemma reads_body:
  assumes "storable localtime mktime l"
  shows "reads mktime (lease_zero\<lparr>ip_address := ip_address l\<rparr>) (body_lines localtime l) (restored l)"
proof -
  note s = assms [unfolded storable_def]
  let ?n = "unat (client_id_len l)"
  have uid: "client_id z = replicate 64 0 \<Longrightarrow> client_id_len z = 0 \<Longrightarrow> reads mktime z (if 0 < client_id_len l
      then [CHR 0x09 # ''uid '' @ format_client_id_to_string (take ?n (client_id l)) 256 @ '';''] else [])
      (z\<lparr>client_id := client_id l, client_id_len := client_id_len l\<rparr>)" for z
    using reads_optional_uid [of "client_id_len l" "client_id l" z] s by simp
  show ?thesis
    unfolding body_lines_def
    by (rule reads_final,
      (rule reads_append, (rule reads_id uid reads_time reads_binding reads_hardware reads_optional(1-6); use s in \<open>simp add: lease_zero_def\<close>))+,
      (rule reads_optional; simp add: lease_zero_def))
      (simp add: lease_zero_def restored_def state_text_short)
qed

lemma ntop4_plain: "list_all (\<lambda>c. isdigit c \<or> c = CHR ''.'') (inet_ntop4 a)" "inet_ntop4 a \<noteq> []" "length (inet_ntop4 a) \<le> 15"
proof -
  obtain p q r s where a: "le_bytes32 a = [p, q, r, s]" by (simp add: le_bytes32_def)
  have t: "inet_ntop4 a = print_dec (uint p) @ ''.'' @ print_dec (uint q) @ ''.'' @ print_dec (uint r) @ ''.'' @ print_dec (uint s)"
    by (simp add: inet_ntop4_def a butlast_append)
  have d: "list_all isdigit (print_dec (uint b))" "print_dec (uint b) \<noteq> []" "length (print_dec (uint b)) \<le> 3" for b :: u8
    using print_dec_digits [of "uint b"] print_dec_length [of "uint b" 3] uint_byte [of b] by simp_all
  show "list_all (\<lambda>c. isdigit c \<or> c = CHR ''.'') (inet_ntop4 a)" "inet_ntop4 a \<noteq> []"
    unfolding t using d by (auto simp: list_all_iff)
  show "length (inet_ntop4 a) \<le> 15"
    unfolding t using d(3) [of p] d(3) [of q] d(3) [of r] d(3) [of s] by simp
qed

lemma ntop4_free: "\<not> isdigit c \<Longrightarrow> c \<noteq> CHR ''.'' \<Longrightarrow> c \<notin> set (inet_ntop4 a)"
  using ntop4_plain(1) [of a] by (auto simp: list_all_iff)

lemma lease_lines_close: "lease_lines mktime l (''}'' @ CHR 0x0A # rest) = Returns (True, l, rest)"
proof -
  have "fgets 1024 (''}'' @ CHR 0x0A # rest) = Some (''}'' @ [CHR 0x0A], rest)" by (rule fgets_line) auto
  moreover have "trim4 (''}'' @ [CHR 0x0A]) = ''}''" by code_simp
  ultimately show ?thesis by (subst lease_lines.simps) (simp add: Let_def)
qed

lemma parse_lease_block_written:
  assumes "storable localtime mktime l"
  shows "parse_lease_block mktime (''lease '' @ inet_ntop4 (ip_address l) @ '' {'') (text_of (body_lines localtime l @ [''}'']) @ rest)
    = Returns (True, restored l, rest)"
proof -
  let ?a = "inet_ntop4 (ip_address l)"
  have "set ?a \<inter> set (space_tab @ ''{'') = {}"
    by (simp add: ntop4_free isdigit_def)
  then have "strtok (space_tab @ ''{'') (?a @ CHR '' '' # ''{'') = (Some ?a, ''{'')"
    by (intro strtok_front ntop4_plain(2)) auto
  moreover have "strtok (space_tab @ ''{'') (''lease'' @ CHR '' '' # ?a @ '' {'') = (Some ''lease'', ?a @ '' {'')"
    by (rule strtok_front) auto
  moreover have "lease_lines mktime (lease_zero\<lparr>ip_address := ip_address l\<rparr>) (text_of (body_lines localtime l) @ ''}'' @ CHR 0x0A # rest)
      = Returns (True, restored l, rest)"
    using reads_body [OF assms] lease_lines_close by (simp add: reads_def)
  ultimately show ?thesis by (simp add: parse_lease_block_def parse_ntop4 text_of_def)
qed

subsection \<open>Reading a written file\<close>

definition skipped :: "string \<Rightarrow> bool" where
  "skipped s \<longleftrightarrow> CHR 0x0A \<notin> set s \<and> CHR 0x00 \<notin> set s \<and> length s < 1000 \<and> (s = [] \<or> \<not> isspace (hd s)) \<and> take 5 s \<noteq> ''lease''"

lemma trim4_line:
  assumes "s = [] \<or> \<not> isspace (hd s)"
  shows "\<exists>u. s = trim4 (s @ [CHR 0x0A]) @ u"
proof -
  have nl: "isspace (CHR 0x0A)" by (simp add: isspace_def)
  have "dropWhile isspace (s @ [CHR 0x0A]) = (if s = [] then [] else s @ [CHR 0x0A])"
    using assms nl by (cases s) auto
  then have "trim4 (s @ [CHR 0x0A]) = rev (dropWhile isspace (rev s))" using nl by (simp add: trim4_def)
  moreover have "s = rev (dropWhile isspace (rev s)) @ rev (takeWhile isspace (rev s))"
    by (metis rev_append rev_rev_ident takeWhile_dropWhile_id)
  ultimately show ?thesis by metis
qed

lemma load_lines_skip:
  assumes "skipped s"
  shows "load_lines4 mktime (s @ CHR 0x0A # rest) db = load_lines4 mktime rest db"
proof -
  have "fgets 1024 (s @ CHR 0x0A # rest) = Some (s @ [CHR 0x0A], rest)"
    using assms by (intro fgets_line) (simp_all add: skipped_def)
  moreover have "take 5 (trim4 (s @ [CHR 0x0A])) \<noteq> ''lease''"
  proof
    assume l: "take 5 (trim4 (s @ [CHR 0x0A])) = ''lease''"
    then have "length (take 5 (trim4 (s @ [CHR 0x0A]))) = 5" by simp
    then have "5 \<le> length (trim4 (s @ [CHR 0x0A]))" by (simp only: length_take min_def split: if_splits)
    moreover obtain u where "s = trim4 (s @ [CHR 0x0A]) @ u" using trim4_line assms by (auto simp: skipped_def)
    ultimately have "take 5 s = take 5 (trim4 (s @ [CHR 0x0A]))" by (metis take_append diff_is_0_eq take_0 append_Nil2)
    then show False using l assms by (simp add: skipped_def)
  qed
  then have "load_line4 mktime (trim4 (s @ [CHR 0x0A])) rest db = Returns (db, rest)" by (simp add: load_line4_def)
  ultimately show ?thesis by (subst load_lines4.simps) simp
qed

lemma load_lines_skips: "list_all skipped ls \<Longrightarrow> load_lines4 mktime (text_of ls @ rest) db = load_lines4 mktime rest db"
  by (induction ls) (simp_all add: text_of_def load_lines_skip)

lemma header_skipped: "list_all skipped file_header"
proof -
  define d where "d = concat (map octal_byte [0, 1, 0, 1, 43, 255, 140, 250, 0, 12, 41, 90, 123, 172])"
  have "CHR 0x0A \<notin> set d" "CHR 0x00 \<notin> set d" "length d = 56" unfolding d_def by code_simp+
  then show ?thesis unfolding file_header_def d_def [symmetric] by (simp add: skipped_def isspace_def)
qed

lemma load_lines_written:
  assumes "storable localtime mktime l" and "length (leases db) < MAX_LEASES"
  shows "load_lines4 mktime (text_of (written_lines localtime l) @ rest) db = load_lines4 mktime rest (add_loaded (restored l) db)"
proof -
  let ?h = "''lease '' @ inet_ntop4 (ip_address l) @ '' {''"
  have a: "CHR 0x0A \<notin> set (inet_ntop4 (ip_address l))" "CHR 0x00 \<notin> set (inet_ntop4 (ip_address l))"
    by (simp_all add: ntop4_free isdigit_def)
  define r where "r = text_of (body_lines localtime l @ [''}'']) @ rest"
  have "fgets 1024 (?h @ CHR 0x0A # r) = Some (?h @ [CHR 0x0A], r)"
    using a ntop4_plain(3) [of "ip_address l"] by (intro fgets_line) simp_all
  moreover have "trim4 (?h @ [CHR 0x0A]) = ?h" by (rule trim4_tight(2)) (simp add: tight_def isspace_def)
  moreover have "load_line4 mktime ?h r db = Returns (add_loaded (restored l) db, rest)"
    using parse_lease_block_written [OF assms(1)] assms(2) unfolding load_line4_def r_def by simp
  ultimately have "load_lines4 mktime (?h @ CHR 0x0A # r) db = load_lines4 mktime rest (add_loaded (restored l) db)"
    by (simp only: load_lines4.simps [of mktime "?h @ CHR 0x0A # r" db] option.case prod.case outcome.case)
  moreover have "skipped []" by (simp add: skipped_def)
  moreover have "text_of (written_lines localtime l) @ rest = [] @ CHR 0x0A # ?h @ CHR 0x0A # r"
    by (simp add: written_lines_body text_of_def r_def)
  ultimately show ?thesis by (simp only: load_lines_skip)
qed

text \<open>The rows that come back, numbered again in the order of the file.\<close>

primrec renumbered :: "u64 \<Rightarrow> dhcp_lease_t list \<Rightarrow> dhcp_lease_t list" where
  "renumbered n [] = []"
| "renumbered n (l # ls) = (restored l)\<lparr>lease_id := n\<rparr> # renumbered (n + 1) ls"

lemma renumbered_length [simp]: "length (renumbered n ls) = length ls"
  by (induction ls arbitrary: n) simp_all

lemma renumbered_append: "renumbered n (as @ bs) = renumbered n as @ renumbered (n + of_nat (length as)) bs"
  by (induction as arbitrary: n) (simp_all add: add.assoc add.commute)

lemma renumbered_nth: "i < length ls \<Longrightarrow> renumbered n ls ! i = (restored (ls ! i))\<lparr>lease_id := n + of_nat i\<rparr>"
  by (induction ls arbitrary: n i) (auto simp: nth_Cons add.assoc split: nat.splits)

lemma renumbered_addresses: "find_idx (\<lambda>l. ip_address l = ip) (renumbered n ls) = find_idx (\<lambda>l. ip_address l = ip) ls"
  by (induction ls arbitrary: n) (simp_all add: restored_def)

lemma find_idx_append: "find_idx P xs = Some i \<Longrightarrow> find_idx P (xs @ ys) = Some i"
  by (induction xs arbitrary: i) (auto split: if_splits)

lemma load_lines_blocks:
  assumes "list_all (storable localtime mktime) ls" and "length (leases db) + length ls \<le> MAX_LEASES"
  shows "load_lines4 mktime (text_of (concat (map (written_lines localtime) ls))) db =
    Returns (db\<lparr>leases := leases db @ renumbered (next_lease_id db) ls, next_lease_id := next_lease_id db + of_nat (length ls)\<rparr>)"
  using assms
proof (induction ls arbitrary: db)
  case Nil
  then show ?case by (subst load_lines4.simps) (simp add: text_of_def fgets_def)
next
  case (Cons l ls)
  have "load_lines4 mktime (text_of (written_lines localtime l) @ text_of (concat (map (written_lines localtime) ls))) db
      = load_lines4 mktime (text_of (concat (map (written_lines localtime) ls))) (add_loaded (restored l) db)"
    using Cons.prems by (intro load_lines_written) simp_all
  moreover have "add_loaded (restored l) db =
      db\<lparr>leases := leases db @ [(restored l)\<lparr>lease_id := next_lease_id db\<rparr>], next_lease_id := next_lease_id db + 1\<rparr>"
    by (simp add: add_loaded_def restored_def lease_db_generate_id_def)
  ultimately show ?case
    using Cons.IH [of "add_loaded (restored l) db"] Cons.prems by (simp add: text_of_def add.commute add.left_commute)
qed

definition ctime_ok :: "string \<Rightarrow> bool" where
  "ctime_ok s \<longleftrightarrow> CHR 0x0A \<notin> set s \<and> CHR 0x00 \<notin> set s \<and> length s < 900"

lemma load_saved:
  assumes "list_all (storable localtime mktime) ls" and "length ls \<le> MAX_LEASES" and "ctime_ok ctime_text"
  shows "lease_db_load mktime (Some (text_of (file_header @ [''# Last updated: '' @ ctime_text, []] @ concat (map (written_lines localtime) ls)))) db =
    Returns (0, db\<lparr>leases := renumbered 1 ls, next_lease_id := 1 + of_nat (length ls)\<rparr>)"
proof -
  have "list_all skipped (file_header @ [''# Last updated: '' @ ctime_text, []])"
    using header_skipped assms(3) by (simp add: skipped_def ctime_ok_def isspace_def)
  from load_lines_skips [OF this]
  have "load_lines4 mktime (text_of (file_header @ [''# Last updated: '' @ ctime_text, []] @ concat (map (written_lines localtime) ls))) d =
      load_lines4 mktime (text_of (concat (map (written_lines localtime) ls))) d" for d
    by (simp add: text_of_def)
  then show ?thesis
    using load_lines_blocks [OF assms(1), of "db\<lparr>leases := [], next_lease_id := 1\<rparr>"] assms(2)
    by (simp add: lease_db_load_def)
qed

section \<open>Properties\<close>

text \<open>
  C9: loading the file that \<open>lease_db_save\<close> wrote gives back every lease of the table in its order,
  with its address, client, times, states, client identifier and names, for leases that are \<open>storable\<close>:
  names without quotes and line ends that fit their buffers, and times that \<open>mktime\<close> gets back.  Of the identifier of a lease
  nothing is left: the rows are numbered again from 1, since the text that \<open>parse_lease_block\<close> converts
  is the equals sign in front of the number.
\<close>

theorem lease_file_roundtrip:
  assumes "list_all (storable localtime mktime) (leases db)" and "length (leases db) \<le> MAX_LEASES" and "ctime_ok ctime_text"
  shows "lease_db_load mktime (snd (lease_db_save localtime ctime_text True db)) db0 =
    Returns (0, db0\<lparr>leases := renumbered 1 (leases db), next_lease_id := 1 + of_nat (length (leases db))\<rparr>)"
  using load_saved [OF assms] by (simp add: lease_db_save_def)

definition file_tm :: tm where
  "file_tm = \<lparr>tm_year = 124, tm_mon = 9, tm_mday = 26, tm_hour = 14, tm_min = 30, tm_sec = 0, tm_wday = 6\<rparr>"

definition file_lease :: dhcp_lease_t where
  "file_lease = (new_lease 0 7 16777226 [2, 0, 0, 0, 0, 1] 0)\<lparr>start_time := 1729953000, end_time := 1729953000, client_hostname := ''ws''\<rparr>"

lemma file_lease_storable: "storable (\<lambda>t. Some file_tm) (\<lambda>f. 1729953000) file_lease"
  by (simp add: storable_def file_lease_def new_lease_def lease_zero_def time_ok_def file_tm_def tm_ok_def name_ok_def)

theorem lease_file_roundtrip_witness:
  "lease_db_load (\<lambda>f. 1729953000) (snd (lease_db_save (\<lambda>t. Some file_tm) ''Sat Oct 26 14:30:00 2024'' True
      (db_zero\<lparr>leases := [file_lease], next_lease_id := 8\<rparr>))) db_zero
    = Returns (0, db_zero\<lparr>leases := [file_lease\<lparr>lease_id := 1\<rparr>], next_lease_id := 2\<rparr>)"
  using lease_file_roundtrip [of "\<lambda>t. Some file_tm" "\<lambda>f. 1729953000" "db_zero\<lparr>leases := [file_lease], next_lease_id := 8\<rparr>"
      "''Sat Oct 26 14:30:00 2024''" db_zero] file_lease_storable
  by (simp add: ctime_ok_def restored_def file_lease_def new_lease_def lease_zero_def db_zero_def)

text \<open>
  The file is a journal, but it is not read as one.  After a save, a changed lease is appended as one
  more block; \<open>lease_db_load\<close> adds a second row for the address and \<open>lease_db_find_by_ip\<close> returns the
  first, so after a restart the server works with the state, client and end that the lease had before.
\<close>

lemma restart_finds_oldest_row:
  assumes "list_all (storable localtime mktime) (leases db)" and "storable localtime mktime new"
    and "length (leases db) < MAX_LEASES" and "ctime_ok ctime_text"
    and "lease_db_save localtime ctime_text True db = (0, Some contents)"
    and "lease_db_append_lease localtime True contents new = (0, journal)"
    and "lease_db_find_by_ip db (ip_address new) = Some i"
  shows "\<exists>db2. lease_db_load mktime (Some journal) db0 = Returns (0, db2) \<and> length (leases db2) = Suc (length (leases db)) \<and>
    lease_db_find_by_ip db2 (ip_address new) = Some i \<and>
    leases db2 ! i = (restored (leases db ! i))\<lparr>lease_id := 1 + of_nat i\<rparr>"
proof -
  have j: "journal = text_of (file_header @ [''# Last updated: '' @ ctime_text, []] @ concat (map (written_lines localtime) (leases db @ [new])))"
    using assms(5,6) by (auto simp: lease_db_save_def lease_db_append_lease_def text_of_def)
  have i: "i < length (leases db)" "find_idx (\<lambda>l. ip_address l = ip_address new) (leases db) = Some i"
    using assms(7) find_idx_SomeD unfolding lease_db_find_by_ip_def by blast+
  have "lease_db_load mktime (Some journal) db0 = Returns (0, db0\<lparr>leases := renumbered 1 (leases db @ [new]),
      next_lease_id := 1 + of_nat (Suc (length (leases db)))\<rparr>)"
    using load_saved [of localtime mktime "leases db @ [new]" ctime_text db0] assms unfolding j by simp
  moreover have "find_idx (\<lambda>l. ip_address l = ip_address new) (renumbered 1 (leases db @ [new])) = Some i"
    unfolding renumbered_addresses using i by (simp add: find_idx_append)
  moreover have "renumbered 1 (leases db @ [new]) ! i = (restored (leases db ! i))\<lparr>lease_id := 1 + of_nat i\<rparr>"
    using i(1) by (simp add: renumbered_append nth_append renumbered_nth)
  ultimately show ?thesis by (simp add: lease_db_find_by_ip_def)
qed

end
