(* ===== verification/Config_Parse_V4.thy ===== *)
theory Config_Parse_V4
  imports Config_V4 Utils_V4
begin

text \<open>
  The parser of the DHCPv4 configuration file (DHCPv4/src/config_v4.c).  A file is the text that is left to
  read.  The slot of the array of hosts that a host block is read into is part of the state: a block
  with an error leaves what it has stored there for the next block.  Texts are copied with
  \<open>strncpy\<close> into zeroed buffers of 256 characters; only a domain name may fill its buffer.
\<close>

section \<open>Definitions\<close>

abbreviation MAX_SUBNETS :: nat where "MAX_SUBNETS \<equiv> 32"
abbreviation MAX_HOSTS_PER_SUBNET :: nat where "MAX_HOSTS_PER_SUBNET \<equiv> 128"
abbreviation MAX_SERVERS :: nat where "MAX_SERVERS \<equiv> 4"
abbreviation MAX_LINE_LEN :: nat where "MAX_LINE_LEN \<equiv> 1024"

definition ddns_update_style_to_string :: "ddns_update_style_t \<Rightarrow> string" where
  "ddns_update_style_to_string style =
     (case style of DDNS_NONE \<Rightarrow> ''none'' | DDNS_INTERIM \<Rightarrow> ''interim'' | DDNS_STANDARD \<Rightarrow> ''standard''
      | DDNS_AD_HOC \<Rightarrow> ''ad-hoc'' | DDNS_UNKNOWN \<Rightarrow> ''unknown'')"

definition ddns_update_style_from_string :: "string \<Rightarrow> ddns_update_style_t" where
  "ddns_update_style_from_string str =
     (if str = ''none'' then DDNS_NONE
      else if str = ''interim'' then DDNS_INTERIM
      else if str = ''standard'' then DDNS_STANDARD
      else if str = ''ad-hoc'' then DDNS_AD_HOC
      else DDNS_UNKNOWN)"

subsection \<open>Global options\<close>

text \<open>Storing of a number or an address: the result of the parser function and the structure.\<close>

definition store :: "int + 'a \<Rightarrow> ('a \<Rightarrow> 's \<Rightarrow> 's) \<Rightarrow> 's \<Rightarrow> int \<times> 's" where
  "store r f s = (case r of Inl _ \<Rightarrow> (-2, s) | Inr v \<Rightarrow> (0, f v s))"

definition store_list :: "int \<times> in_addr list \<Rightarrow> (in_addr list \<Rightarrow> 's \<Rightarrow> 's) \<Rightarrow> 's \<Rightarrow> int \<times> 's" where
  "store_list r f s = (if fst r < 0 then -2 else 0, f (snd r) s)"

definition global_dhcp_option :: "string \<Rightarrow> string \<Rightarrow> dhcp_global_options_t \<Rightarrow> int \<times> dhcp_global_options_t" where
  "global_dhcp_option opt_name v g =
     (if opt_name = ''domain-name-servers'' then
        store_list (parse_ip_list v MAX_SERVERS (g_dns_servers g)) (\<lambda>l. g_dns_servers_update (\<lambda>_. l)) g
      else if opt_name = ''ntp-servers'' then
        store_list (parse_ip_list v MAX_SERVERS (g_ntp_servers g)) (\<lambda>l. g_ntp_servers_update (\<lambda>_. l)) g
      else if opt_name = ''netbios-name-servers'' then
        store_list (parse_ip_list v MAX_SERVERS (g_netbios_servers g)) (\<lambda>l. g_netbios_servers_update (\<lambda>_. l)) g
      else if opt_name = ''time-offset'' then store (parse_uint32 v) (\<lambda>x. g_time_offset_update (\<lambda>_. x)) g
      else if opt_name = ''tftp-server-name'' then (0, g\<lparr>g_tftp_server_name := take 255 (remove_quotes v)\<rparr>)
      else if opt_name = ''bootfile-name'' then (0, g\<lparr>g_bootfile_name := take 255 (remove_quotes v)\<rparr>)
      else if opt_name = ''dhcp-renewal-time'' then store (parse_uint32 v) (\<lambda>x. g_renewal_time_update (\<lambda>_. x)) g
      else if opt_name = ''dhcp-rebinding-time'' then store (parse_uint32 v) (\<lambda>x. g_rebinding_time_update (\<lambda>_. x)) g
      else (0, g))"

definition allow_option :: "bool \<Rightarrow> string \<Rightarrow> dhcp_global_options_t \<Rightarrow> dhcp_global_options_t" where
  "allow_option allowed v g =
     (if v = ''unknown-clients'' then g\<lparr>allow_unknown_clients := allowed\<rparr>
      else if v = ''bootp'' then g\<lparr>allow_bootp := allowed\<rparr>
      else g)"

definition global_statement :: "string \<Rightarrow> string \<Rightarrow> dhcp_global_options_t \<Rightarrow> int \<times> dhcp_global_options_t" where
  "global_statement key v g =
     (if key = ''default-lease-time'' then store (parse_uint32 v) (\<lambda>x. g_default_lease_time_update (\<lambda>_. x)) g
      else if key = ''max-lease-time'' then store (parse_uint32 v) (\<lambda>x. g_max_lease_time_update (\<lambda>_. x)) g
      else if key = ''ddns-update-style'' then (0, g\<lparr>ddns_update_style := ddns_update_style_from_string v\<rparr>)
      else if key = ''ping-check'' then (0, g\<lparr>ping_check := (v = ''true'')\<rparr>)
      else if key = ''ping-timeout'' then store (parse_uint32 v) (\<lambda>x. ping_timeout_update (\<lambda>_. x)) g
      else if key = ''next-server'' then store (parse_ip_address v) (\<lambda>x. g_next_server_update (\<lambda>_. x)) g
      else if key = ''filename'' then (0, g\<lparr>g_filename := take 255 (remove_quotes v)\<rparr>)
      else if key = ''allow'' then (0, allow_option True v g)
      else if key = ''deny'' then (0, allow_option False v g)
      else if key = ''update-conflict-detection'' then (0, g\<lparr>update_conflict_detection := (v = ''true'')\<rparr>)
      else (0, g))"

abbreviation blanks :: string where "blanks \<equiv> [CHR '' '', CHR 0x09]"

definition parse_global_option4 :: "string \<Rightarrow> dhcp_global_options_t \<Rightarrow> int \<times> dhcp_global_options_t" where
  "parse_global_option4 line g =
     (case strtok (blanks @ '';'') line of
        (None, _) \<Rightarrow> (-2, g)
      | (Some key, rest) \<Rightarrow>
          if key = ''authoritative'' then (0, g\<lparr>authoritative := True\<rparr>)
          else if key = ''option'' then
            (case strtok blanks rest of
               (None, _) \<Rightarrow> (-2, g)
             | (Some opt_name, rest2) \<Rightarrow>
                 (case strtok '';'' rest2 of
                    (None, _) \<Rightarrow> (-2, g)
                  | (Some opt_value, _) \<Rightarrow> global_dhcp_option opt_name (trim4 opt_value) g))
          else (case strtok '';'' rest of
                  (None, _) \<Rightarrow> (-2, g)
                | (Some v, _) \<Rightarrow> global_statement key (trim4 v) g))"

subsection \<open>Subnets\<close>

definition subnet_dhcp_option :: "string \<Rightarrow> string \<Rightarrow> dhcp_subnet_t \<Rightarrow> int \<times> dhcp_subnet_t" where
  "subnet_dhcp_option opt_name v s =
     (if opt_name = ''routers'' then store (parse_ip_address v) (\<lambda>x. router_update (\<lambda>_. x)) s
      else if opt_name = ''broadcast-address'' then store (parse_ip_address v) (\<lambda>x. broadcast_update (\<lambda>_. x)) s
      else if opt_name = ''subnet-mask'' then store (parse_ip_address v) (\<lambda>x. subnet_mask_update (\<lambda>_. x)) s
      else if opt_name = ''domain-name'' then (0, s\<lparr>domain_name := take 256 (remove_quotes v)\<rparr>)
      else if opt_name = ''domain-name-servers'' then
        store_list (parse_ip_list v MAX_SERVERS (dns_servers s)) (\<lambda>l. dns_servers_update (\<lambda>_. l)) s
      else if opt_name = ''time-offset'' then store (parse_uint32 v) (\<lambda>x. time_offset_update (\<lambda>_. x)) s
      else if opt_name = ''ntp-servers'' then
        store_list (parse_ip_list v MAX_SERVERS (ntp_servers s)) (\<lambda>l. ntp_servers_update (\<lambda>_. l)) s
      else if opt_name = ''netbios-name-servers'' then
        store_list (parse_ip_list v MAX_SERVERS (netbios_servers s)) (\<lambda>l. netbios_servers_update (\<lambda>_. l)) s
      else if opt_name = ''tftp-server-name'' then (0, s\<lparr>tftp_server_name := take 255 (remove_quotes v)\<rparr>)
      else if opt_name = ''bootfile-name'' then (0, s\<lparr>bootfile_name := take 255 (remove_quotes v)\<rparr>)
      else if opt_name = ''dhcp-renewal-time'' then store (parse_uint32 v) (\<lambda>x. renewal_time_update (\<lambda>_. x)) s
      else if opt_name = ''dhcp-rebinding-time'' then store (parse_uint32 v) (\<lambda>x. rebinding_time_update (\<lambda>_. x)) s
      else (0, s))"

text \<open>A statement whose value is missing is ignored.\<close>

definition with_value :: "string \<Rightarrow> (string \<Rightarrow> 's \<Rightarrow> int \<times> 's) \<Rightarrow> 's \<Rightarrow> int \<times> 's" where
  "with_value rest f s = (case strtok '';'' rest of (None, _) \<Rightarrow> (0, s) | (Some v, _) \<Rightarrow> f (trim4 v) s)"

definition range_statement :: "string \<Rightarrow> dhcp_subnet_t \<Rightarrow> int \<times> dhcp_subnet_t" where
  "range_statement rest s =
     (case strtok blanks rest of
        (None, _) \<Rightarrow> (0, s)
      | (Some start, rest2) \<Rightarrow>
          with_value rest2 (\<lambda>end_ip s.
            case store (parse_ip_address (trim4 start)) (\<lambda>x. range_start_update (\<lambda>_. x)) s of
              (r, s1) \<Rightarrow> if r \<noteq> 0 then (r, s1)
                else store (parse_ip_address end_ip) (\<lambda>x. range_end_update (\<lambda>_. x)) s1) s)"

definition parse_subnet_option4 :: "string \<Rightarrow> dhcp_subnet_t \<Rightarrow> int \<times> dhcp_subnet_t" where
  "parse_subnet_option4 line s =
     (case strtok blanks line of
        (None, _) \<Rightarrow> (-2, s)
      | (Some token, rest) \<Rightarrow>
          if token = ''range'' then range_statement rest s
          else if token = ''option'' then
            (case strtok blanks rest of
               (None, _) \<Rightarrow> (-2, s)
             | (Some opt_name, rest2) \<Rightarrow>
                 (case strtok '';'' rest2 of
                    (None, _) \<Rightarrow> (-2, s)
                  | (Some opt_value, _) \<Rightarrow> subnet_dhcp_option opt_name (trim4 opt_value) s))
          else if token = ''default-lease-time'' then
            with_value rest (\<lambda>v. store (parse_uint32 v) (\<lambda>x. default_lease_time_update (\<lambda>_. x))) s
          else if token = ''max-lease-time'' then
            with_value rest (\<lambda>v. store (parse_uint32 v) (\<lambda>x. max_lease_time_update (\<lambda>_. x))) s
          else if token = ''next-server'' then
            with_value rest (\<lambda>v. store (parse_ip_address v) (\<lambda>x. next_server_update (\<lambda>_. x))) s
          else if token = ''filename'' then
            with_value rest (\<lambda>v s. (0, s\<lparr>boot_filename := take 255 (remove_quotes v)\<rparr>)) s
          else (0, s))"

subsection \<open>Hosts\<close>

definition host_zero :: dhcp_host_reservation_t where
  "host_zero = \<lparr>host_name = [], host_mac = replicate 6 0, fixed_address = 0, hostname = []\<rparr>"

definition host_statement :: "string \<Rightarrow> dhcp_host_reservation_t \<Rightarrow> int \<times> dhcp_host_reservation_t" where
  "host_statement line h =
     (case strtok blanks line of
        (None, _) \<Rightarrow> (0, h)
      | (Some token, rest) \<Rightarrow>
          if token = ''hardware-ethernet'' then
            with_value rest (\<lambda>v. store (parse_mac_address v) (\<lambda>x. host_mac_update (\<lambda>_. x))) h
          else if token = ''fixed-address'' then
            with_value rest (\<lambda>v. store (parse_ip_address v) (\<lambda>x. fixed_address_update (\<lambda>_. x))) h
          else if token = ''option'' then
            (case strtok blanks rest of
               (Some opt_name, rest2) \<Rightarrow>
                 if opt_name = ''host-name'' then
                   with_value rest2 (\<lambda>v h. (0, h\<lparr>hostname := take 255 (remove_quotes v)\<rparr>)) h
                 else (0, h)
             | (None, _) \<Rightarrow> (0, h))
          else (0, h))"

definition skipped_line :: "string \<Rightarrow> bool" where
  "skipped_line line \<longleftrightarrow> line = [] \<or> hd line = CHR ''#''"

text \<open>
  The result, the slot of the host, whether the host was counted, and the rest of the file.
\<close>

function host_lines4 :: "dhcp_host_reservation_t \<Rightarrow> string \<Rightarrow> int \<times> dhcp_host_reservation_t \<times> bool \<times> string" where
  "host_lines4 h f =
     (case fgets MAX_LINE_LEN f of
        None \<Rightarrow> (0, h, False, f)
      | Some (line, rest) \<Rightarrow>
          let trimmed = trim4 line
          in if skipped_line trimmed then host_lines4 h rest
             else if CHR ''}'' \<in> set trimmed then (0, h, True, rest)
             else case host_statement trimmed h of
               (r, h2) \<Rightarrow> if r \<noteq> 0 then (r, h2, False, rest) else host_lines4 h2 rest)"
  by pat_completeness auto
termination
  by (relation "measure (\<lambda>(h, f). length f)") (auto dest: fgets_shorter)

declare host_lines4.simps [simp del]

text \<open>\<open>slot\<close> is the first element behind the counted hosts.\<close>

definition parse_host_block4 :: "dhcp_subnet_t \<Rightarrow> dhcp_host_reservation_t \<Rightarrow> string
    \<Rightarrow> int \<times> dhcp_subnet_t \<times> dhcp_host_reservation_t \<times> string" where
  "parse_host_block4 s slot f =
     (if length (hosts s) \<ge> MAX_HOSTS_PER_SUBNET then (-3, s, slot, f)
      else case host_lines4 slot f of
        (r, h, counted, rest) \<Rightarrow>
          if counted then (r, s\<lparr>hosts := hosts s @ [h]\<rparr>, host_zero, rest) else (r, s, h, rest))"

lemma host_lines_shorter: "host_lines4 h f = (r, h2, c, rest) \<Longrightarrow> length rest \<le> length f"
proof (induction h f rule: host_lines4.induct)
  case (1 h f)
  show ?case
  proof (cases "fgets MAX_LINE_LEN f")
    case None
    then show ?thesis using "1.prems" by (simp add: host_lines4.simps [of h f])
  next
    case (Some lr)
    obtain line more where lr: "lr = (line, more)" by (cases lr)
    obtain r2 h3 where st: "host_statement (trim4 line) h = (r2, h3)" by fastforce
    show ?thesis
      using "1.prems" "1.IH"(1) [OF Some lr [symmetric] refl] "1.IH"(2) [OF Some lr [symmetric] refl _ _ st [symmetric]]
        fgets_shorter [OF Some [unfolded lr]]
      by (auto simp: host_lines4.simps [of h f] Some lr st Let_def split: if_splits)
  qed
qed

lemma parse_host_block4_shorter: "parse_host_block4 s slot f = (r, s2, slot2, rest) \<Longrightarrow> length rest \<le> length f"
  by (auto simp: parse_host_block4_def dest: host_lines_shorter split: if_splits prod.splits)

text \<open>
  One line of a subnet block: the end of the loop with the result, the subnet, whether its block was
  closed and the rest of the file, or the state with which the loop goes on.
\<close>

definition subnet_line :: "dhcp_subnet_t \<Rightarrow> dhcp_host_reservation_t \<Rightarrow> string \<Rightarrow> string
    \<Rightarrow> (int \<times> dhcp_subnet_t \<times> bool \<times> string) + (dhcp_subnet_t \<times> dhcp_host_reservation_t \<times> string)" where
  "subnet_line s slot trimmed rest =
     (if skipped_line trimmed then Inr (s, slot, rest)
      else if hd trimmed = CHR ''}'' then Inl (0, s, True, rest)
      else if take 4 trimmed = ''host'' then
        (case strtok (blanks @ ''{'') (drop 4 trimmed) of
           (Some name, _) \<Rightarrow>
             if length (hosts s) < MAX_HOSTS_PER_SUBNET then
               Inr (snd (parse_host_block4 s (slot\<lparr>host_name := take 255 (trim4 name)\<rparr>) rest))
             else Inr (s, slot, rest)
         | (None, _) \<Rightarrow> Inr (s, slot, rest))
      else case parse_subnet_option4 trimmed s of
        (r, s2) \<Rightarrow> if r \<noteq> 0 then Inl (-2, s2, False, rest) else Inr (s2, slot, rest))"

lemma subnet_line_shorter:
  "subnet_line s slot trimmed rest = Inr (s2, slot2, rest2) \<Longrightarrow> length rest2 \<le> length rest"
  "subnet_line s slot trimmed rest = Inl (r, s3, c, rest3) \<Longrightarrow> rest3 = rest"
  by (cases "parse_host_block4 s (slot\<lparr>host_name := take 255 (trim4 (the (fst (strtok (blanks @ ''{'') (drop 4 trimmed)))))\<rparr>) rest";
      auto simp: subnet_line_def dest: parse_host_block4_shorter split: if_splits option.splits prod.splits)+

function subnet_lines :: "dhcp_subnet_t \<Rightarrow> dhcp_host_reservation_t \<Rightarrow> string \<Rightarrow> int \<times> dhcp_subnet_t \<times> bool \<times> string" where
  "subnet_lines s slot f =
     (case fgets MAX_LINE_LEN f of
        None \<Rightarrow> (0, s, False, f)
      | Some (line, rest) \<Rightarrow>
          (case subnet_line s slot (trim4 line) rest of
             Inl result \<Rightarrow> result
           | Inr (s2, slot2, rest2) \<Rightarrow> subnet_lines s2 slot2 rest2))"
  by pat_completeness auto
termination
  by (relation "measure (\<lambda>(s, slot, f). length f)")
    (auto dest!: fgets_shorter subnet_line_shorter)

text \<open>The loop rule: what the lines keep holds at its end.\<close>

lemma subnet_lines_rule:
  assumes "I (s, slot, f)"
    and "\<And>s slot f line rest st. I (s, slot, f) \<Longrightarrow> fgets MAX_LINE_LEN f = Some (line, rest) \<Longrightarrow>
      subnet_line s slot (trim4 line) rest = Inr st \<Longrightarrow> I st"
    and "\<And>s slot f line rest res. I (s, slot, f) \<Longrightarrow> fgets MAX_LINE_LEN f = Some (line, rest) \<Longrightarrow>
      subnet_line s slot (trim4 line) rest = Inl res \<Longrightarrow> post res"
    and "\<And>s slot f. I (s, slot, f) \<Longrightarrow> post (0, s, False, f)"
  shows "post (subnet_lines s slot f)"
  using assms(1)
proof (induction s slot f rule: subnet_lines.induct)
  case (1 s slot f)
  show ?case
  proof (cases "fgets MAX_LINE_LEN f")
    case None
    then show ?thesis using "1.prems" assms(4) by (subst subnet_lines.simps) simp
  next
    case (Some lr)
    obtain line rest where lr: "lr = (line, rest)" by (cases lr)
    note inl = assms(3) [OF "1.prems" Some [unfolded lr]] and inr = assms(2) [OF "1.prems" Some [unfolded lr]]
    show ?thesis
    proof (cases "subnet_line s slot (trim4 line) rest")
      case (Inl res)
      then show ?thesis using Some lr inl [OF Inl] by (subst subnet_lines.simps) simp
    next
      case (Inr st)
      obtain s2 slot2 rest2 where st: "st = (s2, slot2, rest2)" by (cases st)
      have "post (subnet_lines s2 slot2 rest2)"
        by (rule "1.IH" [OF Some lr [symmetric] Inr]) (use inr [OF Inr] in \<open>simp_all add: st\<close>)
      then show ?thesis using Some lr Inr st by (subst subnet_lines.simps) simp
    qed
  qed
qed

declare subnet_lines.simps [simp del]

definition or_global :: "'a \<Rightarrow> 'a \<Rightarrow> 'a \<Rightarrow> 'a" where
  "or_global unset g v = (if v = unset then g else v)"

definition global_fallbacks :: "dhcp_global_options_t \<Rightarrow> dhcp_subnet_t \<Rightarrow> dhcp_subnet_t" where
  "global_fallbacks g s = s\<lparr>
     default_lease_time := or_global 0 (g_default_lease_time g) (default_lease_time s),
     max_lease_time := or_global 0 (g_max_lease_time g) (max_lease_time s),
     renewal_time := or_global 0 (g_renewal_time g) (renewal_time s),
     rebinding_time := or_global 0 (g_rebinding_time g) (rebinding_time s),
     next_server := or_global 0 (g_next_server g) (next_server s),
     boot_filename := or_global [] (g_filename g) (boot_filename s),
     tftp_server_name := or_global [] (g_tftp_server_name g) (tftp_server_name s),
     bootfile_name := or_global [] (g_bootfile_name g) (bootfile_name s),
     ntp_servers := or_global [] (g_ntp_servers g) (ntp_servers s),
     netbios_servers := or_global [] (g_netbios_servers g) (netbios_servers s),
     time_offset := or_global 0 (g_time_offset g) (time_offset s),
     dns_servers := or_global [] (g_dns_servers g) (dns_servers s)\<rparr>"

definition subnet_zero :: dhcp_subnet_t where
  "subnet_zero = \<lparr>network = 0, netmask = 0, range_start = 0, range_end = 0, router = 0, broadcast = 0, subnet_mask = 0,
     domain_name = [], dns_servers = [], ntp_servers = [], netbios_servers = [], time_offset = 0,
     default_lease_time = 0, max_lease_time = 0, next_server = 0, boot_filename = [], tftp_server_name = [],
     bootfile_name = [], renewal_time = 0, rebinding_time = 0, hosts = []\<rparr>"

text \<open>The first line: the network and the mask.\<close>

definition subnet_head :: "string \<Rightarrow> dhcp_subnet_t option" where
  "subnet_head first_line =
     (case strtok blanks first_line of
        (Some token, rest) \<Rightarrow>
          if token \<noteq> ''subnet'' then None
          else (case strtok blanks rest of
            (Some net, rest2) \<Rightarrow>
              (case strtok (blanks @ ''{'') (snd (strtok blanks rest2)) of
                 (Some msk, _) \<Rightarrow>
                   (case (parse_ip_address net, parse_ip_address msk) of
                      (Inr n, Inr m) \<Rightarrow> Some (subnet_zero\<lparr>network := n, netmask := m\<rparr>)
                    | _ \<Rightarrow> None)
               | (None, _) \<Rightarrow> None)
          | (None, _) \<Rightarrow> None)
      | (None, _) \<Rightarrow> None)"

text \<open>A subnet is counted when its block is closed.\<close>

definition parse_subnet_block :: "dhcp_config_t \<Rightarrow> string \<Rightarrow> string \<Rightarrow> int \<times> dhcp_config_t \<times> string" where
  "parse_subnet_block config f first_line =
     (if length (subnets config) \<ge> MAX_SUBNETS then (-3, config, f)
      else case subnet_head first_line of
        None \<Rightarrow> (-2, config, f)
      | Some s0 \<Rightarrow>
          (case subnet_lines s0 host_zero f of
             (r, s, closed, rest) \<Rightarrow>
               if closed then
                 (r, config\<lparr>subnets := subnets config @ [global_fallbacks (global config) s]\<rparr>, rest)
               else (r, config, rest)))"

lemma subnet_lines_shorter: "length (snd (snd (snd (subnet_lines s slot f)))) \<le> length f"
  by (rule subnet_lines_rule [where I = "\<lambda>(s2, slot2, f2). length f2 \<le> length f"
        and post = "\<lambda>r. length (snd (snd (snd r))) \<le> length f"])
    (auto dest!: fgets_shorter subnet_line_shorter)

lemma parse_subnet_block_shorter: "length (snd (snd (parse_subnet_block config f first_line))) \<le> length f"
  using subnet_lines_shorter [of _ host_zero f]
  by (auto simp: parse_subnet_block_def split: option.split prod.split) (metis snd_conv)+

subsection \<open>Files\<close>

text \<open>One line of the file: the configuration and the rest of the file.\<close>

definition config_line4 :: "dhcp_config_t \<Rightarrow> string \<Rightarrow> string \<Rightarrow> dhcp_config_t \<times> string" where
  "config_line4 config trimmed f =
     (if skipped_line trimmed then (config, f)
      else if take 6 trimmed = ''subnet'' then
        (case parse_subnet_block config f trimmed of
           (r, config2, rest) \<Rightarrow> (config2, if r \<noteq> 0 then snd (advance_to_next_closed_brace rest) else rest))
      else (config\<lparr>global := snd (parse_global_option4 trimmed (global config))\<rparr>, f))"

lemma config_line_shorter: "length (snd (config_line4 config trimmed f)) \<le> length f"
  using parse_subnet_block_shorter [of config f trimmed] advance_shorter
  by (auto simp: config_line4_def split: prod.split) (metis order_trans)

function config_lines :: "dhcp_config_t \<Rightarrow> string \<Rightarrow> dhcp_config_t" where
  "config_lines config f =
     (case fgets MAX_LINE_LEN f of
        None \<Rightarrow> config
      | Some (line, rest) \<Rightarrow>
          (case config_line4 config (trim4 line) rest of (config2, rest2) \<Rightarrow> config_lines config2 rest2))"
  by pat_completeness auto
termination
proof (relation "measure (\<lambda>(config, f). length f)", goal_cases)
  case (2 config f lr line rest config2 rest2)
  then have "length rest2 \<le> length rest" using config_line_shorter [of config "trim4 line" rest] by (metis snd_conv)
  moreover have "length rest < length f" using 2 by (auto dest: fgets_shorter)
  ultimately show ?case by simp
qed simp

declare config_lines.simps [simp del]

definition config_zero :: dhcp_config_t where
  "config_zero = \<lparr>global = \<lparr>authoritative = False, ping_check = False, ping_timeout = 0, ddns_update_style = DDNS_NONE,
     g_default_lease_time = 0, g_max_lease_time = 0, g_dns_servers = [], g_ntp_servers = [], g_netbios_servers = [],
     g_time_offset = 0, g_next_server = 0, g_filename = [], g_tftp_server_name = [], g_bootfile_name = [],
     g_renewal_time = 0, g_rebinding_time = 0, allow_unknown_clients = False, allow_bootp = False,
     update_conflict_detection = False\<rparr>, subnets = []\<rparr>"

text \<open>The file is None when it cannot be opened; then the configuration is not touched.\<close>

definition parse_config_file4 :: "string option \<Rightarrow> dhcp_config_t \<Rightarrow> int \<times> dhcp_config_t" where
  "parse_config_file4 file config =
     (case file of
        None \<Rightarrow> (-1, config)
      | Some contents \<Rightarrow>
          (0, config_lines (config_zero\<lparr>global := (global config_zero)\<lparr>allow_unknown_clients := True, allow_bootp := True\<rparr>\<rparr>)
                contents))"

definition free_config4 :: "dhcp_config_t \<Rightarrow> dhcp_config_t" where
  "free_config4 config = config_zero"

section \<open>Lemmas\<close>

subsection \<open>Sizes\<close>

lemma ddns_style_roundtrip: "ddns_update_style_from_string (ddns_update_style_to_string s) = s"
  by (cases s) (simp_all add: ddns_update_style_from_string_def ddns_update_style_to_string_def)

definition host4_ok :: "dhcp_host_reservation_t \<Rightarrow> bool" where
  "host4_ok h \<longleftrightarrow> length (host_name h) < 256 \<and> length (host_mac h) = 6 \<and> length (hostname h) < 256"

definition subnet4_ok :: "dhcp_subnet_t \<Rightarrow> bool" where
  "subnet4_ok s \<longleftrightarrow> length (hosts s) \<le> MAX_HOSTS_PER_SUBNET \<and> list_all host4_ok (hosts s) \<and>
     length (dns_servers s) \<le> MAX_SERVERS \<and> length (ntp_servers s) \<le> MAX_SERVERS \<and> length (netbios_servers s) \<le> MAX_SERVERS \<and>
     length (domain_name s) \<le> 256 \<and> length (boot_filename s) < 256 \<and> length (tftp_server_name s) < 256 \<and>
     length (bootfile_name s) < 256"

definition global4_ok :: "dhcp_global_options_t \<Rightarrow> bool" where
  "global4_ok g \<longleftrightarrow> length (g_dns_servers g) \<le> MAX_SERVERS \<and> length (g_ntp_servers g) \<le> MAX_SERVERS \<and>
     length (g_netbios_servers g) \<le> MAX_SERVERS \<and> length (g_filename g) < 256 \<and> length (g_tftp_server_name g) < 256 \<and>
     length (g_bootfile_name g) < 256"

definition config4_ok :: "dhcp_config_t \<Rightarrow> bool" where
  "config4_ok c \<longleftrightarrow> global4_ok (global c) \<and> length (subnets c) \<le> MAX_SUBNETS \<and> list_all subnet4_ok (subnets c)"

lemma parse_mac_length: "parse_mac_address v = Inr m \<Longrightarrow> length m = 6"
  by (auto simp: parse_mac_address_def Let_def split: if_splits)

lemma store_keeps: "(\<And>v. P (f v s)) \<Longrightarrow> P s \<Longrightarrow> P (snd (store r f s))"
  by (simp add: store_def split: sum.split)

lemma store_list_keeps: "P (f (snd r) s) \<Longrightarrow> P (snd (store_list r f s))"
  by (simp add: store_list_def)

lemma with_value_keeps: "(\<And>v. P (snd (f v s))) \<Longrightarrow> P s \<Longrightarrow> P (snd (with_value rest f s))"
  by (simp add: with_value_def split: prod.split option.split)

lemma take_lt: "min n 255 < (256 :: nat)"
  by simp

lemma global4_ok_updates [simp]:
  "global4_ok (g\<lparr>g_default_lease_time := x\<rparr>) = global4_ok g" "global4_ok (g\<lparr>g_max_lease_time := x\<rparr>) = global4_ok g"
  "global4_ok (g\<lparr>ddns_update_style := d\<rparr>) = global4_ok g" "global4_ok (g\<lparr>ping_check := b\<rparr>) = global4_ok g"
  "global4_ok (g\<lparr>ping_timeout := x\<rparr>) = global4_ok g" "global4_ok (g\<lparr>g_next_server := x\<rparr>) = global4_ok g"
  "global4_ok (g\<lparr>allow_unknown_clients := b\<rparr>) = global4_ok g" "global4_ok (g\<lparr>allow_bootp := b\<rparr>) = global4_ok g"
  "global4_ok (g\<lparr>update_conflict_detection := b\<rparr>) = global4_ok g" "global4_ok (g\<lparr>g_time_offset := x\<rparr>) = global4_ok g"
  "global4_ok (g\<lparr>g_renewal_time := x\<rparr>) = global4_ok g" "global4_ok (g\<lparr>g_rebinding_time := x\<rparr>) = global4_ok g"
  "global4_ok (g\<lparr>authoritative := b\<rparr>) = global4_ok g"
  by (simp_all add: global4_ok_def)

lemma global4_ok_texts [intro]:
  "global4_ok g \<Longrightarrow> global4_ok (g\<lparr>g_filename := take 255 t\<rparr>)" "global4_ok g \<Longrightarrow> global4_ok (g\<lparr>g_tftp_server_name := take 255 t\<rparr>)"
  "global4_ok g \<Longrightarrow> global4_ok (g\<lparr>g_bootfile_name := take 255 t\<rparr>)"
  "global4_ok g \<Longrightarrow> global4_ok (g\<lparr>g_dns_servers := snd (parse_ip_list v MAX_SERVERS (g_dns_servers g))\<rparr>)"
  "global4_ok g \<Longrightarrow> global4_ok (g\<lparr>g_ntp_servers := snd (parse_ip_list v MAX_SERVERS (g_ntp_servers g))\<rparr>)"
  "global4_ok g \<Longrightarrow> global4_ok (g\<lparr>g_netbios_servers := snd (parse_ip_list v MAX_SERVERS (g_netbios_servers g))\<rparr>)"
  by (auto simp: global4_ok_def take_lt parse_ip_list_length)

lemma subnet4_ok_updates [simp]:
  "subnet4_ok (s\<lparr>router := x\<rparr>) = subnet4_ok s" "subnet4_ok (s\<lparr>broadcast := x\<rparr>) = subnet4_ok s"
  "subnet4_ok (s\<lparr>subnet_mask := x\<rparr>) = subnet4_ok s" "subnet4_ok (s\<lparr>time_offset := x\<rparr>) = subnet4_ok s"
  "subnet4_ok (s\<lparr>renewal_time := x\<rparr>) = subnet4_ok s" "subnet4_ok (s\<lparr>rebinding_time := x\<rparr>) = subnet4_ok s"
  "subnet4_ok (s\<lparr>default_lease_time := x\<rparr>) = subnet4_ok s" "subnet4_ok (s\<lparr>max_lease_time := x\<rparr>) = subnet4_ok s"
  "subnet4_ok (s\<lparr>next_server := x\<rparr>) = subnet4_ok s" "subnet4_ok (s\<lparr>range_start := x\<rparr>) = subnet4_ok s"
  "subnet4_ok (s\<lparr>range_end := x\<rparr>) = subnet4_ok s" "subnet4_ok (s\<lparr>network := x\<rparr>) = subnet4_ok s"
  "subnet4_ok (s\<lparr>netmask := x\<rparr>) = subnet4_ok s"
  by (simp_all add: subnet4_ok_def)

lemma subnet4_ok_texts [intro]:
  "subnet4_ok s \<Longrightarrow> subnet4_ok (s\<lparr>domain_name := take 256 t\<rparr>)" "subnet4_ok s \<Longrightarrow> subnet4_ok (s\<lparr>boot_filename := take 255 t\<rparr>)"
  "subnet4_ok s \<Longrightarrow> subnet4_ok (s\<lparr>tftp_server_name := take 255 t\<rparr>)" "subnet4_ok s \<Longrightarrow> subnet4_ok (s\<lparr>bootfile_name := take 255 t\<rparr>)"
  "subnet4_ok s \<Longrightarrow> subnet4_ok (s\<lparr>dns_servers := snd (parse_ip_list v MAX_SERVERS (dns_servers s))\<rparr>)"
  "subnet4_ok s \<Longrightarrow> subnet4_ok (s\<lparr>ntp_servers := snd (parse_ip_list v MAX_SERVERS (ntp_servers s))\<rparr>)"
  "subnet4_ok s \<Longrightarrow> subnet4_ok (s\<lparr>netbios_servers := snd (parse_ip_list v MAX_SERVERS (netbios_servers s))\<rparr>)"
  by (auto simp: subnet4_ok_def take_lt parse_ip_list_length)

lemmas global_keeps = store_keeps [where P = global4_ok] store_list_keeps [where P = global4_ok]
lemmas subnet_keeps = store_keeps [where P = subnet4_ok] store_list_keeps [where P = subnet4_ok] with_value_keeps [where P = subnet4_ok]

lemma if_keeps: "P (snd x) \<Longrightarrow> P (snd y) \<Longrightarrow> P (snd (if c then x else y))"
  by simp

lemma global_statement_ok: "global4_ok g \<Longrightarrow> global4_ok (snd (global_statement key v g))"
  unfolding global_statement_def
  by (intro if_keeps [where P = global4_ok] global_keeps) (auto simp: allow_option_def)

lemma global_dhcp_option_ok: "global4_ok g \<Longrightarrow> global4_ok (snd (global_dhcp_option key v g))"
  unfolding global_dhcp_option_def
  by (intro if_keeps [where P = global4_ok] global_keeps) auto

lemma parse_global_option4_ok: "global4_ok g \<Longrightarrow> global4_ok (snd (parse_global_option4 line g))"
  unfolding parse_global_option4_def
  by (simp add: global_dhcp_option_ok global_statement_ok split: prod.split option.split)

lemma subnet_dhcp_option_ok: "subnet4_ok s \<Longrightarrow> subnet4_ok (snd (subnet_dhcp_option key v s))"
  unfolding subnet_dhcp_option_def
  by (intro if_keeps [where P = subnet4_ok] subnet_keeps) auto

lemma range_statement_ok: "subnet4_ok s \<Longrightarrow> subnet4_ok (snd (range_statement rest s))"
  unfolding range_statement_def
  by (simp add: with_value_def store_def split: sum.split prod.split option.split)

lemma parse_subnet_option4_ok: "subnet4_ok s \<Longrightarrow> subnet4_ok (snd (parse_subnet_option4 line s))"
  unfolding parse_subnet_option4_def
  by (simp add: subnet_dhcp_option_ok range_statement_ok subnet_keeps subnet4_ok_texts split: prod.split option.split)

lemma host4_ok_updates:
  "host4_ok h \<Longrightarrow> host4_ok (h\<lparr>fixed_address := x\<rparr>)" "host4_ok h \<Longrightarrow> host4_ok (h\<lparr>hostname := take 255 t\<rparr>)"
  "host4_ok h \<Longrightarrow> host4_ok (h\<lparr>host_name := take 255 t\<rparr>)" "host4_ok h \<Longrightarrow> length m = 6 \<Longrightarrow> host4_ok (h\<lparr>host_mac := m\<rparr>)"
  by (simp_all add: host4_ok_def take_lt)

lemma host_mac_ok: "host4_ok h \<Longrightarrow> host4_ok (snd (store (parse_mac_address v) (\<lambda>x. host_mac_update (\<lambda>_. x)) h))"
  by (auto simp: store_def intro: host4_ok_updates(4) parse_mac_length split: sum.split)

lemma host_statement_ok: "host4_ok h \<Longrightarrow> host4_ok (snd (host_statement line h))"
  unfolding host_statement_def
  by (simp add: host4_ok_updates host_mac_ok with_value_keeps [where P = host4_ok] store_keeps [where P = host4_ok]
      split: prod.split option.split)

lemma host_lines4_ok: "host4_ok h \<Longrightarrow> host_lines4 h f = (r, h2, c, rest) \<Longrightarrow> host4_ok h2"
proof (induction h f rule: host_lines4.induct)
  case (1 h f)
  show ?case
  proof (cases "fgets MAX_LINE_LEN f")
    case None
    then show ?thesis using "1.prems" by (simp add: host_lines4.simps [of h f])
  next
    case (Some lr)
    obtain line more where lr: "lr = (line, more)" by (cases lr)
    obtain r2 h3 where st: "host_statement (trim4 line) h = (r2, h3)" by fastforce
    have "host4_ok h3" using host_statement_ok [OF "1.prems"(1), of "trim4 line"] st by simp
    then show ?thesis
      using "1.prems" "1.IH"(1) [OF Some lr [symmetric] refl] "1.IH"(2) [OF Some lr [symmetric] refl _ _ st [symmetric]]
      by (auto simp: host_lines4.simps [of h f] Some lr st Let_def split: if_splits)
  qed
qed

lemma host_zero_ok: "host4_ok host_zero"
  by (simp add: host4_ok_def host_zero_def)

lemma parse_host_block4_ok:
  assumes "subnet4_ok s" and "host4_ok slot"
  shows "subnet4_ok (fst (snd (parse_host_block4 s slot f)))" and "host4_ok (fst (snd (snd (parse_host_block4 s slot f))))"
  using assms host_lines4_ok [OF assms(2), of f] host_zero_ok
  by (auto simp: parse_host_block4_def subnet4_ok_def split: prod.split)

lemma subnet_line_ok:
  assumes "subnet4_ok s" and "host4_ok slot"
  shows "subnet_line s slot trimmed rest = Inr st \<Longrightarrow> subnet4_ok (fst st) \<and> host4_ok (fst (snd st))"
    and "subnet_line s slot trimmed rest = Inl res \<Longrightarrow> subnet4_ok (fst (snd res))"
proof -
  note host = parse_host_block4_ok [OF assms(1) host4_ok_updates(3) [OF assms(2)], of "trim4 x" for x]
  note opt = parse_subnet_option4_ok [OF assms(1), of trimmed]
  show "subnet_line s slot trimmed rest = Inr st \<Longrightarrow> subnet4_ok (fst st) \<and> host4_ok (fst (snd st))"
    using assms host opt by (auto simp: subnet_line_def split: if_splits prod.splits option.splits)
  show "subnet_line s slot trimmed rest = Inl res \<Longrightarrow> subnet4_ok (fst (snd res))"
    using assms opt by (auto simp: subnet_line_def split: if_splits prod.splits option.splits)
qed

lemma subnet_lines_ok:
  assumes "subnet4_ok s" and "host4_ok slot"
  shows "subnet4_ok (fst (snd (subnet_lines s slot f)))"
  by (rule subnet_lines_rule [where I = "\<lambda>st. subnet4_ok (fst st) \<and> host4_ok (fst (snd st))"
        and post = "\<lambda>r. subnet4_ok (fst (snd r))"])
    (simp_all add: assms, (rule subnet_line_ok; simp)+)

lemma global_fallbacks_ok: "global4_ok g \<Longrightarrow> subnet4_ok s \<Longrightarrow> subnet4_ok (global_fallbacks g s)"
  by (simp add: subnet4_ok_def global4_ok_def global_fallbacks_def or_global_def)

lemma subnet_head_ok: "subnet_head line = Some s \<Longrightarrow> subnet4_ok s"
  by (auto simp: subnet_head_def subnet_zero_def subnet4_ok_def split: prod.splits option.splits if_splits sum.splits)

lemma parse_subnet_block_ok:
  assumes "config4_ok c"
  shows "config4_ok (fst (snd (parse_subnet_block c f line)))"
  using assms subnet_lines_ok [OF subnet_head_ok host_zero_ok, of line _ f] global_fallbacks_ok [of "global c"]
  by (auto simp: parse_subnet_block_def config4_ok_def split: option.split prod.split)

lemma config_line_ok: "config4_ok c \<Longrightarrow> config4_ok (fst (config_line4 c trimmed f))"
  using parse_subnet_block_ok [of c f trimmed] parse_global_option4_ok [of "global c" trimmed]
  by (auto simp: config_line4_def config4_ok_def split: prod.split)

lemma config_lines_ok: "config4_ok c \<Longrightarrow> config4_ok (config_lines c f)"
proof (induction c f rule: config_lines.induct)
  case (1 c f)
  show ?case
    using 1 config_line_ok [OF "1.prems"]
    by (subst config_lines.simps) (simp split: option.split prod.split, metis fst_conv)
qed

text \<open>
  C24: Whatever a configuration file contains, the parser ends, and what it stores fits the arrays of the
  configuration: at most 32 subnets, 128 hosts in each and 4 servers of each kind, hardware addresses
  of 6 bytes, and names that are terminated in their buffers of 256 characters, except that a domain
  name may fill its buffer to the last character.
\<close>

theorem parse_config4_bounds: "config4_ok (snd (parse_config_file4 (Some contents) c))"
proof -
  have "config4_ok (config_zero\<lparr>global := (global config_zero)\<lparr>allow_unknown_clients := True, allow_bootp := True\<rparr>\<rparr>)"
    by (simp add: config_zero_def config4_ok_def global4_ok_def)
  then show ?thesis by (simp add: parse_config_file4_def config_lines_ok)
qed

subsection \<open>Errors in a host block\<close>

definition bad_mac_line :: "string \<Rightarrow> string" where
  "bad_mac_line bad = ''hardware-ethernet '' @ bad @ '';''"

definition plain_text :: "string \<Rightarrow> bool" where
  "plain_text s \<longleftrightarrow> tight s \<and> length s < 900 \<and> set s \<inter> {CHR 0x0A, CHR 0x00, CHR '';'', CHR ''}''} = {}"

lemma host_lines_bad_mac:
  assumes "plain_text bad" and "parse_mac_address bad = Inl e"
  shows "host_lines4 h (bad_mac_line bad @ CHR 0x0A # rest) = (-2, h, False, rest)"
proof -
  let ?l = "bad_mac_line bad"
  have bad: "tight bad" "length bad < 900" "set bad \<inter> {CHR 0x0A, CHR 0x00, CHR '';'', CHR ''}''} = {}" "bad \<noteq> []"
    using assms(1) by (auto simp: plain_text_def tight_def)
  have l: "tight ?l" by (simp add: tight_def bad_mac_line_def isspace_def)
  have "fgets 1024 (?l @ CHR 0x0A # rest) = Some (?l @ [CHR 0x0A], rest)"
    by (rule fgets_line) (use bad in \<open>auto simp: bad_mac_line_def\<close>)
  moreover have "host_statement ?l h = (-2, h)"
  proof -
    have "strtok blanks ?l = (Some ''hardware-ethernet'', bad @ '';'')"
      using strtok_front [of "''hardware-ethernet''" blanks "CHR '' ''" "bad @ '';''"] by (simp add: bad_mac_line_def)
    moreover have "strtok '';'' (bad @ '';'') = (Some bad, [])"
      using strtok_front [of bad "'';''" "CHR '';''" "[]"] bad by auto
    ultimately show ?thesis
      using trim4_tight(1) [OF bad(1)] assms(2) by (simp add: host_statement_def with_value_def store_def)
  qed
  moreover have "CHR ''}'' \<notin> set ?l" "\<not> skipped_line ?l" using bad by (auto simp: bad_mac_line_def skipped_line_def)
  ultimately show ?thesis
    using trim4_tight(2) [OF l] by (subst host_lines4.simps) (simp add: Let_def)
qed

text \<open>
  An error in a host block ends the subnet.  After a hardware address that does not parse, the
  closing brace of the host is taken for the brace of the subnet: the subnet is counted without
  what follows in its block, and the rest of the block is read as global statements.
\<close>

lemma host_error_closes_subnet:
  assumes "length (hosts s) < MAX_HOSTS_PER_SUBNET" and "plain_text bad" and "parse_mac_address bad = Inl e"
  shows "subnet_lines s slot (''host pc {'' @ CHR 0x0A # bad_mac_line bad @ CHR 0x0A # ''}'' @ CHR 0x0A # rest) =
    (0, s, True, rest)"
proof -
  let ?f = "bad_mac_line bad @ CHR 0x0A # ''}'' @ CHR 0x0A # rest"
  have one: "fgets 1024 (''host pc {'' @ CHR 0x0A # ?f) = Some (''host pc {'' @ [CHR 0x0A], ?f)"
    by (rule fgets_line) simp_all
  have t1: "trim4 (''host pc {'' @ [CHR 0x0A]) = ''host pc {''" by (rule trim4_tight) (simp add: tight_def isspace_def)
  have "strtok (blanks @ ''{'') '' pc {'' = (Some ''pc'', ''{'')" by code_simp
  moreover have "parse_host_block4 s h ?f = (-2, s, h, ''}'' @ CHR 0x0A # rest)" for h
    using assms(1) host_lines_bad_mac [OF assms(2,3)] by (simp add: parse_host_block4_def)
  ultimately have step: "\<exists>slot2. subnet_line s slot ''host pc {'' ?f = Inr (s, slot2, ''}'' @ CHR 0x0A # rest)"
    using assms(1) by (simp add: subnet_line_def skipped_line_def)
  have two: "fgets 1024 (''}'' @ CHR 0x0A # rest) = Some (''}'' @ [CHR 0x0A], rest)" by (rule fgets_line) simp_all
  have t2: "trim4 (''}'' @ [CHR 0x0A]) = ''}''" by (rule trim4_tight) (simp add: tight_def isspace_def)
  have close: "subnet_lines s slot2 (''}'' @ CHR 0x0A # rest) = (0, s, True, rest)" for slot2
    using two t2 by (subst subnet_lines.simps) (simp add: subnet_line_def skipped_line_def)
  obtain slot2 where "subnet_line s slot ''host pc {'' ?f = Inr (s, slot2, ''}'' @ CHR 0x0A # rest)" using step ..
  then show ?thesis
    using one t1 close [of slot2] by (subst subnet_lines.simps) simp
qed

end
