(* ===== verification/Main_V4.thy ===== *)
theory Main_V4
  imports Server_V4 Lease_Io Thread_Pool Lease_File_V4 Config_Parse_V4
begin

text \<open>
  The life of the DHCPv4 server: \<open>struct dhcp_server_t\<close>, which owns the lease table, the timer and the
  I/O queue (the last section of DHCPv4/src/lease_v4.c), and the start, the receive loop and the end of
  \<open>main\<close> (DHCPv4/src/main.c).  Allocations, thread creation and socket calls succeed or fail as the
  environment says; the lease file is its text.  The pointers of \<open>struct dhcp_server_t\<close> may be null, valid
  or dangling.
\<close>

section \<open>Definitions\<close>

subsection \<open>The unified server\<close>

datatype 'a ptr = Null | Ptr (target: 'a) | Dangling

record dhcp_server_t =
  lease_db :: "lease_database_t ptr"
  timer :: "lease_timer_t ptr"
  io_queue :: "lease_io_queue_t ptr"
  shutdown_requested :: bool
  reload_requested :: bool
  server_mutex :: bool
  mutex_initialized :: bool

definition server_zero :: dhcp_server_t where
  "server_zero = \<lparr>lease_db = Null, timer = Null, io_queue = Null, shutdown_requested = False,
     reload_requested = False, server_mutex = False, mutex_initialized = False\<rparr>"

text \<open>What the calls of the C library return during initialisation and start.\<close>

record start_env =
  db_alloc :: bool
  db_mutex_ok :: bool
  timer_alloc :: bool
  timer_mutex_ok :: bool
  timer_cond_ok :: bool
  io_alloc :: bool
  io_mutex_ok :: bool
  io_cond_ok :: bool
  server_mutex_ok :: bool
  server_cond_ok :: bool
  timer_thread_ok :: bool
  io_thread_ok :: bool

text \<open>\<open>if (p) free(p)\<close> without a reset of \<open>p\<close>.\<close>

fun freed :: "'a ptr \<Rightarrow> 'a ptr" where
  "freed Null = Null"
| "freed _ = Dangling"

definition timer_zero :: lease_timer_t where
  "timer_zero = \<lparr>check_interval_sec = 0, timer_running = False, timer_mutex_initialized = False\<rparr>"

text \<open>The timer and the queue of \<open>dhcp_server_init\<close>: the error branches leave \<open>lease_db\<close> dangling.\<close>

definition init_timer :: "start_env \<Rightarrow> u32 \<Rightarrow> dhcp_server_t \<Rightarrow> int \<times> dhcp_server_t" where
  "init_timer env timer_interval server =
     (if timer_interval > 0 then
        if \<not> timer_alloc env then (-1, server\<lparr>lease_db := Dangling\<rparr>)
        else (case lease_timer_init (timer_mutex_ok env) (timer_cond_ok env) timer_interval timer_zero of (r, t) \<Rightarrow>
          if r \<noteq> 0 then (-1, server\<lparr>timer := Null, lease_db := Dangling\<rparr>)
          else (0, server\<lparr>timer := Ptr t\<rparr>))
      else (0, server))"

definition init_io :: "start_env \<Rightarrow> bool \<Rightarrow> dhcp_server_t \<Rightarrow> int \<times> dhcp_server_t" where
  "init_io env enable_async_io server =
     (if enable_async_io then
        if \<not> io_alloc env then (-1, server\<lparr>timer := freed (timer server), lease_db := Dangling\<rparr>)
        else (case lease_io_init (io_mutex_ok env) (io_cond_ok env) of (r, q) \<Rightarrow>
          if r \<noteq> 0 then (-1, server\<lparr>io_queue := Null, timer := freed (timer server), lease_db := Dangling\<rparr>)
          else (0, server\<lparr>io_queue := Ptr q\<rparr>))
      else (0, server))"

definition init_sync :: "start_env \<Rightarrow> dhcp_server_t \<Rightarrow> int \<times> dhcp_server_t" where
  "init_sync env server =
     (if \<not> server_mutex_ok env \<or> \<not> server_cond_ok env then
        (-1, server\<lparr>io_queue := freed (io_queue server), timer := freed (timer server), lease_db := Dangling\<rparr>)
      else (0, server\<lparr>mutex_initialized := True, shutdown_requested := False, reload_requested := False\<rparr>))"

definition dhcp_server_init :: "start_env \<Rightarrow> mktime \<Rightarrow> string option \<Rightarrow> string option \<Rightarrow> u32 \<Rightarrow> bool \<Rightarrow> dhcp_server_t
    \<Rightarrow> (int \<times> dhcp_server_t) outcome" where
  "dhcp_server_init env mktime contents lease_file timer_interval enable_async_io server0 =
     (case lease_file of
        None \<Rightarrow> Returns (-1, server0)
      | Some path \<Rightarrow>
          if \<not> db_alloc env then Returns (-1, server_zero)
          else (case lease_db_init (db_mutex_ok env) (Some path) db_zero of (r, db) \<Rightarrow>
            if r \<noteq> 0 then Returns (-1, server_zero\<lparr>lease_db := Dangling\<rparr>)
            else and_then (lease_db_load mktime contents db) (\<lambda>(_, db2).
              case init_timer env timer_interval (server_zero\<lparr>lease_db := Ptr db2\<rparr>) of (r1, s1) \<Rightarrow>
                if r1 \<noteq> 0 then Returns (-1, s1)
                else (case init_io env enable_async_io s1 of (r2, s2) \<Rightarrow>
                  if r2 \<noteq> 0 then Returns (-1, s2) else Returns (init_sync env s2)))))"

text \<open>
  \<open>lease_timer_stop\<close> with the join.  The timer thread leaves its loop at the next test of \<open>running\<close>.
\<close>

definition lease_timer_stop :: "lease_timer_t \<Rightarrow> lease_timer_t" where
  "lease_timer_stop t =
     (case lease_timer_stop_begin t of None \<Rightarrow> t | Some t1 \<Rightarrow> t1\<lparr>timer_mutex_initialized := False\<rparr>)"

text \<open>
  \<open>lease_io_stop\<close> with the join: it returns when the shutdown entry found room in the queue
  (\<open>lease_io_stop_returns\<close>), and waits for ever when it did not (\<open>lease_io_stop_full_queue_hangs\<close>).
  The callers free the queue afterwards.
\<close>

definition lease_io_stop :: "time_t \<Rightarrow> lease_io_queue_t \<Rightarrow> unit outcome" where
  "lease_io_stop now q =
     (case lease_io_stop_begin now q of
        None \<Rightarrow> Returns ()
      | Some _ \<Rightarrow> if count q < IO_QUEUE_SIZE then Returns () else Blocks)"

definition start_timer :: "start_env \<Rightarrow> dhcp_server_t \<Rightarrow> (int \<times> dhcp_server_t) outcome" where
  "start_timer env server =
     (case timer server of
        Null \<Rightarrow> Returns (0, server)
      | Dangling \<Rightarrow> Undefined
      | Ptr t \<Rightarrow> (case lease_timer_start (timer_thread_ok env) t of (r, t1) \<Rightarrow> Returns (r, server\<lparr>timer := Ptr t1\<rparr>)))"

definition start_io :: "start_env \<Rightarrow> dhcp_server_t \<Rightarrow> (int \<times> dhcp_server_t) outcome" where
  "start_io env server =
     (case io_queue server of
        Null \<Rightarrow> Returns (0, server)
      | Dangling \<Rightarrow> Undefined
      | Ptr q \<Rightarrow> (case lease_io_start (io_thread_ok env) q of (r, q1) \<Rightarrow>
          if r \<noteq> 0 then
            (case timer server of
               Null \<Rightarrow> Returns (-1, server\<lparr>io_queue := Ptr q1\<rparr>)
             | Dangling \<Rightarrow> Undefined
             | Ptr t \<Rightarrow> Returns (-1, server\<lparr>io_queue := Ptr q1, timer := Ptr (lease_timer_stop t)\<rparr>))
          else Returns (0, server\<lparr>io_queue := Ptr q1\<rparr>)))"

definition dhcp_server_start :: "start_env \<Rightarrow> dhcp_server_t \<Rightarrow> (int \<times> dhcp_server_t) outcome" where
  "dhcp_server_start env server =
     and_then (start_timer env server) (\<lambda>(r, s1).
       if r \<noteq> 0 then Returns (-1, s1) else start_io env s1)"

text \<open>
  The end of the server: the threads are stopped, and the table as it is then is written over the file.
  The result is the file, None where nothing was written.
\<close>

definition stop_timer :: "dhcp_server_t \<Rightarrow> dhcp_server_t outcome" where
  "stop_timer server = (case timer server of
     Null \<Rightarrow> Returns server | Dangling \<Rightarrow> Undefined | Ptr t \<Rightarrow> Returns (server\<lparr>timer := Null\<rparr>))"

definition stop_io :: "time_t \<Rightarrow> dhcp_server_t \<Rightarrow> dhcp_server_t outcome" where
  "stop_io now server = (case io_queue server of
     Null \<Rightarrow> Returns server
   | Dangling \<Rightarrow> Undefined
   | Ptr q \<Rightarrow> and_then (lease_io_stop now q) (\<lambda>_. Returns (server\<lparr>io_queue := Null\<rparr>)))"

definition dhcp_server_stop :: "(time_t \<Rightarrow> tm option) \<Rightarrow> string \<Rightarrow> bool \<Rightarrow> time_t \<Rightarrow> dhcp_server_t
    \<Rightarrow> (dhcp_server_t \<times> string option) outcome" where
  "dhcp_server_stop localtime ctime_text opened now server =
     and_then (stop_timer server) (\<lambda>s1.
     and_then (stop_io now s1) (\<lambda>s2.
       case lease_db s2 of
         Dangling \<Rightarrow> Undefined
       | Null \<Rightarrow> Returns (s2\<lparr>mutex_initialized := False\<rparr>, None)
       | Ptr db \<Rightarrow> Returns (s2\<lparr>lease_db := Null, mutex_initialized := False\<rparr>,
                     snd (lease_db_save localtime ctime_text opened db))))"

datatype signal = SIGINT | SIGTERM | SIGHUP | Other_signal

text \<open>
  The handler runs in a thread that a signal interrupts.  \<open>instance\<close> is \<open>g_server_instance\<close>; locking the
  mutex while the interrupted thread holds it never returns.
\<close>

definition dhcp_server_signal_handler :: "signal \<Rightarrow> dhcp_server_t option \<Rightarrow> dhcp_server_t option outcome" where
  "dhcp_server_signal_handler signum instance_ptr =
     (case instance_ptr of
        None \<Rightarrow> Returns None
      | Some server \<Rightarrow>
          (if signum = SIGINT \<or> signum = SIGTERM then
             if mutex_initialized server \<and> server_mutex server then Blocks
             else Returns (Some (server\<lparr>shutdown_requested := True\<rparr>))
           else if signum = SIGHUP then Returns (Some (server\<lparr>reload_requested := True\<rparr>))
           else Returns (Some server)))"

text \<open>
  \<open>dhcp_server_wait_for_shutdown\<close> from its start, and when the thread wakes up in \<open>pthread_cond_wait\<close>:
  None while it goes on waiting, with the mutex released.
\<close>

definition dhcp_server_wait_for_shutdown :: "dhcp_server_t \<Rightarrow> dhcp_server_t option outcome" where
  "dhcp_server_wait_for_shutdown server =
     (if \<not> mutex_initialized server then Returns (Some server)
      else if server_mutex server then Blocks
      else if \<not> shutdown_requested server then Returns None
      else Returns (Some server))"

definition dhcp_server_check_reload :: "dhcp_server_t \<Rightarrow> bool \<times> dhcp_server_t" where
  "dhcp_server_check_reload server =
     (reload_requested server, if reload_requested server then server\<lparr>reload_requested := False\<rparr> else server)"

subsection \<open>The program\<close>

record server_state =
  m_config :: dhcp_config_t
  m_dhcp :: dhcp_server_t
  m_pools :: "ip_pool_t option list"
  m_syncs :: "ip_pool_sync_t list"
  m_workers :: "thread_pool_t option"
  m_port :: u16

text \<open>What the other calls of \<open>main\<close> return; \<open>interface\<close>: an interface is given as the second argument.\<close>

record main_env = start_env +
  pool_mutex_ok :: "nat \<Rightarrow> bool"
  sync_mutex_ok :: "nat \<Rightarrow> bool"
  sync_cond_ok :: "nat \<Rightarrow> bool"
  sync_thread_ok :: "nat \<Rightarrow> bool"
  workers_alloc :: bool
  workers_sync_ok :: bool
  worker_thread_ok :: "nat \<Rightarrow> bool"
  socket_ok :: bool
  interface :: bool
  bind_device_ok :: bool
  bind_67_ok :: bool
  bind_6767_ok :: bool

text \<open>A pool for every subnet, None where \<open>ip_pool_init\<close> failed, which \<open>main\<close> does not look at.\<close>

fun init_pools :: "(nat \<Rightarrow> bool) \<Rightarrow> time_t \<Rightarrow> nat \<Rightarrow> dhcp_subnet_t list \<Rightarrow> lease_database_t
    \<Rightarrow> ip_pool_t option list \<times> lease_database_t" where
  "init_pools mutex_ok now i [] db = ([], db)"
| "init_pools mutex_ok now i (sub # rest) db =
     (case ip_pool_init (mutex_ok i) now sub (Some db) of
        None \<Rightarrow> (case init_pools mutex_ok now (Suc i) rest db of (ps, db2) \<Rightarrow> (None # ps, db2))
      | Some (p, db1) \<Rightarrow> (case init_pools mutex_ok now (Suc i) rest (the db1) of (ps, db2) \<Rightarrow> (Some p # ps, db2)))"

definition sync_zero :: ip_pool_sync_t where
  "sync_zero = \<lparr>sync_interval_sec = 0, sync_running = False, sync_mutex_initialized = False, sync_count = 0, entries_updated = 0\<rparr>"

definition init_sync_thread :: "main_env \<Rightarrow> nat \<Rightarrow> ip_pool_sync_t" where
  "init_sync_thread env i =
     (case ip_pool_sync_init (sync_mutex_ok env i) (sync_cond_ok env i) 30 sync_zero of (r, sync) \<Rightarrow>
        if r = 0 then snd (ip_pool_sync_start (sync_thread_ok env i) sync) else sync)"

text \<open>The port that the socket is bound to, None where \<open>main\<close> gives up.\<close>

definition bind_socket :: "main_env \<Rightarrow> u16 option" where
  "bind_socket env =
     (if \<not> socket_ok env then None
      else if interface env \<and> \<not> bind_device_ok env then None
      else if bind_67_ok env then Some 67
      else if bind_6767_ok env then Some 6767
      else None)"

text \<open>\<open>main\<close> up to its loop: 1 and what there is of the state, or 0.\<close>

definition main_start :: "main_env \<Rightarrow> mktime \<Rightarrow> time_t \<Rightarrow> string option \<Rightarrow> string option \<Rightarrow> (int \<times> server_state) outcome" where
  "main_start env mktime now config_file lease_file =
     (case parse_config_file4 config_file config_zero of (r, cfg) \<Rightarrow>
        let m0 = \<lparr>m_config = cfg, m_dhcp = server_zero, m_pools = [], m_syncs = [], m_workers = None, m_port = 0\<rparr>
        in if r \<noteq> 0 then Returns (1, m0)
           else and_then (dhcp_server_init (start_env.truncate env) mktime lease_file (Some ''DHCPv4/data/dhcpv4.leases'') 60 True server_zero)
             (\<lambda>(r1, s1).
               if r1 \<noteq> 0 then Returns (1, m0\<lparr>m_dhcp := s1\<rparr>)
               else (case init_pools (pool_mutex_ok env) now 0 (subnets cfg) (target (lease_db s1)) of (ps, db) \<Rightarrow>
                 let m1 = m0\<lparr>m_dhcp := s1\<lparr>lease_db := Ptr db\<rparr>, m_pools := ps, m_syncs := map (init_sync_thread env) [0..<length (subnets cfg)]\<rparr>
                 in and_then (dhcp_server_start (start_env.truncate env) (m_dhcp m1)) (\<lambda>(r2, s2).
                   let m2 = m1\<lparr>m_dhcp := s2\<rparr>
                   in if r2 \<noteq> 0 then Returns (1, m2)
                      else let tpool = thread_pool_create (workers_alloc env) (workers_alloc env) (workers_sync_ok env)
                                         (worker_thread_ok env) 4 1024;
                               m3 = m2\<lparr>m_workers := tpool\<rparr>
                           in if tpool = None then Returns (1, m3)
                              else (case bind_socket env of
                                      None \<Rightarrow> Returns (1, m3)
                                    | Some port \<Rightarrow> Returns (0, m3\<lparr>m_port := port\<rparr>))))))"

text \<open>
  One round of the receive loop: whether it goes on, and the pool of workers.  \<open>task\<close> is the address of the
  received packet and \<open>processor\<close> that of \<open>packet_processor\<close>.
\<close>

datatype recv_event = No_memory | Interrupted | Recv_failed | Received void_ptr

definition main_round :: "thread_func_t \<Rightarrow> bool \<Rightarrow> recv_event \<Rightarrow> thread_pool_t \<Rightarrow> (bool \<times> thread_pool_t) outcome" where
  "main_round processor g_running event tpool =
     (if \<not> g_running then Returns (False, tpool)
      else case event of
        No_memory \<Rightarrow> Returns (True, tpool)
      | Interrupted \<Rightarrow> Returns (True, tpool)
      | Recv_failed \<Rightarrow> Returns (False, tpool)
      | Received task \<Rightarrow> and_then (thread_pool_add processor task tpool) (\<lambda>(_, tpool2). Returns (True, tpool2)))"

text \<open>The end of \<open>main\<close> after \<open>thread_pool_destroy\<close>.\<close>

definition ip_pool_sync_stop :: "ip_pool_sync_t \<Rightarrow> ip_pool_sync_t" where
  "ip_pool_sync_stop sync =
     (if \<not> sync_mutex_initialized sync then sync
      else if \<not> sync_running sync then sync
      else sync\<lparr>sync_running := False, sync_mutex_initialized := False\<rparr>)"

definition main_stop :: "(time_t \<Rightarrow> tm option) \<Rightarrow> string \<Rightarrow> bool \<Rightarrow> time_t \<Rightarrow> server_state \<Rightarrow> (server_state \<times> string option) outcome" where
  "main_stop localtime ctime_text opened now m =
     and_then (dhcp_server_stop localtime ctime_text opened now (m_dhcp m)) (\<lambda>(s, contents).
       Returns (m\<lparr>m_dhcp := s, m_syncs := map ip_pool_sync_stop (m_syncs m), m_pools := map (\<lambda>_. None) (m_pools m)\<rparr>, contents))"

text \<open>The part of the program's state that the handlers of the packets use.\<close>

definition context_of :: "server_state \<Rightarrow> server_context_t" where
  "context_of m = \<lparr>srv_db = target (lease_db (m_dhcp m)), srv_config = m_config m, srv_pool = the (hd (m_pools m))\<rparr>"

section \<open>Lemmas\<close>

subsection \<open>The table that comes back\<close>

lemma renumbered_fields:
  "map ip_address (renumbered n ls) = map ip_address ls" "map mac_address (renumbered n ls) = map mac_address ls"
  "map lease_id (renumbered n ls) = map (\<lambda>i. n + of_nat i) [0..<length ls]"
proof -
  show "map ip_address (renumbered n ls) = map ip_address ls" "map mac_address (renumbered n ls) = map mac_address ls"
    by (induction ls arbitrary: n) (simp_all add: restored_def)
  show "map lease_id (renumbered n ls) = map (\<lambda>i. n + of_nat i) [0..<length ls]"
    by (rule nth_equalityI) (simp_all add: renumbered_nth)
qed

lemma small_ids:
  fixes n :: nat
  assumes "i < n" "n \<le> MAX_LEASES"
  shows "unat (1 + of_nat i :: u64) = Suc i" "(1 + of_nat i :: u64) < 1 + of_nat n" "(0 :: u64) < 1 + of_nat i"
proof -
  have u: "unat (1 + of_nat k :: u64) = Suc k" if "k \<le> MAX_LEASES" for k
  proof -
    have "unat (of_nat (Suc k) :: u64) = Suc k" using that by (simp only: unsigned_of_nat) (simp add: take_bit_nat_eq_self)
    then show ?thesis by simp
  qed
  show "unat (1 + of_nat i :: u64) = Suc i" "(1 + of_nat i :: u64) < 1 + of_nat n" "(0 :: u64) < 1 + of_nat i"
    using u [of i] u [of n] assms by (simp_all add: word_less_nat_alt)
qed

lemma small_next: "k \<le> MAX_LEASES \<Longrightarrow> (0 :: u64) < 1 + of_nat k"
  using small_ids(3) [of k "Suc k"] by (cases "k = MAX_LEASES") auto

lemma renumbered_wf:
  assumes "lease_db_wf db"
  shows "lease_db_wf (d\<lparr>leases := renumbered 1 (leases db), next_lease_id := 1 + of_nat (length (leases db))\<rparr>)"
proof -
  note w = assms [unfolded lease_db_wf_def]
  have "inj_on (\<lambda>i. 1 + of_nat i :: u64) {0..<length (leases db)}"
    using w small_ids(1) by (intro inj_onI) (metis atLeastLessThan_iff nat.inject)
  then have "distinct (map lease_id (renumbered 1 (leases db)))" unfolding renumbered_fields by (simp add: distinct_map)
  moreover have "lease_wf (1 + of_nat (length (leases db))) l" if l: "l \<in> set (renumbered 1 (leases db))" for l
  proof -
    obtain i where i: "i < length (leases db)" "l = renumbered 1 (leases db) ! i"
      using l by (auto simp: in_set_conv_nth)
    then show ?thesis
      using w small_ids [of i "length (leases db)"] by (simp add: lease_wf_def renumbered_nth restored_def)
  qed
  ultimately show ?thesis using w by (simp add: lease_db_wf_def renumbered_fields)
qed

lemma renumbered_owner:
  assumes "leases d = renumbered 1 (leases db)"
  shows "map_option snd (lease_owner d ip) = map_option snd (lease_owner db ip)"
proof (cases "find_idx (\<lambda>l. ip_address l = ip) (leases db)")
  case None
  then show ?thesis by (simp add: lease_owner_def lease_map_def lease_db_find_by_ip_def assms renumbered_addresses)
next
  case (Some i)
  then have "i < length (leases db)" using find_idx_SomeD by blast
  then show ?thesis
    using Some by (simp add: lease_owner_def lease_map_def lease_db_find_by_ip_def assms renumbered_addresses renumbered_nth restored_def)
qed

subsection \<open>The pools of a start\<close>

lemma init_leases_keys: "init_leases now ls p = (ls', p') \<Longrightarrow> map row_key ls' = map row_key ls"
  by (induction ls arbitrary: p ls' p') (auto simp: Let_def split: prod.splits)

lemma ip_pool_init_keys:
  assumes "ip_pool_init ok now sub (Some db) = Some (p, db1)"
  shows "\<exists>ls. db1 = Some (db\<lparr>leases := ls\<rparr>) \<and> map row_key ls = map row_key (leases db)"
  using assms init_leases_keys by (fastforce simp: ip_pool_init_def Let_def split: if_splits prod.splits)

lemma init_pools_keys:
  "init_pools ok now i subs db = (ps, db2) \<Longrightarrow> \<exists>ls. db2 = db\<lparr>leases := ls\<rparr> \<and> map row_key ls = map row_key (leases db)"
proof (induction subs arbitrary: i db ps)
  case Nil
  then show ?case by (auto intro: exI [of _ "leases db"])
next
  case (Cons sub subs)
  show ?case
  proof (cases "ip_pool_init (ok i) now sub (Some db)")
    case None
    then show ?thesis using Cons by (auto split: prod.splits)
  next
    case (Some x)
    obtain p db1 where x: "x = (p, db1)" by (cases x)
    obtain ls where "db1 = Some (db\<lparr>leases := ls\<rparr>)" "map row_key ls = map row_key (leases db)"
      using ip_pool_init_keys Some x by blast
    then show ?thesis using Cons.prems Cons.IH [of "Suc i" "db\<lparr>leases := ls\<rparr>"] Some x by (fastforce split: prod.splits)
  qed
qed

lemma init_hosts_subnet: "subnet (init_hosts hs p) = subnet p"
  by (induction hs p rule: init_hosts.induct) (simp_all add: set_entry_def split: option.split)

lemma init_leases_subnet: "init_leases now ls p = (ls', p') \<Longrightarrow> subnet p' = subnet p"
proof (induction ls arbitrary: p ls' p')
  case (Cons l ls)
  have "subnet (init_lease x p) = subnet p" for x by (simp add: init_lease_def set_entry_def Let_def split: option.split)
  then show ?case using Cons by (auto simp: Let_def split: prod.splits)
qed simp

lemma ip_pool_init_subnet: "ip_pool_init ok now sub (Some db) = Some (p, db1) \<Longrightarrow> subnet p = sub"
  using init_leases_subnet
  by (fastforce simp: ip_pool_init_def Let_def init_range_subnet init_hosts_subnet split: if_splits prod.splits)

lemma init_pools_first:
  assumes "init_pools ok now 0 (sub # subs) db = (ps, db2)" "ok 0"
  shows "\<exists>p db1. ip_pool_init True now sub (Some db) = Some (p, db1) \<and> hd ps = Some p"
  using assms by (auto simp: ip_pool_init_def Let_def split: prod.splits)

subsection \<open>Signals and the receive loop\<close>

text \<open>
  A request to stop ends the wait if it arrives while the mutex is free; the handler that interrupts the thread while
  it holds the mutex never returns.
\<close>

lemma shutdown_signal_ends_wait:
  assumes "\<not> server_mutex server" "sig = SIGINT \<or> sig = SIGTERM" "dhcp_server_signal_handler sig (Some server) = Returns (Some server')"
  shows "dhcp_server_wait_for_shutdown server' = Returns (Some server')"
  using assms by (auto simp: dhcp_server_signal_handler_def dhcp_server_wait_for_shutdown_def)

lemma signal_in_critical_section_blocks:
  "mutex_initialized server \<Longrightarrow> server_mutex server \<Longrightarrow> dhcp_server_signal_handler SIGTERM (Some server) = Blocks"
  by (simp add: dhcp_server_signal_handler_def)

lemma reload_reported_once:
  assumes "dhcp_server_signal_handler SIGHUP (Some server) = Returns (Some s1)" "dhcp_server_check_reload s1 = (b, s2)"
  shows "b \<and> \<not> fst (dhcp_server_check_reload s2)"
  using assms by (auto simp: dhcp_server_signal_handler_def dhcp_server_check_reload_def)

text \<open>A received packet is queued or dropped, and it is dropped only when the queue is full or shut down.\<close>

lemma main_round_packet:
  assumes "main_round processor True (Received task) tpool = Returns (continue, tpool')" "processor \<noteq> 0"
  shows "continue \<and> (if count tpool = queue_size tpool \<or> shutdown tpool \<noteq> 0 then tpool' = tpool
    else tpool' = ring_push (queue_size tpool) \<lparr>task_function = processor, task_argument = task\<rparr> tpool)"
  using assms by (auto simp: main_round_def thread_pool_add_def split: if_splits)

subsection \<open>A restart\<close>

definition env_ok :: "main_env \<Rightarrow> bool" where
  "env_ok env \<longleftrightarrow> db_alloc env \<and> db_mutex_ok env \<and> timer_alloc env \<and> timer_mutex_ok env \<and> timer_cond_ok env \<and>
     io_alloc env \<and> io_mutex_ok env \<and> io_cond_ok env \<and> server_mutex_ok env \<and> server_cond_ok env \<and> timer_thread_ok env \<and>
     io_thread_ok env \<and> pool_mutex_ok env 0 \<and> workers_alloc env \<and> workers_sync_ok env \<and> list_all (worker_thread_ok env) [0..<4] \<and>
     bind_socket env \<noteq> None"

lemma truncate_fields [simp]:
  "db_alloc (start_env.truncate env) = db_alloc env" "db_mutex_ok (start_env.truncate env) = db_mutex_ok env"
  "timer_alloc (start_env.truncate env) = timer_alloc env" "timer_mutex_ok (start_env.truncate env) = timer_mutex_ok env"
  "timer_cond_ok (start_env.truncate env) = timer_cond_ok env" "io_alloc (start_env.truncate env) = io_alloc env"
  "io_mutex_ok (start_env.truncate env) = io_mutex_ok env" "io_cond_ok (start_env.truncate env) = io_cond_ok env"
  "server_mutex_ok (start_env.truncate env) = server_mutex_ok env" "server_cond_ok (start_env.truncate env) = server_cond_ok env"
  "timer_thread_ok (start_env.truncate env) = timer_thread_ok env" "io_thread_ok (start_env.truncate env) = io_thread_ok env"
  by (simp_all add: start_env.truncate_def)

lemma init_succeeds:
  assumes "env_ok env" "lease_db_load mktime contents ((db_zero\<lparr>filename := take 255 path, next_lease_id := 1, db_mutex_initialized := True\<rparr>)) = Returns (r, db)"
  shows "\<exists>s. dhcp_server_init (start_env.truncate env) mktime contents (Some path) 60 True server_zero = Returns (0, s) \<and> lease_db s = Ptr db
    \<and> timer s = Ptr \<lparr>check_interval_sec = 60, timer_running = False, timer_mutex_initialized = True\<rparr>
    \<and> io_queue s = Ptr (snd (lease_io_init True True))"
  using assms
  by (simp add: dhcp_server_init_def env_ok_def lease_db_init_def Let_def init_timer_def init_io_def init_sync_def lease_timer_init_def lease_io_init_def)

lemma start_succeeds:
  assumes "env_ok env" "timer s = Ptr \<lparr>check_interval_sec = 60, timer_running = False, timer_mutex_initialized = True\<rparr>"
    "io_queue s = Ptr (snd (lease_io_init True True))"
  shows "\<exists>s2. dhcp_server_start (start_env.truncate env) s = Returns (0, s2) \<and> lease_db s2 = lease_db s"
  using assms
  by (simp add: dhcp_server_start_def start_timer_def start_io_def env_ok_def lease_timer_start_def lease_io_start_def lease_io_init_def Let_def)

lemma main_start_succeeds:
  assumes "env_ok env" and "parse_config_file4 config_file config_zero = (0, cfg)"
    and "lease_db_load mktime contents (db_zero\<lparr>filename := take 255 ''DHCPv4/data/dhcpv4.leases'', next_lease_id := 1, db_mutex_initialized := True\<rparr>) = Returns (r, db)"
  shows "\<exists>m db2 ps. main_start env mktime now config_file contents = Returns (0, m) \<and> m_config m = cfg \<and>
    init_pools (pool_mutex_ok env) now 0 (subnets cfg) db = (ps, db2) \<and> m_pools m = ps \<and> lease_db (m_dhcp m) = Ptr db2"
proof -
  obtain s where s: "dhcp_server_init (start_env.truncate env) mktime contents (Some ''DHCPv4/data/dhcpv4.leases'') 60 True server_zero = Returns (0, s)"
    "lease_db s = Ptr db" "timer s = Ptr \<lparr>check_interval_sec = 60, timer_running = False, timer_mutex_initialized = True\<rparr>"
    "io_queue s = Ptr (snd (lease_io_init True True))"
    using init_succeeds [OF assms(1,3)] by blast
  obtain ps db2 where p: "init_pools (pool_mutex_ok env) now 0 (subnets cfg) db = (ps, db2)" by fastforce
  obtain s2 where s2: "dhcp_server_start (start_env.truncate env) (s\<lparr>lease_db := Ptr db2\<rparr>) = Returns (0, s2)" "lease_db s2 = Ptr db2"
    using start_succeeds [OF assms(1), of "s\<lparr>lease_db := Ptr db2\<rparr>"] s by auto
  have w: "thread_pool_create (workers_alloc env) (workers_alloc env) (workers_sync_ok env) (worker_thread_ok env) 4 1024 \<noteq> None"
    using assms(1) by (simp add: thread_pool_create_def env_ok_def)
  obtain port where "bind_socket env = Some port" using assms(1) by (auto simp: env_ok_def)
  then show ?thesis
    unfolding main_start_def by (simp add: assms(2) s p s2 w Let_def)
qed

lemma main_stop_saves:
  assumes "lease_db (m_dhcp m) = Ptr db" "timer (m_dhcp m) \<noteq> Dangling" "io_queue (m_dhcp m) = Ptr q" "count q < IO_QUEUE_SIZE"
  shows "\<exists>m'. main_stop localtime ctime_text True now m = Returns (m', snd (lease_db_save localtime ctime_text True db)) \<and>
    lease_db (m_dhcp m') = Null \<and> timer (m_dhcp m') = Null \<and> io_queue (m_dhcp m') = Null"
proof -
  have "lease_io_stop now q = Returns ()" using assms(4) by (simp add: lease_io_stop_def split: option.split)
  then show ?thesis
    using assms by (cases "timer (m_dhcp m)") (simp_all add: main_stop_def dhcp_server_stop_def stop_timer_def stop_io_def)
qed

lemma main_start_inv:
  assumes "env_ok env" "parse_config_file4 config_file config_zero = (0, cfg)" "subnets cfg = sub # rest"
    and "distinct (map fixed_address (hosts sub))" "\<forall>h \<in> set (hosts sub). \<not> excluded sub (fixed_address h)"
    and load: "lease_db_load mktime contents (db_zero\<lparr>filename := take 255 ''DHCPv4/data/dhcpv4.leases'', next_lease_id := 1,
      db_mutex_initialized := True\<rparr>) = Returns (r, db)"
    and db: "lease_db_wf db" "0 < next_lease_id db" "\<not> db_mutex db" "\<forall>l \<in> set (leases db). \<not> excluded sub (ip_address l)"
  shows "\<exists>m. main_start env mktime now config_file contents = Returns (0, m) \<and> server_inv (context_of m) \<and>
    subnet (srv_pool (context_of m)) = sub \<and> (\<forall>ip. lease_owner (srv_db (context_of m)) ip = lease_owner db ip)"
proof -
  obtain m db2 ps where m: "main_start env mktime now config_file contents = Returns (0, m)"
    "init_pools (pool_mutex_ok env) now 0 (sub # rest) db = (ps, db2)" "m_pools m = ps" "lease_db (m_dhcp m) = Ptr db2"
    using main_start_succeeds [of env config_file cfg mktime contents r db now] assms by auto
  obtain ls where ls: "db2 = db\<lparr>leases := ls\<rparr>" "map row_key ls = map row_key (leases db)"
    using init_pools_keys [OF m(2)] by blast
  have keys: "lease_db_wf db2 = lease_db_wf db" "lease_owner db2 ip = lease_owner db ip" for ip
    using same_keys [of db2 db] ls by simp_all
  obtain p db1 where p: "ip_pool_init True now sub (Some db) = Some (p, db1)" "hd ps = Some p"
    using init_pools_first [OF m(2)] assms(1) by (auto simp: env_ok_def)
  have "pool_inv p" using ip_pool_init_inv [OF p(1) assms(4,5)] db by (simp add: lease_db_wf_def)
  then have "server_inv (context_of m)"
    using keys db m p ls(1) by (simp add: server_inv_def context_of_def)
  then show ?thesis using m keys(2) ip_pool_init_subnet [OF p(1)] p(2) by (auto simp: context_of_def)
qed

lemma restart_owners:
  assumes "server_inv (context_of m)" and "lease_db (m_dhcp m) = Ptr db"
    and "timer (m_dhcp m) \<noteq> Dangling" "io_queue (m_dhcp m) = Ptr q" "count q < IO_QUEUE_SIZE"
    and "list_all (storable localtime mktime) (leases db)" "ctime_ok ctime_text" "env_ok env"
    and "parse_config_file4 config_file config_zero = (0, cfg)" "subnets cfg = sub # rest"
    and "distinct (map fixed_address (hosts sub))" "\<forall>h \<in> set (hosts sub). \<not> excluded sub (fixed_address h)"
    and "\<forall>l \<in> set (leases db). \<not> excluded sub (ip_address l)"
  shows "\<exists>m' contents m2. main_stop localtime ctime_text True now m = Returns (m', Some contents) \<and>
    main_start env mktime now2 config_file (Some contents) = Returns (0, m2) \<and> server_inv (context_of m2) \<and>
    subnet (srv_pool (context_of m2)) = sub \<and>
    (\<forall>ip. map_option snd (lease_owner (srv_db (context_of m2)) ip) = map_option snd (lease_owner db ip))"
proof -
  let ?d = "db_zero\<lparr>filename := take 255 ''DHCPv4/data/dhcpv4.leases'', next_lease_id := 1, db_mutex_initialized := True\<rparr>"
  let ?l = "?d\<lparr>leases := renumbered 1 (leases db), next_lease_id := 1 + of_nat (length (leases db))\<rparr>"
  have wf: "lease_db_wf db" using assms(1,2) by (simp add: server_inv_def context_of_def)
  then have len: "length (leases db) \<le> MAX_LEASES" by (simp add: lease_db_wf_def)
  obtain contents where f: "snd (lease_db_save localtime ctime_text True db) = Some contents" by (simp add: lease_db_save_def)
  have load: "lease_db_load mktime (Some contents) ?d = Returns (0, ?l)"
    using load_saved [of localtime mktime "leases db" ctime_text ?d] assms(6,7) len f by (simp add: lease_db_save_def)
  have "list_all (\<lambda>a. \<not> excluded sub a) (map ip_address (renumbered 1 (leases db)))"
    using assms(13) by (simp only: renumbered_fields) (simp add: list_all_iff)
  then have ex: "\<forall>l \<in> set (leases ?l). \<not> excluded sub (ip_address l)" by (simp add: list_all_iff)
  have n: "0 < next_lease_id ?l" "\<not> db_mutex ?l" using small_next [OF len] by (simp_all add: db_zero_def)
  obtain m2 where "main_start env mktime now2 config_file (Some contents) = Returns (0, m2)" "server_inv (context_of m2)"
    "subnet (srv_pool (context_of m2)) = sub"
    "\<forall>ip. lease_owner (srv_db (context_of m2)) ip = lease_owner ?l ip"
    using main_start_inv [of env config_file cfg sub rest mktime "Some contents" 0 ?l now2] assms(8-12) load renumbered_wf [OF wf, of ?d] n ex
    by blast
  moreover have "map_option snd (lease_owner ?l ip) = map_option snd (lease_owner db ip)" for ip
    by (rule renumbered_owner) simp
  ultimately show ?thesis
    using main_stop_saves [of m db q localtime ctime_text now] assms(2-5) f by auto
qed

text \<open>After a failed initialisation the pointer to the freed table is still set: a stop uses it again.\<close>

definition broken :: "dhcp_server_t \<Rightarrow> bool" where
  "broken s \<longleftrightarrow> lease_db s = Dangling \<and> (\<forall>t. timer s \<noteq> Ptr t) \<and> (\<forall>q. io_queue s \<noteq> Ptr q)"

lemma freed_not_Ptr [simp]: "freed p \<noteq> Ptr x"
  by (cases p) simp_all

lemma init_parts_broken:
  "init_timer env n s = (r, s1) \<Longrightarrow> r \<noteq> 0 \<Longrightarrow> timer s = Null \<Longrightarrow> io_queue s = Null \<Longrightarrow> broken s1"
  "init_timer env n s = (r, s1) \<Longrightarrow> io_queue s1 = io_queue s"
  "init_io env b s = (r, s1) \<Longrightarrow> r \<noteq> 0 \<Longrightarrow> io_queue s = Null \<Longrightarrow> broken s1"
  "init_sync env s = (r, s1) \<Longrightarrow> r \<noteq> 0 \<Longrightarrow> broken s1"
  by (auto simp: init_timer_def init_io_def init_sync_def broken_def split: if_splits prod.splits)

lemma failed_init_dangles:
  assumes "dhcp_server_init env mktime contents (Some path) interval async s0 = Returns (-1, s)" "db_alloc env"
  shows "dhcp_server_stop localtime ctime_text opened now s = Undefined"
proof -
  obtain r db where db: "lease_db_init (db_mutex_ok env) (Some path) db_zero = (r, db)" by fastforce
  have "broken s"
  proof (cases "r = 0")
    case False
    then show ?thesis using assms db by (auto simp: dhcp_server_init_def broken_def server_zero_def)
  next
    case True
    then obtain x db2 where l: "lease_db_load mktime contents db = Returns (x, db2)"
      using assms db by (auto simp: dhcp_server_init_def and_then_Returns)
    obtain r1 s1 r2 s2 where i: "init_timer env interval (server_zero\<lparr>lease_db := Ptr db2\<rparr>) = (r1, s1)" "init_io env async s1 = (r2, s2)"
      by fastforce
    have "io_queue s1 = Null" using init_parts_broken(2) [OF i(1)] by (simp add: server_zero_def)
    then show ?thesis
      using assms db True l i init_parts_broken(1) [OF i(1)] init_parts_broken(3) [OF i(2)] init_parts_broken(4) [of env s2 "-1" s]
      by (auto simp: dhcp_server_init_def server_zero_def split: if_splits)
  qed
  then show ?thesis
    by (cases "timer s"; cases "io_queue s") (simp_all add: broken_def dhcp_server_stop_def stop_timer_def stop_io_def)
qed

section \<open>Properties\<close>

text \<open>
  C4: a clean stop and a start in a working environment lose no client.  The server that runs with the
  invariant, with room in the I/O queue and with leases whose names and times can be stored, stops and
  writes its file, starts again from it with a configuration whose first subnet excludes none of its leases
  or reservations, has the invariant again, and every address belongs to the client it belonged to before.
\<close>

theorem restart_keeps_clients:
  assumes "server_inv (context_of m)" and "lease_db (m_dhcp m) = Ptr db"
    and "timer (m_dhcp m) \<noteq> Dangling" "io_queue (m_dhcp m) = Ptr q" "count q < IO_QUEUE_SIZE"
    and "list_all (storable localtime mktime) (leases db)" "ctime_ok ctime_text" "env_ok env"
    and "parse_config_file4 config_file config_zero = (0, cfg)" "subnets cfg = sub # rest"
    and "distinct (map fixed_address (hosts sub))" "\<forall>h \<in> set (hosts sub). \<not> excluded sub (fixed_address h)"
    and "\<forall>l \<in> set (leases db). \<not> excluded sub (ip_address l)"
  shows "\<exists>m' contents m2. main_stop localtime ctime_text True now m = Returns (m', Some contents) \<and>
    main_start env mktime now2 config_file (Some contents) = Returns (0, m2) \<and> server_inv (context_of m2) \<and>
    (\<forall>ip. map_option snd (lease_owner (srv_db (context_of m2)) ip) = map_option snd (lease_owner db ip))"
  using restart_owners [OF assms, of now now2] by blast

definition sample_text :: string where
  "sample_text = text_of [''subnet 10.0.0.0 netmask 255.255.255.0 {'', ''range 10.0.0.1 10.0.0.3;'', ''}'']"

lemma sample_config:
  "map (\<lambda>s. (network s, netmask s, router s, hosts s)) (subnets (snd (parse_config_file4 (Some sample_text) config_zero))) = [(10, 0x00FFFFFF, 0, [])]"
  by code_simp

definition sample_db :: lease_database_t where
  "sample_db = db_zero\<lparr>leases := [file_lease], next_lease_id := 8\<rparr>"

definition sample_state :: server_state where
  "sample_state = \<lparr>m_config = config_zero, m_dhcp = server_zero\<lparr>lease_db := Ptr sample_db, io_queue := Ptr (snd (lease_io_init True True))\<rparr>,
     m_pools = [Some \<lparr>subnet = subnet_zero, entries = [], allocated_count = 0, available_count = 0, mutex = False\<rparr>],
     m_syncs = [], m_workers = None, m_port = 67\<rparr>"

definition sample_env :: main_env where
  "sample_env = \<lparr>db_alloc = True, db_mutex_ok = True, timer_alloc = True, timer_mutex_ok = True, timer_cond_ok = True, io_alloc = True,
     io_mutex_ok = True, io_cond_ok = True, server_mutex_ok = True, server_cond_ok = True, timer_thread_ok = True, io_thread_ok = True,
     pool_mutex_ok = (\<lambda>_. True), sync_mutex_ok = (\<lambda>_. True), sync_cond_ok = (\<lambda>_. True), sync_thread_ok = (\<lambda>_. True),
     workers_alloc = True, workers_sync_ok = True, worker_thread_ok = (\<lambda>_. True), socket_ok = True, interface = False,
     bind_device_ok = True, bind_67_ok = False, bind_6767_ok = True\<rparr>"

lemma sample_facts:
  "server_inv (context_of sample_state)" "lease_db (m_dhcp sample_state) = Ptr sample_db" "timer (m_dhcp sample_state) \<noteq> Dangling"
  "io_queue (m_dhcp sample_state) = Ptr (snd (lease_io_init True True))" "count (snd (lease_io_init True True)) < IO_QUEUE_SIZE"
  "list_all (storable (\<lambda>t. Some file_tm) (\<lambda>f. 1729953000)) (leases sample_db)" "ctime_ok ''Sat Oct 26 14:30:00 2024''" "env_ok sample_env"
  "map_option snd (lease_owner sample_db 16777226) = Some [2, 0, 0, 0, 0, 1]"
proof -
  have "lease_db_wf sample_db"
    by (simp add: sample_db_def lease_db_wf_def lease_wf_def file_lease_def new_lease_def)
  then show "server_inv (context_of sample_state)"
    by (simp add: server_inv_def context_of_def sample_state_def pool_wf_def pool_counts_def count_if_def sample_db_def db_zero_def)
  show "lease_db (m_dhcp sample_state) = Ptr sample_db" "timer (m_dhcp sample_state) \<noteq> Dangling"
    "io_queue (m_dhcp sample_state) = Ptr (snd (lease_io_init True True))" "count (snd (lease_io_init True True)) < IO_QUEUE_SIZE"
    by (simp_all add: sample_state_def server_zero_def lease_io_init_def)
  show "list_all (storable (\<lambda>t. Some file_tm) (\<lambda>f. 1729953000)) (leases sample_db)" "ctime_ok ''Sat Oct 26 14:30:00 2024''"
    using file_lease_storable by (simp_all add: sample_db_def ctime_ok_def)
  show "env_ok sample_env" by (simp add: env_ok_def sample_env_def bind_socket_def list_all_iff)
  show "map_option snd (lease_owner sample_db 16777226) = Some [2, 0, 0, 0, 0, 1]"
    by (simp add: lease_owner_def lease_map_def lease_db_find_by_ip_def sample_db_def file_lease_def new_lease_def)
qed

lemma sample_subnets:
  obtains cfg sub where "parse_config_file4 (Some sample_text) config_zero = (0, cfg)" "subnets cfg = [sub]"
    "distinct (map fixed_address (hosts sub))" "\<forall>h \<in> set (hosts sub). \<not> excluded sub (fixed_address h)"
    "\<forall>l \<in> set (leases sample_db). \<not> excluded sub (ip_address l)"
proof -
  let ?cfg = "snd (parse_config_file4 (Some sample_text) config_zero)"
  obtain sub where sub: "subnets ?cfg = [sub]" "network sub = 10" "netmask sub = 0x00FFFFFF" "router sub = 0" "hosts sub = []"
    using sample_config by auto
  have "\<not> excluded sub 16777226"
    unfolding excluded_def ip_is_network_address_def ip_is_broadcast_address_def ip_is_gateway_def sub by code_simp
  then have "\<forall>l \<in> set (leases sample_db). \<not> excluded sub (ip_address l)"
    by (simp add: sample_db_def file_lease_def new_lease_def)
  then show ?thesis using that [of ?cfg sub] sub by (simp add: parse_config_file4_def)
qed

theorem restart_keeps_clients_witness:
  "\<exists>m' contents m2. main_stop (\<lambda>t. Some file_tm) ''Sat Oct 26 14:30:00 2024'' True 0 sample_state = Returns (m', Some contents) \<and>
    main_start sample_env (\<lambda>f. 1729953000) 0 (Some sample_text) (Some contents) = Returns (0, m2) \<and> server_inv (context_of m2) \<and>
    map_option snd (lease_owner (srv_db (context_of m2)) 16777226) = Some [2, 0, 0, 0, 0, 1]"
proof -
  obtain cfg sub where "parse_config_file4 (Some sample_text) config_zero = (0, cfg)" "subnets cfg = [sub]"
    "distinct (map fixed_address (hosts sub))" "\<forall>h \<in> set (hosts sub). \<not> excluded sub (fixed_address h)"
    "\<forall>l \<in> set (leases sample_db). \<not> excluded sub (ip_address l)"
    using sample_subnets by blast
  note s = restart_keeps_clients [OF sample_facts(1-8) this, of 0 0]
  show ?thesis using s sample_facts(9) by metis
qed

end
