(* ===== verification/Client_V4.thy ===== *)
theory Client_V4
  imports Server_V4 Utils_V4
begin

text \<open>
  The DHCPv4 client (client/client_v4.c): its reader and writer of options, the packets it builds, the
  arguments and the state machine of its main loop.  One round of the loop is a function of the packet
  buffer as \<open>recvfrom\<close> leaves it, None after a timeout; results of \<open>sendto\<close> and of the commands that configure the
  interface do not influence the loop.
\<close>

section \<open>Definitions\<close>

subsection \<open>Options\<close>

text \<open>
  The loop that \<open>get_dhcp_message_type\<close> and \<open>get_dhcp_requested_ip\<close> share: the offset of the data of the
  first option with the code and the length that they look for.
\<close>

function client_find :: "u8 list \<Rightarrow> u8 \<Rightarrow> u8 \<Rightarrow> nat \<Rightarrow> nat option outcome" where
  "client_find opts wanted wanted_len offset =
     (if offset < OPTIONS_SIZE then
        if opts ! offset = DHCP_OPT_END then Returns None
        else if opts ! offset = DHCP_OPT_PAD then client_find opts wanted wanted_len (offset + 1)
        else if offset + 1 \<ge> OPTIONS_SIZE then Undefined
        else if opts ! offset = wanted \<and> opts ! (offset + 1) = wanted_len then Returns (Some (offset + 2))
        else client_find opts wanted wanted_len (offset + 2 + unat (opts ! (offset + 1)))
      else Returns None)"
  by pat_completeness auto
termination
  by (relation "measure (\<lambda>(_, _, _, offset). OPTIONS_SIZE - offset)") auto

declare client_find.simps [simp del]

definition get_dhcp_message_type :: "dhcp_packet \<Rightarrow> u8 outcome" where
  "get_dhcp_message_type packet =
     (if ntohl (le_word32 (take 4 (options packet))) \<noteq> DHCP_MAGIC_COOKIE then Returns 0
      else and_then (client_find (options packet) DHCP_OPT_MESSAGE_TYPE 1 4) (\<lambda>r. case r of
        None \<Rightarrow> Returns 0
      | Some off \<Rightarrow> and_then (opt_bytes packet off 1) (\<lambda>b. Returns (hd b))))"

text \<open>The address that is read is that of the server, and \<open>ip\<close> is what the variable held before.\<close>

definition get_dhcp_requested_ip :: "dhcp_packet \<Rightarrow> in_addr \<Rightarrow> (int \<times> in_addr) outcome" where
  "get_dhcp_requested_ip packet ip =
     (if ntohl (le_word32 (take 4 (options packet))) \<noteq> DHCP_MAGIC_COOKIE then Returns (-1, ip)
      else and_then (client_find (options packet) DHCP_OPT_SERVER_ID 4 4) (\<lambda>r. case r of
        None \<Rightarrow> Returns (-1, ip)
      | Some off \<Rightarrow> and_then (opt_bytes packet off 4) (\<lambda>b. Returns (0, le_word32 b))))"

definition add_dhcp_option :: "dhcp_packet \<Rightarrow> u8 \<Rightarrow> u8 \<Rightarrow> u8 list \<Rightarrow> int \<times> dhcp_packet" where
  "add_dhcp_option packet option_code len data =
     (let offset = opt_end (options packet) 4 in
      if offset + 2 + unat len + 1 > OPTIONS_SIZE then (-1, packet)
      else (0, packet\<lparr>options := write_at offset (option_code # len # take (unat len) data @ [DHCP_OPT_END]) (options packet)\<rparr>))"

subsection \<open>Packets\<close>

abbreviation "BOOTREQUEST \<equiv> (1 :: u8)"

text \<open>What the three builders have in common: the header, the cookie and the end mark.\<close>

definition client_packet :: "u32 \<Rightarrow> mac \<Rightarrow> dhcp_packet" where
  "client_packet x m =
     (let p = packet_zero\<lparr>op := BOOTREQUEST, htype := HTYPE_ETHER, hlen := 6, xid := htonl x, chaddr := write_at 0 m (replicate 16 0)\<rparr>
      in p\<lparr>options := (write_at 0 (le_bytes32 (htonl DHCP_MAGIC_COOKIE)) (options p))[4 := DHCP_OPT_END]\<rparr>)"

definition build_discover :: "u32 \<Rightarrow> mac \<Rightarrow> dhcp_packet" where
  "build_discover x m = snd (add_dhcp_option (client_packet x m) DHCP_OPT_MESSAGE_TYPE 1 [DHCP_DISCOVER])"

definition build_request :: "u32 \<Rightarrow> mac \<Rightarrow> in_addr \<Rightarrow> in_addr \<Rightarrow> dhcp_packet" where
  "build_request x m requested_ip server_id =
     (let p1 = snd (add_dhcp_option (client_packet x m) DHCP_OPT_MESSAGE_TYPE 1 [DHCP_REQUEST]);
          p2 = snd (add_dhcp_option p1 DHCP_OPT_REQUESTED_IP 4 (le_bytes32 requested_ip))
      in snd (add_dhcp_option p2 DHCP_OPT_SERVER_ID 4 (le_bytes32 server_id)))"

definition build_renew :: "u32 \<Rightarrow> mac \<Rightarrow> in_addr \<Rightarrow> dhcp_packet" where
  "build_renew x m current_ip =
     snd (add_dhcp_option ((client_packet x m)\<lparr>ciaddr := current_ip\<rparr>) DHCP_OPT_MESSAGE_TYPE 1 [DHCP_REQUEST])"

subsection \<open>Arguments\<close>

record client_args =
  arg_ifname :: "string option"
  arg_server :: "string option"
  arg_mac :: "string option"
  arg_server_port :: int
  arg_client_port :: int

definition atoi :: "string \<Rightarrow> int" where
  "atoi s = signed_take_bit 31 (strtol s)"

text \<open>The words behind the name of the program.  An option without a word behind it is taken as the interface.\<close>

fun parse_args :: "string list \<Rightarrow> client_args \<Rightarrow> client_args" where
  "parse_args [] a = a"
| "parse_args (w # v # rest) a =
     (if w = ''-s'' then parse_args rest (a\<lparr>arg_server := Some v\<rparr>)
      else if w = ''-p'' then parse_args rest (a\<lparr>arg_server_port := atoi v\<rparr>)
      else if w = ''-m'' then parse_args rest (a\<lparr>arg_mac := Some v\<rparr>)
      else if w = ''-c'' then parse_args rest (a\<lparr>arg_client_port := atoi v\<rparr>)
      else parse_args (v # rest) (if arg_ifname a = None then a\<lparr>arg_ifname := Some w\<rparr> else a))"
| "parse_args [w] a = (if arg_ifname a = None then a\<lparr>arg_ifname := Some w\<rparr> else a)"

definition default_args :: client_args where
  "default_args = \<lparr>arg_ifname = None, arg_server = None, arg_mac = None, arg_server_port = 67, arg_client_port = 68\<rparr>"

text \<open>The port the client listens on; \<open>can_bind\<close> says for which ports \<open>bind\<close> succeeds.\<close>

definition client_bind :: "(int \<Rightarrow> bool) \<Rightarrow> int \<Rightarrow> int option" where
  "client_bind can_bind client_port =
     (if can_bind (client_port mod 65536) then Some client_port
      else let fallback_port = 6800 + (if client_port < 0 then - (- client_port mod 100) else client_port mod 100)
           in if can_bind (fallback_port mod 65536) then Some fallback_port else None)"

text \<open>
  The set-up of \<open>main\<close>: the hardware address and the destination, or None where the program gives up.
  \<open>ifindex\<close> is the index of the interface and \<open>if_mac\<close> its address.
\<close>

definition client_mac_of :: "mac option \<Rightarrow> client_args \<Rightarrow> mac option" where
  "client_mac_of if_mac a =
     (case arg_mac a of
        Some custom_mac \<Rightarrow>
          (let vs = scan_mac 6 custom_mac in if length vs \<noteq> 6 then None else Some (map word_of_int vs))
      | None \<Rightarrow> if_mac)"

definition dest_addr :: "client_args \<Rightarrow> in_addr option" where
  "dest_addr a = (case arg_server a of None \<Rightarrow> Some INADDR_BROADCAST | Some s \<Rightarrow> map_option le_word32 (inet_pton4 s))"

subsection \<open>The state machine\<close>

datatype client_state_v4 = STATE_V4_INIT | STATE_V4_SELECTING | STATE_V4_REQUESTING | STATE_V4_BOUND | STATE_V4_RENEWING
  | STATE_V4_REBINDING

record client_v4 =
  cl_state :: client_state_v4
  cl_xid :: u32
  cl_mac :: mac
  cl_tx :: dhcp_packet
  cl_offered :: in_addr
  cl_server_id :: in_addr
  cl_assigned :: in_addr

text \<open>Each state of the loop: the packet that is sent, if one is, and the client afterwards.\<close>

definition selecting_round :: "dhcp_packet option \<Rightarrow> client_v4 \<Rightarrow> (dhcp_packet option \<times> client_v4) outcome" where
  "selecting_round rx c = (case rx of
     None \<Rightarrow> Returns (None, c\<lparr>cl_state := STATE_V4_INIT\<rparr>)
   | Some p \<Rightarrow> and_then (get_dhcp_message_type p) (\<lambda>msg_type.
       if msg_type = DHCP_OFFER \<and> ntohl (xid p) = cl_xid c then
         and_then (get_dhcp_requested_ip p (cl_server_id c)) (\<lambda>(_, sid).
           let x = cl_xid c + 1; r = build_request x (cl_mac c) (yiaddr p) sid
           in Returns (Some r, c\<lparr>cl_state := STATE_V4_REQUESTING, cl_xid := x, cl_tx := r, cl_offered := yiaddr p,
                cl_server_id := sid\<rparr>))
       else Returns (None, c)))"

definition requesting_round :: "dhcp_packet option \<Rightarrow> client_v4 \<Rightarrow> (dhcp_packet option \<times> client_v4) outcome" where
  "requesting_round rx c = (case rx of
     None \<Rightarrow> Returns (Some (cl_tx c), c)
   | Some p \<Rightarrow> and_then (get_dhcp_message_type p) (\<lambda>msg_type.
       if msg_type = DHCP_ACK \<and> ntohl (xid p) = cl_xid c
       then Returns (None, c\<lparr>cl_state := STATE_V4_BOUND, cl_assigned := yiaddr p\<rparr>)
       else if msg_type = DHCP_NAK then Returns (None, c\<lparr>cl_state := STATE_V4_INIT, cl_xid := cl_xid c + 1\<rparr>)
       else Returns (None, c)))"

definition renewing_round :: "dhcp_packet option \<Rightarrow> client_v4 \<Rightarrow> (dhcp_packet option \<times> client_v4) outcome" where
  "renewing_round rx c =
     (let t = build_renew (cl_xid c) (cl_mac c) (cl_assigned c); c1 = c\<lparr>cl_tx := t\<rparr>
      in case rx of
        None \<Rightarrow> Returns (Some t, c1)
      | Some p \<Rightarrow> and_then (get_dhcp_message_type p) (\<lambda>msg_type.
          if msg_type = DHCP_ACK \<and> ntohl (xid p) = cl_xid c
          then Returns (Some t, c1\<lparr>cl_state := STATE_V4_BOUND, cl_xid := cl_xid c + 1\<rparr>)
          else if msg_type = DHCP_NAK then Returns (Some t, c1\<lparr>cl_state := STATE_V4_INIT, cl_xid := cl_xid c + 1\<rparr>)
          else Returns (Some t, c1)))"

definition client_round :: "dhcp_packet option \<Rightarrow> client_v4 \<Rightarrow> (dhcp_packet option \<times> client_v4) outcome" where
  "client_round rx c = (case cl_state c of
     STATE_V4_INIT \<Rightarrow>
       (let d = build_discover (cl_xid c) (cl_mac c) in Returns (Some d, c\<lparr>cl_state := STATE_V4_SELECTING, cl_tx := d\<rparr>))
   | STATE_V4_SELECTING \<Rightarrow> selecting_round rx c
   | STATE_V4_REQUESTING \<Rightarrow> requesting_round rx c
   | STATE_V4_BOUND \<Rightarrow> Returns (None, c\<lparr>cl_state := STATE_V4_RENEWING, cl_xid := cl_xid c + 1\<rparr>)
   | STATE_V4_RENEWING \<Rightarrow> renewing_round rx c
   | STATE_V4_REBINDING \<Rightarrow> Returns (None, c))"

section \<open>Lemmas\<close>

subsection \<open>Reading options\<close>

lemma client_find_encoded:
  "list_all option_ok os \<Longrightarrow> length pre + length (enc_options os) < OPTIONS_SIZE \<Longrightarrow>
   code \<noteq> DHCP_OPT_PAD \<Longrightarrow> code \<noteq> DHCP_OPT_END \<Longrightarrow> n < 256 \<Longrightarrow>
   (case map_of os code of
      None \<Rightarrow> client_find (pre @ enc_options os @ DHCP_OPT_END # rest) code (of_nat n) (length pre) = Returns None
    | Some d \<Rightarrow> length d = n \<longrightarrow> (\<exists>off. client_find (pre @ enc_options os @ DHCP_OPT_END # rest) code (of_nat n) (length pre) =
          Returns (Some off) \<and> off + n \<le> length pre + length (enc_options os)
        \<and> take n (drop off (pre @ enc_options os @ DHCP_OPT_END # rest)) = d))"
proof (induction os arbitrary: pre)
  case Nil
  then show ?case by (subst client_find.simps) (simp add: nth_append)
next
  case (Cons x os)
  let ?pre = "pre @ fst x # of_nat (length (snd x)) # snd x"
  let ?opts = "pre @ enc_options (x # os) @ DHCP_OPT_END # rest"
  have x: "fst x \<noteq> DHCP_OPT_PAD" "fst x \<noteq> DHCP_OPT_END" "length (snd x) < 256"
    using Cons.prems(1) by (simp_all add: option_ok_def)
  show ?case
  proof (cases "fst x = code")
    case True
    show ?thesis
    proof (cases "length (snd x) = n")
      case len: True
      have "client_find ?opts code (of_nat n) (length pre) = Returns (Some (length pre + 2))"
        using Cons.prems(2) x True len by (subst client_find.simps) (simp add: nth_append)
      then show ?thesis using True x len by (cases x) simp
    qed (use True in \<open>cases x; simp\<close>)
  next
    case False
    have "client_find ?opts code (of_nat n) (length pre) = client_find ?opts code (of_nat n) (length pre + 2 + length (snd x))"
      using Cons.prems(2) x False by (subst client_find.simps) (simp add: nth_append unat_of_nat_u8)
    also have "\<dots> = client_find (?pre @ enc_options os @ DHCP_OPT_END # rest) code (of_nat n) (length ?pre)" by simp
    finally have step: "client_find ?opts code (of_nat n) (length pre) =
      client_find (?pre @ enc_options os @ DHCP_OPT_END # rest) code (of_nat n) (length ?pre)" .
    have os: "map_of (x # os) code = map_of os code" using False by (cases x) simp
    show ?thesis
      using Cons.IH [of ?pre] Cons.prems
      unfolding os step by (auto simp: add.assoc split: option.splits)
  qed
qed

lemma client_find_option:
  assumes "has_options p os" "code \<noteq> DHCP_OPT_PAD" "code \<noteq> DHCP_OPT_END" "n < 256"
  shows "map_of os code = None \<Longrightarrow> client_find (options p) code (of_nat n) 4 = Returns None"
    and "map_of os code = Some d \<Longrightarrow> length d = n \<Longrightarrow>
      \<exists>off. client_find (options p) code (of_nat n) 4 = Returns (Some off) \<and> opt_bytes p off n = Returns d"
proof -
  obtain rest where o: "options p = le_bytes32 (htonl DHCP_MAGIC_COOKIE) @ enc_options os @ DHCP_OPT_END # rest"
    and ok: "list_all option_ok os" using assms(1) by (auto simp: has_options_def)
  note f = client_find_encoded [OF ok, of "le_bytes32 (htonl DHCP_MAGIC_COOKIE)" code n rest, OF _ assms(2-4), folded o]
  have len: "4 + length (enc_options os) < OPTIONS_SIZE" using has_options_length [OF assms(1)] .
  show "map_of os code = None \<Longrightarrow> client_find (options p) code (of_nat n) 4 = Returns None"
    using f len by simp
  assume "map_of os code = Some d" "length d = n"
  then show "\<exists>off. client_find (options p) code (of_nat n) 4 = Returns (Some off) \<and> opt_bytes p off n = Returns d"
    using f len by (fastforce simp: opt_bytes_def)
qed

lemma client_reads_type:
  assumes "has_options p os"
  shows "map_of os DHCP_OPT_MESSAGE_TYPE = Some [ty] \<Longrightarrow> get_dhcp_message_type p = Returns ty"
    and "map_of os DHCP_OPT_MESSAGE_TYPE = None \<Longrightarrow> get_dhcp_message_type p = Returns 0"
  using client_find_option [OF assms, of DHCP_OPT_MESSAGE_TYPE 1] has_options_cookie [OF assms]
  by (fastforce simp: get_dhcp_message_type_def)+

lemma client_reads_server:
  assumes "has_options p os" "map_of os DHCP_OPT_SERVER_ID = Some (le_bytes32 sid)"
  shows "get_dhcp_requested_ip p ip = Returns (0, sid)"
  using client_find_option(2) [OF assms(1), of DHCP_OPT_SERVER_ID 4, OF _ _ _ assms(2)] has_options_cookie [OF assms(1)]
  by (fastforce simp: get_dhcp_requested_ip_def)

subsection \<open>The packets of the client\<close>

lemma add_dhcp_option_eq: "add_dhcp_option = dhcp_message_add_option"
  by (intro ext) (simp add: add_dhcp_option_def dhcp_message_add_option_def)

lemma client_packet_eq: "length m = 6 \<Longrightarrow> client_packet x m = dhcp_message_init BOOTREQUEST (htonl x) (Some m)"
  by (simp add: client_packet_def dhcp_message_init_def Let_def)

lemma client_packet_options: "has_options (client_packet x m) []"
  using init_has_options [of BOOTREQUEST "htonl x" "Some [0, 0, 0, 0, 0, 0]"]
  by (simp add: client_packet_def dhcp_message_init_def Let_def has_options_def)

lemma add_options_list:
  assumes "has_options_len p os n" "n + 13 \<le> 308"
  shows "has_options_len (snd (add_dhcp_option p DHCP_OPT_MESSAGE_TYPE 1 [ty])) (os @ [(DHCP_OPT_MESSAGE_TYPE, [ty])]) (n + 1 + 2)"
    and "has_options_len (snd (add_dhcp_option p DHCP_OPT_REQUESTED_IP 4 (le_bytes32 a))) (os @ [(DHCP_OPT_REQUESTED_IP, le_bytes32 a)]) (n + 4 + 2)"
    and "has_options_len (snd (add_dhcp_option p DHCP_OPT_SERVER_ID 4 (le_bytes32 a))) (os @ [(DHCP_OPT_SERVER_ID, le_bytes32 a)]) (n + 4 + 2)"
  unfolding add_dhcp_option_eq
  subgoal by (rule add_option_step [OF assms(1)]) (use assms(2) in simp_all)
  subgoal by (rule add_option_step [OF assms(1)]) (use assms(2) in simp_all)
  subgoal by (rule add_option_step [OF assms(1)]) (use assms(2) in simp_all)
  done

lemma build_options:
  shows "has_options (build_discover x m) [(DHCP_OPT_MESSAGE_TYPE, [DHCP_DISCOVER])]"
    and "has_options (build_renew x m ip) [(DHCP_OPT_MESSAGE_TYPE, [DHCP_REQUEST])]"
    and "has_options (build_request x m ip sid)
      [(DHCP_OPT_MESSAGE_TYPE, [DHCP_REQUEST]), (DHCP_OPT_REQUESTED_IP, le_bytes32 ip), (DHCP_OPT_SERVER_ID, le_bytes32 sid)]"
proof -
  have z: "has_options_len (client_packet x m) [] 0" "has_options_len ((client_packet x m)\<lparr>ciaddr := ip\<rparr>) [] 0"
    using client_packet_options [of x m] by (simp_all add: has_options_len_def has_options_def)
  show "has_options (build_discover x m) [(DHCP_OPT_MESSAGE_TYPE, [DHCP_DISCOVER])]"
    using add_options_list(1) [OF z(1), of DHCP_DISCOVER] by (simp add: build_discover_def has_options_len_def)
  show "has_options (build_renew x m ip) [(DHCP_OPT_MESSAGE_TYPE, [DHCP_REQUEST])]"
    using add_options_list(1) [OF z(2), of DHCP_REQUEST] by (simp add: build_renew_def has_options_len_def)
  note a = add_options_list(1) [OF z(1), of DHCP_REQUEST, simplified]
  note b = add_options_list(2) [OF a, of ip, simplified]
  show "has_options (build_request x m ip sid)
      [(DHCP_OPT_MESSAGE_TYPE, [DHCP_REQUEST]), (DHCP_OPT_REQUESTED_IP, le_bytes32 ip), (DHCP_OPT_SERVER_ID, le_bytes32 sid)]"
    using add_options_list(3) [OF b, of sid] by (simp add: build_request_def has_options_len_def Let_def)
qed

lemma add_option_ciaddr: "ciaddr (snd (dhcp_message_add_option p c l d)) = ciaddr p"
  by (simp add: dhcp_message_add_option_def Let_def)

lemma build_fields:
  assumes "length m = 6"
  shows "xid (build_discover x m) = htonl x" "client_mac (build_discover x m) = m" "length (chaddr (build_discover x m)) = 16"
    "xid (build_request x m ip sid) = htonl x" "client_mac (build_request x m ip sid) = m" "length (chaddr (build_request x m ip sid)) = 16"
    "xid (build_renew x m ip) = htonl x" "ciaddr (build_renew x m ip) = ip" "client_mac (build_renew x m ip) = m"
  using assms
  by (simp_all add: build_discover_def build_request_def build_renew_def client_packet_def Let_def client_mac_def write_at_def packet_zero_def
      add_dhcp_option_eq option_simps add_option_ciaddr)

lemma build_no_relay: "length m = 6 \<Longrightarrow> giaddr (build_discover x m) = 0"
  by (simp add: build_discover_def client_packet_def Let_def packet_zero_def add_dhcp_option_def)

text \<open>The task that the server makes of a packet of the client.\<close>

definition task_of :: "sockaddr_in \<Rightarrow> dhcp_packet \<Rightarrow> packet_task_t" where
  "task_of a p = \<lparr>task_packet = p, task_len = 548, client_addr = a\<rparr>"

lemma task_of_discover: "length m = 6 \<Longrightarrow> discover_task (task_of a (build_discover x m)) m"
  using build_options(1) [of x m] build_fields [of m x] by (fastforce simp: discover_task_def task_of_def)

lemma task_of_request: "length m = 6 \<Longrightarrow> selecting_task (task_of a (build_request x m ip sid)) m ip"
  using build_options(3) [of x m ip sid] build_fields [of m x] by (fastforce simp: selecting_task_def task_of_def)

subsection \<open>Set-up\<close>

lemma client_bind_port: "client_bind can_bind port = Some p \<Longrightarrow> can_bind (p mod 65536)"
  by (auto simp: client_bind_def Let_def split: if_splits)

lemma dest_addr_default: "arg_server a = None \<Longrightarrow> dest_addr a = Some INADDR_BROADCAST"
  by (simp add: dest_addr_def)

text \<open>A custom hardware address that was printed by \<open>mac_text\<close> is taken as it is.\<close>

lemma client_mac_custom: "length m = 6 \<Longrightarrow> arg_mac a = Some (mac_text m) \<Longrightarrow> client_mac_of if_mac a = Some m"
  using parse_mac_text [of m] by (simp add: client_mac_of_def parse_mac_address_def Let_def split: if_splits)

lemma parse_args_interface: "parse_args [w, ''-p'', v] default_args = default_args\<lparr>arg_ifname := Some w, arg_server_port := atoi v\<rparr>"
  if "w \<notin> {''-s'', ''-p'', ''-m'', ''-c''}"
  using that by (simp add: default_args_def)

subsection \<open>Rounds of the client\<close>

lemma ntohl_htonl: "ntohl (htonl x) = x"
  by simp

lemma offer_options:
  "length (dns_servers sub) \<le> 4 \<Longrightarrow> has_options (dhcp_message_make_offer req l sub) (lease_options DHCP_OFFER l sub)"
  using add_lease_options_eq init_has_options by (simp add: dhcp_message_make_offer_def Let_def)

lemma lease_options_found:
  "map_of (lease_options ty l sub) DHCP_OPT_MESSAGE_TYPE = Some [ty]"
  "map_of (lease_options ty l sub) DHCP_OPT_SERVER_ID = Some (le_bytes32 (router sub))"
  by (simp_all add: lease_options_def)

lemma selecting_offer:
  fixes l :: dhcp_lease_t
  assumes "cl_state c = STATE_V4_SELECTING" "length (dns_servers sub) \<le> 4" "xid req = htonl (cl_xid c)"
  defines "r \<equiv> build_request (cl_xid c + 1) (cl_mac c) (ip_address l) (router sub)"
  shows "client_round (Some (dhcp_message_make_offer req l sub)) c = Returns (Some r,
    c\<lparr>cl_state := STATE_V4_REQUESTING, cl_xid := cl_xid c + 1, cl_tx := r, cl_offered := ip_address l, cl_server_id := router sub\<rparr>)"
proof -
  let ?o = "dhcp_message_make_offer req l sub"
  note o = offer_options [OF assms(2), of req l]
  have "get_dhcp_message_type ?o = Returns DHCP_OFFER" "get_dhcp_requested_ip ?o (cl_server_id c) = Returns (0, router sub)"
    using client_reads_type(1) [OF o] client_reads_server [OF o] lease_options_found by simp_all
  moreover have "xid ?o = htonl (cl_xid c)" "yiaddr ?o = ip_address l"
    using assms(3) by (simp_all add: dhcp_message_make_offer_def Let_def option_simps)
  ultimately show ?thesis
    using assms(1) unfolding r_def by (simp add: client_round_def selecting_round_def Let_def)
qed

lemma ack_read:
  assumes "length (dns_servers sub) \<le> 4"
  shows "get_dhcp_message_type (dhcp_message_make_ack req l sub) = Returns DHCP_ACK"
    "xid (dhcp_message_make_ack req l sub) = xid req" "yiaddr (dhcp_message_make_ack req l sub) = ip_address l"
  using client_reads_type(1) [OF make_ack_options [OF assms, of req l]] lease_options_found
  by (simp_all add: dhcp_message_make_ack_def Let_def option_simps)

lemma requesting_ack:
  assumes "cl_state c = STATE_V4_REQUESTING" "length (dns_servers sub) \<le> 4" "xid req = htonl (cl_xid c)"
  shows "client_round (Some (dhcp_message_make_ack req l sub)) c =
    Returns (None, c\<lparr>cl_state := STATE_V4_BOUND, cl_assigned := ip_address l\<rparr>)"
  using assms ack_read [OF assms(2), of req l] by (simp add: client_round_def requesting_round_def)

section \<open>Properties\<close>

text \<open>
  C3: the client and the server complete the exchange.  A client in its first state and a server that
  does not know it and has a free address: the DISCOVER of the client is answered with an OFFER, the
  client answers with a REQUEST, the server with an ACK, and then the client is bound to the address for
  which the server has an active lease of this client.
\<close>

theorem handshake_binds:
  assumes "server_inv srv" "cl_state c = STATE_V4_INIT" "length (cl_mac c) = 6"
    and "lease_db_find_by_mac (srv_db srv) (cl_mac c) = None"
    and "host_of (srv_pool srv) (cl_mac c) = None" "own_entry (srv_pool srv) (cl_mac c) = None"
    and "alloc_candidate (srv_pool srv) 0 = Some i" "entry_ip (entries (srv_pool srv) ! i) = ip"
    and "\<not> answers ping (srv_config srv) ip" "lease_db_find_by_ip (srv_db srv) ip = None"
    and "length (leases (srv_db srv)) < MAX_LEASES" "next_lease_id (srv_db srv) + 1 \<noteq> 0"
    and "length (dns_servers (subnet (srv_pool srv))) \<le> 4"
  shows "\<exists>d c1 offer dest1 srv1 r c2 ack dest2 srv2 c3 l.
    client_round None c = Returns (Some d, c1) \<and> packet_processor ping ta (task_of a d) srv = Returns (Some (offer, dest1), srv1) \<and>
    client_round (Some offer) c1 = Returns (Some r, c2) \<and> packet_processor ping tb (task_of a r) srv1 = Returns (Some (ack, dest2), srv2) \<and>
    client_round (Some ack) c2 = Returns (None, c3) \<and> cl_state c3 = STATE_V4_BOUND \<and> cl_assigned c3 = ip \<and>
    lease_map (srv_db srv2) ip = Some l \<and> mac_address l = cl_mac c \<and> lease_state l = LEASE_STATE_ACTIVE \<and> server_inv srv2"
proof -
  let ?m = "cl_mac c" and ?sub = "subnet (srv_pool srv)"
  define d where "d = build_discover (cl_xid c) ?m"
  define c1 where "c1 = c\<lparr>cl_state := STATE_V4_SELECTING, cl_tx := d\<rparr>"
  define r where "r = build_request (cl_xid c + 1) ?m ip (router ?sub)"
  have r: "client_round None c = Returns (Some d, c1)"
    using assms(2) by (simp add: client_round_def d_def c1_def Let_def)
  obtain offer srv1 ack srv2 l1 l where
    s: "packet_processor ping ta (task_of a d) srv = Returns (Some (offer, offer_dest (task_of a d)), srv1)"
      "offer = dhcp_message_make_offer d l1 ?sub" "ip_address l1 = ip"
      "packet_processor ping tb (task_of a r) srv1 = Returns (Some (ack, ack_dest (task_of a r)), srv2)"
      "ack = dhcp_message_make_ack r l ?sub" "yiaddr ack = ip"
      "lease_map (srv_db srv2) ip = Some l" "mac_address l = ?m" "lease_state l = LEASE_STATE_ACTIVE" "server_inv srv2"
    using discover_then_request [of srv "task_of a d" ?m i ip ping "task_of a r" ta tb] assms
      task_of_discover [OF assms(3), of a "cl_xid c"] task_of_request [OF assms(3), of a "cl_xid c + 1" ip "router ?sub"]
    by (auto simp: d_def [symmetric] r_def [symmetric] task_of_def)
  define c2 where "c2 = c1\<lparr>cl_state := STATE_V4_REQUESTING, cl_xid := cl_xid c + 1, cl_tx := r, cl_offered := ip, cl_server_id := router ?sub\<rparr>"
  have c2: "client_round (Some offer) c1 = Returns (Some r, c2)"
    using selecting_offer [of c1 ?sub d l1] assms(13) build_fields(1) [OF assms(3)] s(2,3) by (simp add: c1_def c2_def d_def r_def)
  have "client_round (Some ack) c2 = Returns (None, c2\<lparr>cl_state := STATE_V4_BOUND, cl_assigned := ip_address l\<rparr>)"
    unfolding s(5) by (rule requesting_ack) (use assms(13) build_fields(4) [OF assms(3)] in \<open>simp_all add: c2_def r_def\<close>)
  moreover have "ip_address l = ip" using s(5,6) ack_read(3) [OF assms(13)] by simp
  ultimately show ?thesis using r s(1,4,7-10) c2 by fastforce
qed

definition new_client :: client_v4 where
  "new_client = \<lparr>cl_state = STATE_V4_INIT, cl_xid = 77, cl_mac = mac_a, cl_tx = packet_zero, cl_offered = 0, cl_server_id = 0, cl_assigned = 0\<rparr>"

definition any_addr :: sockaddr_in where
  "any_addr = \<lparr>sin_addr = 0, sin_port = 0\<rparr>"

theorem handshake_binds_witness:
  "\<exists>d c1 offer dest1 srv1 r c2 ack dest2 srv2 c3 l.
    client_round None new_client = Returns (Some d, c1) \<and>
    packet_processor (\<lambda>_ _. False) 100 (task_of any_addr d) small_server = Returns (Some (offer, dest1), srv1) \<and>
    client_round (Some offer) c1 = Returns (Some r, c2) \<and>
    packet_processor (\<lambda>_ _. False) 101 (task_of any_addr r) srv1 = Returns (Some (ack, dest2), srv2) \<and>
    client_round (Some ack) c2 = Returns (None, c3) \<and> cl_state c3 = STATE_V4_BOUND \<and> cl_assigned c3 = 0x0200000A \<and>
    lease_map (srv_db srv2) 0x0200000A = Some l \<and> mac_address l = cl_mac new_client \<and> lease_state l = LEASE_STATE_ACTIVE \<and> server_inv srv2"
  by (rule handshake_binds [OF small_server_inv, where i = 1])
    (simp_all add: new_client_def mac_a_def small_server_def small_ip_pool_def small_subnet_def db_example_def db_zero_def
        lease_db_init_def lease_db_find_by_mac_def lease_db_find_by_ip_def host_of_def own_entry_def alloc_candidate_def answers_def)

text \<open>
  What comes of a renewal.  If the server has a lease for the address it extends it and the client is
  bound again with the same address; if it has none, after a restart without the file for instance, it
  sends nothing at all, no negative answer either, and after the timeout the client is in the same state
  with the same address and transaction identifier, so that its next round sends the same packet.
\<close>

lemma renewal_outcome:
  assumes "server_inv srv" "cl_state c = STATE_V4_RENEWING" "length (cl_mac c) = 6" "cl_assigned c \<noteq> 0"
    and "length (dns_servers (subnet (srv_pool srv))) \<le> 4"
  defines "t \<equiv> build_renew (cl_xid c) (cl_mac c) (cl_assigned c)"
  shows "case lease_map (srv_db srv) (cl_assigned c) of
      Some l \<Rightarrow> \<exists>ack dest srv1 c1. packet_processor ping now (task_of a t) srv = Returns (Some (ack, dest), srv1) \<and>
        client_round (Some ack) c = Returns (Some t, c1) \<and> cl_state c1 = STATE_V4_BOUND \<and> cl_assigned c1 = cl_assigned c \<and>
        lease_map (srv_db srv1) (cl_assigned c) = Some (renewed_lease now (default_lease_time (subnet (srv_pool srv))) l)
    | None \<Rightarrow> packet_processor ping now (task_of a t) srv = Returns (None, srv) \<and>
        client_round None c = Returns (Some t, c\<lparr>cl_tx := t\<rparr>)"
proof -
  let ?ip = "cl_assigned c"
  have "ciaddr_task (task_of a t) DHCP_REQUEST ?ip"
    using build_options(2) [of "cl_xid c" "cl_mac c" ?ip] build_fields(8) [OF assms(3)] assms(4)
    by (fastforce simp: ciaddr_task_def task_of_def t_def)
  note p = ciaddr_processed [OF this]
  have tp: "task_packet (task_of a t) = t" "ciaddr t = ?ip" "xid t = htonl (cl_xid c)"
    using build_fields(7,8) [OF assms(3)] by (simp_all add: task_of_def t_def)
  show ?thesis
  proof (cases "lease_map (srv_db srv) ?ip")
    case None
    then have "lease_db_find_by_ip (srv_db srv) ?ip = None" by (simp add: lease_map_def)
    then show ?thesis
      using None p tp assms(2,4)
      by (simp add: packet_processor_def handle_request_def client_round_def renewing_round_def t_def [symmetric] Let_def)
  next
    case (Some l)
    let ?t = "default_lease_time (subnet (srv_pool srv))" and ?sub = "subnet (srv_pool srv)"
    obtain i where i: "lease_db_find_by_ip (srv_db srv) ?ip = Some i" "l = leases (srv_db srv) ! i"
      using Some by (auto simp: lease_map_def)
    have ipi: "ip_address l = ?ip" "i < length (leases (srv_db srv))" using by_ip.find_first [OF i(1)] i(2) by auto
    have "packet_processor ping now (task_of a t) srv = Returns
        (Some (dhcp_message_make_ack t (renewed_lease now ?t l) ?sub, renew_dest (task_of a t)),
         srv\<lparr>srv_db := db_exec now (Renew ?ip ?t) (srv_db srv)\<rparr>)"
      using i p tp ipi assms(4) by (simp add: packet_processor_def handle_request_def Let_def lease_db_renew_lease_def)
    moreover have "client_round (Some (dhcp_message_make_ack t (renewed_lease now ?t l) ?sub)) c =
        Returns (Some t, c\<lparr>cl_tx := t, cl_state := STATE_V4_BOUND, cl_xid := cl_xid c + 1\<rparr>)"
      using ack_read [OF assms(5), of t "renewed_lease now ?t l"] tp(3) assms(2)
      by (simp add: client_round_def renewing_round_def Let_def t_def [symmetric])
    moreover have "lease_map (db_exec now (Renew ?ip ?t) (srv_db srv)) ?ip = Some (renewed_lease now ?t l)"
      using assms(1) Some by (intro renew_lease_map) (simp_all add: server_inv_def)
    ultimately show ?thesis using Some by (simp del: db_exec.simps)
  qed
qed

text \<open>
  On packets with well-formed options the two readers of the message type agree: the loop of the
  client that also tests the length, and the look-up of the server through
  \<open>dhcp_message_get_option\<close>.
\<close>

lemma type_readers_agree:
  assumes "has_options p os" "map_of os DHCP_OPT_MESSAGE_TYPE = None \<or> map_of os DHCP_OPT_MESSAGE_TYPE = Some [ty]"
  shows "get_dhcp_message_type p = dhcp_message_get_type p"
  using assms(2)
proof
  assume "map_of os DHCP_OPT_MESSAGE_TYPE = Some [ty]"
  then show ?thesis using client_reads_type(1) [OF assms(1)] get_type_found [OF assms(1)] by simp
next
  assume "map_of os DHCP_OPT_MESSAGE_TYPE = None"
  then show ?thesis
    using client_reads_type(2) [OF assms(1)] opt_data_found [OF assms(1), of DHCP_OPT_MESSAGE_TYPE]
    by (auto simp: dhcp_message_get_type_def opt_data_def and_then_Returns split: option.splits)
qed

text \<open>A negative answer to any other client, with any transaction number, restarts a client that waits for its own.\<close>

lemma any_nak_restarts:
  assumes "cl_state c = STATE_V4_REQUESTING" "xid req \<noteq> htonl (cl_xid c)"
  shows "client_round (Some (dhcp_message_make_nak req sid)) c = Returns (None, c\<lparr>cl_state := STATE_V4_INIT, cl_xid := cl_xid c + 1\<rparr>)"
  using client_reads_type(1) [OF make_nak_options [of req sid]] assms
  by (simp add: client_round_def requesting_round_def)

end
