(* ===== verification/Utils_V6.thy ===== *)
theory Utils_V6
  imports C_Text
begin

text \<open>
  The helpers of the DHCPv6 server (sources/utilsv6.c, and \<open>increment_prefix\<close> of sources/pd_pool.c and
  \<open>duid_hex_to_bin\<close> of sources/leases6.c): arithmetic on 16 byte addresses, conversion of client
  identifiers between bytes and text, the clean-up of configuration lines and the encoding of domain
  names.  A \<open>struct in6_addr\<close> is the list of its 16 bytes; its value is the number they denote.
\<close>

named_theorems addr_simps \<open>the number denoted by an IPv6 address\<close>

section \<open>Definitions\<close>

subsection \<open>Addresses\<close>

type_synonym in6_addr = "u8 list"

text \<open>The sign of \<open>memcmp\<close> on blocks of the same size.\<close>

fun memcmp :: "u8 list \<Rightarrow> u8 list \<Rightarrow> int" where
  "memcmp (a # as) (b # bs) = (if a = b then memcmp as bs else if a < b then -1 else 1)"
| "memcmp _ _ = 0"

definition ipv6_compare :: "in6_addr \<Rightarrow> in6_addr \<Rightarrow> int" where
  "ipv6_compare addr1 addr2 = memcmp addr1 addr2"

definition ipv6_in_subnet :: "in6_addr \<Rightarrow> in6_addr \<Rightarrow> u8 \<Rightarrow> bool" where
  "ipv6_in_subnet ip subnet prefix_len =
     (if prefix_len > 128 then False
      else let full_bytes = unat prefix_len div 8; remaining_bits = unat prefix_len mod 8 in
        if full_bytes > 0 \<and> memcmp (take full_bytes ip) (take full_bytes subnet) \<noteq> 0 then False
        else if remaining_bits \<noteq> 0 then
          let msk = push_bit (8 - remaining_bits) (0xFF :: u8) in
          (ip ! full_bytes) AND msk = (subnet ! full_bytes) AND msk
        else True)"

definition is_valid_ipv6 :: "string \<Rightarrow> bool" where
  "is_valid_ipv6 ip_str \<longleftrightarrow> inet_pton6 ip_str \<noteq> None"

text \<open>The return value and the address, which a failing call leaves as it is.\<close>

definition ipv6_str_to_bin :: "string \<Rightarrow> in6_addr \<Rightarrow> bool \<times> in6_addr" where
  "ipv6_str_to_bin ip_str addr =
     (case inet_pton6 ip_str of None \<Rightarrow> (False, addr) | Some a \<Rightarrow> (True, a))"

text \<open>The loop from byte \<open>i - 1\<close> down to byte 0.\<close>

fun increment_from :: "nat \<Rightarrow> in6_addr \<Rightarrow> bool \<times> in6_addr" where
  "increment_from 0 ip = (False, ip)"
| "increment_from (Suc i) ip =
     (if ip ! i \<noteq> 0xFF then (True, ip[i := ip ! i + 1]) else increment_from i (ip[i := 0]))"

definition ipv6_increment :: "in6_addr \<Rightarrow> bool \<times> in6_addr" where
  "ipv6_increment ip = increment_from 16 ip"

fun add_carry_from :: "nat \<Rightarrow> u16 \<Rightarrow> in6_addr \<Rightarrow> in6_addr" where
  "add_carry_from 0 add ip = ip"
| "add_carry_from (Suc i) add ip =
     (let val = ucast (ip ! i) + add; ip' = ip[i := ucast (val AND 0xFF)]; add' = drop_bit 8 val
      in if add' = 0 then ip' else add_carry_from i add' ip')"

definition increment_prefix :: "in6_addr \<Rightarrow> u8 \<Rightarrow> in6_addr" where
  "increment_prefix ip plen =
     (if plen = 0 \<or> plen > 128 then ip
      else let byte_idx = (unat plen - 1) div 8; bit_in_byte = 7 - (unat plen - 1) mod 8
        in add_carry_from (Suc byte_idx) (push_bit bit_in_byte 1) ip)"

text \<open>The number that a sequence of bytes in network order denotes.\<close>

fun be_val :: "u8 list \<Rightarrow> nat" where
  "be_val [] = 0"
| "be_val (b # bs) = unat b * 256 ^ length bs + be_val bs"

subsection \<open>Client identifiers\<close>

definition is_valid_mac :: "string \<Rightarrow> bool" where
  "is_valid_mac mac_str \<longleftrightarrow> length mac_str = 17 \<and>
     list_all (\<lambda>i. if i mod 3 = 2 then mac_str ! i = CHR '':'' else isxdigit (mac_str ! i)) [0..<17]"

fun duid_hex_count :: "string \<Rightarrow> nat option" where
  "duid_hex_count [] = Some 0"
| "duid_hex_count (c # cs) =
     (if c = CHR '':'' then duid_hex_count cs
      else if \<not> isxdigit c then None
      else map_option Suc (duid_hex_count cs))"

definition is_valid_duid :: "string \<Rightarrow> bool" where
  "is_valid_duid duid_str = (case duid_hex_count duid_str of
     None \<Rightarrow> False
   | Some hex_count \<Rightarrow> if hex_count < 8 then False else if hex_count mod 2 \<noteq> 0 then False else True)"

fun hex_bytes :: "u8 list \<Rightarrow> string" where
  "hex_bytes [] = []"
| "hex_bytes [b] = [hex_digits ! (unat b div 16), hex_digits ! (unat b mod 16)]"
| "hex_bytes (b # bs) = hex_digits ! (unat b div 16) # hex_digits ! (unat b mod 16) # CHR '':'' # hex_bytes bs"

text \<open>The returned length and the string left in \<open>out\<close>.\<close>

definition duid_bin_to_hex :: "u8 list \<Rightarrow> nat \<Rightarrow> int \<times> string" where
  "duid_bin_to_hex bs out_sz =
     (if out_sz = 0 then (-1, [])
      else let need = (if bs \<noteq> [] then (length bs * 3 - 1) + 1 else 1) in
        if out_sz < need then (-1, [])
        else (int (length (hex_bytes bs)), hex_bytes bs))"

text \<open>
  \<open>sscanf(p, "%2x", &byte)\<close> followed by the conversion to \<open>uint8_t\<close>: white space, an optional sign that
  counts towards the width, then one or two digits.
\<close>

fun scan_digits :: "nat \<Rightarrow> nat \<Rightarrow> string \<Rightarrow> nat" where
  "scan_digits (Suc w) acc (c # cs) = (case xdigit_val c of
     Some d \<Rightarrow> scan_digits w (acc * 16 + d) cs
   | None \<Rightarrow> acc)"
| "scan_digits w acc cs = acc"

definition scan_2x :: "string \<Rightarrow> u8 option" where
  "scan_2x p = (case dropWhile isspace p of
     [] \<Rightarrow> None
   | c # cs \<Rightarrow>
       if c = CHR ''+'' \<or> c = CHR ''-'' then
         (case cs of
            [] \<Rightarrow> None
          | d # _ \<Rightarrow> if isxdigit d then Some (if c = CHR ''-'' then - of_nat (scan_digits 1 0 cs)
                                         else of_nat (scan_digits 1 0 cs)) else None)
       else if isxdigit c then Some (of_nat (scan_digits 2 0 (c # cs))) else None)"

text \<open>One separator is skipped; after a byte the loop continues behind the next colon.\<close>

definition skip_separator :: "string \<Rightarrow> string" where
  "skip_separator p = (case p of
     [] \<Rightarrow> [] | c # cs \<Rightarrow> if c = CHR '':'' \<or> c = CHR '' '' \<or> c = CHR 0x09 then cs else p)"

definition after_colon :: "string \<Rightarrow> string" where
  "after_colon p = tl (dropWhile (\<lambda>c. c \<noteq> CHR '':'') p)"

lemma duid_scan_shorter:
  assumes "skip_separator p \<noteq> []"
  shows "length (after_colon (skip_separator p)) < length p"
proof -
  have "length (tl (dropWhile P q)) < length q" if "q \<noteq> []" for P and q :: string
    unfolding length_tl using that length_dropWhile_le [of P q] length_greater_0_conv [of q] by linarith
  then have "length (after_colon (skip_separator p)) < length (skip_separator p)"
    using assms by (simp add: after_colon_def)
  also have "\<dots> \<le> length p" by (cases p) (simp_all add: skip_separator_def)
  finally show ?thesis .
qed

text \<open>
  The loop of \<open>duid_hex_to_bin\<close> with the bytes written so far.  The result is the return value and the
  bytes that were stored into the buffer, which a failing call has stored too.
\<close>

function duid_scan :: "nat \<Rightarrow> u8 list \<Rightarrow> string \<Rightarrow> int \<times> u8 list" where
  "duid_scan out_max out p =
     (if skip_separator p = [] then (int (length out), out)
      else case scan_2x (skip_separator p) of
          None \<Rightarrow> (-1, out)
        | Some byte \<Rightarrow>
            if length out \<ge> out_max then (-1, out)
            else if CHR '':'' \<notin> set (skip_separator p) then
              if length (takeWhile (\<lambda>c. c \<noteq> CHR '':'' \<and> \<not> isspace c) (skip_separator p)) > 2
              then (-1, out @ [byte])
              else (int (length out + 1), out @ [byte])
            else duid_scan out_max (out @ [byte]) (after_colon (skip_separator p)))"
  by pat_completeness auto

termination duid_scan
  by (relation "measure (\<lambda>(_, _, p). length p)")
    (simp, simp only: in_measure prod.case duid_scan_shorter not_False_eq_True)

declare duid_scan.simps [simp del]

definition duid_hex_to_bin :: "string \<Rightarrow> nat \<Rightarrow> int \<times> u8 list" where
  "duid_hex_to_bin hex out_max = (if out_max = 0 then (-1, []) else duid_scan out_max [] hex)"

subsection \<open>Lines of a configuration file\<close>

definition rstrip :: "string \<Rightarrow> string" where
  "rstrip str = rev (dropWhile (\<lambda>c. c = CHR 0x0A \<or> c = CHR 0x0D) (rev str))"

definition lskip :: "string \<Rightarrow> string" where
  "lskip s = dropWhile (\<lambda>c. c = CHR '' '' \<or> c = CHR 0x09) s"

definition strip_semicolon :: "string \<Rightarrow> string" where
  "strip_semicolon s =
     rev (dropWhile (\<lambda>c. c = CHR '';'' \<or> c = CHR '' '' \<or> c = CHR 0x09) (rev (rstrip s)))"

definition unquote :: "string \<Rightarrow> string" where
  "unquote s =
     (if length s \<ge> 2 \<and> hd s = CHR 0x22 \<and> last s = CHR 0x22 then butlast (tl s) else s)"

text \<open>The scan of \<open>strip_inline_comment\<close>; \<open>prev\<close> is the character before the current one.\<close>

fun cut_comment :: "bool \<Rightarrow> char option \<Rightarrow> string \<Rightarrow> string" where
  "cut_comment in_quote prev [] = []"
| "cut_comment in_quote prev (c # cs) =
     (if c = CHR 0x22 \<and> prev \<noteq> Some (CHR 0x5C) then c # cut_comment (\<not> in_quote) (Some c) cs
      else if \<not> in_quote \<and> c = CHR ''#'' then []
      else c # cut_comment in_quote (Some c) cs)"

definition strip_inline_comment :: "string \<Rightarrow> string" where
  "strip_inline_comment s = rstrip (cut_comment False None s)"

definition parse_prefix_and_len :: "string \<Rightarrow> nat \<Rightarrow> (string \<times> u8) option" where
  "parse_prefix_and_len inp prefix_out_sz =
     (let addr = takeWhile (\<lambda>c. c \<noteq> CHR ''/'') inp; pref_len = strtol (drop (length addr + 1) inp)
      in if CHR ''/'' \<notin> set inp then None
         else if length addr \<ge> prefix_out_sz then None
         else if pref_len < 0 \<or> pref_len > 128 then None
         else Some (addr, word_of_int pref_len))"

text \<open>The loop over the tokens; \<open>out\<close> are the addresses found so far.\<close>

fun ipv6_list_loop :: "nat \<Rightarrow> in6_addr list \<Rightarrow> string list \<Rightarrow> in6_addr list" where
  "ipv6_list_loop max_count out [] = out"
| "ipv6_list_loop max_count out (token # toks) =
     (if length out \<ge> max_count then out
      else let p = rstrip (lskip token)
        in if p = [] then ipv6_list_loop max_count out toks
           else case inet_pton6 p of
               None \<Rightarrow> ipv6_list_loop max_count out toks
             | Some addr \<Rightarrow> ipv6_list_loop max_count (out @ [addr]) toks)"

definition str_to_ipv6_list :: "string \<Rightarrow> nat \<Rightarrow> in6_addr list" where
  "str_to_ipv6_list str max_count =
     (if max_count = 0 then [] else ipv6_list_loop max_count [] (tokens '','' (take 511 str)))"

subsection \<open>Domain names\<close>

text \<open>The loop over the labels; \<open>out\<close> are the bytes written so far, None is the return value -1.\<close>

definition put_label :: "nat \<Rightarrow> u8 list \<Rightarrow> string \<Rightarrow> u8 list option" where
  "put_label len out label =
     (if length out + 1 + length label \<ge> len then None
      else Some (out @ of_nat (length label) # map of_char label))"

definition first_label :: "string \<Rightarrow> string" where
  "first_label start = takeWhile (\<lambda>c. c \<noteq> CHR ''.'') start"

function encode_labels :: "nat \<Rightarrow> u8 list \<Rightarrow> string \<Rightarrow> u8 list option" where
  "encode_labels len out start =
     (if start = [] then Some out
      else case put_label len out (first_label start) of
          None \<Rightarrow> None
        | Some out' \<Rightarrow>
            if CHR ''.'' \<notin> set start then Some out'
            else encode_labels len out' (drop (length (first_label start) + 1) start))"
  by pat_completeness auto

termination encode_labels
  by (relation "measure (\<lambda>(_, _, s). length s)") (simp, simp only: in_measure prod.case length_drop, simp)

declare encode_labels.simps [simp del]

definition encode_domain_name :: "string \<Rightarrow> nat \<Rightarrow> u8 list option" where
  "encode_domain_name domain len =
     (if len = 0 then None
      else let d = take 255 domain; d' = (if d \<noteq> [] \<and> last d = CHR ''.'' then butlast d else d) in
        case encode_labels len [] d' of
          None \<Rightarrow> None
        | Some out \<Rightarrow> if length out \<ge> len then None else Some (out @ [0]))"

section \<open>Lemmas\<close>

subsection \<open>Addresses as numbers\<close>

lemma be_val_append [addr_simps]: "be_val (xs @ ys) = be_val xs * 256 ^ length ys + be_val ys"
  by (induction xs) (simp_all add: power_add algebra_simps)

lemma unat_u8_less: "unat (b :: u8) < 256"
  using unsigned_less [of b] by simp

lemma be_val_less: "be_val bs < 256 ^ length bs"
proof (induction bs)
  case (Cons b bs)
  have "unat b * 256 ^ length bs + be_val bs < (unat b + 1) * 256 ^ length bs"
    using Cons by simp
  also have "\<dots> \<le> 256 * 256 ^ length bs" using unat_u8_less [of b] by (intro mult_le_mono1) simp
  finally show ?case by simp
qed simp

lemma be_val_split: "be_val ip = be_val (take i ip) * 256 ^ (length ip - i) + be_val (drop i ip)"
  by (metis append_take_drop_id be_val_append length_drop)

lemma be_val_take_Suc: "i < length ip \<Longrightarrow> be_val (take (Suc i) ip) = be_val (take i ip) * 256 + unat (ip ! i)"
  by (simp add: take_Suc_conv_app_nth be_val_append)

lemma memcmp_val:
  assumes "length as = length bs"
  shows "(memcmp as bs < 0 \<longleftrightarrow> be_val as < be_val bs) \<and> (memcmp as bs = 0 \<longleftrightarrow> be_val as = be_val bs)
    \<and> (memcmp as bs = 0 \<longleftrightarrow> as = bs)"
  using assms
proof (induction as bs rule: list_induct2)
  case (Cons a as b bs)
  let ?n = "256 ^ length as :: nat"
  have l: "be_val as < ?n" "be_val bs < ?n" using be_val_less [of as] be_val_less [of bs] Cons.hyps by auto
  have lt: "unat x * ?n + be_val u < unat y * ?n + be_val v"
    if "x < y" "be_val u < ?n" for x y :: u8 and u v
  proof -
    have "unat x * ?n + be_val u < (unat x + 1) * ?n" using that(2) by simp
    also have "\<dots> \<le> unat y * ?n" using that(1) by (intro mult_le_mono1) (simp add: word_less_nat_alt)
    finally show ?thesis by simp
  qed
  show ?case
  proof (cases "a = b")
    case True
    then show ?thesis using Cons by auto
  next
    case False
    then consider "a < b" | "b < a" by (metis linorder_neqE)
    then show ?thesis
    proof cases
      case 1
      then show ?thesis using lt [OF 1 l(1), of bs] False Cons.hyps by simp
    next
      case 2
      then show ?thesis using lt [OF 2 l(2), of as] False Cons.hyps by (simp add: not_less_iff_gr_or_eq)
    qed
  qed
qed simp

lemma be_val_inj: "length as = length bs \<Longrightarrow> be_val as = be_val bs \<longleftrightarrow> as = bs"
  using memcmp_val by blast

lemma ipv6_compare_val:
  "length a = length b \<Longrightarrow> ipv6_compare a b \<le> 0 \<longleftrightarrow> be_val a \<le> be_val b"
  using memcmp_val [of a b] by (auto simp: ipv6_compare_def)

lemma u8_inc: "b \<noteq> 0xFF \<Longrightarrow> unat (b + 1) = unat b + 1" for b :: u8
proof -
  assume "b \<noteq> 0xFF"
  then have "unat b \<noteq> unat (0xFF :: u8)" by (metis unsigned_word_eqI)
  then have "unat b + 1 < 256" using unat_u8_less [of b] by simp
  then show ?thesis by (simp add: unat_word_ariths)
qed

lemma increment_from_val:
  "\<lbrakk>i \<le> length ip; increment_from i ip = (ok, ip')\<rbrakk> \<Longrightarrow>
   length ip' = length ip \<and> drop i ip' = drop i ip
   \<and> be_val (take i ip') = (be_val (take i ip) + 1) mod 256 ^ i
   \<and> (ok \<longleftrightarrow> be_val (take i ip) + 1 < 256 ^ i)"
proof (induction i arbitrary: ip)
  case (Suc i)
  have i: "i < length ip" using Suc.prems(1) by simp
  show ?case
  proof (cases "ip ! i = 0xFF")
    case False
    then have ip': "ip' = ip[i := ip ! i + 1]" "ok" using Suc.prems(2) by auto
    then have v: "be_val (take (Suc i) ip') = be_val (take (Suc i) ip) + 1"
      using i u8_inc [OF False] by (simp add: be_val_take_Suc)
    have "be_val (take (Suc i) ip') < 256 ^ Suc i"
      using be_val_less [of "take (Suc i) ip'"] i ip' by simp
    then show ?thesis using v ip' by simp
  next
    case True
    let ?v = "be_val (take i ip)"
    have r: "increment_from i (ip[i := 0]) = (ok, ip')" using Suc.prems(2) True by simp
    have IH: "length ip' = length ip" "drop i ip' = drop i (ip[i := 0])"
      "be_val (take i ip') = (?v + 1) mod 256 ^ i" "ok \<longleftrightarrow> ?v + 1 < 256 ^ i"
      using Suc.IH [OF _ r] i by simp_all
    have d: "ip' ! i = 0" "drop (Suc i) ip' = drop (Suc i) ip"
      using IH(1,2) i by (simp_all add: Cons_nth_drop_Suc [symmetric])
    have v: "be_val (take (Suc i) ip) + 1 = (?v + 1) * 256" using True i by (simp add: be_val_take_Suc)
    have "be_val (take (Suc i) ip') = (?v + 1) mod 256 ^ i * 256"
      using IH(1,3) i d(1) by (simp add: be_val_take_Suc)
    moreover have "(?v + 1) * 256 < 256 ^ Suc i \<longleftrightarrow> ?v + 1 < 256 ^ i"
      by (simp only: power_Suc2 mult_less_cancel2) simp
    ultimately show ?thesis
      using IH(1,4) d(2) unfolding v by (simp only: power_Suc2 mult_mod_left)
  qed
qed simp

lemma unat_drop_bit: "unat (drop_bit k w) = unat w div 2 ^ k" for w :: "'a::len word"
proof -
  have "unat (drop_bit k w) = drop_bit k (unat w)"
    by (simp add: unsigned_drop_bit_eq take_bit_nat_eq_self [OF unsigned_less])
  then show ?thesis by (simp only: drop_bit_eq_div)
qed

lemma carry_step:
  fixes x :: u8 and add :: u16
  assumes "unat add \<le> 255"
  shows "unat (ucast x + add) = unat x + unat add"
    and "unat (ucast ((ucast x + add :: u16) AND 0xFF) :: u8) = (unat x + unat add) mod 256"
    and "unat (drop_bit 8 (ucast x + add :: u16)) = (unat x + unat add) div 256"
proof -
  have u: "unat (ucast x :: u16) = unat x" 
    using unat_u8_less [of x] by (simp add: unsigned_ucast_eq take_bit_nat_eq_self)
  show s: "unat (ucast x + add) = unat x + unat add"
    using assms unat_u8_less [of x] u by (subst unat_add_lem [THEN iffD1]) simp_all
  have m: "(w AND 0xFF) = take_bit 8 w" for w :: u16
    by (simp add: take_bit_eq_mask mask_eq_exp_minus_1)
  show "unat (ucast ((ucast x + add :: u16) AND 0xFF) :: u8) = (unat x + unat add) mod 256"
    unfolding m s [symmetric]
    by (simp add: unsigned_ucast_eq unsigned_take_bit_eq) (simp add: take_bit_eq_mod)
  show "unat (drop_bit 8 (ucast x + add :: u16)) = (unat x + unat add) div 256"
    unfolding s [symmetric] unat_drop_bit by simp
qed

lemma add_carry_val:
  "\<lbrakk>i \<le> length ip; unat add \<le> 255\<rbrakk> \<Longrightarrow>
   length (add_carry_from i add ip) = length ip \<and> drop i (add_carry_from i add ip) = drop i ip
   \<and> be_val (take i (add_carry_from i add ip)) = (be_val (take i ip) + unat add) mod 256 ^ i"
proof (induction i arbitrary: ip add)
  case (Suc i)
  let ?s = "unat (ip ! i) + unat add" and ?v = "be_val (take i ip)"
  let ?ip = "ip[i := ucast ((ucast (ip ! i) + add :: u16) AND 0xFF)]"
  let ?add = "drop_bit 8 (ucast (ip ! i) + add :: u16)"
  have i: "i < length ip" using Suc.prems(1) by simp
  note c = carry_step [OF Suc.prems(2), of "ip ! i"]
  have sum: "be_val (take (Suc i) ip) + unat add = (?v + ?s div 256) * 256 + ?s mod 256"
    using i by (simp add: be_val_take_Suc algebra_simps)
  have small: "((a::nat) * 256 + r) mod 256 ^ Suc i = a mod 256 ^ i * 256 + r" if "r < 256" for a r
    using that mod_mult2_eq [of "a * 256 + r" 256 "256 ^ i"] by simp
  show ?case
  proof (cases "?add = 0")
    case True
    then have "?s div 256 = 0" using c(3) by simp
    then show ?thesis
      using True i c(2) sum small [of "?s mod 256" "?v"] be_val_less [of "take i ip"]
      by (simp add: be_val_take_Suc Let_def)
  next
    case False
    have r: "add_carry_from (Suc i) add ip = add_carry_from i ?add ?ip" using False by (simp add: Let_def)
    have "unat ?add \<le> 255" using c(3) Suc.prems(2) unat_u8_less [of "ip ! i"] by simp
    then have IH: "length (add_carry_from i ?add ?ip) = length ip"
      "drop i (add_carry_from i ?add ?ip) = drop i ?ip"
      "be_val (take i (add_carry_from i ?add ?ip)) = (?v + ?s div 256) mod 256 ^ i"
      using Suc.IH [of ?ip ?add] i c(3) by simp_all
    have d: "add_carry_from i ?add ?ip ! i = ?ip ! i"
      "drop (Suc i) (add_carry_from i ?add ?ip) = drop (Suc i) ip"
      using IH(1,2) i by (simp_all add: Cons_nth_drop_Suc [symmetric])
    have "be_val (take (Suc i) (add_carry_from i ?add ?ip)) =
        (?v + ?s div 256) mod 256 ^ i * 256 + ?s mod 256"
      using IH(1,3) d(1) i c(2) by (simp add: be_val_take_Suc)
    then show ?thesis unfolding r sum using IH(1) d(2) small [of "?s mod 256" "?v + ?s div 256"] by simp
  qed
qed simp

lemma pow_256: "(256 :: nat) ^ k = 2 ^ (8 * k)"
  by (simp add: power_mult)

lemma masked_byte_eq:
  "(a AND push_bit k 0xFF = b AND push_bit k 0xFF) \<longleftrightarrow> unat a div 2 ^ k = unat b div 2 ^ k"
  for a b :: u8
proof -
  have ones: "(0xFF :: u8) = -1" by simp
  have m: "bit (x AND push_bit k 0xFF) i \<longleftrightarrow> k \<le> i \<and> bit x i" for x :: u8 and i
    unfolding ones by (auto simp: bit_simps dest: bit_imp_le_length)
  have "(a AND push_bit k 0xFF = b AND push_bit k 0xFF) \<longleftrightarrow> drop_bit k a = drop_bit k b"
  proof
    assume e: "a AND push_bit k 0xFF = b AND push_bit k 0xFF"
    show "drop_bit k a = drop_bit k b"
      using m [of a "k + _"] m [of b "k + _"] by (intro bit_word_eqI) (simp add: bit_drop_bit_eq e)
  next
    assume e: "drop_bit k a = drop_bit k b"
    have "bit a i = bit b i" if "k \<le> i" for i
      using e that by (metis bit_drop_bit_eq comp_apply le_add_diff_inverse)
    then show "a AND push_bit k 0xFF = b AND push_bit k 0xFF"
      by (intro bit_word_eqI) (auto simp: m)
  qed
  also have "\<dots> \<longleftrightarrow> unat (drop_bit k a) = unat (drop_bit k b)"
    by (metis unsigned_word_eqI)
  finally show ?thesis by (simp add: unat_drop_bit)
qed

lemma be_val_div: "be_val ip div 256 ^ (length ip - i) = be_val (take i ip)"
proof -
  have "be_val (drop i ip) < 256 ^ (length ip - i)" using be_val_less [of "drop i ip"] by simp
  then show ?thesis by (subst be_val_split [of ip i]) simp
qed

lemma pair_div_eq:
  fixes v v' b b' :: nat
  assumes "b < 256" "b' < 256" "r \<le> 8"
  shows "(v * 256 + b) div 2 ^ (8 - r) = (v' * 256 + b') div 2 ^ (8 - r) \<longleftrightarrow>
    v = v' \<and> b div 2 ^ (8 - r) = b' div 2 ^ (8 - r)"
proof -
  have e: "(256 :: nat) = 2 ^ r * 2 ^ (8 - r)" using assms(3) by (simp flip: power_add)
  have d: "(x * 256 + c) div 2 ^ (8 - r) = x * 2 ^ r + c div 2 ^ (8 - r)" for x c :: nat
  proof -
    have "x * 256 + c = c + (x * 2 ^ r) * 2 ^ (8 - r)" by (metis e add.commute mult.assoc)
    moreover have "(c + (x * 2 ^ r) * 2 ^ (8 - r)) div 2 ^ (8 - r) = x * 2 ^ r + c div 2 ^ (8 - r)"
      by (rule div_mult_self1) simp
    ultimately show ?thesis by (simp only:)
  qed
  have l: "c div 2 ^ (8 - r) < 2 ^ r" if "c < 256" for c :: nat
    using that e by (metis less_mult_imp_div_less)
  have u: "(x * 2 ^ r + c) div 2 ^ r = x \<and> (x * 2 ^ r + c) mod 2 ^ r = c" if "c < 2 ^ r" for x c :: nat
    using that by simp
  show ?thesis
    unfolding d using u [OF l [OF assms(1)], of v] u [OF l [OF assms(2)], of v'] by metis
qed

lemma ipv6_in_subnet_val:
  assumes "length ip = 16" "length net = 16"
  shows "ipv6_in_subnet ip net plen \<longleftrightarrow>
    plen \<le> 128 \<and> be_val ip div 2 ^ (128 - unat plen) = be_val net div 2 ^ (128 - unat plen)"
proof (cases "plen \<le> 128")
  case True
  define f r where "f = unat plen div 8" and "r = unat plen mod 8"
  have n: "unat plen = 8 * f + r" "r < 8" "unat plen \<le> 128"
    using True by (simp_all add: f_def r_def word_le_nat_alt)
  have s: "ipv6_in_subnet ip net plen \<longleftrightarrow> take f ip = take f net \<and>
      (r \<noteq> 0 \<longrightarrow> unat (ip ! f) div 2 ^ (8 - r) = unat (net ! f) div 2 ^ (8 - r))"
    using True memcmp_val [of "take f ip" "take f net"] assms
    by (auto simp: ipv6_in_subnet_def Let_def masked_byte_eq f_def [symmetric] r_def [symmetric]
        not_less [symmetric])
  show ?thesis
  proof (cases "r = 0")
    case r0: True
    then have "2 ^ (128 - unat plen) = (256 :: nat) ^ (16 - f)" using n by (simp add: pow_256 algebra_simps)
    then show ?thesis
      using True s r0 assms be_val_div [of ip f] be_val_div [of net f]
        be_val_inj [of "take f ip" "take f net"] by simp
  next
    case rn: False
    then have f: "f < 16" using n by linarith
    have "128 - unat plen = 8 * (16 - Suc f) + (8 - r)" using n f by linarith
    then have e: "2 ^ (128 - unat plen) = (256 :: nat) ^ (16 - Suc f) * 2 ^ (8 - r)"
      by (simp add: pow_256 power_add)
    have d: "be_val x div 2 ^ (128 - unat plen) = (be_val (take f x) * 256 + unat (x ! f)) div 2 ^ (8 - r)"
      if "length x = 16" for x
      unfolding e div_mult2_eq using that be_val_div [of x "Suc f"] be_val_take_Suc [of f x] f by simp
    show ?thesis
      using True s rn assms n(2) be_val_inj [of "take f ip" "take f net"]
      unfolding d [OF assms(1)] d [OF assms(2)]
      by (simp add: pair_div_eq unat_u8_less)
  qed
next
  case False
  then show ?thesis by (simp add: ipv6_in_subnet_def)
qed

lemma ipv6_increment_val:
  assumes "length ip = 16" "ipv6_increment ip = (ok, ip')"
  shows "length ip' = 16 \<and> be_val ip' = (be_val ip + 1) mod 2 ^ 128 \<and> (ok \<longleftrightarrow> be_val ip + 1 < 2 ^ 128)"
proof -
  have "length ip' = 16" "be_val (take 16 ip') = (be_val (take 16 ip) + 1) mod 256 ^ 16"
    "ok \<longleftrightarrow> be_val (take 16 ip) + 1 < 256 ^ 16"
    using increment_from_val [of 16 ip ok ip'] assms by (simp_all only: ipv6_increment_def)
  then show ?thesis using assms(1) by (simp add: pow_256)
qed

lemma pow_128_split: "i < 16 \<Longrightarrow> 2 ^ 128 = 256 ^ (15 - i) * (256 :: nat) ^ Suc i"
proof -
  assume "i < 16"
  then have "15 - i + Suc i = 16" by simp
  then have "256 ^ (15 - i) * (256 :: nat) ^ Suc i = 256 ^ 16" by (simp only: power_add [symmetric])
  then show ?thesis by (simp only: pow_256) simp
qed

lemma mod_high_part: "w < K \<Longrightarrow> (v * K + w) mod (K * M) = v mod M * K + w" for v w K M :: nat
  by (subst mod_mult2_eq) (simp add: mult.commute)

lemma increment_prefix_val:
  assumes "length ip = 16" "0 < plen" "plen \<le> 128"
  shows "length (increment_prefix ip plen) = 16
    \<and> be_val (increment_prefix ip plen) = (be_val ip + 2 ^ (128 - unat plen)) mod 2 ^ 128"
proof -
  define i b where "i = (unat plen - 1) div 8" and "b = 7 - (unat plen - 1) mod 8"
  have p: "0 < unat plen" "unat plen \<le> 128"
    using assms(2,3) by (simp_all add: word_le_nat_alt unat_gt_0)
  have "unat plen - 1 = 8 * i + (unat plen - 1) mod 8" "(unat plen - 1) mod 8 < 8"
    by (simp_all add: i_def)
  then have i: "i < 16" "b \<le> 7" "128 - unat plen = 8 * (15 - i) + b"
    using p unfolding b_def by linarith+
  have b: "(2::nat) ^ b \<le> 2 ^ 7" using i(2) by (intro power_increasing) simp_all
  have "push_bit b 1 = (of_nat (2 ^ b) :: u16)" by (simp add: push_bit_eq_mult)
  then have add: "unat (push_bit b 1 :: u16) = 2 ^ b"
    using b by (simp only: unat_of_nat) simp
  let ?q = "add_carry_from (Suc i) (push_bit b 1) ip"
  have q: "increment_prefix ip plen = ?q"
    unfolding increment_prefix_def i_def b_def using assms(2,3) by (simp only: Let_def) auto
  have "unat (push_bit b 1 :: u16) \<le> 255" using add b by simp
  then have c: "length ?q = 16" "drop (Suc i) ?q = drop (Suc i) ip"
    "be_val (take (Suc i) ?q) = (be_val (take (Suc i) ip) + 2 ^ b) mod 256 ^ Suc i"
    using add_carry_val [of "Suc i" ip "push_bit b 1"] i(1) assms(1) add by simp_all
  let ?K = "256 ^ (15 - i) :: nat" and ?v = "be_val (take (Suc i) ip)" and ?w = "be_val (drop (Suc i) ip)"
  have w: "?w < ?K" using be_val_less [of "drop (Suc i) ip"] assms(1) by simp
  have K: "2 ^ 128 = ?K * 256 ^ Suc i" by (rule pow_128_split) (use i(1) in simp)
  have P: "2 ^ (128 - unat plen) = 2 ^ b * ?K" unfolding i(3) pow_256 power_add by (rule mult.commute)
  have "be_val ip = ?v * ?K + ?w" using be_val_split [of ip "Suc i"] assms(1) by simp
  then have "be_val ip + 2 ^ (128 - unat plen) = (?v + 2 ^ b) * ?K + ?w"
    unfolding P by (simp only: distrib_right ac_simps)
  then have "(be_val ip + 2 ^ (128 - unat plen)) mod 2 ^ 128 = (?v + 2 ^ b) mod 256 ^ Suc i * ?K + ?w"
    using mod_high_part [OF w, of "?v + 2 ^ b" "256 ^ Suc i"] by (simp only: K)
  moreover have "be_val ?q = (?v + 2 ^ b) mod 256 ^ Suc i * ?K + ?w"
    using be_val_split [of ?q "Suc i"] c by (simp del: power_Suc)
  ultimately show ?thesis unfolding q using c(1) by (simp only: simp_thms)
qed

subsection \<open>Client identifiers\<close>

lemma hex_digit_facts:
  assumes "n < 16"
  shows "xdigit_val (hex_digits ! n) = Some n" "\<not> isspace (hex_digits ! n)"
    "hex_digits ! n \<notin> {CHR '':'', CHR '' '', CHR 0x09, CHR ''+'', CHR ''-''}"
proof -
  have "list_all (\<lambda>n. xdigit_val (hex_digits ! n) = Some n \<and> \<not> isspace (hex_digits ! n) \<and>
      hex_digits ! n \<notin> {CHR '':'', CHR '' '', CHR 0x09, CHR ''+'', CHR ''-''}) [0..<16]"
    by code_simp
  then have "xdigit_val (hex_digits ! n) = Some n \<and> \<not> isspace (hex_digits ! n) \<and>
      hex_digits ! n \<notin> {CHR '':'', CHR '' '', CHR 0x09, CHR ''+'', CHR ''-''}"
    using assms by (simp add: list_all_iff)
  then show "xdigit_val (hex_digits ! n) = Some n" "\<not> isspace (hex_digits ! n)"
    "hex_digits ! n \<notin> {CHR '':'', CHR '' '', CHR 0x09, CHR ''+'', CHR ''-''}" by auto
qed

lemma hi_nibble_less: "unat (b :: u8) div 16 < 16"
  using unat_u8_less [of b] by simp

lemmas hex_facts = hex_digit_facts [OF hi_nibble_less] hex_digit_facts [of "unat b mod 16" for b :: u8, simplified]

lemma scan_2x_hex:
  "scan_2x (hex_digits ! (unat b div 16) # hex_digits ! (unat b mod 16) # rest) = Some b"
proof -
  have "of_nat (unat b div 16 * 16 + unat b mod 16) = b" by simp
  then show ?thesis
    using hex_facts [of b] by (simp add: scan_2x_def isxdigit_def numeral_2_eq_2)
qed

lemma skip_separator_hex:
  "skip_separator (hex_digits ! (unat b div 16) # rest) = hex_digits ! (unat b div 16) # rest"
  for b :: u8
  using hex_facts [of b] by (simp add: skip_separator_def)

lemma duid_scan_hex:
  "length out + length bs \<le> out_max \<Longrightarrow> duid_scan out_max out (hex_bytes bs) = (int (length out + length bs), out @ bs)"
proof (induction bs arbitrary: out rule: hex_bytes.induct)
  case 1
  then show ?case by (simp add: duid_scan.simps skip_separator_def)
next
  case (2 b)
  then show ?case
    using hex_facts [of b]
    by (subst duid_scan.simps) (auto simp: skip_separator_hex scan_2x_hex)
next
  case (3 b c bs)
  have "after_colon (hex_bytes (b # c # bs)) = hex_bytes (c # bs)"
    using hex_facts [of b] by (simp add: after_colon_def)
  then show ?case
    using 3 hex_facts [of b]
    by (subst duid_scan.simps) (simp add: skip_separator_hex scan_2x_hex)
qed

lemma duid_scan_length:
  "duid_scan out_max out p = (n, bs) \<Longrightarrow> length out \<le> out_max \<Longrightarrow>
   length bs \<le> out_max \<and> (n = -1 \<or> n = int (length bs))"
proof (induction out_max out p rule: duid_scan.induct)
  case (1 out_max out p)
  show ?case
  proof (cases "scan_2x (skip_separator p)")
    case None
    then show ?thesis using 1 by (subst (asm) (2) duid_scan.simps) (auto split: if_splits)
  next
    case (Some b)
    show ?thesis
    proof (cases "skip_separator p = [] \<or> length out \<ge> out_max \<or> CHR '':'' \<notin> set (skip_separator p)")
      case True
      then show ?thesis
        using 1(2,3) Some by (subst (asm) duid_scan.simps) (auto split: if_splits)
    next
      case False
      then have "duid_scan out_max (out @ [b]) (after_colon (skip_separator p)) = (n, bs)"
        using 1(2) Some by (subst (asm) duid_scan.simps) simp
      then show ?thesis using 1(1) [OF _ Some] False by simp
    qed
  qed
qed

lemma duid_hex_to_bin_length:
  "duid_hex_to_bin hex out_max = (n, bs) \<Longrightarrow> length bs \<le> out_max \<and> (n = -1 \<or> n = int (length bs))"
  using duid_scan_length [of out_max "[]" hex] by (auto simp: duid_hex_to_bin_def split: if_splits)

lemma length_hex_bytes: "bs \<noteq> [] \<Longrightarrow> length (hex_bytes bs) = 3 * length bs - 1"
  by (induction bs rule: hex_bytes.induct) simp_all

subsection \<open>Text\<close>

lemma rstrip_length: "length (rstrip s) \<le> length s"
  using length_dropWhile_le [of _ "rev s"] by (simp add: rstrip_def)

lemma lskip_length: "length (lskip s) \<le> length s"
  by (simp add: lskip_def length_dropWhile_le)

lemma strip_semicolon_length: "length (strip_semicolon s) \<le> length s"
  using length_dropWhile_le [of _ "rev (rstrip s)"] rstrip_length [of s]
  by (auto simp: strip_semicolon_def intro: le_trans)

lemma unquote_length: "length (unquote s) \<le> length s"
  by (simp add: unquote_def)

lemmas text_length = rstrip_length lskip_length strip_semicolon_length unquote_length

lemma ipv6_str_to_bin_length [simp]:
  "length (snd (ipv6_str_to_bin s a)) = 16 \<longleftrightarrow> inet_pton6 s \<noteq> None \<or> length a = 16"
  by (auto simp: ipv6_str_to_bin_def inet_pton6_length split: option.split)

lemma ipv6_list_loop_sound:
  "length out \<le> max_count \<Longrightarrow> \<forall>a \<in> set out. length a = 16 \<Longrightarrow>
   length (ipv6_list_loop max_count out toks) \<le> max_count \<and>
   (\<forall>a \<in> set (ipv6_list_loop max_count out toks). length a = 16)"
  by (induction max_count out toks rule: ipv6_list_loop.induct)
    (auto simp: Let_def inet_pton6_length split: option.split)

lemma str_to_ipv6_list_sound:
  "length (str_to_ipv6_list s n) \<le> n" "a \<in> set (str_to_ipv6_list s n) \<Longrightarrow> length a = 16"
  using ipv6_list_loop_sound [of "[]" n] by (auto simp: str_to_ipv6_list_def split: if_splits)

section \<open>Properties\<close>

text \<open>
  \<open>ipv6_increment\<close> is the successor modulo \<open>2^128\<close> of the address read as a number, and it reports
  failure exactly for the all-ones address, which it wraps to zero; the carry runs through all bytes.
\<close>

lemma ipv6_increment_successor:
  assumes "length ip = 16" "ipv6_increment ip = (ok, ip')"
  shows "length ip' = 16 \<and> be_val ip' = (be_val ip + 1) mod 2 ^ 128
    \<and> (ok \<longleftrightarrow> be_val ip \<noteq> 2 ^ 128 - 1)"
  using ipv6_increment_val [OF assms] be_val_less [of ip] assms(1) by auto

text \<open>
  C30: \<open>ipv6_in_subnet\<close> compares exactly the first \<open>prefix_len\<close> bits: an address is in a subnet if and only
  if the prefix length is at most 128 and both addresses agree after division by \<open>2^(128 - prefix_len)\<close>,
  on byte boundaries and inside a byte alike.
\<close>

theorem ipv6_in_subnet_prefix_bits:
  assumes "length ip = 16" "length net = 16"
  shows "ipv6_in_subnet ip net plen \<longleftrightarrow>
    plen \<le> 128 \<and> be_val ip div 2 ^ (128 - unat plen) = be_val net div 2 ^ (128 - unat plen)"
  using ipv6_in_subnet_val [OF assms] .

definition net_example :: in6_addr where
  "net_example = [0x20, 1, 0xD, 0xB8] @ replicate 12 0"

theorem ipv6_in_subnet_prefix_bits_witness:
  "ipv6_in_subnet (net_example[15 := 7]) net_example 36 \<and>
   be_val (net_example[15 := 7]) div 2 ^ 92 = be_val net_example div 2 ^ 92"
proof -
  have "ipv6_in_subnet (net_example[15 := 7]) net_example 36" by code_simp
  moreover have "length net_example = 16" by (simp add: net_example_def)
  ultimately show ?thesis
    using ipv6_in_subnet_prefix_bits [of "net_example[15 := 7]" net_example 36] by simp
qed

text \<open>
  Printing a client identifier and parsing it back gives the same bytes: for up to \<open>out_max\<close> bytes and a
  buffer of three characters per byte, \<open>duid_bin_to_hex\<close> succeeds and \<open>duid_hex_to_bin\<close> inverts it.
\<close>

lemma duid_roundtrip:
  assumes "bs \<noteq> []" "length bs \<le> out_max" "3 * length bs \<le> out_sz"
  shows "fst (duid_bin_to_hex bs out_sz) = int (3 * length bs - 1)
    \<and> duid_hex_to_bin (snd (duid_bin_to_hex bs out_sz)) out_max = (int (length bs), bs)"
  using assms duid_scan_hex [of "[]" bs out_max] length_hex_bytes [of bs]
  by (cases "length bs") (auto simp: duid_bin_to_hex_def duid_hex_to_bin_def Let_def)

end
