(* ===== verification/Leases_V6.thy ===== *)
theory Leases_V6
  imports Utils_V6 Keyed_Table
begin

text \<open>
  The lease database of the DHCPv6 server (include/leases6.h, sources/leases6.c): bindings of addresses
  (IA_NA) and of delegated prefixes (IA_PD) in one table.  The text forms of the addresses, which only
  log messages use, are left out.  Names that the DHCPv4 database has too carry the suffix or prefix 6.
  Writing the lease file is the parameter \<open>io\<close> (whether \<open>lease_v6_db_save\<close> succeeds); the file
  itself is the subject of \<open>Lease_File_V6\<close>.
\<close>

named_theorems lease6_simps \<open>what the operations do to one lease\<close>

section \<open>Definitions\<close>

subsection \<open>Data\<close>

datatype lease_v6_type_t = Lease6_IA_NA | Lease6_IA_PD

datatype lease_state6_t = LEASE6_FREE | LEASE6_ACTIVE | LEASE6_EXPIRED | LEASE6_RELEASED
  | LEASE6_ABANDONED | LEASE6_RESERVED | LEASE6_BACKUP

record dhcpv6_lease_t =
  in_use6 :: bool
  type6 :: lease_v6_type_t
  duid6 :: "u8 list"
  duid_len6 :: u16
  iaid6 :: u32
  ip6_addr :: in6_addr
  prefix_v6 :: in6_addr
  plen6 :: u8
  starts6 :: time_t
  ends6 :: time_t
  tstp6 :: time_t
  cltt6 :: time_t
  client_hostname6 :: string
  state6 :: lease_state6_t
  next_state6 :: lease_state6_t
  rewind_state6 :: lease_state6_t
  binding_state6 :: string
  vendor_class6 :: string
  fqdn6 :: string

record lease_v6_db_t =
  filename6 :: string
  capacity6 :: u32
  leases6 :: "dhcpv6_lease_t list"

abbreviation LEASES6_MAX :: nat where "LEASES6_MAX \<equiv> 4096"

definition zero_lease6 :: dhcpv6_lease_t where
  "zero_lease6 = \<lparr>in_use6 = False, type6 = Lease6_IA_NA, duid6 = replicate 128 0, duid_len6 = 0, iaid6 = 0,
     ip6_addr = replicate 16 0, prefix_v6 = replicate 16 0, plen6 = 0, starts6 = 0, ends6 = 0, tstp6 = 0,
     cltt6 = 0, client_hostname6 = [], state6 = LEASE6_FREE, next_state6 = LEASE6_FREE,
     rewind_state6 = LEASE6_FREE, binding_state6 = [], vendor_class6 = [], fqdn6 = []\<rparr>"

definition lease_v6_state_to_string :: "lease_state6_t \<Rightarrow> string" where
  "lease_v6_state_to_string s = (case s of
     LEASE6_FREE \<Rightarrow> ''free'' | LEASE6_ACTIVE \<Rightarrow> ''active'' | LEASE6_EXPIRED \<Rightarrow> ''expired''
   | LEASE6_RELEASED \<Rightarrow> ''released'' | LEASE6_ABANDONED \<Rightarrow> ''abandoned'' | LEASE6_RESERVED \<Rightarrow> ''reserved''
   | LEASE6_BACKUP \<Rightarrow> ''backup'')"

definition lease_v6_state_from_string :: "string \<Rightarrow> lease_state6_t" where
  "lease_v6_state_from_string s =
     (if s = ''free'' then LEASE6_FREE else if s = ''active'' then LEASE6_ACTIVE
      else if s = ''expired'' then LEASE6_EXPIRED else if s = ''released'' then LEASE6_RELEASED
      else if s = ''abandoned'' then LEASE6_ABANDONED else if s = ''reserved'' then LEASE6_RESERVED
      else if s = ''backup'' then LEASE6_BACKUP else LEASE6_FREE)"

definition lease_v6_is_expired :: "time_t \<Rightarrow> dhcpv6_lease_t \<Rightarrow> bool" where
  "lease_v6_is_expired now L \<longleftrightarrow> state6 L = LEASE6_ACTIVE \<and> ends6 L < now"

definition lease_v6_db_init :: "string \<Rightarrow> lease_v6_db_t" where
  "lease_v6_db_init path = \<lparr>filename6 = take 511 path, capacity6 = 128, leases6 = []\<rparr>"

definition lease_v6_db_free :: "lease_v6_db_t \<Rightarrow> lease_v6_db_t" where
  "lease_v6_db_free db = \<lparr>filename6 = [], capacity6 = 0, leases6 = []\<rparr>"

subsection \<open>Look-ups\<close>

definition lease_v6_find_by_ip :: "lease_v6_db_t \<Rightarrow> in6_addr \<Rightarrow> nat option" where
  "lease_v6_find_by_ip db ip =
     find_idx (\<lambda>L. \<not> (\<not> in_use6 L \<or> type6 L \<noteq> Lease6_IA_NA) \<and> ip6_addr L = ip) (leases6 db)"

definition lease_v6_find_by_prefix :: "lease_v6_db_t \<Rightarrow> in6_addr \<Rightarrow> u8 \<Rightarrow> nat option" where
  "lease_v6_find_by_prefix db pfx plen =
     find_idx (\<lambda>L. \<not> (\<not> in_use6 L \<or> type6 L \<noteq> Lease6_IA_PD) \<and> plen6 L = plen \<and> prefix_v6 L = pfx) (leases6 db)"

definition lease_v6_find_by_duid_iaid ::
    "lease_v6_db_t \<Rightarrow> u8 list \<Rightarrow> u16 \<Rightarrow> u32 \<Rightarrow> lease_v6_type_t \<Rightarrow> nat option" where
  "lease_v6_find_by_duid_iaid db duid duid_len iaid ty =
     find_idx (\<lambda>L. \<not> (\<not> in_use6 L \<or> type6 L \<noteq> ty) \<and> iaid6 L = iaid \<and> duid_len6 L = duid_len
       \<and> take (unat duid_len) (duid6 L) = take (unat duid_len) duid) (leases6 db)"

subsection \<open>Adding\<close>

definition set_row :: "nat \<Rightarrow> dhcpv6_lease_t \<Rightarrow> lease_v6_db_t \<Rightarrow> lease_v6_db_t" where
  "set_row i L db = db\<lparr>leases6 := (leases6 db)[i := L]\<rparr>"

text \<open>The row found, or a cleared one at the end of the table; None when the table is full.\<close>

definition row_or_new :: "nat option \<Rightarrow> lease_v6_db_t \<Rightarrow> (nat \<times> lease_v6_db_t) option" where
  "row_or_new found db = (case found of
     Some i \<Rightarrow> Some (i, db)
   | None \<Rightarrow>
       if length (leases6 db) \<ge> LEASES6_MAX then None
       else Some (length (leases6 db), db\<lparr>leases6 := leases6 db @ [zero_lease6]\<rparr>))"

text \<open>Storing a client identifier: also a failing conversion overwrites the bytes it has read.\<close>

definition set_duid :: "string \<Rightarrow> dhcpv6_lease_t \<Rightarrow> bool \<times> dhcpv6_lease_t" where
  "set_duid duid_hex L =
     (let (n, bs) = duid_hex_to_bin duid_hex 128;
          L1 = L\<lparr>duid6 := bs @ drop (length bs) (duid6 L)\<rparr>
      in if n < 0 then (False, L1) else (True, L1\<lparr>duid_len6 := word_of_int n\<rparr>))"

definition set_hostname :: "string option \<Rightarrow> dhcpv6_lease_t \<Rightarrow> dhcpv6_lease_t" where
  "set_hostname hostname_opt L = (case hostname_opt of
     None \<Rightarrow> L | Some h \<Rightarrow> L\<lparr>client_hostname6 := take 127 h\<rparr>)"

definition active_lease6 ::
    "time_t \<Rightarrow> u32 \<Rightarrow> u32 \<Rightarrow> string option \<Rightarrow> dhcpv6_lease_t \<Rightarrow> dhcpv6_lease_t" where
  "active_lease6 now iaid lease_secs hostname_opt L =
     set_hostname hostname_opt (L\<lparr>iaid6 := iaid, starts6 := now, ends6 := now + uint lease_secs, tstp6 := now,
       cltt6 := now, state6 := LEASE6_ACTIVE\<rparr>)"

definition lease_v6_add_ia_na ::
    "time_t \<Rightarrow> lease_v6_db_t \<Rightarrow> string \<Rightarrow> u32 \<Rightarrow> in6_addr \<Rightarrow> u32 \<Rightarrow> string option \<Rightarrow> nat option \<times> lease_v6_db_t" where
  "lease_v6_add_ia_na now db duid_hex iaid ip lease_secs hostname_opt =
     (case row_or_new (find_idx (\<lambda>L. in_use6 L \<and> type6 L = Lease6_IA_NA \<and> ip6_addr L = ip) (leases6 db)) db of
        None \<Rightarrow> (None, db)
      | Some (i, db1) \<Rightarrow>
          let L1 = (leases6 db1 ! i)\<lparr>in_use6 := True, type6 := Lease6_IA_NA\<rparr>;
              (ok, L2) = (if duid_hex \<noteq> [] then set_duid duid_hex L1 else (True, L1))
          in if \<not> ok then (None, set_row i L2 db1)
             else (Some i, set_row i (active_lease6 now iaid lease_secs hostname_opt (L2\<lparr>ip6_addr := ip\<rparr>)) db1))"

definition lease_v6_add_ia_pd ::
    "time_t \<Rightarrow> lease_v6_db_t \<Rightarrow> string \<Rightarrow> u32 \<Rightarrow> in6_addr \<Rightarrow> u8 \<Rightarrow> u32 \<Rightarrow> string option
     \<Rightarrow> nat option \<times> lease_v6_db_t" where
  "lease_v6_add_ia_pd now db duid_hex iaid prefix_base plen lease_secs hostname_opt =
     (case row_or_new (find_idx (\<lambda>L. in_use6 L \<and> type6 L = Lease6_IA_PD \<and> plen6 L = plen
           \<and> prefix_v6 L = prefix_base) (leases6 db)) db of
        None \<Rightarrow> (None, db)
      | Some (i, db1) \<Rightarrow>
          let L1 = (leases6 db1 ! i)\<lparr>in_use6 := True, type6 := Lease6_IA_PD\<rparr>;
              (ok, L2) = (if duid_hex \<noteq> [] then set_duid duid_hex L1 else (True, L1))
          in if \<not> ok then (None, set_row i L2 db1)
             else (Some i, set_row i (active_lease6 now iaid lease_secs hostname_opt
                    (L2\<lparr>prefix_v6 := prefix_base, plen6 := plen\<rparr>)) db1))"

subsection \<open>State changes\<close>

text \<open>The return value of an operation that ends with saving the database.\<close>

abbreviation saved :: "bool \<Rightarrow> int" where "saved io \<equiv> (if io then 0 else -1)"

definition released_lease6 :: "time_t \<Rightarrow> dhcpv6_lease_t \<Rightarrow> dhcpv6_lease_t" where
  "released_lease6 now L = L\<lparr>state6 := LEASE6_RELEASED, ends6 := now\<rparr>"

definition renewed_lease6 :: "time_t \<Rightarrow> u32 \<Rightarrow> dhcpv6_lease_t \<Rightarrow> dhcpv6_lease_t" where
  "renewed_lease6 now lease_secs L =
     L\<lparr>starts6 := now, ends6 := now + uint lease_secs, state6 := LEASE6_ACTIVE\<rparr>"

definition change_row ::
    "bool \<Rightarrow> nat option \<Rightarrow> (dhcpv6_lease_t \<Rightarrow> dhcpv6_lease_t) \<Rightarrow> lease_v6_db_t \<Rightarrow> int \<times> lease_v6_db_t" where
  "change_row io found f db = (case found of
     None \<Rightarrow> (-1, db) | Some i \<Rightarrow> (saved io, set_row i (f (leases6 db ! i)) db))"

definition lease_v6_release_ip :: "bool \<Rightarrow> time_t \<Rightarrow> lease_v6_db_t \<Rightarrow> in6_addr \<Rightarrow> int \<times> lease_v6_db_t" where
  "lease_v6_release_ip io now db ip = change_row io (lease_v6_find_by_ip db ip) (released_lease6 now) db"

definition lease_v6_release_prefix ::
    "bool \<Rightarrow> time_t \<Rightarrow> lease_v6_db_t \<Rightarrow> in6_addr \<Rightarrow> u8 \<Rightarrow> int \<times> lease_v6_db_t" where
  "lease_v6_release_prefix io now db pfx plen =
     change_row io (lease_v6_find_by_prefix db pfx plen) (released_lease6 now) db"

definition lease_v6_renew_ip ::
    "bool \<Rightarrow> time_t \<Rightarrow> lease_v6_db_t \<Rightarrow> in6_addr \<Rightarrow> u32 \<Rightarrow> int \<times> lease_v6_db_t" where
  "lease_v6_renew_ip io now db ip lease_secs =
     change_row io (lease_v6_find_by_ip db ip) (renewed_lease6 now lease_secs) db"

definition lease_v6_renew_prefix ::
    "bool \<Rightarrow> time_t \<Rightarrow> lease_v6_db_t \<Rightarrow> in6_addr \<Rightarrow> u8 \<Rightarrow> u32 \<Rightarrow> int \<times> lease_v6_db_t" where
  "lease_v6_renew_prefix io now db pfx plen lease_secs =
     change_row io (lease_v6_find_by_prefix db pfx plen) (renewed_lease6 now lease_secs) db"

text \<open>The loop: the number of leases that expired and the table.\<close>

fun expire6_loop :: "time_t \<Rightarrow> dhcpv6_lease_t list \<Rightarrow> nat \<times> dhcpv6_lease_t list" where
  "expire6_loop now [] = (0, [])"
| "expire6_loop now (L # Ls) =
     (let (n, Ls') = expire6_loop now Ls
      in if \<not> in_use6 L then (n, L # Ls')
         else if state6 L = LEASE6_ACTIVE \<and> ends6 L < now then (n + 1, L\<lparr>state6 := LEASE6_EXPIRED\<rparr> # Ls')
         else (n, L # Ls'))"

definition lease_v6_mark_expired_older :: "time_t \<Rightarrow> lease_v6_db_t \<Rightarrow> int \<times> lease_v6_db_t" where
  "lease_v6_mark_expired_older now db =
     (case expire6_loop now (leases6 db) of (n, Ls) \<Rightarrow> (int n, db\<lparr>leases6 := Ls\<rparr>))"

definition is_dead6 :: "dhcpv6_lease_t \<Rightarrow> bool" where
  "is_dead6 L \<longleftrightarrow> in_use6 L \<and> (state6 L = LEASE6_EXPIRED \<or> state6 L = LEASE6_RELEASED)"

function cleanup6_loop :: "nat \<Rightarrow> nat \<Rightarrow> dhcpv6_lease_t list \<Rightarrow> nat \<times> dhcpv6_lease_t list" where
  "cleanup6_loop i removed Ls =
     (if i < length Ls then
        if is_dead6 (Ls ! i) then cleanup6_loop i (removed + 1) (take i Ls @ drop (i + 1) Ls)
        else cleanup6_loop (i + 1) removed Ls
      else (removed, Ls))"
  by pat_completeness auto

termination cleanup6_loop
  by (relation "measure (\<lambda>(i, _, Ls). length Ls - i)") auto

declare cleanup6_loop.simps [simp del]

definition lease_v6_cleanup :: "lease_v6_db_t \<Rightarrow> int \<times> lease_v6_db_t" where
  "lease_v6_cleanup db =
     (case cleanup6_loop 0 0 (leases6 db) of (removed, Ls) \<Rightarrow> (int removed, db\<lparr>leases6 := Ls\<rparr>))"

definition reserved_lease6 :: "time_t \<Rightarrow> u32 \<Rightarrow> string option \<Rightarrow> dhcpv6_lease_t \<Rightarrow> dhcpv6_lease_t" where
  "reserved_lease6 now iaid hostname L =
     (set_hostname hostname (L\<lparr>iaid6 := iaid\<rparr>))\<lparr>starts6 := now, ends6 := now + 86400, tstp6 := now, cltt6 := now,
       state6 := LEASE6_RESERVED, next_state6 := LEASE6_FREE, rewind_state6 := LEASE6_FREE\<rparr>"

text \<open>A row that was made for an address.\<close>

definition address_row :: "nat option \<Rightarrow> in6_addr \<Rightarrow> lease_v6_db_t \<Rightarrow> (nat \<times> lease_v6_db_t) option" where
  "address_row found ip db = (case row_or_new found db of
     None \<Rightarrow> None
   | Some (i, db1) \<Rightarrow>
       Some (i, if found = None
         then set_row i ((leases6 db1 ! i)\<lparr>in_use6 := True, type6 := Lease6_IA_NA, ip6_addr := ip\<rparr>) db1 else db1))"

definition lease_v6_mark_reserved ::
    "bool \<Rightarrow> time_t \<Rightarrow> lease_v6_db_t \<Rightarrow> in6_addr \<Rightarrow> string \<Rightarrow> u32 \<Rightarrow> string option \<Rightarrow> int \<times> lease_v6_db_t" where
  "lease_v6_mark_reserved io now db ip6 duid_hex iaid hostname =
     (case address_row (lease_v6_find_by_ip db ip6) ip6 db of
        None \<Rightarrow> (-1, db)
      | Some (i, db1) \<Rightarrow>
          let (ok, L1) = set_duid duid_hex (leases6 db1 ! i)
          in if \<not> ok then (-1, set_row i L1 db1)
             else (saved io, set_row i (reserved_lease6 now iaid hostname L1) db1))"

definition state_set6 :: "time_t \<Rightarrow> lease_state6_t \<Rightarrow> dhcpv6_lease_t \<Rightarrow> dhcpv6_lease_t" where
  "state_set6 now new_state L =
     L\<lparr>state6 := new_state,
       starts6 := (if starts6 L = 0 then now else starts6 L),
       ends6 :=
         (if new_state = LEASE6_ACTIVE then (if ends6 L = 0 \<or> ends6 L < now then now + 3600 else ends6 L)
          else if new_state = LEASE6_RESERVED then (if ends6 L = 0 \<or> ends6 L < now then now + 86400 else ends6 L)
          else now)\<rparr>"

definition lease_v6_set_state ::
    "bool \<Rightarrow> time_t \<Rightarrow> lease_v6_db_t \<Rightarrow> in6_addr \<Rightarrow> lease_state6_t \<Rightarrow> int \<times> lease_v6_db_t" where
  "lease_v6_set_state io now db ip new_state =
     (let found = lease_v6_find_by_ip db ip
      in if found = None \<and> \<not> (new_state = LEASE6_ACTIVE \<or> new_state = LEASE6_RESERVED) then (0, db)
         else case address_row found ip db of
             None \<Rightarrow> (-1, db)
           | Some (i, db1) \<Rightarrow> (saved io, set_row i (state_set6 now new_state (leases6 db1 ! i)) db1))"

definition lease_v6_mark_conflict :: "bool \<Rightarrow> time_t \<Rightarrow> lease_v6_db_t \<Rightarrow> in6_addr \<Rightarrow> int \<times> lease_v6_db_t" where
  "lease_v6_mark_conflict io now db ip = lease_v6_set_state io now db ip LEASE6_ABANDONED"

subsection \<open>The contract\<close>

text \<open>
  What the database promises: a finite map from addresses and prefixes to leases.  A sequence of
  operations on the table has the effect of the corresponding operations on the map.
\<close>

datatype resource = Addr in6_addr | Pfx in6_addr u8

definition key6 :: "dhcpv6_lease_t \<Rightarrow> resource option" where
  "key6 L = (if \<not> in_use6 L then None
     else Some (case type6 L of Lease6_IA_NA \<Rightarrow> Addr (ip6_addr L) | Lease6_IA_PD \<Rightarrow> Pfx (prefix_v6 L) (plen6 L)))"

type_synonym lease6_spec = "resource \<Rightarrow> dhcpv6_lease_t option"

definition db6_abs :: "lease_v6_db_t \<Rightarrow> lease6_spec" where
  "db6_abs db r = map_of (key_rows key6 (leases6 db)) (Some r)"

definition db6_wf :: "lease_v6_db_t \<Rightarrow> bool" where
  "db6_wf db \<longleftrightarrow> length (leases6 db) \<le> LEASES6_MAX \<and> distinct (map key6 (leases6 db))
     \<and> list_all (\<lambda>L. in_use6 L \<and> length (duid6 L) = 128) (leases6 db)"

datatype db6_cmd = AddNA string u32 in6_addr u32 "string option"
  | AddPD string u32 in6_addr u8 u32 "string option"
  | ReleaseIp in6_addr | ReleasePrefix in6_addr u8 | RenewIp in6_addr u32 | RenewPrefix in6_addr u8 u32
  | MarkExpired | CleanupDb | MarkReserved in6_addr string u32 "string option" | SetState in6_addr lease_state6_t

fun db6_exec :: "bool \<Rightarrow> time_t \<Rightarrow> db6_cmd \<Rightarrow> lease_v6_db_t \<Rightarrow> lease_v6_db_t" where
  "db6_exec io now (AddNA hex iaid ip t h) db = snd (lease_v6_add_ia_na now db hex iaid ip t h)"
| "db6_exec io now (AddPD hex iaid p l t h) db = snd (lease_v6_add_ia_pd now db hex iaid p l t h)"
| "db6_exec io now (ReleaseIp ip) db = snd (lease_v6_release_ip io now db ip)"
| "db6_exec io now (ReleasePrefix p l) db = snd (lease_v6_release_prefix io now db p l)"
| "db6_exec io now (RenewIp ip t) db = snd (lease_v6_renew_ip io now db ip t)"
| "db6_exec io now (RenewPrefix p l t) db = snd (lease_v6_renew_prefix io now db p l t)"
| "db6_exec io now MarkExpired db = snd (lease_v6_mark_expired_older now db)"
| "db6_exec io now CleanupDb db = snd (lease_v6_cleanup db)"
| "db6_exec io now (MarkReserved ip hex iaid h) db = snd (lease_v6_mark_reserved io now db ip hex iaid h)"
| "db6_exec io now (SetState ip s) db = snd (lease_v6_set_state io now db ip s)"

text \<open>The client identifiers in the commands are well formed (at most 128 bytes in hexadecimal).\<close>

definition duid_text_ok :: "string \<Rightarrow> bool" where
  "duid_text_ok hex \<longleftrightarrow> fst (duid_hex_to_bin hex 128) \<ge> 0"

fun db6_cmd_ok :: "db6_cmd \<Rightarrow> bool" where
  "db6_cmd_ok (AddNA hex iaid ip t h) \<longleftrightarrow> duid_text_ok hex"
| "db6_cmd_ok (AddPD hex iaid p l t h) \<longleftrightarrow> duid_text_ok hex"
| "db6_cmd_ok (MarkReserved ip hex iaid h) \<longleftrightarrow> duid_text_ok hex"
| "db6_cmd_ok _ \<longleftrightarrow> True"

text \<open>
  The operations on the map.  \<open>upsert6\<close> changes the lease of a resource; a resource without one gets a
  cleared lease first, unless the table is full.
\<close>

definition blank6 :: "resource \<Rightarrow> dhcpv6_lease_t" where
  "blank6 r = (case r of
     Addr ip \<Rightarrow> zero_lease6\<lparr>in_use6 := True, type6 := Lease6_IA_NA, ip6_addr := ip\<rparr>
   | Pfx p l \<Rightarrow> zero_lease6\<lparr>in_use6 := True, type6 := Lease6_IA_PD, prefix_v6 := p, plen6 := l\<rparr>)"

definition upsert6 ::
    "resource \<Rightarrow> (dhcpv6_lease_t \<Rightarrow> dhcpv6_lease_t) \<Rightarrow> lease6_spec \<Rightarrow> lease6_spec" where
  "upsert6 r g f = (case f r of
     Some L \<Rightarrow> f(r \<mapsto> g L)
   | None \<Rightarrow> if card (dom f) < LEASES6_MAX then f(r \<mapsto> g (blank6 r)) else f)"

definition with_duid :: "string \<Rightarrow> dhcpv6_lease_t \<Rightarrow> dhcpv6_lease_t" where
  "with_duid hex L = (if hex = [] then L else snd (set_duid hex L))"

definition expired_lease6 :: "time_t \<Rightarrow> dhcpv6_lease_t \<Rightarrow> dhcpv6_lease_t" where
  "expired_lease6 now L = (if lease_v6_is_expired now L then L\<lparr>state6 := LEASE6_EXPIRED\<rparr> else L)"

fun spec6_exec :: "time_t \<Rightarrow> db6_cmd \<Rightarrow> lease6_spec \<Rightarrow> lease6_spec" where
  "spec6_exec now (AddNA hex iaid ip t h) f = upsert6 (Addr ip) (\<lambda>L. active_lease6 now iaid t h (with_duid hex L)) f"
| "spec6_exec now (AddPD hex iaid p l t h) f = upsert6 (Pfx p l) (\<lambda>L. active_lease6 now iaid t h (with_duid hex L)) f"
| "spec6_exec now (ReleaseIp ip) f = f(Addr ip := map_option (released_lease6 now) (f (Addr ip)))"
| "spec6_exec now (ReleasePrefix p l) f = f(Pfx p l := map_option (released_lease6 now) (f (Pfx p l)))"
| "spec6_exec now (RenewIp ip t) f = f(Addr ip := map_option (renewed_lease6 now t) (f (Addr ip)))"
| "spec6_exec now (RenewPrefix p l t) f = f(Pfx p l := map_option (renewed_lease6 now t) (f (Pfx p l)))"
| "spec6_exec now MarkExpired f = (\<lambda>r. map_option (expired_lease6 now) (f r))"
| "spec6_exec now CleanupDb f = (\<lambda>r. case f r of None \<Rightarrow> None | Some L \<Rightarrow> if is_dead6 L then None else Some L)"
| "spec6_exec now (MarkReserved ip hex iaid h) f =
     upsert6 (Addr ip) (\<lambda>L. reserved_lease6 now iaid h (snd (set_duid hex L))) f"
| "spec6_exec now (SetState ip s) f =
     (if f (Addr ip) = None \<and> s \<noteq> LEASE6_ACTIVE \<and> s \<noteq> LEASE6_RESERVED then f
      else upsert6 (Addr ip) (state_set6 now s) f)"

fun db6_run :: "(bool \<times> time_t \<times> db6_cmd) list \<Rightarrow> lease_v6_db_t \<Rightarrow> lease_v6_db_t" where
  "db6_run [] db = db"
| "db6_run ((io, now, c) # cs) db = db6_run cs (db6_exec io now c db)"

fun spec6_run :: "(bool \<times> time_t \<times> db6_cmd) list \<Rightarrow> lease6_spec \<Rightarrow> lease6_spec" where
  "spec6_run [] f = f"
| "spec6_run ((io, now, c) # cs) f = spec6_run cs (spec6_exec now c f)"

section \<open>Lemmas\<close>

subsection \<open>Look-ups\<close>

lemma key6_Addr: "key6 L = Some (Addr ip) \<longleftrightarrow> in_use6 L \<and> type6 L = Lease6_IA_NA \<and> ip6_addr L = ip"
  by (auto simp: key6_def split: lease_v6_type_t.split)

lemma key6_Pfx:
  "key6 L = Some (Pfx p l) \<longleftrightarrow> in_use6 L \<and> type6 L = Lease6_IA_PD \<and> plen6 L = l \<and> prefix_v6 L = p"
  by (auto simp: key6_def split: lease_v6_type_t.split)

text \<open>The two look-ups as one, by the resource.\<close>

definition find_resource :: "lease_v6_db_t \<Rightarrow> resource option \<Rightarrow> nat option" where
  "find_resource db k = (case k of
     None \<Rightarrow> None
   | Some (Addr ip) \<Rightarrow> lease_v6_find_by_ip db ip
   | Some (Pfx p l) \<Rightarrow> lease_v6_find_by_prefix db p l)"

lemma find_resource_idx: "find_resource db (Some r) = find_idx (\<lambda>L. key6 L = Some r) (leases6 db)"
  by (cases r) (simp_all add: find_resource_def lease_v6_find_by_ip_def lease_v6_find_by_prefix_def key6_Addr key6_Pfx)

lemma find_idx_resource:
  "find_idx (\<lambda>L. in_use6 L \<and> type6 L = Lease6_IA_NA \<and> ip6_addr L = ip) (leases6 db) = find_resource db (Some (Addr ip))"
  "find_idx (\<lambda>L. in_use6 L \<and> type6 L = Lease6_IA_PD \<and> plen6 L = l \<and> prefix_v6 L = p) (leases6 db)
   = find_resource db (Some (Pfx p l))"
  "lease_v6_find_by_ip db ip = find_resource db (Some (Addr ip))"
  "lease_v6_find_by_prefix db p l = find_resource db (Some (Pfx p l))"
  unfolding find_resource_idx key6_Addr key6_Pfx
  by (simp_all add: lease_v6_find_by_ip_def lease_v6_find_by_prefix_def)

interpretation by_resource: keyed_table leases6 key6 "\<lambda>k. k \<noteq> None" find_resource
proof unfold_locales
  fix db k i
  assume a: "find_resource db k = Some i"
  then obtain r where k: "k = Some r" by (cases k) (auto simp: find_resource_def)
  then show "i < length (leases6 db) \<and> key6 (leases6 db ! i) = k \<and> (\<forall>j < i. key6 (leases6 db ! j) \<noteq> k)"
    using a find_idx_SomeD [of "\<lambda>L. key6 L = Some r" "leases6 db" i] by (auto simp: find_resource_idx)
next
  fix db k
  assume "k \<noteq> None" "find_resource db k = None"
  then show "k \<notin> key6 ` set (leases6 db)" by (cases k) (auto simp: find_resource_idx find_idx_None)
qed

subsection \<open>The map of the table\<close>

lemma db6_wf_dom: "db6_wf db \<Longrightarrow> card (dom (db6_abs db)) = length (leases6 db)"
proof -
  assume wf: "db6_wf db"
  let ?m = "map_of (key_rows key6 (leases6 db))"
  have "None \<notin> dom ?m"
    using wf by (auto simp: dom_key_rows db6_wf_def key6_def list_all_iff)
  then have "dom ?m = Some ` dom (db6_abs db)"
    by (auto simp: db6_abs_def dom_def image_iff) (metis not_None_eq)
  then show ?thesis
    using card_key_rows [of key6 "leases6 db"] wf by (simp add: card_image db6_wf_def)
qed

lemma db6_abs_found: "find_resource db (Some r) = Some i \<Longrightarrow> db6_abs db r = Some (leases6 db ! i)"
  using key_rows_find [of "leases6 db" key6 "Some r"] by (simp add: db6_abs_def find_resource_idx)

lemma db6_abs_absent: "find_resource db (Some r) = None \<Longrightarrow> db6_abs db r = None"
  using key_rows_find [of "leases6 db" key6 "Some r"] by (simp add: db6_abs_def find_resource_idx)

text \<open>Rewriting the row of a resource, and adding one.\<close>

lemma set_row_refines:
  assumes "db6_wf db" "find_resource db (Some r) = Some i" "key6 L = Some r" "length (duid6 L) = 128"
  shows "db6_wf (set_row i L db)" "db6_abs (set_row i L db) = (db6_abs db)(r \<mapsto> L)"
proof -
  have i: "i < length (leases6 db)" "key6 (leases6 db ! i) = Some r"
    using by_resource.find_first [OF assms(2)] by auto
  have "in_use6 L" using assms(3) by (auto simp: key6_def split: if_splits)
  then show "db6_wf (set_row i L db)"
    using assms(1,3,4) i map_update_same [of i "leases6 db" key6 L]
    by (auto simp: db6_wf_def set_row_def list_all_iff dest!: set_update_subset_insert [THEN subsetD])
  show "db6_abs (set_row i L db) = (db6_abs db)(r \<mapsto> L)"
    using key_rows_update [OF assms(2) [unfolded find_resource_idx] assms(3)]
    by (auto simp: db6_abs_def set_row_def)
qed

lemma add_row_refines:
  assumes "db6_wf db" "find_resource db (Some r) = None" "key6 L = Some r" "length (duid6 L) = 128"
    and "length (leases6 db) < LEASES6_MAX"
  shows "db6_wf (db\<lparr>leases6 := leases6 db @ [L]\<rparr>)" "db6_abs (db\<lparr>leases6 := leases6 db @ [L]\<rparr>) = (db6_abs db)(r \<mapsto> L)"
proof -
  have n: "Some r \<notin> key6 ` set (leases6 db)" using by_resource.find_absent [OF _ assms(2)] by simp
  have "in_use6 L" using assms(3) by (auto simp: key6_def split: if_splits)
  then show "db6_wf (db\<lparr>leases6 := leases6 db @ [L]\<rparr>)" using assms n by (auto simp: db6_wf_def)
  show "db6_abs (db\<lparr>leases6 := leases6 db @ [L]\<rparr>) = (db6_abs db)(r \<mapsto> L)"
    using key_rows_append [OF n assms(3)] by (auto simp: db6_abs_def)
qed

subsection \<open>Single rows\<close>

text \<open>What the key of a row depends on.\<close>

lemma key6_same:
  "in_use6 L' = in_use6 L \<Longrightarrow> type6 L' = type6 L \<Longrightarrow> ip6_addr L' = ip6_addr L \<Longrightarrow> prefix_v6 L' = prefix_v6 L
   \<Longrightarrow> plen6 L' = plen6 L \<Longrightarrow> key6 L' = key6 L"
  by (simp add: key6_def split: lease_v6_type_t.split)

lemma set_duid_fields [lease6_simps]: "key6 (snd (set_duid hex L)) = key6 L"
  by (rule key6_same) (simp_all add: set_duid_def Let_def split: prod.split)

lemma set_duid_length [lease6_simps]:
  "length (duid6 L) = 128 \<Longrightarrow> length (duid6 (snd (set_duid hex L))) = 128"
  using duid_hex_to_bin_length [of hex 128]
  by (simp add: set_duid_def Let_def split: prod.split)

lemma set_duid_ok [lease6_simps]: "duid_text_ok hex \<Longrightarrow> fst (set_duid hex L)"
  by (auto simp: set_duid_def duid_text_ok_def Let_def split: prod.split)

lemma set_duid_pair: "duid_text_ok hex \<Longrightarrow> (if hex \<noteq> [] then set_duid hex L else (True, L)) = (True, with_duid hex L)"
  using set_duid_ok [of hex L] by (simp add: with_duid_def prod_eq_iff)

lemma with_duid_fields [lease6_simps]:
  "key6 (with_duid hex L) = key6 L" "length (duid6 L) = 128 \<Longrightarrow> length (duid6 (with_duid hex L)) = 128"
  by (simp_all add: with_duid_def lease6_simps)

lemma row_changes [lease6_simps]:
  "key6 (active_lease6 now iaid t h L) = key6 L" "duid6 (active_lease6 now iaid t h L) = duid6 L"
  "key6 (released_lease6 now L) = key6 L" "duid6 (released_lease6 now L) = duid6 L"
  "key6 (renewed_lease6 now t L) = key6 L" "duid6 (renewed_lease6 now t L) = duid6 L"
  "key6 (reserved_lease6 now iaid h L) = key6 L" "duid6 (reserved_lease6 now iaid h L) = duid6 L"
  "key6 (state_set6 now s L) = key6 L" "duid6 (state_set6 now s L) = duid6 L"
  "key6 (expired_lease6 now L) = key6 L" "duid6 (expired_lease6 now L) = duid6 L"
  by (rule key6_same | simp add: active_lease6_def released_lease6_def renewed_lease6_def reserved_lease6_def
      state_set6_def expired_lease6_def set_hostname_def split: option.split)+

lemma blank6_fields [lease6_simps]: "key6 (blank6 r) = Some r" "length (duid6 (blank6 r)) = 128"
  by (simp_all add: blank6_def key6_def zero_lease6_def split: resource.split)

subsection \<open>Operations\<close>

text \<open>Every operation on one resource is an \<open>upsert6\<close> or a change of an existing lease.\<close>

lemma upsert6_refines:
  assumes "db6_wf db" and g: "\<And>L. key6 L = Some r \<Longrightarrow> key6 (g L) = Some r"
    "\<And>L. length (duid6 L) = 128 \<Longrightarrow> length (duid6 (g L)) = 128"
    and found: "\<And>i. find_resource db (Some r) = Some i \<Longrightarrow> db' = set_row i (g (leases6 db ! i)) db"
    and new: "find_resource db (Some r) = None \<Longrightarrow> db' = (if length (leases6 db) < LEASES6_MAX
      then db\<lparr>leases6 := leases6 db @ [g (blank6 r)]\<rparr> else db)"
  shows "db6_wf db' \<and> db6_abs db' = upsert6 r g (db6_abs db)"
proof (cases "find_resource db (Some r)")
  case None
  show ?thesis
  proof (cases "length (leases6 db) < LEASES6_MAX")
    case True
    have "db6_wf db' \<and> db6_abs db' = (db6_abs db)(r \<mapsto> g (blank6 r))"
      using new [OF None] True add_row_refines [OF assms(1) None g(1) [OF blank6_fields(1)] g(2) [OF blank6_fields(2)] True]
      by simp
    then show ?thesis
      using True db6_wf_dom [OF assms(1)] db6_abs_absent [OF None] by (simp add: upsert6_def)
  next
    case False
    then show ?thesis
      using new [OF None] assms(1) db6_wf_dom [OF assms(1)] db6_abs_absent [OF None] by (simp add: upsert6_def)
  qed
next
  case (Some i)
  have i: "i < length (leases6 db)" "key6 (leases6 db ! i) = Some r"
    using by_resource.find_first [OF Some] by auto
  then have "length (duid6 (leases6 db ! i)) = 128" using assms(1) by (auto simp: db6_wf_def list_all_iff)
  then show ?thesis
    using set_row_refines [OF assms(1) Some g(1) [OF i(2)] g(2)] found [OF Some] db6_abs_found [OF Some]
    by (simp add: upsert6_def)
qed

lemma change_row_refines:
  assumes "db6_wf db" and "\<And>L. key6 (g L) = key6 L" "\<And>L. duid6 (g L) = duid6 L"
  shows "db6_wf (snd (change_row io (find_resource db (Some r)) g db))
    \<and> db6_abs (snd (change_row io (find_resource db (Some r)) g db))
      = (db6_abs db)(r := map_option g (db6_abs db r))"
proof (cases "find_resource db (Some r)")
  case None
  then show ?thesis
    using assms(1) db6_abs_absent [OF None] by (simp add: change_row_def fun_upd_idem)
next
  case (Some i)
  have i: "i < length (leases6 db)" "key6 (leases6 db ! i) = Some r"
    using by_resource.find_first [OF Some] by auto
  then have "length (duid6 (g (leases6 db ! i))) = 128"
    using assms(1,3) by (auto simp: db6_wf_def list_all_iff)
  then show ?thesis
    using set_row_refines [OF assms(1) Some, of "g (leases6 db ! i)"] assms(2) i db6_abs_found [OF Some] Some
    by (simp add: change_row_def)
qed

lemma expire6_loop_eq:
  "list_all in_use6 Ls \<Longrightarrow> expire6_loop now Ls = (count_if (lease_v6_is_expired now) Ls, map (expired_lease6 now) Ls)"
  by (induction Ls) (auto simp: expired_lease6_def lease_v6_is_expired_def)

lemma cleanup6_loop_eq:
  "i \<le> length Ls \<Longrightarrow> cleanup6_loop i removed Ls =
     (removed + count_if is_dead6 (drop i Ls), take i Ls @ filter (\<lambda>L. \<not> is_dead6 L) (drop i Ls))"
proof (induction i removed Ls rule: cleanup6_loop.induct)
  case (1 i removed Ls)
  show ?case
  proof (cases "i < length Ls")
    case True
    then have d: "drop i Ls = Ls ! i # drop (Suc i) Ls" by (simp add: Cons_nth_drop_Suc)
    show ?thesis
      using 1 True d by (subst cleanup6_loop.simps) (auto simp: take_Suc_conv_app_nth min_def)
  next
    case False
    with 1(3) show ?thesis by (subst cleanup6_loop.simps) auto
  qed
qed

lemma lease_v6_cleanup_eq:
  "lease_v6_cleanup db = (int (count_if is_dead6 (leases6 db)),
     db\<lparr>leases6 := filter (\<lambda>L. \<not> is_dead6 L) (leases6 db)\<rparr>)"
  by (simp add: lease_v6_cleanup_def cleanup6_loop_eq)

lemma lease_v6_expire_eq:
  "list_all in_use6 (leases6 db) \<Longrightarrow> lease_v6_mark_expired_older now db =
     (int (count_if (lease_v6_is_expired now) (leases6 db)), db\<lparr>leases6 := map (expired_lease6 now) (leases6 db)\<rparr>)"
  by (simp add: lease_v6_mark_expired_older_def expire6_loop_eq)

lemma row_or_new_found: "row_or_new (Some i) db = Some (i, db)"
  by (simp add: row_or_new_def)

lemma row_or_new_absent:
  "row_or_new None db = (if length (leases6 db) < LEASES6_MAX
     then Some (length (leases6 db), db\<lparr>leases6 := leases6 db @ [zero_lease6]\<rparr>) else None)"
  by (simp add: row_or_new_def)

lemma found_row_key: "find_resource db (Some r) = Some i \<Longrightarrow> key6 (leases6 db ! i) = Some r"
  by (rule by_resource.find_key)

lemma keyed_row_same:
  "key6 L = Some (Addr ip) \<Longrightarrow> L\<lparr>in_use6 := True, type6 := Lease6_IA_NA\<rparr> = L"
  "key6 L = Some (Addr ip) \<Longrightarrow> L\<lparr>ip6_addr := ip\<rparr> = L"
  "key6 L = Some (Pfx p l) \<Longrightarrow> L\<lparr>in_use6 := True, type6 := Lease6_IA_PD\<rparr> = L"
  "key6 L = Some (Pfx p l) \<Longrightarrow> L\<lparr>prefix_v6 := p, plen6 := l\<rparr> = L"
  by (auto simp: key6_Addr key6_Pfx)

lemma new_row_NA:
  "set_row (length (leases6 db)) L (db\<lparr>leases6 := leases6 db @ [L0]\<rparr>) = db\<lparr>leases6 := leases6 db @ [L]\<rparr>"
  "leases6 (db\<lparr>leases6 := leases6 db @ [L0]\<rparr>) ! length (leases6 db) = L0"
  by (simp_all add: set_row_def list_update_append)

lemma with_duid_ip: "with_duid hex (L\<lparr>ip6_addr := ip\<rparr>) = (with_duid hex L)\<lparr>ip6_addr := ip\<rparr>"
  by (simp add: with_duid_def set_duid_def Let_def split: prod.split)

lemma with_duid_prefix:
  "with_duid hex (L\<lparr>prefix_v6 := p, plen6 := l\<rparr>) = (with_duid hex L)\<lparr>prefix_v6 := p, plen6 := l\<rparr>"
  by (simp add: with_duid_def set_duid_def Let_def split: prod.split)

lemma add_na_refines:
  assumes "db6_wf db" "duid_text_ok hex"
  shows "db6_wf (snd (lease_v6_add_ia_na now db hex iaid ip t h))
    \<and> db6_abs (snd (lease_v6_add_ia_na now db hex iaid ip t h))
      = upsert6 (Addr ip) (\<lambda>L. active_lease6 now iaid t h (with_duid hex L)) (db6_abs db)"
proof (rule upsert6_refines [OF assms(1)])
  fix i
  assume f: "find_resource db (Some (Addr ip)) = Some i"
  let ?L = "leases6 db ! i"
  have k: "key6 ?L = Some (Addr ip)" "key6 (with_duid hex ?L) = Some (Addr ip)"
    using found_row_key [OF f] by (simp_all add: lease6_simps)
  show "snd (lease_v6_add_ia_na now db hex iaid ip t h) = set_row i (active_lease6 now iaid t h (with_duid hex ?L)) db"
    unfolding lease_v6_add_ia_na_def find_idx_resource f row_or_new_found
    by (simp add: keyed_row_same(1) [OF k(1)] keyed_row_same(2) [OF k(2)] set_duid_pair [OF assms(2)])
next
  assume f: "find_resource db (Some (Addr ip)) = None"
  show "snd (lease_v6_add_ia_na now db hex iaid ip t h) = (if length (leases6 db) < LEASES6_MAX
      then db\<lparr>leases6 := leases6 db @ [active_lease6 now iaid t h (with_duid hex (blank6 (Addr ip)))]\<rparr> else db)"
    unfolding lease_v6_add_ia_na_def find_idx_resource f row_or_new_absent
    by (simp add: new_row_NA set_duid_pair [OF assms(2)] blank6_def with_duid_ip del: list_update_append)
qed (simp_all add: lease6_simps)

lemma add_pd_refines:
  assumes "db6_wf db" "duid_text_ok hex"
  shows "db6_wf (snd (lease_v6_add_ia_pd now db hex iaid p l t h))
    \<and> db6_abs (snd (lease_v6_add_ia_pd now db hex iaid p l t h))
      = upsert6 (Pfx p l) (\<lambda>L. active_lease6 now iaid t h (with_duid hex L)) (db6_abs db)"
proof (rule upsert6_refines [OF assms(1)])
  fix i
  assume f: "find_resource db (Some (Pfx p l)) = Some i"
  let ?L = "leases6 db ! i"
  have k: "key6 ?L = Some (Pfx p l)" "key6 (with_duid hex ?L) = Some (Pfx p l)"
    using found_row_key [OF f] by (simp_all add: lease6_simps)
  show "snd (lease_v6_add_ia_pd now db hex iaid p l t h) = set_row i (active_lease6 now iaid t h (with_duid hex ?L)) db"
    unfolding lease_v6_add_ia_pd_def find_idx_resource f row_or_new_found
    by (simp add: keyed_row_same(3) [OF k(1)] keyed_row_same(4) [OF k(2)] set_duid_pair [OF assms(2)])
next
  assume f: "find_resource db (Some (Pfx p l)) = None"
  show "snd (lease_v6_add_ia_pd now db hex iaid p l t h) = (if length (leases6 db) < LEASES6_MAX
      then db\<lparr>leases6 := leases6 db @ [active_lease6 now iaid t h (with_duid hex (blank6 (Pfx p l)))]\<rparr> else db)"
    unfolding lease_v6_add_ia_pd_def find_idx_resource f row_or_new_absent
    by (simp add: new_row_NA set_duid_pair [OF assms(2)] blank6_def with_duid_prefix del: list_update_append)
qed (simp_all add: lease6_simps)

text \<open>When an addition succeeds, and the client identifier that the lease then has.\<close>

lemma add_na_ok:
  assumes "duid_text_ok hex" "length (leases6 db) < LEASES6_MAX"
  shows "fst (lease_v6_add_ia_na now db hex iaid ip t h) \<noteq> None"
  using assms(2)
  by (cases "find_resource db (Some (Addr ip))")
    (simp_all add: lease_v6_add_ia_na_def find_idx_resource row_or_new_found row_or_new_absent
      set_duid_pair [OF assms(1)])

lemma with_duid_bytes:
  assumes "duid_text_ok hex" "hex \<noteq> []" "length (duid6 L) = 128"
  shows "take (unat (duid_len6 (with_duid hex L))) (duid6 (with_duid hex L)) = snd (duid_hex_to_bin hex 128)"
proof -
  obtain n bs where b: "duid_hex_to_bin hex 128 = (n, bs)" by (cases "duid_hex_to_bin hex 128")
  then have n: "n = int (length bs)" "length bs \<le> 128"
    using duid_hex_to_bin_length [OF b] assms(1) by (auto simp: duid_text_ok_def)
  then have "unat (word_of_int n :: u16) = length bs" by (simp add: unat_of_nat take_bit_nat_eq_self)
  then show ?thesis using assms(2) b n(1) by (simp add: with_duid_def set_duid_def Let_def)
qed

text \<open>A lease that was just given to a client.\<close>

definition holds_lease6 :: "time_t \<Rightarrow> u32 \<Rightarrow> u32 \<Rightarrow> string \<Rightarrow> dhcpv6_lease_t \<Rightarrow> bool" where
  "holds_lease6 now iaid t hex L \<longleftrightarrow> state6 L = LEASE6_ACTIVE \<and> iaid6 L = iaid \<and> starts6 L = now
     \<and> ends6 L = now + uint t \<and> take (unat (duid_len6 L)) (duid6 L) = snd (duid_hex_to_bin hex 128)"

lemma upsert6_holds:
  assumes "db6_wf db" "length (leases6 db) < LEASES6_MAX" "duid_text_ok hex" "hex \<noteq> []"
  shows "\<exists>L. upsert6 r (\<lambda>L. active_lease6 now iaid t h (with_duid hex L)) (db6_abs db) r = Some L
    \<and> holds_lease6 now iaid t hex L"
proof -
  have holds: "holds_lease6 now iaid t hex (active_lease6 now iaid t h (with_duid hex L))" if "length (duid6 L) = 128" for L
    using with_duid_bytes [OF assms(3,4) that]
    by (auto simp: holds_lease6_def active_lease6_def set_hostname_def split: option.split)
  show ?thesis
  proof (cases "db6_abs db r")
    case None
    then show ?thesis
      using assms(2) db6_wf_dom [OF assms(1)] holds [of "blank6 r"] lease6_simps by (simp add: upsert6_def)
  next
    case (Some L)
    then have "L \<in> set (leases6 db)" by (auto simp: db6_abs_def key_rows_def dest: map_of_SomeD)
    then have "length (duid6 L) = 128" using assms(1) by (auto simp: db6_wf_def list_all_iff)
    then show ?thesis using Some holds by (simp add: upsert6_def)
  qed
qed

lemma add_pd_ok:
  assumes "duid_text_ok hex" "length (leases6 db) < LEASES6_MAX"
  shows "fst (lease_v6_add_ia_pd now db hex iaid p l t h) \<noteq> None"
  using assms(2)
  by (cases "find_resource db (Some (Pfx p l))")
    (simp_all add: lease_v6_add_ia_pd_def find_idx_resource row_or_new_found row_or_new_absent
      set_duid_pair [OF assms(1)])

lemma address_row_cases:
  "address_row (Some i) ip db = Some (i, db)"
  "address_row None ip db = (if length (leases6 db) < LEASES6_MAX
     then Some (length (leases6 db), db\<lparr>leases6 := leases6 db @ [blank6 (Addr ip)]\<rparr>) else None)"
  by (simp_all add: address_row_def row_or_new_found row_or_new_absent new_row_NA blank6_def)

lemma mark_reserved_refines:
  assumes "db6_wf db" "duid_text_ok hex"
  shows "db6_wf (snd (lease_v6_mark_reserved io now db ip hex iaid h))
    \<and> db6_abs (snd (lease_v6_mark_reserved io now db ip hex iaid h))
      = upsert6 (Addr ip) (\<lambda>L. reserved_lease6 now iaid h (snd (set_duid hex L))) (db6_abs db)"
proof -
  have d: "set_duid hex L = (True, snd (set_duid hex L))" for L
    using set_duid_ok [OF assms(2), of L] by (simp add: prod_eq_iff)
  show ?thesis
  proof (rule upsert6_refines [OF assms(1)])
    fix i
    assume f: "find_resource db (Some (Addr ip)) = Some i"
    show "snd (lease_v6_mark_reserved io now db ip hex iaid h) =
        set_row i (reserved_lease6 now iaid h (snd (set_duid hex (leases6 db ! i)))) db"
      unfolding lease_v6_mark_reserved_def find_idx_resource f address_row_cases
      by (subst d) simp
  next
    assume f: "find_resource db (Some (Addr ip)) = None"
    show "snd (lease_v6_mark_reserved io now db ip hex iaid h) = (if length (leases6 db) < LEASES6_MAX
        then db\<lparr>leases6 := leases6 db @ [reserved_lease6 now iaid h (snd (set_duid hex (blank6 (Addr ip))))]\<rparr> else db)"
      unfolding lease_v6_mark_reserved_def find_idx_resource f address_row_cases
      using d [of "blank6 (Addr ip)"] by (auto simp: new_row_NA split: prod.split)
  qed (simp_all add: lease6_simps)
qed

lemma set_state_refines:
  assumes "db6_wf db"
  shows "db6_wf (snd (lease_v6_set_state io now db ip s))
    \<and> db6_abs (snd (lease_v6_set_state io now db ip s)) = spec6_exec now (SetState ip s) (db6_abs db)"
proof (cases "find_resource db (Some (Addr ip)) = None \<and> s \<noteq> LEASE6_ACTIVE \<and> s \<noteq> LEASE6_RESERVED")
  case True
  then show ?thesis
    using assms db6_abs_absent [of db "Addr ip"] by (simp add: lease_v6_set_state_def find_idx_resource)
next
  case False
  have "db6_wf (snd (lease_v6_set_state io now db ip s))
      \<and> db6_abs (snd (lease_v6_set_state io now db ip s)) = upsert6 (Addr ip) (state_set6 now s) (db6_abs db)"
  proof (rule upsert6_refines [OF assms])
    fix i
    assume f: "find_resource db (Some (Addr ip)) = Some i"
    show "snd (lease_v6_set_state io now db ip s) = set_row i (state_set6 now s (leases6 db ! i)) db"
      unfolding lease_v6_set_state_def find_idx_resource f by (simp add: address_row_cases)
  next
    assume f: "find_resource db (Some (Addr ip)) = None"
    show "snd (lease_v6_set_state io now db ip s) = (if length (leases6 db) < LEASES6_MAX
        then db\<lparr>leases6 := leases6 db @ [state_set6 now s (blank6 (Addr ip))]\<rparr> else db)"
      unfolding lease_v6_set_state_def find_idx_resource f
      using False f by (auto simp: Let_def address_row_cases new_row_NA)
  qed (simp_all add: lease6_simps)
  moreover have "db6_abs db (Addr ip) = None \<longrightarrow> s = LEASE6_ACTIVE \<or> s = LEASE6_RESERVED"
    using False db6_abs_found [of db "Addr ip"] by (cases "find_resource db (Some (Addr ip))") auto
  ultimately show ?thesis by auto
qed

lemma map_rows_wf:
  assumes "db6_wf db" "\<And>L. key6 (g L) = key6 L" "\<And>L. duid6 (g L) = duid6 L" "\<And>L. in_use6 (g L) = in_use6 L"
  shows "db6_wf (db\<lparr>leases6 := map g (leases6 db)\<rparr>)"
  using assms by (auto simp: db6_wf_def comp_def list_all_iff)

lemma expired_lease6_in_use: "in_use6 (expired_lease6 now L) = in_use6 L"
  by (simp add: expired_lease6_def)

lemma db6_exec_refines:
  assumes "db6_wf db" "db6_cmd_ok c"
  shows "db6_wf (db6_exec io now c db) \<and> db6_abs (db6_exec io now c db) = spec6_exec now c (db6_abs db)"
proof (cases c)
  case MarkExpired
  have "list_all in_use6 (leases6 db)" using assms(1) by (simp add: db6_wf_def list_all_iff)
  then show ?thesis
    using MarkExpired map_rows_wf [OF assms(1), of "expired_lease6 now"] key_rows_map [of key6 "expired_lease6 now"]
    by (simp add: lease_v6_expire_eq lease6_simps expired_lease6_in_use db6_abs_def fun_eq_iff)
next
  case CleanupDb
  then show ?thesis
    using assms(1) key_rows_filter [of key6 "leases6 db"]
    by (auto simp: lease_v6_cleanup_eq db6_wf_def db6_abs_def fun_eq_iff distinct_map_filter list_all_iff
        intro: le_trans [OF length_filter_le] split: option.split)
qed (use assms add_na_refines add_pd_refines mark_reserved_refines set_state_refines
    change_row_refines [OF assms(1), of "released_lease6 now"] change_row_refines [OF assms(1), of "renewed_lease6 now _"] in
    \<open>simp_all add: lease_v6_release_ip_def lease_v6_release_prefix_def lease_v6_renew_ip_def
       lease_v6_renew_prefix_def find_idx_resource lease6_simps del: fun_upd_apply\<close>)

lemma db6_run_refines:
  "db6_wf db \<Longrightarrow> \<forall>(io, now, c) \<in> set cmds. db6_cmd_ok c \<Longrightarrow>
   db6_wf (db6_run cmds db) \<and> db6_abs (db6_run cmds db) = spec6_run cmds (db6_abs db)"
  by (induction cmds arbitrary: db) (auto simp: db6_exec_refines)

section \<open>Properties\<close>


definition sample_cmds6 :: "(bool \<times> time_t \<times> db6_cmd) list" where
  "sample_cmds6 = [(True, 100, AddNA ''00:01:ab'' 7 (replicate 16 1) 60 None),
     (True, 110, AddPD ''00:01:ab'' 8 (replicate 16 2) 56 60 None),
     (True, 120, RenewIp (replicate 16 1) 60), (True, 175, MarkExpired), (True, 176, CleanupDb)]"


text \<open>
  Adding a lease with a client identifier that is not hexadecimal fails, but leaves a row behind: the
  table has one row more, marked as used, for the address zero instead of the requested one.
\<close>

lemma add_bad_duid_leaves_row:
  assumes "fst (duid_hex_to_bin duid_hex 128) < 0" "lease_v6_find_by_ip db ip = None"
    and "length (leases6 db) < LEASES6_MAX"
  shows "\<exists>L. lease_v6_add_ia_na now db duid_hex iaid ip t h = (None, db\<lparr>leases6 := leases6 db @ [L]\<rparr>)
    \<and> in_use6 L \<and> ip6_addr L = replicate 16 0 \<and> state6 L = LEASE6_FREE"
proof -
  have ne: "duid_hex \<noteq> []"
  proof
    assume "duid_hex = []"
    then have "fst (duid_hex_to_bin duid_hex 128) = 0"
      by (simp add: duid_hex_to_bin_def duid_scan.simps skip_separator_def)
    then show False using assms(1) by simp
  qed
  let ?L = "snd (set_duid duid_hex (zero_lease6\<lparr>in_use6 := True, type6 := Lease6_IA_NA\<rparr>))"
  have "\<not> fst (set_duid duid_hex (zero_lease6\<lparr>in_use6 := True, type6 := Lease6_IA_NA\<rparr>))"
    using assms(1) by (auto simp: set_duid_def Let_def split: prod.split)
  then have "lease_v6_add_ia_na now db duid_hex iaid ip t h = (None, db\<lparr>leases6 := leases6 db @ [?L]\<rparr>)"
    using ne assms(2,3) find_idx_resource(1) find_idx_resource(3)
    by (auto simp: lease_v6_add_ia_na_def row_or_new_absent new_row_NA Let_def split: prod.split)
  moreover have "in_use6 ?L \<and> ip6_addr ?L = replicate 16 0 \<and> state6 ?L = LEASE6_FREE"
    by (auto simp: set_duid_def Let_def zero_lease6_def split: prod.split)
  ultimately show ?thesis by blast
qed

end
