(* ===== verification/Config_V6.thy ===== *)
theory Config_V6
  imports Utils_V6
begin

text \<open>
  The configuration of the DHCPv6 server (include/config_v6.h): the structures, the parser of
  sources/config_v6.c with its look-ups, and the checks of sources/config_v6_validate.c.  An array with
  its count is a list, a text field is a C string.  Fields carry the suffix 6 where the DHCPv4
  structures have the same name; the global options carry the prefix \<open>g6_\<close>.  A configuration file is
  the text that it holds; the pointer \<open>current_subnet\<close> is the index of the subnet.
\<close>

section \<open>Definitions\<close>

subsection \<open>Data\<close>

record dhcpv6_static_host_t =
  hostname6 :: string
  host_duid :: string
  fixed_address6 :: string
  fixed_addr6_bin :: in6_addr
  has_fixed_address6_bin :: bool

record dhcpv6_subnet_t =
  prefix_text :: string
  prefix_len :: u8
  prefix_bin :: in6_addr
  has_prefix_bin :: bool
  pool_start :: string
  pool_end :: string
  pool_start_bin :: in6_addr
  pool_end_bin :: in6_addr
  has_pool_range :: bool
  dns_servers6 :: string
  domain_search6 :: string
  sntp_servers6 :: string
  has_sntp_servers :: bool
  info_refresh_time6 :: u32
  has_info_refresh_time :: bool
  preference6 :: u8
  has_preference :: bool
  sip_server_domain6 :: string
  has_sip_server_domain :: bool
  bootfile_url6 :: string
  has_bootfile_url :: bool
  default_lease_time6 :: u32
  max_lease_time6 :: u32
  hosts6 :: "dhcpv6_static_host_t list"
  pd_enabled :: bool
  pd_pool_start :: string
  pd_pool_end :: string
  pd_prefix_len :: u8
  pd_pool_start_bin :: in6_addr
  pd_pool_end_bin :: in6_addr
  has_pd_pool :: bool
  icmp6_probe_override :: bool
  icmp6_probe :: bool
  icmp6_timeout_ms :: u32
  has_icmp6_timeout :: bool

record dhcpv6_global_t =
  g6_default_lease_time :: u32
  g6_max_lease_time :: u32
  g6_dns_servers :: string
  g6_domain_search :: string
  g6_sntp_servers :: string
  g6_has_sntp_servers :: bool
  g6_info_refresh_time :: u32
  g6_has_info_refresh_time :: bool
  g6_preference :: u8
  g6_has_preference :: bool
  g6_sip_server_domain :: string
  g6_has_sip_server_domain :: bool
  g6_bootfile_url :: string
  g6_has_bootfile_url :: bool
  g6_icmp6_probe :: bool
  g6_icmp6_timeout_ms :: u32
  g6_has_icmp6_timeout :: bool

record dhcpv6_config_t =
  global6 :: dhcpv6_global_t
  subnets6 :: "dhcpv6_subnet_t list"

text \<open>The structures after \<open>memset\<close> with zero.\<close>

abbreviation in6_zero :: in6_addr where "in6_zero \<equiv> replicate 16 0"

definition zero_host6 :: dhcpv6_static_host_t where
  "zero_host6 = \<lparr>hostname6 = [], host_duid = [], fixed_address6 = [], fixed_addr6_bin = in6_zero,
     has_fixed_address6_bin = False\<rparr>"

definition zero_subnet6 :: dhcpv6_subnet_t where
  "zero_subnet6 = \<lparr>prefix_text = [], prefix_len = 0, prefix_bin = in6_zero, has_prefix_bin = False,
     pool_start = [], pool_end = [], pool_start_bin = in6_zero, pool_end_bin = in6_zero,
     has_pool_range = False, dns_servers6 = [], domain_search6 = [], sntp_servers6 = [],
     has_sntp_servers = False, info_refresh_time6 = 0, has_info_refresh_time = False, preference6 = 0,
     has_preference = False, sip_server_domain6 = [], has_sip_server_domain = False, bootfile_url6 = [],
     has_bootfile_url = False, default_lease_time6 = 0, max_lease_time6 = 0, hosts6 = [],
     pd_enabled = False, pd_pool_start = [], pd_pool_end = [], pd_prefix_len = 0,
     pd_pool_start_bin = in6_zero, pd_pool_end_bin = in6_zero, has_pd_pool = False,
     icmp6_probe_override = False, icmp6_probe = False, icmp6_timeout_ms = 0, has_icmp6_timeout = False\<rparr>"

definition zero_config6 :: dhcpv6_config_t where
  "zero_config6 = \<lparr>global6 = \<lparr>g6_default_lease_time = 0, g6_max_lease_time = 0, g6_dns_servers = [],
     g6_domain_search = [], g6_sntp_servers = [], g6_has_sntp_servers = False, g6_info_refresh_time = 0,
     g6_has_info_refresh_time = False, g6_preference = 0, g6_has_preference = False,
     g6_sip_server_domain = [], g6_has_sip_server_domain = False, g6_bootfile_url = [],
     g6_has_bootfile_url = False, g6_icmp6_probe = False, g6_icmp6_timeout_ms = 0,
     g6_has_icmp6_timeout = False\<rparr>, subnets6 = []\<rparr>"

subsection \<open>Options\<close>

definition starts_with :: "string \<Rightarrow> string \<Rightarrow> bool" where
  "starts_with line kw \<longleftrightarrow> take (length kw) line = kw"

text \<open>
  The text behind a keyword as the string options store it, with a temporary buffer of \<open>sz\<close> bytes; the
  number behind a keyword; the switch behind a keyword.
\<close>

definition value_text :: "nat \<Rightarrow> string \<Rightarrow> string \<Rightarrow> string" where
  "value_text sz kw line = strip_semicolon (take (sz - 1) (lskip (drop (length kw) line)))"

definition scan_u :: "string \<Rightarrow> string \<Rightarrow> u32 option" where
  "scan_u kw line = (case sscanf (scan_text (kw @ '' '') @ [UInt 32]) line of
     [VNum v] \<Rightarrow> Some (word_of_int v) | _ \<Rightarrow> None)"

definition scan_switch :: "string \<Rightarrow> string \<Rightarrow> bool option" where
  "scan_switch kw line = (case sscanf (scan_text (kw @ '' '') @ [Str 15]) line of
     [VStr val] \<Rightarrow> Some (val = ''on'' \<or> val = ''true'' \<or> val = ''1'') | _ \<Rightarrow> None)"

definition clamp_preference :: "u32 \<Rightarrow> u8" where
  "clamp_preference v = (if v > 255 then 255 else ucast v)"

definition set_global_option :: "dhcpv6_global_t \<Rightarrow> string \<Rightarrow> dhcpv6_global_t" where
  "set_global_option g line =
     (if starts_with line ''default-lease-time'' then
        g\<lparr>g6_default_lease_time := (case scan_u ''default-lease-time'' line of Some v \<Rightarrow> v | None \<Rightarrow> 0)\<rparr>
      else if starts_with line ''max-lease-time'' then
        g\<lparr>g6_max_lease_time := (case scan_u ''max-lease-time'' line of Some v \<Rightarrow> v | None \<Rightarrow> 0)\<rparr>
      else if starts_with line ''option dhcp6.name-servers'' then
        g\<lparr>g6_dns_servers := value_text 256 ''option dhcp6.name-servers'' line\<rparr>
      else if starts_with line ''option dhcp6.domain-search'' then
        g\<lparr>g6_domain_search := unquote (value_text 256 ''option dhcp6.domain-search'' line)\<rparr>
      else if starts_with line ''option dhcp6.sntp-servers'' then
        g\<lparr>g6_sntp_servers := value_text 256 ''option dhcp6.sntp-servers'' line, g6_has_sntp_servers := True\<rparr>
      else if starts_with line ''option dhcp6.info-refresh-time'' then
        (case scan_u ''option dhcp6.info-refresh-time'' line of
           Some v \<Rightarrow> g\<lparr>g6_info_refresh_time := v, g6_has_info_refresh_time := True\<rparr> | None \<Rightarrow> g)
      else if starts_with line ''option dhcp6.preference'' then
        (case scan_u ''option dhcp6.preference'' line of
           Some v \<Rightarrow> g\<lparr>g6_preference := clamp_preference v, g6_has_preference := True\<rparr> | None \<Rightarrow> g)
      else if starts_with line ''option dhcp6.sip-server-domain'' then
        g\<lparr>g6_sip_server_domain := unquote (value_text 256 ''option dhcp6.sip-server-domain'' line),
          g6_has_sip_server_domain := True\<rparr>
      else if starts_with line ''option dhcp6.bootfile-url'' then
        g\<lparr>g6_bootfile_url := unquote (value_text 256 ''option dhcp6.bootfile-url'' line),
          g6_has_bootfile_url := True\<rparr>
      else if starts_with line ''option dhcp6.icmp6-probe'' then
        (case scan_switch ''option dhcp6.icmp6-probe'' line of
           Some b \<Rightarrow> g\<lparr>g6_icmp6_probe := b\<rparr> | None \<Rightarrow> g)
      else if starts_with line ''option dhcp6.icmp6-timeout'' then
        (case scan_u ''option dhcp6.icmp6-timeout'' line of
           Some v \<Rightarrow> g\<lparr>g6_icmp6_timeout_ms := v, g6_has_icmp6_timeout := True\<rparr> | None \<Rightarrow> g)
      else g)"

definition parse_global_option :: "dhcpv6_config_t \<Rightarrow> string \<Rightarrow> dhcpv6_config_t" where
  "parse_global_option cfg line =
     cfg\<lparr>global6 := set_global_option (global6 cfg) (lskip (strip_semicolon line))\<rparr>"

definition set_subnet_option :: "dhcpv6_subnet_t \<Rightarrow> string \<Rightarrow> dhcpv6_subnet_t" where
  "set_subnet_option s line =
     (if starts_with line ''option dhcp6.name-servers'' then
        s\<lparr>dns_servers6 := value_text 256 ''option dhcp6.name-servers'' line\<rparr>
      else if starts_with line ''option dhcp6.domain-search'' then
        s\<lparr>domain_search6 := unquote (value_text 256 ''option dhcp6.domain-search'' line)\<rparr>
      else if starts_with line ''option dhcp6.sntp-servers'' then
        s\<lparr>sntp_servers6 := value_text 256 ''option dhcp6.sntp-servers'' line, has_sntp_servers := True\<rparr>
      else if starts_with line ''option dhcp6.info-refresh-time'' then
        (case scan_u ''option dhcp6.info-refresh-time'' line of
           Some v \<Rightarrow> s\<lparr>info_refresh_time6 := v, has_info_refresh_time := True\<rparr> | None \<Rightarrow> s)
      else if starts_with line ''option dhcp6.preference'' then
        (case scan_u ''option dhcp6.preference'' line of
           Some v \<Rightarrow> s\<lparr>preference6 := clamp_preference v, has_preference := True\<rparr> | None \<Rightarrow> s)
      else if starts_with line ''option dhcp6.sip-server-domain'' then
        s\<lparr>sip_server_domain6 := unquote (value_text 256 ''option dhcp6.sip-server-domain'' line),
          has_sip_server_domain := True\<rparr>
      else if starts_with line ''option dhcp6.bootfile-url'' then
        s\<lparr>bootfile_url6 := unquote (value_text 256 ''option dhcp6.bootfile-url'' line),
          has_bootfile_url := True\<rparr>
      else if starts_with line ''default-lease-time'' then
        (case scan_u ''default-lease-time'' line of Some v \<Rightarrow> s\<lparr>default_lease_time6 := v\<rparr> | None \<Rightarrow> s)
      else if starts_with line ''max-lease-time'' then
        (case scan_u ''max-lease-time'' line of Some v \<Rightarrow> s\<lparr>max_lease_time6 := v\<rparr> | None \<Rightarrow> s)
      else if starts_with line ''option dhcp6.icmp6-probe'' then
        (case scan_switch ''option dhcp6.icmp6-probe'' line of
           Some b \<Rightarrow> s\<lparr>icmp6_probe_override := True, icmp6_probe := b\<rparr> | None \<Rightarrow> s)
      else if starts_with line ''option dhcp6.icmp6-timeout'' then
        (case scan_u ''option dhcp6.icmp6-timeout'' line of
           Some v \<Rightarrow> s\<lparr>icmp6_timeout_ms := v, has_icmp6_timeout := True\<rparr> | None \<Rightarrow> s)
      else s)"

definition parse_subnet_option :: "dhcpv6_subnet_t \<Rightarrow> string \<Rightarrow> dhcpv6_subnet_t" where
  "parse_subnet_option subnet line = set_subnet_option subnet (lskip (strip_semicolon line))"

subsection \<open>Hosts\<close>

definition cut_brace :: "string \<Rightarrow> string" where
  "cut_brace s = takeWhile (\<lambda>c. c \<noteq> CHR ''{'') s"

text \<open>\<open>strstr\<close>: the text from the first occurrence of \<open>kw\<close> on.\<close>

fun strstr :: "string \<Rightarrow> string \<Rightarrow> string option" where
  "strstr s kw =
     (if starts_with s kw then Some s else case s of [] \<Rightarrow> None | _ # cs \<Rightarrow> strstr cs kw)"

declare strstr.simps [simp del]

text \<open>One line inside of a \<open>host\<close> block.\<close>

definition host_line :: "dhcpv6_static_host_t \<Rightarrow> string \<Rightarrow> dhcpv6_static_host_t" where
  "host_line h p =
     (if starts_with p ''host-identifier option dhcp6.client-id'' then
        (case strstr p ''dhcp6.client-id'' of
           Some q \<Rightarrow> h\<lparr>host_duid := value_text 130 ''dhcp6.client-id'' q\<rparr> | None \<Rightarrow> h)
      else if starts_with p ''fixed-address6'' then
        (case sscanf (scan_text ''fixed-address6 '' @ [Str 79]) p of
           [VStr w] \<Rightarrow>
             let addr_tmp = strip_semicolon w; r = ipv6_str_to_bin addr_tmp (fixed_addr6_bin h)
             in h\<lparr>fixed_address6 := addr_tmp, fixed_addr6_bin := snd r, has_fixed_address6_bin := fst r\<rparr>
         | _ \<Rightarrow> h)
      else if starts_with p ''option dhcp6.hostname'' then
        h\<lparr>hostname6 := unquote (value_text 256 ''option dhcp6.hostname'' p)\<rparr>
      else h)"

definition config_line :: "string \<Rightarrow> string" where
  "config_line line = lskip (rstrip (strip_inline_comment line))"

text \<open>The lines of a block up to the closing brace: the host and the rest of the file.\<close>

function host_lines :: "dhcpv6_static_host_t \<Rightarrow> string \<Rightarrow> (dhcpv6_static_host_t \<times> string) option" where
  "host_lines h fp = (case fgets 512 fp of
     None \<Rightarrow> None
   | Some (line, rest) \<Rightarrow>
       let p = config_line line
       in if p = [] \<or> hd p = CHR ''#'' then host_lines h rest
          else if hd p = CHR ''}'' then Some (h, rest)
          else host_lines (host_line h p) rest)"
  by pat_completeness auto

termination host_lines
  by (relation "measure (\<lambda>(_, fp). length fp)") (auto dest: fgets_shorter)

declare host_lines.simps [simp del]

definition parse_host_block :: "string \<Rightarrow> dhcpv6_subnet_t \<Rightarrow> string \<Rightarrow> (dhcpv6_subnet_t \<times> string) option" where
  "parse_host_block fp subnet first_line =
     (let hostname = (case sscanf (scan_text ''host '' @ [Str 255]) (cut_brace (take 255 first_line)) of
          [VStr w] \<Rightarrow> w | _ \<Rightarrow> [])
      in if length (hosts6 subnet) \<ge> 200 then None
         else case host_lines (zero_host6\<lparr>hostname6 := hostname\<rparr>) fp of
             None \<Rightarrow> None
           | Some (h, rest) \<Rightarrow> Some (subnet\<lparr>hosts6 := hosts6 subnet @ [h]\<rparr>, rest))"

subsection \<open>Ranges, prefixes and subnets\<close>

text \<open>
  The conversion of the two ends of a range: the second is only converted when the first could be.
\<close>

definition two_addresses :: "string \<Rightarrow> string \<Rightarrow> in6_addr \<Rightarrow> in6_addr \<Rightarrow> bool \<times> in6_addr \<times> in6_addr" where
  "two_addresses a b old_a old_b =
     (let ra = ipv6_str_to_bin a old_a
      in if fst ra then let rb = ipv6_str_to_bin b old_b in (fst rb, snd ra, snd rb)
         else (False, snd ra, old_b))"

definition parse_range :: "dhcpv6_subnet_t \<Rightarrow> string \<Rightarrow> dhcpv6_subnet_t" where
  "parse_range subnet line =
     (case sscanf (scan_text ''range6 '' @ [Str 79, Space, Str 79]) (strip_semicolon line) of
        [VStr a, VStr b] \<Rightarrow>
          let (ok, s, e) = two_addresses a b (pool_start_bin subnet) (pool_end_bin subnet)
          in subnet\<lparr>pool_start := a, pool_end := b, pool_start_bin := s, pool_end_bin := e,
               has_pool_range := ok\<rparr>
      | _ \<Rightarrow> subnet)"

definition parse_prefix6 :: "dhcpv6_subnet_t \<Rightarrow> string \<Rightarrow> dhcpv6_subnet_t" where
  "parse_prefix6 subnet line =
     (case sscanf (scan_text ''prefix6 '' @ [Str 79, Space, Str 79, Space, Str 255]) (strip_semicolon line) of
        [VStr a, VStr b, VStr w] \<Rightarrow>
          let slashlen = strip_semicolon w;
              plen = (if slashlen \<noteq> [] \<and> hd slashlen = CHR ''/''
                      then word_of_int (fst (strtoul (tl slashlen))) else pd_prefix_len subnet);
              (ok, s, e) = two_addresses a b (pd_pool_start_bin subnet) (pd_pool_end_bin subnet)
          in subnet\<lparr>pd_prefix_len := plen, pd_pool_start := a, pd_pool_end := b, pd_pool_start_bin := s,
               pd_pool_end_bin := e, pd_enabled := ok, has_pd_pool := ok\<rparr>
      | _ \<Rightarrow> subnet)"

definition start_new_subnet :: "dhcpv6_config_t \<Rightarrow> string \<Rightarrow> dhcpv6_config_t option" where
  "start_new_subnet cfg line =
     (if length (subnets6 cfg) \<ge> 64 then None
      else case sscanf (scan_text ''subnet6 '' @ [Str 255]) (rstrip (cut_brace (take 511 line))) of
          [VStr prefix_and_len] \<Rightarrow>
            (case parse_prefix_and_len prefix_and_len 80 of
               None \<Rightarrow> None
             | Some (prefix, plen) \<Rightarrow>
                 let r = ipv6_str_to_bin prefix in6_zero;
                     subnet = zero_subnet6\<lparr>prefix_text := prefix, prefix_len := plen, prefix_bin := snd r,
                       has_prefix_bin := fst r\<rparr>
                 in Some (cfg\<lparr>subnets6 := subnets6 cfg @ [subnet]\<rparr>))
        | _ \<Rightarrow> None)"

subsection \<open>Conversion to binary\<close>

definition convert_host_block :: "dhcpv6_static_host_t \<Rightarrow> dhcpv6_static_host_t" where
  "convert_host_block h =
     (if fixed_address6 h \<noteq> [] then
        let r = ipv6_str_to_bin (fixed_address6 h) (fixed_addr6_bin h)
        in h\<lparr>fixed_addr6_bin := snd r, has_fixed_address6_bin := fst r\<rparr>
      else h)"

definition convert_range_block :: "dhcpv6_subnet_t \<Rightarrow> dhcpv6_subnet_t" where
  "convert_range_block s =
     (if pool_start s \<noteq> [] \<and> pool_end s \<noteq> [] then
        let (ok, a, b) = two_addresses (pool_start s) (pool_end s) (pool_start_bin s) (pool_end_bin s)
        in s\<lparr>pool_start_bin := a, pool_end_bin := b, has_pool_range := ok\<rparr>
      else s\<lparr>has_pool_range := False\<rparr>)"

definition convert_subnet_prefix :: "dhcpv6_subnet_t \<Rightarrow> dhcpv6_subnet_t" where
  "convert_subnet_prefix s =
     (if prefix_text s \<noteq> [] then
        let r = ipv6_str_to_bin (prefix_text s) (prefix_bin s)
        in s\<lparr>prefix_bin := snd r, has_prefix_bin := fst r\<rparr>
      else s\<lparr>has_prefix_bin := False\<rparr>)"

definition convert_pd_block :: "dhcpv6_subnet_t \<Rightarrow> dhcpv6_subnet_t" where
  "convert_pd_block s =
     (if \<not> pd_enabled s then s\<lparr>has_pd_pool := False\<rparr>
      else if pd_pool_start s \<noteq> [] \<and> pd_pool_end s \<noteq> [] then
        let (ok, a, b) =
          two_addresses (pd_pool_start s) (pd_pool_end s) (pd_pool_start_bin s) (pd_pool_end_bin s)
        in s\<lparr>pd_pool_start_bin := a, pd_pool_end_bin := b, has_pd_pool := ok\<rparr>
      else s\<lparr>has_pd_pool := False\<rparr>)"

definition convert_all_to_binary :: "dhcpv6_config_t \<Rightarrow> dhcpv6_config_t" where
  "convert_all_to_binary cfg =
     cfg\<lparr>subnets6 := map (\<lambda>s. let s' = convert_pd_block (convert_range_block (convert_subnet_prefix s))
        in s'\<lparr>hosts6 := map convert_host_block (hosts6 s')\<rparr>) (subnets6 cfg)\<rparr>"

subsection \<open>Loading a file\<close>

definition map_subnet :: "nat \<Rightarrow> (dhcpv6_subnet_t \<Rightarrow> dhcpv6_subnet_t) \<Rightarrow> dhcpv6_config_t \<Rightarrow> dhcpv6_config_t" where
  "map_subnet i f cfg = cfg\<lparr>subnets6 := (subnets6 cfg)[i := f (subnets6 cfg ! i)]\<rparr>"

text \<open>
  One line of the file, cleaned up: None ends the loading with -1; otherwise the file behind the line,
  the current subnet and the configuration.
\<close>

definition load_line ::
    "string \<Rightarrow> string \<Rightarrow> nat option \<Rightarrow> dhcpv6_config_t \<Rightarrow> (string \<times> nat option \<times> dhcpv6_config_t) option" where
  "load_line p rest cur cfg =
     (if p = [] \<or> hd p = CHR ''#'' then Some (rest, cur, cfg)
      else if hd p = CHR ''}'' then Some (rest, None, cfg)
      else case cur of
        Some i \<Rightarrow>
          if starts_with p ''host'' then
            (case parse_host_block rest (subnets6 cfg ! i) p of
               None \<Rightarrow> None
             | Some (s, rest') \<Rightarrow> Some (rest', cur, map_subnet i (\<lambda>_. s) cfg))
          else if starts_with p ''range6'' then Some (rest, cur, map_subnet i (\<lambda>s. parse_range s p) cfg)
          else if starts_with p ''prefix6'' then Some (rest, cur, map_subnet i (\<lambda>s. parse_prefix6 s p) cfg)
          else if starts_with p ''option dhcp6.'' then
            Some (rest, cur, map_subnet i (\<lambda>s. parse_subnet_option s p) cfg)
          else if starts_with p ''default-lease-time'' \<or> starts_with p ''max-lease-time'' then
            Some (rest, cur, map_subnet i (\<lambda>s. parse_subnet_option s p) cfg)
          else Some (rest, cur, cfg)
      | None \<Rightarrow>
          if starts_with p ''subnet6'' then
            (case start_new_subnet cfg p of
               None \<Rightarrow> None
             | Some cfg' \<Rightarrow> Some (rest, Some (length (subnets6 cfg)), cfg'))
          else Some (rest, None, parse_global_option cfg p))"

lemma host_lines_rest: "host_lines h fp = Some (h', rest) \<Longrightarrow> length rest < length fp"
proof (induction h fp rule: host_lines.induct)
  case (1 h fp)
  obtain line r where l: "fgets 512 fp = Some (line, r)"
    using 1(3) by (subst (asm) host_lines.simps) (auto split: option.splits)
  have "length r < length fp" using l by (rule fgets_shorter)
  moreover have "length rest \<le> length r"
  proof -
    let ?p = "config_line line"
    consider "?p = [] \<or> hd ?p = CHR ''#''" | "\<not> (?p = [] \<or> hd ?p = CHR ''#'')" "hd ?p = CHR ''}''"
      | "\<not> (?p = [] \<or> hd ?p = CHR ''#'')" "hd ?p \<noteq> CHR ''}''" by blast
    then show ?thesis
    proof cases
      case 1
      then show ?thesis
        using "1.IH"(1) [OF l refl refl] "1.prems" l by (subst (asm) host_lines.simps) (simp add: Let_def)
    next
      case 2
      then show ?thesis using "1.prems" l by (subst (asm) host_lines.simps) (simp add: Let_def)
    next
      case 3
      then show ?thesis
        using "1.IH"(2) [OF l refl refl] "1.prems" l by (subst (asm) host_lines.simps) (simp add: Let_def)
    qed
  qed
  ultimately show ?case by simp
qed

lemma load_line_rest:
  "load_line p rest cur cfg = Some (rest', cur', cfg') \<Longrightarrow> length rest' \<le> length rest"
  by (auto simp: load_line_def parse_host_block_def Let_def
      dest!: host_lines_rest split: if_splits option.splits)

function load_lines :: "string \<Rightarrow> nat option \<Rightarrow> dhcpv6_config_t \<Rightarrow> int \<times> dhcpv6_config_t" where
  "load_lines fp cur cfg = (case fgets 512 fp of
     None \<Rightarrow> (0, cfg)
   | Some (line, rest) \<Rightarrow>
       (case load_line (config_line line) rest cur cfg of
          None \<Rightarrow> (-1, cfg)
        | Some (rest', cur', cfg') \<Rightarrow> load_lines rest' cur' cfg'))"
  by pat_completeness auto

termination load_lines
  by (relation "measure (\<lambda>(fp, _, _). length fp)") (auto dest!: fgets_shorter load_line_rest)

declare load_lines.simps [simp del]

definition inherit_times :: "dhcpv6_global_t \<Rightarrow> dhcpv6_subnet_t \<Rightarrow> dhcpv6_subnet_t" where
  "inherit_times g s =
     s\<lparr>default_lease_time6 := (if default_lease_time6 s = 0 then g6_default_lease_time g else default_lease_time6 s),
       max_lease_time6 := (if max_lease_time6 s = 0 then g6_max_lease_time g else max_lease_time6 s)\<rparr>"

definition apply_defaults :: "dhcpv6_config_t \<Rightarrow> dhcpv6_config_t" where
  "apply_defaults cfg =
     (let g = global6 cfg;
          g1 = g\<lparr>g6_default_lease_time := (if g6_default_lease_time g = 0 then 3600 else g6_default_lease_time g)\<rparr>;
          g2 = g1\<lparr>g6_max_lease_time := (if g6_max_lease_time g1 = 0 then 7200 else g6_max_lease_time g1)\<rparr>
      in cfg\<lparr>global6 := g2, subnets6 := map (inherit_times g2) (subnets6 cfg)\<rparr>)"

text \<open>The file is None when it cannot be opened.\<close>

definition load_config_v6 :: "string option \<Rightarrow> int \<times> dhcpv6_config_t" where
  "load_config_v6 file = (case file of
     None \<Rightarrow> (-1, zero_config6)
   | Some text \<Rightarrow>
       (case load_lines text None zero_config6 of
          (rc, cfg) \<Rightarrow> if rc = 0 then (0, apply_defaults cfg) else (-1, cfg)))"

subsection \<open>Look-ups\<close>

definition find_subnet_for_ipv6 :: "dhcpv6_config_t \<Rightarrow> in6_addr \<Rightarrow> nat option" where
  "find_subnet_for_ipv6 cfg ip =
     find_idx (\<lambda>s. has_prefix_bin s \<and> ipv6_in_subnet ip (prefix_bin s) (prefix_len s)) (subnets6 cfg)"

definition find_host_by_duid :: "dhcpv6_subnet_t \<Rightarrow> string \<Rightarrow> nat option" where
  "find_host_by_duid sub duid = find_idx (\<lambda>h. host_duid h = duid) (hosts6 sub)"

subsection \<open>Validation\<close>

text \<open>The messages that the validator prints, with the index of the subnet or host where it prints it.\<close>

datatype v6_message =
    No_subnets | Bad_prefix nat | Bad_prefix_len
  | Pool_order | Pool_start_outside | Pool_end_outside
  | Pd_order | Pd_start_outside | Pd_end_outside
  | Host_outside nat | Host_no_duid nat

definition validate_range6 :: "dhcpv6_subnet_t \<Rightarrow> v6_message list" where
  "validate_range6 s =
     (if \<not> has_pool_range s then []
      else (if memcmp (pool_start_bin s) (pool_end_bin s) > 0 then [Pool_order] else [])
        @ (if has_prefix_bin s \<and> \<not> ipv6_in_subnet (pool_start_bin s) (prefix_bin s) (prefix_len s)
           then [Pool_start_outside] else [])
        @ (if has_prefix_bin s \<and> \<not> ipv6_in_subnet (pool_end_bin s) (prefix_bin s) (prefix_len s)
           then [Pool_end_outside] else []))"

definition validate_pd_pool :: "dhcpv6_subnet_t \<Rightarrow> v6_message list" where
  "validate_pd_pool s =
     (if \<not> pd_enabled s \<or> \<not> has_pd_pool s then []
      else (if memcmp (pd_pool_start_bin s) (pd_pool_end_bin s) > 0 then [Pd_order] else [])
        @ (if has_prefix_bin s \<and> \<not> ipv6_in_subnet (pd_pool_start_bin s) (prefix_bin s) (prefix_len s)
           then [Pd_start_outside] else [])
        @ (if has_prefix_bin s \<and> \<not> ipv6_in_subnet (pd_pool_end_bin s) (prefix_bin s) (prefix_len s)
           then [Pd_end_outside] else []))"

definition validate_hosts :: "dhcpv6_subnet_t \<Rightarrow> v6_message list" where
  "validate_hosts s = concat (map (\<lambda>j. let h = hosts6 s ! j in
       (if has_fixed_address6_bin h \<and> has_prefix_bin s
           \<and> \<not> ipv6_in_subnet (fixed_addr6_bin h) (prefix_bin s) (prefix_len s)
        then [Host_outside j] else [])
       @ (if host_duid h = [] then [Host_no_duid j] else [])) [0..<length (hosts6 s)])"

text \<open>The checks of the subnet with index \<open>i\<close>: the number of errors and the messages.\<close>

definition validate_subnet :: "nat \<Rightarrow> dhcpv6_subnet_t \<Rightarrow> int \<times> v6_message list" where
  "validate_subnet i s =
     (if \<not> has_prefix_bin s then (1, [Bad_prefix (i + 1)])
      else
        (if prefix_len s = 0 \<or> prefix_len s > 128 then 1 else 0,
         (if prefix_len s = 0 \<or> prefix_len s > 128 then [Bad_prefix_len] else [])
         @ validate_range6 s @ validate_pd_pool s @ validate_hosts s))"

definition validate_config_v6 :: "dhcpv6_config_t \<Rightarrow> int \<times> v6_message list" where
  "validate_config_v6 cfg =
     (let rs = map (\<lambda>i. validate_subnet i (subnets6 cfg ! i)) [0..<length (subnets6 cfg)];
          e0 = (if subnets6 cfg = [] then 1 else 0); m0 = (if subnets6 cfg = [] then [No_subnets] else [])
      in (e0 + sum_list (map fst rs), m0 @ concat (map snd rs)))"

section \<open>Lemmas\<close>

subsection \<open>The structures stay within their buffers\<close>

text \<open>What the declarations of include/config_v6.h allow: the sizes of the arrays.\<close>

definition host6_ok :: "dhcpv6_static_host_t \<Rightarrow> bool" where
  "host6_ok h \<longleftrightarrow> length (hostname6 h) < 256 \<and> length (host_duid h) < 130 \<and> length (fixed_address6 h) < 80
     \<and> length (fixed_addr6_bin h) = 16"

definition addresses6_ok :: "dhcpv6_subnet_t \<Rightarrow> bool" where
  "addresses6_ok s \<longleftrightarrow> length (prefix_text s) < 80 \<and> length (pool_start s) < 80 \<and> length (pool_end s) < 80
     \<and> length (pd_pool_start s) < 80 \<and> length (pd_pool_end s) < 80 \<and> length (prefix_bin s) = 16
     \<and> length (pool_start_bin s) = 16 \<and> length (pool_end_bin s) = 16 \<and> length (pd_pool_start_bin s) = 16
     \<and> length (pd_pool_end_bin s) = 16 \<and> prefix_len s \<le> 128"

definition texts6_ok :: "dhcpv6_subnet_t \<Rightarrow> bool" where
  "texts6_ok s \<longleftrightarrow> length (dns_servers6 s) < 256 \<and> length (domain_search6 s) < 256
     \<and> length (sntp_servers6 s) < 256 \<and> length (sip_server_domain6 s) < 256 \<and> length (bootfile_url6 s) < 256"

definition hosts6_ok :: "dhcpv6_subnet_t \<Rightarrow> bool" where
  "hosts6_ok s \<longleftrightarrow> length (hosts6 s) \<le> 200 \<and> list_all host6_ok (hosts6 s)"

definition subnet6_ok :: "dhcpv6_subnet_t \<Rightarrow> bool" where
  "subnet6_ok s \<longleftrightarrow> addresses6_ok s \<and> texts6_ok s \<and> hosts6_ok s"

definition global6_ok :: "dhcpv6_global_t \<Rightarrow> bool" where
  "global6_ok g \<longleftrightarrow> length (g6_dns_servers g) < 256 \<and> length (g6_domain_search g) < 256
     \<and> length (g6_sntp_servers g) < 256 \<and> length (g6_sip_server_domain g) < 256
     \<and> length (g6_bootfile_url g) < 256"

definition config6_ok :: "dhcpv6_config_t \<Rightarrow> bool" where
  "config6_ok cfg \<longleftrightarrow> global6_ok (global6 cfg) \<and> length (subnets6 cfg) \<le> 64 \<and> list_all subnet6_ok (subnets6 cfg)"

lemma value_text_length: "0 < sz \<Longrightarrow> length (value_text sz kw line) < sz"
  unfolding value_text_def
  by (rule le_less_trans [OF strip_semicolon_length]) auto

lemma unquote_value_text_length: "0 < sz \<Longrightarrow> length (unquote (value_text sz kw line)) < sz"
  by (rule le_less_trans [OF unquote_length value_text_length])

lemmas value_lengths = value_text_length unquote_value_text_length

text \<open>The values come from the directives behind the literal text; a word is not longer than its width.\<close>

lemma scanned: "sscanf (scan_text t @ fs) s = v # vs \<Longrightarrow> \<exists>s'. sscanf fs s' = v # vs"
  by (induction t arbitrary: s) (auto simp: scan_text_def split: if_splits)

lemma scan_Str:
  "sscanf (Str n # fs) s = v # vs \<Longrightarrow>
   \<exists>w s'. v = VStr w \<and> w \<noteq> [] \<and> length w \<le> n \<and> sscanf fs s' = vs"
  by (auto simp: Let_def split: if_splits)

lemma scanned_length:
  "sscanf (scan_text t @ [Str n]) s = [VStr w] \<Longrightarrow> length w \<le> n"
  by (auto dest!: scanned scan_Str)

lemma scanned_two:
  "sscanf (scan_text t @ [Str n, Space, Str m]) s = [VStr a, VStr b] \<Longrightarrow> length a \<le> n \<and> length b \<le> m"
  by (auto simp del: sscanf.simps(4) dest!: scanned scan_Str)

lemma scanned_three:
  "sscanf (scan_text t @ [Str n, Space, Str m, Space, Str k]) s = [VStr a, VStr b, VStr c]
   \<Longrightarrow> length a \<le> n \<and> length b \<le> m"
  by (auto simp del: sscanf.simps(4) dest!: scanned scan_Str)

lemma if_pred: "P x \<Longrightarrow> P y \<Longrightarrow> P (if b then x else y)"
  by simp

lemma option_pred: "(\<And>v. P (f v)) \<Longrightarrow> P x \<Longrightarrow> P (case r of None \<Rightarrow> x | Some v \<Rightarrow> f v)"
  by (cases r) simp_all

lemma global_option_ok: "global6_ok g \<Longrightarrow> global6_ok (set_global_option g line)"
  unfolding set_global_option_def
  by (intro if_pred [of global6_ok] option_pred [of global6_ok]) (simp_all add: global6_ok_def value_lengths)

lemma subnet_option_ok: "subnet6_ok s \<Longrightarrow> subnet6_ok (set_subnet_option s line)"
  unfolding set_subnet_option_def
  by (intro if_pred [of subnet6_ok] option_pred [of subnet6_ok])
    (simp_all add: subnet6_ok_def addresses6_ok_def texts6_ok_def hosts6_ok_def value_lengths)

lemma host_line_ok: "host6_ok h \<Longrightarrow> host6_ok (host_line h p)"
proof -
  assume h: "host6_ok h"
  have w: "length (strip_semicolon w) < 80" if "sscanf (scan_text ''fixed-address6 '' @ [Str 79]) p = [VStr w]" for w
    using scanned_length [OF that] strip_semicolon_length [of w] by simp
  have "host6_ok (let addr_tmp = strip_semicolon w; r = ipv6_str_to_bin addr_tmp (fixed_addr6_bin h)
      in h\<lparr>fixed_address6 := addr_tmp, fixed_addr6_bin := snd r, has_fixed_address6_bin := fst r\<rparr>)"
    if "sscanf (scan_text ''fixed-address6 '' @ [Str 79]) p = [VStr w]" for w
    using h w [OF that] by (simp add: host6_ok_def Let_def)
  then have "host6_ok (case sscanf (scan_text ''fixed-address6 '' @ [Str 79]) p of
      [VStr w] \<Rightarrow> let addr_tmp = strip_semicolon w; r = ipv6_str_to_bin addr_tmp (fixed_addr6_bin h)
        in h\<lparr>fixed_address6 := addr_tmp, fixed_addr6_bin := snd r, has_fixed_address6_bin := fst r\<rparr>
    | _ \<Rightarrow> h)" using h by (simp split: list.split scan_value.split)
  then show ?thesis
    using h unfolding host_line_def by (simp add: host6_ok_def value_lengths split: option.split)
qed

lemma host_lines_ok: "host_lines h fp = Some (h', rest) \<Longrightarrow> host6_ok h \<Longrightarrow> host6_ok h'"
proof (induction h fp rule: host_lines.induct)
  case (1 h fp)
  obtain line r where l: "fgets 512 fp = Some (line, r)"
    using 1(3) by (subst (asm) host_lines.simps) (auto split: option.splits)
  have u: "(let p = config_line line in if p = [] \<or> hd p = CHR ''#'' then host_lines h r
      else if hd p = CHR ''}'' then Some (h, r) else host_lines (host_line h p) r) = Some (h', rest)"
    using 1(3) l by (subst (asm) host_lines.simps) simp
  show ?case
    using u "1.IH" [OF l refl refl] "1.prems"(2) host_line_ok [OF "1.prems"(2)] by (auto simp: Let_def split: if_splits)
qed

lemma parse_host_block_ok:
  assumes "parse_host_block fp s first_line = Some (s', rest)" "subnet6_ok s"
  shows "subnet6_ok s'"
proof -
  let ?f = "cut_brace (take 255 first_line)" and ?fmt = "scan_text ''host '' @ [Str 255]"
  let ?n = "case sscanf ?fmt ?f of [VStr w] \<Rightarrow> w | _ \<Rightarrow> []"
  have "length ?n \<le> 255" using scanned_length [of "''host ''" 255 ?f]
    by (auto split: list.split scan_value.split)
  then have z: "host6_ok (zero_host6\<lparr>hostname6 := ?n\<rparr>)" by (simp add: host6_ok_def zero_host6_def)
  obtain h where h: "host_lines (zero_host6\<lparr>hostname6 := ?n\<rparr>) fp = Some (h, rest)" "length (hosts6 s) < 200"
    "s' = s\<lparr>hosts6 := hosts6 s @ [h]\<rparr>"
    using assms(1) by (auto simp: parse_host_block_def Let_def split: if_splits option.splits)
  show ?thesis
    using h(2) assms(2) host_lines_ok [OF h(1) z]
    by (simp add: h(3) subnet6_ok_def addresses6_ok_def texts6_ok_def hosts6_ok_def)
qed

lemma two_addresses_ok:
  assumes "two_addresses a b x y = (ok, s, e)" "length x = 16" "length y = 16"
  shows "length s = 16" "length e = 16"
  using assms by (auto simp: two_addresses_def ipv6_str_to_bin_def inet_pton6_length Let_def
      split: if_splits option.splits)

lemma parse_range_ok: "subnet6_ok s \<Longrightarrow> subnet6_ok (parse_range s line)"
proof -
  assume s: "subnet6_ok s"
  let ?v = "sscanf (scan_text ''range6 '' @ [Str 79, Space, Str 79]) (strip_semicolon line)"
  have "subnet6_ok (s\<lparr>pool_start := a, pool_end := b, pool_start_bin := u, pool_end_bin := v, has_pool_range := ok\<rparr>)"
    if "?v = [VStr a, VStr b]" "two_addresses a b (pool_start_bin s) (pool_end_bin s) = (ok, u, v)" for a b ok u v
    using s scanned_two [OF that(1)] two_addresses_ok [OF that(2)]
    by (simp add: subnet6_ok_def addresses6_ok_def texts6_ok_def hosts6_ok_def)
  then show ?thesis using s
    by (auto simp: parse_range_def Let_def split: list.split scan_value.split prod.split)
qed

lemma parse_prefix6_ok: "subnet6_ok s \<Longrightarrow> subnet6_ok (parse_prefix6 s line)"
proof -
  assume s: "subnet6_ok s"
  let ?v = "sscanf (scan_text ''prefix6 '' @ [Str 79, Space, Str 79, Space, Str 255]) (strip_semicolon line)"
  have "subnet6_ok (s\<lparr>pd_prefix_len := p, pd_pool_start := a, pd_pool_end := b, pd_pool_start_bin := u,
      pd_pool_end_bin := v, pd_enabled := ok, has_pd_pool := ok\<rparr>)"
    if "?v = [VStr a, VStr b, VStr w]" "two_addresses a b (pd_pool_start_bin s) (pd_pool_end_bin s) = (ok, u, v)"
    for a b w p ok u v
    using s scanned_three [OF that(1)] two_addresses_ok [OF that(2)]
    by (simp add: subnet6_ok_def addresses6_ok_def texts6_ok_def hosts6_ok_def)
  then show ?thesis using s
    by (auto simp: parse_prefix6_def Let_def split: list.split scan_value.split prod.split split del: if_split)
qed

lemma start_new_subnet_ok:
  assumes "start_new_subnet cfg line = Some cfg'" "config6_ok cfg"
  shows "config6_ok cfg' \<and> length (subnets6 cfg') = Suc (length (subnets6 cfg))"
proof -
  obtain inp prefix plen where n: "length (subnets6 cfg) < 64" and p: "parse_prefix_and_len inp 80 = Some (prefix, plen)"
    and c: "cfg' = cfg\<lparr>subnets6 := subnets6 cfg @ [zero_subnet6\<lparr>prefix_text := prefix, prefix_len := plen,
      prefix_bin := snd (ipv6_str_to_bin prefix in6_zero), has_prefix_bin := fst (ipv6_str_to_bin prefix in6_zero)\<rparr>]\<rparr>"
    using assms(1) by (auto simp: start_new_subnet_def Let_def split: if_splits list.splits scan_value.splits option.splits)
  have "length prefix < 80" "plen \<le> 128"
    using p by (auto simp: parse_prefix_and_len_def Let_def word_le_def uint_word_of_int split: if_splits)
  then have "subnet6_ok (zero_subnet6\<lparr>prefix_text := prefix, prefix_len := plen,
      prefix_bin := snd (ipv6_str_to_bin prefix in6_zero), has_prefix_bin := fst (ipv6_str_to_bin prefix in6_zero)\<rparr>)"
    by (simp add: subnet6_ok_def addresses6_ok_def texts6_ok_def hosts6_ok_def zero_subnet6_def)
  then show ?thesis using assms(2) n by (simp add: c config6_ok_def)
qed

lemma map_subnet_ok:
  "config6_ok cfg \<Longrightarrow> i < length (subnets6 cfg) \<Longrightarrow> (subnet6_ok (subnets6 cfg ! i) \<Longrightarrow> subnet6_ok (f (subnets6 cfg ! i)))
   \<Longrightarrow> config6_ok (map_subnet i f cfg)"
  by (auto simp: config6_ok_def map_subnet_def list_all_iff dest!: set_update_subset_insert [THEN subsetD])

lemma length_map_subnet [simp]: "length (subnets6 (map_subnet i f cfg)) = length (subnets6 cfg)"
  by (simp add: map_subnet_def)

lemma subnet_option_keeps: "subnet6_ok s \<Longrightarrow> subnet6_ok (parse_subnet_option s line)"
  by (simp add: parse_subnet_option_def subnet_option_ok)

text \<open>The parser keeps the configuration well formed and \<open>current_subnet\<close> inside of the table.\<close>

definition load_inv :: "nat option \<Rightarrow> dhcpv6_config_t \<Rightarrow> bool" where
  "load_inv cur cfg \<longleftrightarrow> config6_ok cfg \<and> (\<forall>i \<in> set_option cur. i < length (subnets6 cfg))"

lemma load_line_ok:
  assumes "load_line p rest cur cfg = Some (rest', cur', cfg')" "load_inv cur cfg"
  shows "load_inv cur' cfg'"
proof (cases cur)
  case None
  show ?thesis
  proof (cases "starts_with p ''subnet6''")
    case True
    then show ?thesis
      using assms None by (auto simp: load_line_def load_inv_def dest: start_new_subnet_ok split: if_splits option.splits)
  next
    case False
    then show ?thesis
      using assms None global_option_ok
      by (auto simp: load_line_def load_inv_def parse_global_option_def config6_ok_def split: if_splits)
  qed
next
  case (Some i)
  have c: "config6_ok cfg" "i < length (subnets6 cfg)" using assms(2) Some by (auto simp: load_inv_def)
  then have s: "subnet6_ok (subnets6 cfg ! i)" by (auto simp: config6_ok_def list_all_iff)
  show ?thesis
    using assms(1) c Some parse_range_ok [OF s] parse_prefix6_ok [OF s] subnet_option_keeps [OF s]
    by (auto simp: load_line_def load_inv_def intro!: map_subnet_ok
        dest: parse_host_block_ok [OF _ s] split: if_splits option.splits)
qed

lemma load_lines_ok: "load_inv cur cfg \<Longrightarrow> config6_ok (snd (load_lines fp cur cfg))"
proof (induction fp cur cfg rule: load_lines.induct)
  case (1 fp cur cfg)
  show ?case
  proof (cases "fgets 512 fp")
    case None
    then show ?thesis using 1(2) by (subst load_lines.simps) (simp add: load_inv_def)
  next
    case (Some lr)
    obtain line rest where l: "fgets 512 fp = Some (line, rest)" using Some by (cases lr) auto
    show ?thesis
    proof (cases "load_line (config_line line) rest cur cfg")
      case None
      then show ?thesis using 1(2) l by (subst load_lines.simps) (simp add: load_inv_def)
    next
      case (Some r)
      obtain rest' cur' cfg' where r: "load_line (config_line line) rest cur cfg = Some (rest', cur', cfg')"
        using Some by (cases r) auto
      then show ?thesis
        using 1(1) [OF l refl r refl refl] load_line_ok [OF r 1(2)] l by (subst load_lines.simps) simp
    qed
  qed
qed

lemma apply_defaults_ok: "config6_ok cfg \<Longrightarrow> config6_ok (apply_defaults cfg)"
  by (auto simp: config6_ok_def apply_defaults_def Let_def global6_ok_def list_all_iff inherit_times_def
      subnet6_ok_def addresses6_ok_def texts6_ok_def hosts6_ok_def)

lemma convert_ok:
  assumes "subnet6_ok s"
  shows "subnet6_ok (convert_subnet_prefix s)" "subnet6_ok (convert_range_block s)" "subnet6_ok (convert_pd_block s)"
  using assms two_addresses_ok
  by (auto simp: convert_subnet_prefix_def convert_range_block_def convert_pd_block_def Let_def
      subnet6_ok_def addresses6_ok_def texts6_ok_def hosts6_ok_def split: prod.split)

subsection \<open>Validation\<close>

text \<open>Between two addresses of a subnet all addresses are in the subnet.\<close>

lemma in_subnet_convex:
  assumes "length a = 16" "length b = 16" "length x = 16" "length net = 16"
    and "ipv6_in_subnet a net plen" "ipv6_in_subnet b net plen"
    and "be_val a \<le> be_val x" "be_val x \<le> be_val b"
  shows "ipv6_in_subnet x net plen"
proof -
  let ?k = "2 ^ (128 - unat plen) :: nat"
  have "be_val a div ?k \<le> be_val x div ?k" "be_val x div ?k \<le> be_val b div ?k"
    using assms(7,8) by (auto intro: div_le_mono)
  then show ?thesis
    using assms(5,6) ipv6_in_subnet_val [OF assms(1,4)] ipv6_in_subnet_val [OF assms(2,4)]
      ipv6_in_subnet_val [OF assms(3,4)] by simp
qed

lemma validate_no_message:
  assumes "snd (validate_config_v6 cfg) = []" "s \<in> set (subnets6 cfg)"
  shows "has_prefix_bin s \<and> validate_range6 s = [] \<and> validate_pd_pool s = [] \<and> validate_hosts s = []
    \<and> 0 < prefix_len s \<and> prefix_len s \<le> 128"
proof -
  obtain i where i: "i < length (subnets6 cfg)" "s = subnets6 cfg ! i"
    using assms(2) by (metis in_set_conv_nth)
  then have "snd (validate_subnet i s) = []"
    using assms(1) by (auto simp: validate_config_v6_def Let_def concat_eq_Nil_conv split: if_splits)
  then show ?thesis
    by (auto simp: validate_subnet_def word_gt_0 split: if_splits)
qed

lemma load_config_v6_ok: "config6_ok (snd (load_config_v6 file))"
proof -
  have z: "config6_ok zero_config6" by (simp add: config6_ok_def zero_config6_def global6_ok_def)
  then have "config6_ok (snd (load_lines f None zero_config6))" for f
    by (simp add: load_lines_ok load_inv_def)
  then show ?thesis
    using z apply_defaults_ok
    by (auto simp: load_config_v6_def split: option.split prod.split) (metis snd_conv)+
qed

lemma apply_defaults_times:
  "s \<in> set (subnets6 (apply_defaults cfg)) \<Longrightarrow> default_lease_time6 s \<noteq> 0 \<and> max_lease_time6 s \<noteq> 0"
  by (auto simp: apply_defaults_def Let_def inherit_times_def split: if_splits)

lemma convert_all_ok: "config6_ok cfg \<Longrightarrow> config6_ok (convert_all_to_binary cfg)"
proof -
  assume c: "config6_ok cfg"
  have h: "host6_ok (convert_host_block h)" if "host6_ok h" for h
    using that by (auto simp: convert_host_block_def host6_ok_def Let_def)
  have "subnet6_ok (s\<lparr>hosts6 := map convert_host_block (hosts6 s)\<rparr>)" if "subnet6_ok s" for s
    using that h by (auto simp: subnet6_ok_def addresses6_ok_def texts6_ok_def hosts6_ok_def list_all_iff)
  then show ?thesis
    using c convert_ok by (auto simp: config6_ok_def convert_all_to_binary_def Let_def list_all_iff)
qed

section \<open>Properties\<close>

text \<open>
  C35: Whatever the configuration file holds, loading it and converting it to binary returns and leaves
  structures that fit their declarations: at most 64 subnets with at most 200 hosts each, every
  text shorter than its buffer, every address 16 bytes, every prefix length at most 128.  When the
  loading reports success, no subnet of it has a zero default or maximal lease time.
\<close>

theorem load_config_v6_well_formed:
  "config6_ok (convert_all_to_binary (snd (load_config_v6 file)))
   \<and> (fst (load_config_v6 file) = 0 \<longrightarrow>
        (\<forall>s \<in> set (subnets6 (snd (load_config_v6 file))). default_lease_time6 s \<noteq> 0 \<and> max_lease_time6 s \<noteq> 0))"
proof (intro conjI impI ballI)
  show "config6_ok (convert_all_to_binary (snd (load_config_v6 file)))"
    by (rule convert_all_ok [OF load_config_v6_ok])
next
  fix s
  assume "fst (load_config_v6 file) = 0" "s \<in> set (subnets6 (snd (load_config_v6 file)))"
  then have "\<exists>cfg. s \<in> set (subnets6 (apply_defaults cfg))"
    by (auto simp: load_config_v6_def split: option.splits prod.splits if_splits)
  then show "default_lease_time6 s \<noteq> 0" "max_lease_time6 s \<noteq> 0" using apply_defaults_times by blast+
qed

definition sample_file6 :: string where
  "sample_file6 = ''max-lease-time 9000;'' @ [CHR 0x0A] @ ''subnet6 2001:db8::/64 {'' @ [CHR 0x0A]
     @ ''range6 2001:db8::1 2001:db8::2; # pool'' @ [CHR 0x0A] @ ''}'' @ [CHR 0x0A]"

definition addr6 :: "u8 \<Rightarrow> in6_addr" where
  "addr6 b = [0x20, 1, 0xD, 0xB8] @ replicate 11 0 @ [b]"

lemma sample_file6_loaded:
  "fst (load_config_v6 (Some sample_file6)) = 0
   \<and> map max_lease_time6 (subnets6 (snd (load_config_v6 (Some sample_file6)))) = [9000]
   \<and> map pool_end_bin (subnets6 (snd (load_config_v6 (Some sample_file6)))) = [addr6 2]"
  by code_simp

theorem load_config_v6_well_formed_witness:
  "fst (load_config_v6 (Some sample_file6)) = 0
   \<and> length (subnets6 (snd (load_config_v6 (Some sample_file6)))) = 1
   \<and> default_lease_time6 (hd (subnets6 (snd (load_config_v6 (Some sample_file6))))) \<noteq> 0"
proof -
  have l: "length (subnets6 (snd (load_config_v6 (Some sample_file6)))) = 1"
    using sample_file6_loaded by (metis length_map length_Cons list.size(3) One_nat_def)
  then have "hd (subnets6 (snd (load_config_v6 (Some sample_file6)))) \<in> set (subnets6 (snd (load_config_v6 (Some sample_file6))))"
    by (intro hd_in_set) auto
  then show ?thesis
    using load_config_v6_well_formed [of "Some sample_file6"] sample_file6_loaded l by auto
qed

text \<open>
  A configuration that validates without any message is consistent: in each subnet the prefix length
  is between 1 and 128, the pool range is not empty, and every address from its start to its end (not
  only the two that the validator looks at) lies in the subnet.
\<close>

lemma validated_pool_in_subnet:
  assumes "config6_ok cfg" "snd (validate_config_v6 cfg) = []" "s \<in> set (subnets6 cfg)" "has_pool_range s"
  shows "0 < prefix_len s \<and> prefix_len s \<le> 128 \<and> be_val (pool_start_bin s) \<le> be_val (pool_end_bin s)
    \<and> (\<forall>x. length x = 16 \<and> be_val (pool_start_bin s) \<le> be_val x \<and> be_val x \<le> be_val (pool_end_bin s)
         \<longrightarrow> ipv6_in_subnet x (prefix_bin s) (prefix_len s))"
proof -
  have v: "has_prefix_bin s" "validate_range6 s = []" "0 < prefix_len s" "prefix_len s \<le> 128"
    using validate_no_message [OF assms(2,3)] by auto
  then have r: "memcmp (pool_start_bin s) (pool_end_bin s) \<le> 0"
    "ipv6_in_subnet (pool_start_bin s) (prefix_bin s) (prefix_len s)"
    "ipv6_in_subnet (pool_end_bin s) (prefix_bin s) (prefix_len s)"
    using assms(4) by (auto simp: validate_range6_def split: if_splits)
  have l: "length (pool_start_bin s) = 16" "length (pool_end_bin s) = 16" "length (prefix_bin s) = 16"
    using assms(1,3) by (auto simp: config6_ok_def list_all_iff subnet6_ok_def addresses6_ok_def)
  have "be_val (pool_start_bin s) \<le> be_val (pool_end_bin s)"
    using memcmp_val [of "pool_start_bin s" "pool_end_bin s"] r(1) l by (simp add: le_less)
  then show ?thesis
    using v(3,4) in_subnet_convex [OF l(1,2) _ l(3) r(2,3)] by blast
qed

definition sample_subnet6 :: dhcpv6_subnet_t where
  "sample_subnet6 = zero_subnet6\<lparr>prefix_len := 64, prefix_bin := addr6 0, has_prefix_bin := True,
     pool_start_bin := addr6 1, pool_end_bin := addr6 2, has_pool_range := True\<rparr>"

definition sample_config6 :: dhcpv6_config_t where
  "sample_config6 = zero_config6\<lparr>subnets6 := [sample_subnet6]\<rparr>"

end
