(* ===== verification/Ip6_Pool.thy ===== *)
theory Ip6_Pool
  imports Leases_V6 Config_V6 Counted_Pool
begin

text \<open>
  The pool of addresses of one DHCPv6 subnet (include/ip6_pool.h, sources/ip6_pool.c).  An entry is
  named by its index; the ping probe is the parameter \<open>ping\<close>, \<open>io\<close> tells whether the lease file can be
  saved, and \<open>now\<close> is the result of \<open>time(NULL)\<close>.  The field \<open>lease_id\<close>, which no function uses, is left
  out.  Fields carry the suffix 6 where the DHCPv4 pool has the same name.
\<close>

section \<open>Definitions\<close>

subsection \<open>Data\<close>

datatype ip6_state_t = IP6_STATE_AVAILABLE | IP6_STATE_ALLOCATED | IP6_STATE_RESERVED | IP6_STATE_EXCLUDED
  | IP6_STATE_CONFLICT | IP6_STATE_UNKNOWN

record ip6_pool_entry_t =
  ip_address6 :: in6_addr
  entry_state6 :: ip6_state_t
  entry_duid :: string
  last_allocated6 :: time_t

record ip6_pool_t =
  pool_subnet6 :: dhcpv6_subnet_t
  entries6 :: "ip6_pool_entry_t list"
  available_count6 :: u32
  allocated_count6 :: u32
  reserved_count6 :: u32

record ip6_allocation_result_t =
  success6 :: bool
  is_new6 :: bool
  result_ip6 :: in6_addr
  error_message6 :: string
  err_is_conflict6 :: bool
  conflict_ip6 :: in6_addr
  conflict_reason6 :: string

abbreviation MAX_POOL6_SIZE :: nat where "MAX_POOL6_SIZE \<equiv> 4096"

definition empty_result6 :: ip6_allocation_result_t where
  "empty_result6 = \<lparr>success6 = False, is_new6 = False, result_ip6 = in6_zero, error_message6 = [],
     err_is_conflict6 = False, conflict_ip6 = in6_zero, conflict_reason6 = []\<rparr>"

definition ip6_state_to_string :: "ip6_state_t \<Rightarrow> string" where
  "ip6_state_to_string s = (case s of
     IP6_STATE_AVAILABLE \<Rightarrow> ''available'' | IP6_STATE_ALLOCATED \<Rightarrow> ''allocated''
   | IP6_STATE_RESERVED \<Rightarrow> ''reserved'' | IP6_STATE_EXCLUDED \<Rightarrow> ''excluded'' | IP6_STATE_CONFLICT \<Rightarrow> ''conflict''
   | IP6_STATE_UNKNOWN \<Rightarrow> ''unknown'')"

definition ip6_state_from_lease_state :: "lease_state6_t \<Rightarrow> ip6_state_t" where
  "ip6_state_from_lease_state s = (case s of
     LEASE6_ACTIVE \<Rightarrow> IP6_STATE_ALLOCATED | LEASE6_RESERVED \<Rightarrow> IP6_STATE_RESERVED
   | LEASE6_ABANDONED \<Rightarrow> IP6_STATE_CONFLICT
   | LEASE6_FREE \<Rightarrow> IP6_STATE_AVAILABLE | LEASE6_EXPIRED \<Rightarrow> IP6_STATE_AVAILABLE
   | LEASE6_RELEASED \<Rightarrow> IP6_STATE_AVAILABLE | LEASE6_BACKUP \<Rightarrow> IP6_STATE_ALLOCATED)"

definition get_effective_probe :: "dhcpv6_config_t \<Rightarrow> dhcpv6_subnet_t \<Rightarrow> bool \<times> u32" where
  "get_effective_probe cfg sn =
     (let g = global6 cfg; tmo = (if g6_icmp6_timeout_ms g \<noteq> 0 then g6_icmp6_timeout_ms g else 500)
      in if icmp6_probe_override sn
         then (icmp6_probe sn, if has_icmp6_timeout sn then icmp6_timeout_ms sn else tmo)
         else (g6_icmp6_probe g, tmo))"

subsection \<open>Look-ups\<close>

definition ip6_pool_find_entry :: "ip6_pool_t \<Rightarrow> in6_addr \<Rightarrow> nat option" where
  "ip6_pool_find_entry pool ip = find_idx (\<lambda>e. ip_address6 e = ip) (entries6 pool)"

definition ip6_pool_is_in_range :: "ip6_pool_t \<Rightarrow> in6_addr \<Rightarrow> bool" where
  "ip6_pool_is_in_range pool ip =
     (if \<not> has_pool_range (pool_subnet6 pool) then False
      else ipv6_compare ip (pool_start_bin (pool_subnet6 pool)) \<ge> 0
         \<and> ipv6_compare ip (pool_end_bin (pool_subnet6 pool)) \<le> 0)"

definition ip6_pool_is_available :: "ip6_pool_t \<Rightarrow> in6_addr \<Rightarrow> bool" where
  "ip6_pool_is_available pool ip = (case ip6_pool_find_entry pool ip of
     None \<Rightarrow> False | Some i \<Rightarrow> entry_state6 (entries6 pool ! i) = IP6_STATE_AVAILABLE)"

subsection \<open>Counters\<close>

definition sat_dec :: "u32 \<Rightarrow> u32" where
  "sat_dec n = (if n \<noteq> 0 then n - 1 else n)"

text \<open>The counters when an entry leaves a state and when it enters one.\<close>

definition leave_state6 :: "ip6_state_t \<Rightarrow> ip6_pool_t \<Rightarrow> ip6_pool_t" where
  "leave_state6 s pool = (case s of
     IP6_STATE_AVAILABLE \<Rightarrow> pool\<lparr>available_count6 := sat_dec (available_count6 pool)\<rparr>
   | IP6_STATE_ALLOCATED \<Rightarrow> pool\<lparr>allocated_count6 := sat_dec (allocated_count6 pool)\<rparr>
   | IP6_STATE_RESERVED \<Rightarrow> pool\<lparr>reserved_count6 := sat_dec (reserved_count6 pool)\<rparr>
   | _ \<Rightarrow> pool)"

definition enter_state6 :: "ip6_state_t \<Rightarrow> ip6_pool_t \<Rightarrow> ip6_pool_t" where
  "enter_state6 s pool = (case s of
     IP6_STATE_AVAILABLE \<Rightarrow> pool\<lparr>available_count6 := available_count6 pool + 1\<rparr>
   | IP6_STATE_ALLOCATED \<Rightarrow> pool\<lparr>allocated_count6 := allocated_count6 pool + 1\<rparr>
   | IP6_STATE_RESERVED \<Rightarrow> pool\<lparr>reserved_count6 := reserved_count6 pool + 1\<rparr>
   | _ \<Rightarrow> pool)"

definition put_entry6 :: "nat \<Rightarrow> ip6_pool_entry_t \<Rightarrow> ip6_pool_t \<Rightarrow> ip6_pool_t" where
  "put_entry6 i e pool = pool\<lparr>entries6 := (entries6 pool)[i := e]\<rparr>"

subsection \<open>Following the leases\<close>

definition lease_duid_hex :: "dhcpv6_lease_t \<Rightarrow> string" where
  "lease_duid_hex L =
     (if duid_len6 L > 0 then
        case duid_bin_to_hex (take (unat (duid_len6 L)) (duid6 L)) 128 of (n, hex) \<Rightarrow> if n < 0 then [] else hex
      else [])"

definition ip6_pool_update_from_lease :: "ip6_pool_t \<Rightarrow> dhcpv6_lease_t \<Rightarrow> ip6_pool_t" where
  "ip6_pool_update_from_lease pool L = (case ip6_pool_find_entry pool (ip6_addr L) of
     None \<Rightarrow> pool
   | Some i \<Rightarrow>
       let e = entries6 pool ! i; ns = ip6_state_from_lease_state (state6 L);
           duid = (if ns = IP6_STATE_ALLOCATED \<or> ns = IP6_STATE_RESERVED then lease_duid_hex L else []);
           e1 = e\<lparr>entry_state6 := ns, entry_duid := duid\<rparr>;
           e2 = (if ns = IP6_STATE_ALLOCATED then e1\<lparr>last_allocated6 := starts6 L\<rparr> else e1)
       in enter_state6 ns (put_entry6 i e2 (leave_state6 (entry_state6 e) pool)))"

definition ip6_pool_sync_with_leases :: "ip6_pool_t \<Rightarrow> lease_v6_db_t \<Rightarrow> ip6_pool_t" where
  "ip6_pool_sync_with_leases pool db =
     foldl (\<lambda>p L. if \<not> in_use6 L then p else ip6_pool_update_from_lease p L) pool (leases6 db)"

subsection \<open>Reserving, releasing, conflicts\<close>

definition ip6_pool_reserve_ip :: "time_t \<Rightarrow> ip6_pool_t \<Rightarrow> in6_addr \<Rightarrow> string option \<Rightarrow> int \<times> ip6_pool_t" where
  "ip6_pool_reserve_ip now pool ip duid = (case ip6_pool_find_entry pool ip of
     None \<Rightarrow> (-1, pool)
   | Some i \<Rightarrow>
       let e = entries6 pool ! i;
           e1 = e\<lparr>entry_state6 := IP6_STATE_RESERVED, last_allocated6 := now\<rparr>;
           e2 = (case duid of None \<Rightarrow> e1 | Some d \<Rightarrow> if d \<noteq> [] then e1\<lparr>entry_duid := take 127 d\<rparr> else e1)
       in (0, enter_state6 IP6_STATE_RESERVED (put_entry6 i e2 (leave_state6 (entry_state6 e) pool))))"

definition ip6_pool_release_ip ::
    "bool \<Rightarrow> time_t \<Rightarrow> ip6_pool_t \<Rightarrow> in6_addr \<Rightarrow> lease_v6_db_t option \<Rightarrow> int \<times> ip6_pool_t \<times> lease_v6_db_t option" where
  "ip6_pool_release_ip io now pool ip db = (case ip6_pool_find_entry pool ip of
     None \<Rightarrow> (-1, pool, db)
   | Some i \<Rightarrow>
       let e = entries6 pool ! i;
           pool' = (if entry_state6 e = IP6_STATE_ALLOCATED
             then enter_state6 IP6_STATE_AVAILABLE (put_entry6 i
               (e\<lparr>entry_state6 := IP6_STATE_AVAILABLE, entry_duid := [], last_allocated6 := 0\<rparr>)
               (leave_state6 IP6_STATE_ALLOCATED pool))
             else pool)
       in (0, pool', map_option (\<lambda>d. snd (lease_v6_release_ip io now d ip)) db))"

definition ip6_pool_mark_conflict ::
    "bool \<Rightarrow> time_t \<Rightarrow> ip6_pool_t \<Rightarrow> in6_addr \<Rightarrow> lease_v6_db_t option \<Rightarrow> int \<times> ip6_pool_t \<times> lease_v6_db_t option" where
  "ip6_pool_mark_conflict io now pool ip db = (case ip6_pool_find_entry pool ip of
     None \<Rightarrow> (-1, pool, db)
   | Some i \<Rightarrow>
       let e = entries6 pool ! i
       in (0, put_entry6 i (e\<lparr>entry_state6 := IP6_STATE_CONFLICT\<rparr>) (leave_state6 (entry_state6 e) pool),
           map_option (\<lambda>d. snd (lease_v6_mark_conflict io now d ip)) db))"

subsection \<open>Initialisation\<close>

text \<open>The loop over the range with the counter \<open>iterations\<close> and the entries made so far.\<close>

function init6_loop :: "int \<Rightarrow> in6_addr \<Rightarrow> in6_addr \<Rightarrow> ip6_pool_entry_t list \<Rightarrow> ip6_pool_entry_t list" where
  "init6_loop iterations cur end_ip es =
     (if ipv6_compare cur end_ip \<le> 0 then
        if iterations > 50000 then es
        else if length es \<ge> MAX_POOL6_SIZE then es
        else
          let es' = es @ [\<lparr>ip_address6 = cur, entry_state6 = IP6_STATE_AVAILABLE, entry_duid = [],
                           last_allocated6 = 0\<rparr>];
              (ok, next_ip) = ipv6_increment cur
          in if \<not> ok then es' else init6_loop (iterations + 1) next_ip end_ip es'
      else es)"
  by pat_completeness auto

termination init6_loop
  by (relation "measure (\<lambda>(n, _, _, _). nat (50001 - n))") auto

declare init6_loop.simps [simp del]

definition init6_host :: "time_t \<Rightarrow> ip6_pool_t \<Rightarrow> dhcpv6_static_host_t \<Rightarrow> ip6_pool_t" where
  "init6_host now pool h =
     (if \<not> has_fixed_address6_bin h then pool
      else snd (ip6_pool_reserve_ip now pool (fixed_addr6_bin h) (if host_duid h \<noteq> [] then Some (host_duid h) else None)))"

definition ip6_pool_init :: "time_t \<Rightarrow> dhcpv6_subnet_t \<Rightarrow> lease_v6_db_t option \<Rightarrow> ip6_pool_t option" where
  "ip6_pool_init now subnet db =
     (if \<not> has_pool_range subnet then None
      else
        let es = init6_loop 0 (pool_start_bin subnet) (pool_end_bin subnet) [];
            pool = \<lparr>pool_subnet6 = subnet, entries6 = es, available_count6 = of_nat (length es),
                    allocated_count6 = 0, reserved_count6 = 0\<rparr>;
            pool1 = (case db of None \<Rightarrow> pool | Some d \<Rightarrow> ip6_pool_sync_with_leases pool d)
        in Some (foldl (init6_host now) pool1 (hosts6 subnet)))"

subsection \<open>Allocation\<close>

text \<open>The client's data and the environment of one call of \<open>ip6_pool_allocate\<close>.\<close>

record alloc6_args =
  arg_duid :: string
  arg_iaid :: u32
  arg_hostname :: "string option"
  arg_lease_time :: u32
  arg_now :: time_t
  arg_io :: bool
  arg_ping :: "in6_addr \<Rightarrow> u32 \<Rightarrow> bool"

type_synonym alloc6_state = "ip6_allocation_result_t \<times> ip6_pool_t \<times> lease_v6_db_t"

definition probe_hit :: "alloc6_args \<Rightarrow> bool \<times> u32 \<Rightarrow> in6_addr \<Rightarrow> bool" where
  "probe_hit a probe ip \<longleftrightarrow> fst probe \<and> arg_ping a ip (snd probe)"

definition add_lease6 :: "alloc6_args \<Rightarrow> in6_addr \<Rightarrow> lease_v6_db_t \<Rightarrow> bool \<times> lease_v6_db_t" where
  "add_lease6 a ip db =
     (case lease_v6_add_ia_na (arg_now a) db (arg_duid a) (arg_iaid a) ip (arg_lease_time a) (arg_hostname a) of
        (r, db') \<Rightarrow> (r \<noteq> None, db'))"

definition conflict_result6 :: "in6_addr \<Rightarrow> string \<Rightarrow> ip6_allocation_result_t" where
  "conflict_result6 ip msg = empty_result6\<lparr>err_is_conflict6 := True, conflict_ip6 := ip,
     conflict_reason6 := ''icmp6 echo reply'', error_message6 := msg\<rparr>"

definition conflict6 :: "alloc6_args \<Rightarrow> in6_addr \<Rightarrow> ip6_pool_t \<Rightarrow> lease_v6_db_t \<Rightarrow> ip6_pool_t \<times> lease_v6_db_t" where
  "conflict6 a ip pool db = (case ip6_pool_mark_conflict (arg_io a) (arg_now a) pool ip (Some db) of
     (_, pool', db') \<Rightarrow> (pool', the db'))"

definition allocated_entry :: "alloc6_args \<Rightarrow> ip6_pool_entry_t \<Rightarrow> ip6_pool_entry_t" where
  "allocated_entry a e = e\<lparr>entry_state6 := IP6_STATE_ALLOCATED, last_allocated6 := arg_now a,
     entry_duid := take 127 (arg_duid a)\<rparr>"

text \<open>What a failed \<open>lease_v6_add_ia_na\<close> undoes.\<close>

definition rollback6 :: "nat \<Rightarrow> ip6_pool_t \<Rightarrow> ip6_pool_t" where
  "rollback6 i pool =
     (let e = entries6 pool ! i
      in enter_state6 IP6_STATE_AVAILABLE (leave_state6 IP6_STATE_ALLOCATED
           (put_entry6 i (e\<lparr>entry_state6 := IP6_STATE_AVAILABLE, entry_duid := []\<rparr>) pool)))"

text \<open>The three ways to mark an entry as allocated: for a fixed host, on request, from the scan.\<close>

definition take_fixed :: "alloc6_args \<Rightarrow> nat \<Rightarrow> ip6_pool_t \<Rightarrow> ip6_pool_t" where
  "take_fixed a i pool =
     (let e = entries6 pool ! i;
          p1 = (if entry_state6 e = IP6_STATE_AVAILABLE then leave_state6 IP6_STATE_AVAILABLE pool else pool);
          p2 = (if entry_state6 e = IP6_STATE_RESERVED then leave_state6 IP6_STATE_RESERVED p1 else p1);
          p3 = (if entry_state6 e \<noteq> IP6_STATE_ALLOCATED then enter_state6 IP6_STATE_ALLOCATED p2 else p2)
      in put_entry6 i (allocated_entry a e) p3)"

definition take_requested6 :: "alloc6_args \<Rightarrow> nat \<Rightarrow> ip6_pool_t \<Rightarrow> ip6_pool_t" where
  "take_requested6 a i pool =
     (let e = entries6 pool ! i;
          p1 = (if entry_state6 e = IP6_STATE_AVAILABLE then leave_state6 IP6_STATE_AVAILABLE pool else pool);
          p2 = (if entry_state6 e = IP6_STATE_RESERVED then leave_state6 IP6_STATE_RESERVED p1 else p1)
      in put_entry6 i (allocated_entry a e) (enter_state6 IP6_STATE_ALLOCATED p2))"

definition take_scanned :: "alloc6_args \<Rightarrow> nat \<Rightarrow> ip6_pool_t \<Rightarrow> ip6_pool_t" where
  "take_scanned a i pool =
     put_entry6 i (allocated_entry a (entries6 pool ! i))
       (enter_state6 IP6_STATE_ALLOCATED (leave_state6 IP6_STATE_AVAILABLE pool))"

text \<open>Creating the lease of an entry that was taken; the entry is rolled back when that fails.\<close>

definition persist6 :: "alloc6_args \<Rightarrow> bool \<Rightarrow> nat \<Rightarrow> ip6_pool_t \<Rightarrow> lease_v6_db_t \<Rightarrow> alloc6_state" where
  "persist6 a new i pool db =
     (let ip = ip_address6 (entries6 pool ! i); (ok, db') = add_lease6 a ip db
      in if \<not> ok then (empty_result6\<lparr>error_message6 := ''lease persist failed''\<rparr>, rollback6 i pool, db')
         else (empty_result6\<lparr>success6 := True, is_new6 := new, result_ip6 := ip\<rparr>, pool, db'))"

definition alloc6_fixed ::
    "alloc6_args \<Rightarrow> bool \<times> u32 \<Rightarrow> nat \<Rightarrow> ip6_pool_t \<Rightarrow> lease_v6_db_t \<Rightarrow> alloc6_state" where
  "alloc6_fixed a probe i pool db =
     (let ip = ip_address6 (entries6 pool ! i)
      in if probe_hit a probe ip then
           (conflict_result6 ip ''conflict on reserved address'', conflict6 a ip pool db)
         else persist6 a False i (take_fixed a i pool) db)"

definition alloc6_requested ::
    "alloc6_args \<Rightarrow> bool \<times> u32 \<Rightarrow> in6_addr \<Rightarrow> ip6_pool_t \<Rightarrow> lease_v6_db_t \<Rightarrow> alloc6_state option" where
  "alloc6_requested a probe ip pool db =
     (if ip \<noteq> in6_zero \<and> ip6_pool_is_in_range pool ip \<and> ip6_pool_is_available pool ip then
        if probe_hit a probe ip then
          Some (conflict_result6 ip ''conflict on requested address'', conflict6 a ip pool db)
        else (case ip6_pool_find_entry pool ip of
            None \<Rightarrow> None
          | Some i \<Rightarrow> Some (persist6 a True i (take_requested6 a i pool) db))
      else None)"

text \<open>The last loop, over the entries that are left; \<open>r\<close> is the result built so far.\<close>

fun alloc6_scan ::
    "alloc6_args \<Rightarrow> bool \<times> u32 \<Rightarrow> nat list \<Rightarrow> ip6_allocation_result_t \<Rightarrow> ip6_pool_t \<Rightarrow> lease_v6_db_t \<Rightarrow> alloc6_state" where
  "alloc6_scan a probe [] r pool db = (r\<lparr>error_message6 := ''no free addresses''\<rparr>, pool, db)"
| "alloc6_scan a probe (i # is) r pool db =
     (let e = entries6 pool ! i
      in if entry_state6 e \<noteq> IP6_STATE_AVAILABLE then alloc6_scan a probe is r pool db
         else if probe_hit a probe (ip_address6 e) then
           (case conflict6 a (ip_address6 e) pool db of (pool', db') \<Rightarrow> alloc6_scan a probe is r pool' db')
         else (case persist6 a True i (take_scanned a i pool) db of (r1, pool', db') \<Rightarrow>
             if success6 r1 then (r1\<lparr>error_message6 := error_message6 r\<rparr>, pool', db')
             else alloc6_scan a probe is (r\<lparr>error_message6 := error_message6 r1\<rparr>) pool' db'))"

text \<open>The host with a fixed address whose entry is used first, and the entry that the client has already.\<close>

definition fixed_entry :: "string \<Rightarrow> ip6_pool_t \<Rightarrow> nat option" where
  "fixed_entry duid pool =
     (case find_idx (\<lambda>h. has_fixed_address6_bin h \<and> host_duid h \<noteq> [] \<and> host_duid h = duid) (hosts6 (pool_subnet6 pool)) of
        None \<Rightarrow> None
      | Some k \<Rightarrow> ip6_pool_find_entry pool (fixed_addr6_bin (hosts6 (pool_subnet6 pool) ! k)))"

definition own_entry :: "string \<Rightarrow> ip6_pool_t \<Rightarrow> nat option" where
  "own_entry duid pool =
     find_idx (\<lambda>e. entry_state6 e = IP6_STATE_ALLOCATED \<and> entry_duid e \<noteq> [] \<and> entry_duid e = duid) (entries6 pool)"

definition ip6_pool_allocate ::
    "alloc6_args \<Rightarrow> dhcpv6_config_t \<Rightarrow> in6_addr \<Rightarrow> ip6_pool_t \<Rightarrow> lease_v6_db_t \<Rightarrow> alloc6_state" where
  "ip6_pool_allocate a config requested_ip pool db =
     (let probe = get_effective_probe config (pool_subnet6 pool)
      in case fixed_entry (arg_duid a) pool of
          Some i \<Rightarrow> alloc6_fixed a probe i pool db
        | None \<Rightarrow>
            (case own_entry (arg_duid a) pool of
               Some i \<Rightarrow>
                 let ip = ip_address6 (entries6 pool ! i); (ok, db') = add_lease6 a ip db
                 in (empty_result6\<lparr>success6 := True, result_ip6 := ip,
                       error_message6 := (if ok then [] else ''lease refresh failed'')\<rparr>, pool, db')
             | None \<Rightarrow>
                 (case alloc6_requested a probe requested_ip pool db of
                    Some res \<Rightarrow> res
                  | None \<Rightarrow> alloc6_scan a probe [0..<length (entries6 pool)] empty_result6 pool db)))"

text \<open>The pool after \<open>memset\<close>; its null pointer to a subnet is the subnet of zeros.\<close>

definition ip6_pool_free :: "ip6_pool_t \<Rightarrow> ip6_pool_t" where
  "ip6_pool_free pool = \<lparr>pool_subnet6 = zero_subnet6, entries6 = [], available_count6 = 0, allocated_count6 = 0,
     reserved_count6 = 0\<rparr>"

section \<open>Lemmas\<close>

subsection \<open>Moves of an entry\<close>

text \<open>All changes of the pool are moves of one entry from its state to another one.\<close>

definition pool6_move :: "nat \<Rightarrow> ip6_pool_entry_t \<Rightarrow> ip6_pool_t \<Rightarrow> ip6_pool_t" where
  "pool6_move i e pool =
     enter_state6 (entry_state6 e) (put_entry6 i e (leave_state6 (entry_state6 (entries6 pool ! i)) pool))"

definition state6_is :: "ip6_state_t \<Rightarrow> ip6_pool_entry_t \<Rightarrow> bool" where
  "state6_is s e \<longleftrightarrow> entry_state6 e = s"

lemma pool6_fields [simp]:
  "entries6 (leave_state6 s p) = entries6 p" "entries6 (enter_state6 s p) = entries6 p"
  "pool_subnet6 (leave_state6 s p) = pool_subnet6 p" "pool_subnet6 (enter_state6 s p) = pool_subnet6 p"
  "entries6 (put_entry6 i e p) = (entries6 p)[i := e]" "pool_subnet6 (put_entry6 i e p) = pool_subnet6 p"
  by (simp_all add: leave_state6_def enter_state6_def put_entry6_def split: ip6_state_t.split)

lemma pool6_move_fields [simp]:
  "entries6 (pool6_move i e p) = (entries6 p)[i := e]" "pool_subnet6 (pool6_move i e p) = pool_subnet6 p"
  by (simp_all add: pool6_move_def)

lemma pool6_move_counts:
  "available_count6 (pool6_move i e p) =
     (if state6_is IP6_STATE_AVAILABLE (entries6 p ! i) \<and> available_count6 p \<noteq> 0 then available_count6 p - 1
      else available_count6 p) + of_bool (state6_is IP6_STATE_AVAILABLE e)"
  "allocated_count6 (pool6_move i e p) =
     (if state6_is IP6_STATE_ALLOCATED (entries6 p ! i) \<and> allocated_count6 p \<noteq> 0 then allocated_count6 p - 1
      else allocated_count6 p) + of_bool (state6_is IP6_STATE_ALLOCATED e)"
  "reserved_count6 (pool6_move i e p) =
     (if state6_is IP6_STATE_RESERVED (entries6 p ! i) \<and> reserved_count6 p \<noteq> 0 then reserved_count6 p - 1
      else reserved_count6 p) + of_bool (state6_is IP6_STATE_RESERVED e)"
  by (simp_all add: pool6_move_def leave_state6_def enter_state6_def put_entry6_def sat_dec_def state6_is_def
      split: ip6_state_t.split)

interpretation available6: saturating_counter entries6 "state6_is IP6_STATE_AVAILABLE" available_count6 pool6_move
  by unfold_locales (simp_all add: pool6_move_counts)

interpretation allocated6: saturating_counter entries6 "state6_is IP6_STATE_ALLOCATED" allocated_count6 pool6_move
  by unfold_locales (simp_all add: pool6_move_counts)

interpretation reserved6: saturating_counter entries6 "state6_is IP6_STATE_RESERVED" reserved_count6 pool6_move
  by unfold_locales (simp_all add: pool6_move_counts)

text \<open>
  The invariant of a pool: one entry per address, identifiers that fit their field, exact counters.
\<close>

definition pool6_wf :: "ip6_pool_t \<Rightarrow> bool" where
  "pool6_wf p \<longleftrightarrow> length (entries6 p) \<le> MAX_POOL6_SIZE \<and> distinct (map ip_address6 (entries6 p))
     \<and> list_all (\<lambda>e. length (entry_duid e) < 128 \<and> length (ip_address6 e) = 16) (entries6 p)
     \<and> unat (available_count6 p) = count_if (state6_is IP6_STATE_AVAILABLE) (entries6 p)
     \<and> unat (allocated_count6 p) = count_if (state6_is IP6_STATE_ALLOCATED) (entries6 p)
     \<and> unat (reserved_count6 p) = count_if (state6_is IP6_STATE_RESERVED) (entries6 p)"

lemma list_all_update: "list_all P xs \<Longrightarrow> P x \<Longrightarrow> list_all P (xs[i := x])"
  by (auto simp: list_all_iff dest!: set_update_subset_insert [THEN subsetD])

lemma pool6_address: "pool6_wf p \<Longrightarrow> i < length (entries6 p) \<Longrightarrow> length (ip_address6 (entries6 p ! i)) = 16"
  by (auto simp: pool6_wf_def list_all_iff)

lemma pool6_move_wf:
  assumes "pool6_wf p" "i < length (entries6 p)" "ip_address6 e = ip_address6 (entries6 p ! i)"
    and "length (entry_duid e) < 128"
  shows "pool6_wf (pool6_move i e p)"
  using assms available6.exact_move [OF assms(2), of e] allocated6.exact_move [OF assms(2), of e]
    reserved6.exact_move [OF assms(2), of e] pool6_address [OF assms(1,2)]
  by (simp add: pool6_wf_def map_update_same list_all_update)

lemma pool6_put_wf:
  assumes "pool6_wf p" "i < length (entries6 p)" "ip_address6 e = ip_address6 (entries6 p ! i)"
    and "length (entry_duid e) < 128" "entry_state6 e = entry_state6 (entries6 p ! i)"
  shows "pool6_wf (put_entry6 i e p)"
proof -
  have "count_if (state6_is s) ((entries6 p)[i := e]) = count_if (state6_is s) (entries6 p)" for s
    using count_if_update [OF assms(2), of "state6_is s" e] assms(5) by (auto simp: state6_is_def split: if_splits)
  then show ?thesis
    using assms pool6_address [OF assms(1,2)] by (simp add: pool6_wf_def map_update_same list_all_update put_entry6_def)
qed

interpretation by_entry6: keyed_table entries6 ip_address6 "\<lambda>_. True" ip6_pool_find_entry
  by unfold_locales (auto simp: ip6_pool_find_entry_def find_idx_None dest: find_idx_SomeD)

lemma pool6_duid: "pool6_wf p \<Longrightarrow> i < length (entries6 p) \<Longrightarrow> length (entry_duid (entries6 p ! i)) < 128"
  by (auto simp: pool6_wf_def list_all_iff)

lemma enter_conflict: "enter_state6 IP6_STATE_CONFLICT p = p"
  by (simp add: enter_state6_def)

subsection \<open>Every operation keeps the invariant\<close>

lemma lease_duid_hex_length: "length (lease_duid_hex L) < 128"
proof -
  let ?bs = "take (unat (duid_len6 L)) (duid6 L)"
  have "length (snd (duid_bin_to_hex ?bs 128)) < 128"
  proof (cases "?bs = []")
    case False
    then show ?thesis using length_hex_bytes [OF False] by (auto simp: duid_bin_to_hex_def Let_def)
  next
    case True
    show ?thesis unfolding True by (simp add: duid_bin_to_hex_def)
  qed
  then show ?thesis by (auto simp: lease_duid_hex_def split: prod.split)
qed

lemma update_from_lease_wf: "pool6_wf p \<Longrightarrow> pool6_wf (ip6_pool_update_from_lease p L)"
proof -
  assume wf: "pool6_wf p"
  show ?thesis
  proof (cases "ip6_pool_find_entry p (ip6_addr L)")
    case None
    then show ?thesis using wf by (simp add: ip6_pool_update_from_lease_def)
  next
    case (Some i)
    let ?e = "entries6 p ! i" and ?ns = "ip6_state_from_lease_state (state6 L)"
    let ?e1 = "?e\<lparr>entry_state6 := ?ns,
      entry_duid := if ?ns = IP6_STATE_ALLOCATED \<or> ?ns = IP6_STATE_RESERVED then lease_duid_hex L else []\<rparr>"
    let ?e2 = "if ?ns = IP6_STATE_ALLOCATED then ?e1\<lparr>last_allocated6 := starts6 L\<rparr> else ?e1"
    have "ip6_pool_update_from_lease p L = pool6_move i ?e2 p"
      using Some by (simp add: ip6_pool_update_from_lease_def pool6_move_def Let_def)
    moreover have "pool6_wf (pool6_move i ?e2 p)"
      using wf by_entry6.find_bound [OF Some] lease_duid_hex_length [of L] by (intro pool6_move_wf) auto
    ultimately show ?thesis by (simp only:)
  qed
qed

lemma sync_wf: "pool6_wf p \<Longrightarrow> pool6_wf (ip6_pool_sync_with_leases p db)"
proof -
  have "pool6_wf q \<Longrightarrow>
      pool6_wf (foldl (\<lambda>p L. if \<not> in_use6 L then p else ip6_pool_update_from_lease p L) q Ls)" for q Ls
    by (induction Ls arbitrary: q) (auto simp: update_from_lease_wf)
  then show "pool6_wf p \<Longrightarrow> ?thesis" by (simp add: ip6_pool_sync_with_leases_def)
qed

lemma reserve_wf: "pool6_wf p \<Longrightarrow> pool6_wf (snd (ip6_pool_reserve_ip now p ip duid))"
proof -
  assume wf: "pool6_wf p"
  show ?thesis
  proof (cases "ip6_pool_find_entry p ip")
    case None
    then show ?thesis using wf by (simp add: ip6_pool_reserve_ip_def)
  next
    case (Some i)
    let ?e1 = "(entries6 p ! i)\<lparr>entry_state6 := IP6_STATE_RESERVED, last_allocated6 := now\<rparr>"
    let ?e2 = "case duid of None \<Rightarrow> ?e1 | Some d \<Rightarrow> if d \<noteq> [] then ?e1\<lparr>entry_duid := take 127 d\<rparr> else ?e1"
    have s: "entry_state6 ?e2 = IP6_STATE_RESERVED" by (simp split: option.split)
    have "snd (ip6_pool_reserve_ip now p ip duid) = pool6_move i ?e2 p"
      unfolding ip6_pool_reserve_ip_def Some pool6_move_def s by (simp add: Let_def)
    moreover have "pool6_wf (pool6_move i ?e2 p)"
      using wf by_entry6.find_bound [OF Some] pool6_duid [OF wf by_entry6.find_bound [OF Some]]
      by (intro pool6_move_wf) (auto split: option.split)
    ultimately show ?thesis by (simp only:)
  qed
qed

lemma release_wf: "pool6_wf p \<Longrightarrow> pool6_wf (fst (snd (ip6_pool_release_ip io now p ip db)))"
proof -
  assume wf: "pool6_wf p"
  show ?thesis
  proof (cases "ip6_pool_find_entry p ip")
    case (Some i)
    let ?e1 = "(entries6 p ! i)\<lparr>entry_state6 := IP6_STATE_AVAILABLE, entry_duid := [], last_allocated6 := 0\<rparr>"
    have "fst (snd (ip6_pool_release_ip io now p ip db)) =
        (if entry_state6 (entries6 p ! i) = IP6_STATE_ALLOCATED then pool6_move i ?e1 p else p)"
      using Some by (simp add: ip6_pool_release_ip_def pool6_move_def Let_def)
    then show ?thesis using wf by_entry6.find_bound [OF Some] pool6_move_wf [OF wf, of i ?e1] by simp
  qed (use wf in \<open>simp add: ip6_pool_release_ip_def\<close>)
qed

text \<open>Marking a conflict, in the form that the allocation uses.\<close>

definition conflict_entry :: "ip6_pool_entry_t \<Rightarrow> ip6_pool_entry_t" where
  "conflict_entry e = e\<lparr>entry_state6 := IP6_STATE_CONFLICT\<rparr>"

lemma mark_conflict6_eq:
  assumes "ip6_pool_find_entry p ip = Some i"
  shows "ip6_pool_mark_conflict io now p ip db =
    (0, pool6_move i (conflict_entry (entries6 p ! i)) p, map_option (\<lambda>d. snd (lease_v6_mark_conflict io now d ip)) db)"
  using assms by (simp add: ip6_pool_mark_conflict_def pool6_move_def conflict_entry_def enter_conflict Let_def)

lemma mark_conflict_wf: "pool6_wf p \<Longrightarrow> pool6_wf (fst (snd (ip6_pool_mark_conflict io now p ip db)))"
proof (cases "ip6_pool_find_entry p ip")
  case (Some i)
  assume wf: "pool6_wf p"
  show ?thesis
    using wf pool6_move_wf [OF wf by_entry6.find_bound [OF Some], of "conflict_entry (entries6 p ! i)"]
      pool6_duid [OF wf by_entry6.find_bound [OF Some]]
    by (simp add: mark_conflict6_eq [OF Some] conflict_entry_def)
qed (simp add: ip6_pool_mark_conflict_def)

subsection \<open>Allocation\<close>

lemma pool6_eqI:
  "pool_subnet6 p = pool_subnet6 q \<Longrightarrow> entries6 p = entries6 q \<Longrightarrow> available_count6 p = available_count6 q \<Longrightarrow>
   allocated_count6 p = allocated_count6 q \<Longrightarrow> reserved_count6 p = reserved_count6 q \<Longrightarrow> p = (q :: ip6_pool_t)"
  by simp

lemma takes_are_moves:
  "entry_state6 (entries6 p ! i) \<noteq> IP6_STATE_ALLOCATED \<Longrightarrow>
     take_fixed a i p = pool6_move i (allocated_entry a (entries6 p ! i)) p"
  "entry_state6 (entries6 p ! i) = IP6_STATE_ALLOCATED \<Longrightarrow>
     take_fixed a i p = put_entry6 i (allocated_entry a (entries6 p ! i)) p"
  "entry_state6 (entries6 p ! i) = IP6_STATE_AVAILABLE \<Longrightarrow>
     take_requested6 a i p = pool6_move i (allocated_entry a (entries6 p ! i)) p"
  "entry_state6 (entries6 p ! i) = IP6_STATE_AVAILABLE \<Longrightarrow>
     take_scanned a i p = pool6_move i (allocated_entry a (entries6 p ! i)) p"
  by (simp_all add: take_fixed_def take_requested6_def take_scanned_def pool6_move_def leave_state6_def
      enter_state6_def put_entry6_def allocated_entry_def Let_def split: ip6_state_t.split)

lemma allocated_entry_fields [simp]:
  "ip_address6 (allocated_entry a e) = ip_address6 e" "entry_state6 (allocated_entry a e) = IP6_STATE_ALLOCATED"
  "entry_duid (allocated_entry a e) = take 127 (arg_duid a)"
  by (simp_all add: allocated_entry_def)

definition released_entry :: "ip6_pool_entry_t \<Rightarrow> ip6_pool_entry_t" where
  "released_entry e = e\<lparr>entry_state6 := IP6_STATE_AVAILABLE, entry_duid := []\<rparr>"

lemma rollback_is_move:
  "i < length (entries6 p) \<Longrightarrow> entry_state6 (entries6 p ! i) = IP6_STATE_ALLOCATED \<Longrightarrow>
   rollback6 i p = pool6_move i (released_entry (entries6 p ! i)) p"
  by (simp add: rollback6_def pool6_move_def released_entry_def leave_state6_def enter_state6_def put_entry6_def Let_def)

text \<open>The pool after \<open>persist6\<close>, by the outcome.\<close>

lemma persist6_pool:
  assumes "i < length (entries6 p)" "entry_state6 (entries6 p ! i) = IP6_STATE_ALLOCATED"
    and "persist6 a new i p db = (r, p', db')"
  shows "success6 r \<Longrightarrow> p' = p \<and> result_ip6 r = ip_address6 (entries6 p ! i)"
    "\<not> success6 r \<Longrightarrow> p' = pool6_move i (released_entry (entries6 p ! i)) p"
  using assms(3) rollback_is_move [OF assms(1,2)]
  by (auto simp: persist6_def empty_result6_def Let_def split: prod.splits if_splits)

lemma persist6_wf:
  assumes "pool6_wf p" "i < length (entries6 p)" "entry_state6 (entries6 p ! i) = IP6_STATE_ALLOCATED"
    and "persist6 a new i p db = (r, p', db')"
  shows "pool6_wf p'"
proof (cases "success6 r")
  case True
  then show ?thesis using persist6_pool(1) [OF assms(2-4)] assms(1) by simp
next
  case False
  then show ?thesis
    using persist6_pool(2) [OF assms(2-4)] pool6_move_wf [OF assms(1,2), of "released_entry (entries6 p ! i)"]
    by (simp add: released_entry_def)
qed

lemma take_wf:
  assumes "pool6_wf p" "i < length (entries6 p)"
  shows "pool6_wf (pool6_move i (allocated_entry a (entries6 p ! i)) p)" "pool6_wf (take_fixed a i p)"
proof -
  show m: "pool6_wf (pool6_move i (allocated_entry a (entries6 p ! i)) p)"
    using assms by (intro pool6_move_wf) auto
  show "pool6_wf (take_fixed a i p)"
  proof (cases "entry_state6 (entries6 p ! i) = IP6_STATE_ALLOCATED")
    case True
    then show ?thesis using assms by (auto simp: takes_are_moves intro!: pool6_put_wf)
  qed (simp add: takes_are_moves m)
qed

lemma take_fixed_entries:
  "entries6 (take_fixed a i p) = (entries6 p)[i := allocated_entry a (entries6 p ! i)]"
  by (cases "entry_state6 (entries6 p ! i) = IP6_STATE_ALLOCATED") (simp_all add: takes_are_moves)

lemma take_fixed_subnet: "pool_subnet6 (take_fixed a i p) = pool_subnet6 p"
  by (simp add: take_fixed_def Let_def)

lemma conflict6_pool:
  assumes "ip6_pool_find_entry p ip = Some i"
  shows "conflict6 a ip p db =
    (pool6_move i (conflict_entry (entries6 p ! i)) p, snd (lease_v6_mark_conflict (arg_io a) (arg_now a) db ip))"
  by (simp add: conflict6_def mark_conflict6_eq [OF assms])

lemma find_own_address:
  assumes "pool6_wf p" "i < length (entries6 p)"
  shows "ip6_pool_find_entry p (ip_address6 (entries6 p ! i)) = Some i"
  using assms by_entry6.find_unique [of p "ip_address6 (entries6 p ! i)" i] by (simp add: pool6_wf_def)

lemma conflict6_wf: "pool6_wf p \<Longrightarrow> pool6_wf (fst (conflict6 a ip p db))"
  using mark_conflict_wf [of p "arg_io a" "arg_now a" ip "Some db"] by (auto simp: conflict6_def split: prod.splits)

text \<open>
  What an allocation may do to entries that it does not hand out: nothing, except that an available entry
  may be found in conflict, or be tried in vain.
\<close>

definition mild :: "ip6_pool_t \<Rightarrow> ip6_pool_t \<Rightarrow> bool" where
  "mild p q \<longleftrightarrow> length (entries6 q) = length (entries6 p) \<and> pool_subnet6 q = pool_subnet6 p
     \<and> (\<forall>j < length (entries6 p). ip_address6 (entries6 q ! j) = ip_address6 (entries6 p ! j)
        \<and> (entries6 q ! j = entries6 p ! j
           \<or> entry_state6 (entries6 p ! j) = IP6_STATE_AVAILABLE
             \<and> entry_state6 (entries6 q ! j) \<in> {IP6_STATE_AVAILABLE, IP6_STATE_CONFLICT}))"

lemma mild_refl [simp]: "mild p p"
  by (simp add: mild_def)

lemma mild_trans: "mild p q \<Longrightarrow> mild q r \<Longrightarrow> mild p r"
  unfolding mild_def by (auto 0 4)

lemma mild_move:
  assumes "i < length (entries6 p)" "entry_state6 (entries6 p ! i) = IP6_STATE_AVAILABLE"
    and "entry_state6 e \<in> {IP6_STATE_AVAILABLE, IP6_STATE_CONFLICT}" "ip_address6 e = ip_address6 (entries6 p ! i)"
  shows "mild p (pool6_move i e p)"
  using assms by (auto simp: mild_def nth_list_update)

lemma mild_available:
  "mild p q \<Longrightarrow> i < length (entries6 p) \<Longrightarrow> entry_state6 (entries6 q ! i) = IP6_STATE_AVAILABLE \<Longrightarrow>
   entry_state6 (entries6 p ! i) = IP6_STATE_AVAILABLE"
  unfolding mild_def by (metis)

lemma move_move: "i < length (entries6 p) \<Longrightarrow> entries6 (pool6_move i e' (pool6_move i e p)) = (entries6 p)[i := e']"
  by simp

text \<open>Trying an available entry in vain.\<close>

lemma persist_failed_mild:
  assumes "i < length (entries6 p)" "entry_state6 (entries6 p ! i) = IP6_STATE_AVAILABLE"
    and "persist6 a new i (pool6_move i (allocated_entry a (entries6 p ! i)) p) db = (r, p', db')" "\<not> success6 r"
  shows "mild p p'"
proof -
  let ?q = "pool6_move i (allocated_entry a (entries6 p ! i)) p"
  have "p' = pool6_move i (released_entry (entries6 ?q ! i)) ?q"
    using persist6_pool(2) [of i ?q] assms by simp
  then show ?thesis using assms(1,2) by (auto simp: mild_def nth_list_update released_entry_def)
qed

text \<open>The outcome of the scan from the pool \<open>p\<close>.\<close>

definition scan_ok :: "alloc6_args \<Rightarrow> ip6_pool_t \<Rightarrow> ip6_allocation_result_t \<Rightarrow> ip6_pool_t \<Rightarrow> bool" where
  "scan_ok a p r' p' \<longleftrightarrow> pool6_wf p' \<and> (if success6 r'
    then \<exists>i q. i < length (entries6 p) \<and> mild p q \<and> entry_state6 (entries6 q ! i) = IP6_STATE_AVAILABLE
      \<and> result_ip6 r' = ip_address6 (entries6 q ! i) \<and> p' = pool6_move i (allocated_entry a (entries6 q ! i)) q
    else mild p p')"

lemma scan_ok_mild: "mild p q \<Longrightarrow> scan_ok a q r' p' \<Longrightarrow> scan_ok a p r' p'"
proof -
  assume m: "mild p q" and s: "scan_ok a q r' p'"
  have "length (entries6 q) = length (entries6 p)" using m by (simp add: mild_def)
  then show ?thesis using s mild_trans [OF m] unfolding scan_ok_def by (auto split: if_splits)
qed

lemma scan_effect:
  assumes "alloc6_scan a probe is r p db = (r', p', db')" "pool6_wf p" "\<forall>i \<in> set is. i < length (entries6 p)"
    and "\<not> success6 r"
  shows "scan_ok a p r' p'"
  using assms
proof (induction "is" arbitrary: r p db)
  case Nil
  then show ?case by (auto simp: scan_ok_def)
next
  case (Cons i "is")
  let ?e = "entries6 p ! i"
  have i: "i < length (entries6 p)" and is_p: "\<forall>i \<in> set is. i < length (entries6 p)" using Cons.prems(3) by simp_all
  consider (no) "entry_state6 ?e \<noteq> IP6_STATE_AVAILABLE"
    | (hit) "entry_state6 ?e = IP6_STATE_AVAILABLE" "probe_hit a probe (ip_address6 ?e)"
    | (free) "entry_state6 ?e = IP6_STATE_AVAILABLE" "\<not> probe_hit a probe (ip_address6 ?e)" by blast
  then show ?case
  proof cases
    case no
    then have "alloc6_scan a probe is r p db = (r', p', db')" using Cons.prems(1) by (simp add: Let_def)
    then show ?thesis using Cons.IH Cons.prems(2,4) is_p by blast
  next
    case hit
    let ?q = "pool6_move i (conflict_entry ?e) p"
    obtain d where c: "conflict6 a (ip_address6 ?e) p db = (?q, d)"
      using conflict6_pool [OF find_own_address [OF Cons.prems(2) i]] by auto
    have m: "mild p ?q" using i hit by (intro mild_move) (simp_all add: conflict_entry_def)
    have q: "pool6_wf ?q" using conflict6_wf [OF Cons.prems(2), of a "ip_address6 ?e" db] c by simp
    have "alloc6_scan a probe is r ?q d = (r', p', db')" using Cons.prems(1) hit c by (simp add: Let_def)
    then have "scan_ok a ?q r' p'" using Cons.IH [OF _ q] is_p Cons.prems(4) by simp
    then show ?thesis by (rule scan_ok_mild [OF m])
  next
    case free
    let ?q = "pool6_move i (allocated_entry a ?e) p"
    obtain r1 p1 d where ps: "persist6 a True i ?q db = (r1, p1, d)" by (metis prod_cases3)
    have t: "take_scanned a i p = ?q" using free(1) by (rule takes_are_moves(4))
    have st: "i < length (entries6 ?q)" "entry_state6 (entries6 ?q ! i) = IP6_STATE_ALLOCATED" using i by simp_all
    have p1: "pool6_wf p1" using persist6_wf [OF take_wf(1) [OF Cons.prems(2) i] st ps] .
    show ?thesis
    proof (cases "success6 r1")
      case True
      then have "r' = r1\<lparr>error_message6 := error_message6 r\<rparr>" "p' = p1"
        using Cons.prems(1) free t ps by (auto simp: Let_def)
      then show ?thesis
        using persist6_pool(1) [OF st ps True] True i free p1 unfolding scan_ok_def
        by (auto intro!: exI [of _ i] exI [of _ p])
    next
      case False
      then have n: "alloc6_scan a probe is (r\<lparr>error_message6 := error_message6 r1\<rparr>) p1 d = (r', p', db')"
        using Cons.prems(1) free t ps by (simp add: Let_def)
      have m: "mild p p1" by (rule persist_failed_mild [OF i free(1) ps False])
      then have "scan_ok a p1 r' p'" using Cons.IH [OF n p1] is_p Cons.prems(4) by (simp add: mild_def)
      then show ?thesis by (rule scan_ok_mild [OF m])
    qed
  qed
qed

text \<open>The effect of a whole allocation on the pool.\<close>

definition alloc6_ok :: "alloc6_args \<Rightarrow> ip6_pool_t \<Rightarrow> ip6_allocation_result_t \<Rightarrow> ip6_pool_t \<Rightarrow> bool" where
  "alloc6_ok a p r p' \<longleftrightarrow> pool6_wf p' \<and> (success6 r \<longrightarrow> (\<exists>i < length (entries6 p).
     result_ip6 r = ip_address6 (entries6 p ! i) \<and> length (entries6 p') = length (entries6 p)
     \<and> (fixed_entry (arg_duid a) p = Some i
        \<or> fixed_entry (arg_duid a) p = None \<and> own_entry (arg_duid a) p = Some i
        \<or> fixed_entry (arg_duid a) p = None \<and> own_entry (arg_duid a) p = None
          \<and> entry_state6 (entries6 p ! i) = IP6_STATE_AVAILABLE)
     \<and> entry_state6 (entries6 p' ! i) = IP6_STATE_ALLOCATED \<and> entry_duid (entries6 p' ! i) = take 127 (arg_duid a)
     \<and> pool_subnet6 p' = pool_subnet6 p \<and> map ip_address6 (entries6 p') = map ip_address6 (entries6 p)
     \<and> (\<forall>j < length (entries6 p). j \<noteq> i \<longrightarrow> entries6 p' ! j = entries6 p ! j
          \<or> entry_state6 (entries6 p ! j) = IP6_STATE_AVAILABLE
            \<and> entry_state6 (entries6 p' ! j) \<in> {IP6_STATE_AVAILABLE, IP6_STATE_CONFLICT})))"

lemma alloc_fixed_ok:
  assumes "pool6_wf p" "fixed_entry (arg_duid a) p = Some i" "alloc6_fixed a probe i p db = (r, p', db')"
  shows "alloc6_ok a p r p'"
proof -
  have i: "i < length (entries6 p)"
    using assms(2) by (auto simp: fixed_entry_def dest: by_entry6.find_bound split: option.splits)
  let ?ip = "ip_address6 (entries6 p ! i)" and ?q = "take_fixed a i p"
  show ?thesis
  proof (cases "probe_hit a probe ?ip")
    case True
    then show ?thesis
      using assms(3) conflict6_wf [OF assms(1), of a ?ip db]
      by (auto simp: alloc6_fixed_def alloc6_ok_def conflict_result6_def empty_result6_def Let_def split: prod.splits)
  next
    case False
    then have ps: "persist6 a False i ?q db = (r, p', db')" using assms(3) by (simp add: alloc6_fixed_def)
    have st: "i < length (entries6 ?q)" "entry_state6 (entries6 ?q ! i) = IP6_STATE_ALLOCATED"
      using i by (simp_all add: take_fixed_entries)
    show ?thesis
      using persist6_wf [OF take_wf(2) [OF assms(1) i] st ps] persist6_pool(1) [OF st ps] i assms(2)
      by (auto simp: alloc6_ok_def take_fixed_entries take_fixed_subnet map_update_same nth_list_update intro!: exI [of _ i])
  qed
qed

lemma alloc_requested_ok:
  assumes "pool6_wf p" "alloc6_requested a probe ip p db = Some (r, p', db')"
    and no_host: "fixed_entry (arg_duid a) p = None" "own_entry (arg_duid a) p = None"
  shows "alloc6_ok a p r p'"
proof (cases "probe_hit a probe ip")
  case True
  then show ?thesis
    using assms(2) conflict6_wf [OF assms(1), of a ip db]
    by (auto simp: alloc6_requested_def alloc6_ok_def conflict_result6_def empty_result6_def split: prod.splits if_splits)
next
  case False
  then obtain i where f: "ip6_pool_find_entry p ip = Some i" and av: "entry_state6 (entries6 p ! i) = IP6_STATE_AVAILABLE"
    and ps: "persist6 a True i (take_requested6 a i p) db = (r, p', db')"
    using assms(2) by (auto simp: alloc6_requested_def ip6_pool_is_available_def split: if_splits option.splits)
  let ?q = "pool6_move i (allocated_entry a (entries6 p ! i)) p"
  have i: "i < length (entries6 p)" by (rule by_entry6.find_bound [OF f])
  have q: "persist6 a True i ?q db = (r, p', db')" using ps by (simp only: takes_are_moves(3) [OF av])
  have st: "i < length (entries6 ?q)" "entry_state6 (entries6 ?q ! i) = IP6_STATE_ALLOCATED" using i by simp_all
  show ?thesis
    using persist6_wf [OF take_wf(1) [OF assms(1) i] st q] persist6_pool(1) [OF st q] i av no_host
    by (auto simp: alloc6_ok_def map_update_same nth_list_update intro!: exI [of _ i])
qed

lemma alloc_scan_ok:
  assumes "pool6_wf p" "scan_ok a p r p'" "fixed_entry (arg_duid a) p = None" "own_entry (arg_duid a) p = None"
  shows "alloc6_ok a p r p'"
proof -
  have "\<exists>i < length (entries6 p). result_ip6 r = ip_address6 (entries6 p ! i) \<and> length (entries6 p') = length (entries6 p)
      \<and> entry_state6 (entries6 p ! i) = IP6_STATE_AVAILABLE \<and> entry_state6 (entries6 p' ! i) = IP6_STATE_ALLOCATED
      \<and> entry_duid (entries6 p' ! i) = take 127 (arg_duid a)
      \<and> pool_subnet6 p' = pool_subnet6 p \<and> map ip_address6 (entries6 p') = map ip_address6 (entries6 p)
      \<and> (\<forall>j < length (entries6 p). j \<noteq> i \<longrightarrow> entries6 p' ! j = entries6 p ! j
          \<or> entry_state6 (entries6 p ! j) = IP6_STATE_AVAILABLE
            \<and> entry_state6 (entries6 p' ! j) \<in> {IP6_STATE_AVAILABLE, IP6_STATE_CONFLICT})" if s: "success6 r"
  proof -
    obtain i q where iq: "i < length (entries6 p)" "mild p q" "entry_state6 (entries6 q ! i) = IP6_STATE_AVAILABLE"
      "result_ip6 r = ip_address6 (entries6 q ! i)" "p' = pool6_move i (allocated_entry a (entries6 q ! i)) q"
      using assms(2) s unfolding scan_ok_def by (simp only: if_True) blast
    have m: "length (entries6 q) = length (entries6 p)" "ip_address6 (entries6 q ! i) = ip_address6 (entries6 p ! i)"
      using iq(1,2) by (auto simp: mild_def)
    have "map ip_address6 (entries6 q) = map ip_address6 (entries6 p)"
      using iq(2) by (intro nth_equalityI) (auto simp: mild_def)
    then have "map ip_address6 (entries6 p') = map ip_address6 (entries6 p)" using iq(1,5) m(1) by (simp add: map_update_same)
    moreover
    have "entry_state6 (entries6 p ! i) = IP6_STATE_AVAILABLE" by (rule mild_available [OF iq(2,1,3)])
    ultimately show ?thesis using iq m by (auto simp: mild_def intro!: exI [of _ i])
  qed
  then show ?thesis using assms(2-4) unfolding alloc6_ok_def scan_ok_def by blast
qed

lemma allocate_ok:
  assumes "pool6_wf p" "ip6_pool_allocate a cfg ip p db = (r, p', db')"
  shows "alloc6_ok a p r p'"
proof -
  let ?probe = "get_effective_probe cfg (pool_subnet6 p)"
  consider (fixed) i where "fixed_entry (arg_duid a) p = Some i"
    | (own) i where "fixed_entry (arg_duid a) p = None" "own_entry (arg_duid a) p = Some i"
    | (req) res where "fixed_entry (arg_duid a) p = None" "own_entry (arg_duid a) p = None"
        "alloc6_requested a ?probe ip p db = Some res"
    | (scan) "fixed_entry (arg_duid a) p = None" "own_entry (arg_duid a) p = None"
        "alloc6_requested a ?probe ip p db = None"
    by (cases "fixed_entry (arg_duid a) p"; cases "own_entry (arg_duid a) p";
        cases "alloc6_requested a ?probe ip p db") auto
  then show ?thesis
  proof cases
    case fixed
    then show ?thesis using assms alloc_fixed_ok by (auto simp: ip6_pool_allocate_def Let_def)
  next
    case own
    have e: "i < length (entries6 p)" "entry_state6 (entries6 p ! i) = IP6_STATE_ALLOCATED"
      "entry_duid (entries6 p ! i) = arg_duid a"
      using find_idx_SomeD [OF own(2) [unfolded own_entry_def]] by auto
    moreover have "take 127 (arg_duid a) = arg_duid a" using pool6_duid [OF assms(1) e(1)] e(3) by simp
    ultimately show ?thesis
      using assms own by (auto simp: ip6_pool_allocate_def Let_def alloc6_ok_def split: prod.splits intro!: exI [of _ i])
  next
    case req
    then show ?thesis
      using assms alloc_requested_ok [OF assms(1), of a ?probe ip db r p' db'] by (auto simp: ip6_pool_allocate_def Let_def)
  next
    case scan
    then have "alloc6_scan a ?probe [0..<length (entries6 p)] empty_result6 p db = (r, p', db')"
      using assms(2) by (simp add: ip6_pool_allocate_def Let_def)
    then have "scan_ok a p r p'" using assms(1) by (rule scan_effect) (simp_all add: empty_result6_def)
    then show ?thesis using alloc_scan_ok [OF assms(1)] scan(1,2) by blast
  qed
qed

subsection \<open>Allocation and the lease table\<close>

text \<open>The lease that an allocation leaves in the table.\<close>

definition leased6 :: "alloc6_args \<Rightarrow> in6_addr \<Rightarrow> lease_v6_db_t \<Rightarrow> bool" where
  "leased6 a ip db \<longleftrightarrow> (\<exists>L. db6_abs db (Addr ip) = Some L
     \<and> holds_lease6 (arg_now a) (arg_iaid a) (arg_lease_time a) (arg_duid a) L)"

definition db6_room :: "lease_v6_db_t \<Rightarrow> bool" where
  "db6_room db \<longleftrightarrow> db6_wf db \<and> length (leases6 db) < LEASES6_MAX"

lemma add_lease6_ok:
  assumes "db6_room db" "duid_text_ok (arg_duid a)" "arg_duid a \<noteq> []"
  shows "fst (add_lease6 a ip db)" "db6_wf (snd (add_lease6 a ip db))" "leased6 a ip (snd (add_lease6 a ip db))"
proof -
  let ?add = "lease_v6_add_ia_na (arg_now a) db (arg_duid a) (arg_iaid a) ip (arg_lease_time a) (arg_hostname a)"
  have d: "db6_wf db" "length (leases6 db) < LEASES6_MAX" using assms(1) by (simp_all add: db6_room_def)
  show "fst (add_lease6 a ip db)"
    using add_na_ok [OF assms(2) d(2)] by (simp add: add_lease6_def split: prod.split) (metis fst_conv)
  have s: "snd (add_lease6 a ip db) = snd ?add" by (simp add: add_lease6_def split: prod.split)
  note r = add_na_refines [OF d(1) assms(2), of "arg_now a" "arg_iaid a" ip "arg_lease_time a" "arg_hostname a"]
  show "db6_wf (snd (add_lease6 a ip db))" using r by (simp add: s)
  show "leased6 a ip (snd (add_lease6 a ip db))"
    using upsert6_holds [OF d assms(2,3)] r by (simp add: leased6_def s)
qed

lemma conflict_room:
  assumes "db6_room db"
  shows "db6_room (snd (lease_v6_mark_conflict io now db ip))"
proof -
  have "length (leases6 (snd (lease_v6_set_state io now db ip LEASE6_ABANDONED))) = length (leases6 db)"
    by (cases "lease_v6_find_by_ip db ip") (simp_all add: lease_v6_set_state_def address_row_cases set_row_def Let_def)
  then show ?thesis
    using assms set_state_refines [of db io now ip LEASE6_ABANDONED]
    by (simp add: db6_room_def lease_v6_mark_conflict_def)
qed

lemma persist6_leased:
  assumes "db6_room db" "duid_text_ok (arg_duid a)" "arg_duid a \<noteq> []" "persist6 a new i p db = (r, p', db')"
  shows "success6 r \<and> leased6 a (result_ip6 r) db' \<and> db6_wf db'"
  using add_lease6_ok [OF assms(1-3), of "ip_address6 (entries6 p ! i)"] assms(4)
  by (auto simp: persist6_def Let_def split: prod.splits)

lemma conflict6_room: "db6_room db \<Longrightarrow> db6_room (snd (conflict6 a ip p db))"
  using conflict_room by (simp add: conflict6_def ip6_pool_mark_conflict_def Let_def split: option.split)

lemma scan_leased:
  assumes "db6_room db" "duid_text_ok (arg_duid a)" "arg_duid a \<noteq> []"
    and "alloc6_scan a probe is r p db = (r', p', db')" "\<not> success6 r"
  shows "(success6 r' \<longrightarrow> leased6 a (result_ip6 r') db') \<and> db6_wf db'"
  using assms(1,4,5)
proof (induction "is" arbitrary: r p db)
  case Nil
  then show ?case by (auto simp: db6_room_def)
next
  case (Cons i "is")
  let ?e = "entries6 p ! i"
  obtain q d where c: "conflict6 a (ip_address6 ?e) p db = (q, d)" by fastforce
  obtain r1 p1 d1 where ps: "persist6 a True i (take_scanned a i p) db = (r1, p1, d1)" by (metis prod_cases3)
  have "db6_room d" using conflict6_room [OF Cons.prems(1), of a "ip_address6 ?e" p] c by simp
  then show ?case
    using Cons.prems Cons.IH [of d] Cons.IH [of db] persist6_leased [OF Cons.prems(1) assms(2,3) ps] c ps
    by (auto simp: Let_def split: if_splits)
qed

lemma allocate_leased:
  assumes "db6_room db" "duid_text_ok (arg_duid a)" "arg_duid a \<noteq> []"
    and "ip6_pool_allocate a cfg ip p db = (r, p', db')"
  shows "(success6 r \<longrightarrow> leased6 a (result_ip6 r) db') \<and> db6_wf db'"
proof -
  let ?probe = "get_effective_probe cfg (pool_subnet6 p)"
  note add = add_lease6_ok [OF assms(1-3)] and ps = persist6_leased [OF assms(1-3)]
  have c: "db6_wf d" if "conflict6 a x p db = (q, d)" for x q d
    using conflict6_room [OF assms(1), of a x p] that by (simp add: db6_room_def)
  have f: "(success6 r \<longrightarrow> leased6 a (result_ip6 r) db') \<and> db6_wf db'" if "alloc6_fixed a ?probe i p db = (r, p', db')" for i
    using that c ps by (auto simp: alloc6_fixed_def conflict_result6_def empty_result6_def Let_def split: if_splits)
  have q: "(success6 r \<longrightarrow> leased6 a (result_ip6 r) db') \<and> db6_wf db'" if "alloc6_requested a ?probe ip p db = Some (r, p', db')"
    using that c ps by (auto simp: alloc6_requested_def conflict_result6_def empty_result6_def split: if_splits option.splits)
  have s: "(success6 r \<longrightarrow> leased6 a (result_ip6 r) db') \<and> db6_wf db'"
    if "alloc6_scan a ?probe [0..<length (entries6 p)] empty_result6 p db = (r, p', db')"
    using scan_leased [OF assms(1-3) that] by (simp add: empty_result6_def)
  have o: "(success6 r \<longrightarrow> leased6 a (result_ip6 r) db') \<and> db6_wf db'"
    if "fixed_entry (arg_duid a) p = None" "own_entry (arg_duid a) p = Some i" for i
    using add [of "ip_address6 (entries6 p ! i)"] assms(4) that
    by (auto simp: ip6_pool_allocate_def Let_def split: prod.splits)
  show ?thesis
    using assms(4) f q s o
    by (cases "fixed_entry (arg_duid a) p"; cases "own_entry (arg_duid a) p"; cases "alloc6_requested a ?probe ip p db")
      (simp_all add: ip6_pool_allocate_def Let_def)
qed

text \<open>The table stays well formed even where the identifier is empty or the table is full.\<close>

lemma add_lease6_db: "db6_wf db \<Longrightarrow> duid_text_ok (arg_duid a) \<Longrightarrow> db6_wf (snd (add_lease6 a ip db))"
  using add_na_refines [of db "arg_duid a" "arg_now a" "arg_iaid a" ip "arg_lease_time a" "arg_hostname a"]
  by (simp add: add_lease6_def split_beta)

lemma conflict6_db: "db6_wf db \<Longrightarrow> db6_wf (snd (conflict6 a ip p db))"
  using set_state_refines [of db "arg_io a" "arg_now a" ip LEASE6_ABANDONED]
  by (simp add: conflict6_def ip6_pool_mark_conflict_def lease_v6_mark_conflict_def Let_def split: option.split)

lemma persist6_db: "db6_wf db \<Longrightarrow> duid_text_ok (arg_duid a) \<Longrightarrow> db6_wf (snd (snd (persist6 a new i p db)))"
  using add_lease6_db [of db a "ip_address6 (entries6 p ! i)"] by (simp add: persist6_def Let_def split_beta)

lemma scan_db:
  "db6_wf db \<Longrightarrow> duid_text_ok (arg_duid a) \<Longrightarrow> db6_wf (snd (snd (alloc6_scan a probe is r p db)))"
proof (induction "is" arbitrary: r p db)
  case (Cons i "is")
  obtain q d where c: "conflict6 a (ip_address6 (entries6 p ! i)) p db = (q, d)" by fastforce
  obtain r1 p1 d1 where ps: "persist6 a True i (take_scanned a i p) db = (r1, p1, d1)" by (metis prod_cases3)
  have "db6_wf d" "db6_wf d1"
    using conflict6_db [OF Cons.prems(1), of a "ip_address6 (entries6 p ! i)" p] c persist6_db [OF Cons.prems, of True i "take_scanned a i p"] ps
    by simp_all
  then show ?case using Cons.IH Cons.prems c ps by (simp add: Let_def)
qed simp

lemma allocate_db:
  assumes "db6_wf db" "duid_text_ok (arg_duid a)"
  shows "db6_wf (snd (snd (ip6_pool_allocate a cfg ip p db)))"
proof -
  note all = assms persist6_db [OF assms] scan_db [OF assms] conflict6_db [OF assms(1)] add_lease6_db [OF assms]
  have f: "db6_wf (snd (snd (alloc6_fixed a probe i p db)))" for probe i
    using all by (simp add: alloc6_fixed_def Let_def split_beta)
  have q: "alloc6_requested a probe ip p db = Some res \<Longrightarrow> db6_wf (snd (snd res))" for probe res
    using all by (auto simp: alloc6_requested_def split: if_splits option.splits)
  show ?thesis
    unfolding ip6_pool_allocate_def Let_def using f q all by (simp add: split_beta split: option.split)
qed

subsection \<open>A client that asks again\<close>

lemma own_after_alloc:
  assumes "own_entry (arg_duid a) p = None \<or> own_entry (arg_duid a) p = Some i"
    and "i < length (entries6 p)" "length (entries6 p') = length (entries6 p)"
    and "entry_state6 (entries6 p' ! i) = IP6_STATE_ALLOCATED" "entry_duid (entries6 p' ! i) = arg_duid a" "arg_duid a \<noteq> []"
    and "\<forall>j < length (entries6 p). j \<noteq> i \<longrightarrow> entries6 p' ! j = entries6 p ! j
          \<or> entry_state6 (entries6 p ! j) = IP6_STATE_AVAILABLE
            \<and> entry_state6 (entries6 p' ! j) \<in> {IP6_STATE_AVAILABLE, IP6_STATE_CONFLICT}"
  shows "own_entry (arg_duid a) p' = Some i"
  unfolding own_entry_def
proof (rule find_idx_first)
  fix j assume j: "j < i"
  have "\<not> (entry_state6 (entries6 p ! j) = IP6_STATE_ALLOCATED \<and> entry_duid (entries6 p ! j) \<noteq> []
      \<and> entry_duid (entries6 p ! j) = arg_duid a)"
    using assms(1,2) j unfolding own_entry_def by (auto simp: find_idx_None dest: find_idx_SomeD)
  then show "\<not> (entry_state6 (entries6 p' ! j) = IP6_STATE_ALLOCATED \<and> entry_duid (entries6 p' ! j) \<noteq> []
      \<and> entry_duid (entries6 p' ! j) = arg_duid a)"
    using assms(2,7) j by (auto dest: spec [of _ j])
qed (use assms in auto)

lemma fixed_entry_same:
  assumes "pool_subnet6 p' = pool_subnet6 p" "map ip_address6 (entries6 p') = map ip_address6 (entries6 p)"
  shows "fixed_entry d p' = fixed_entry d p"
proof -
  have "ip6_pool_find_entry p' x = ip6_pool_find_entry p x" for x
    using find_idx_map [of "\<lambda>y. y = x" ip_address6 "entries6 p'"] find_idx_map [of "\<lambda>y. y = x" ip_address6 "entries6 p"]
    by (simp add: ip6_pool_find_entry_def assms(2))
  then show ?thesis by (simp add: fixed_entry_def assms(1) split: option.split)
qed

subsection \<open>Initialisation\<close>

definition fresh_entry6 :: "nat \<Rightarrow> ip6_pool_entry_t \<Rightarrow> bool" where
  "fresh_entry6 n e \<longleftrightarrow> length (ip_address6 e) = 16 \<and> be_val (ip_address6 e) < n
     \<and> entry_state6 e = IP6_STATE_AVAILABLE \<and> entry_duid e = []"

definition fresh_entries6 :: "ip6_pool_entry_t list \<Rightarrow> bool" where
  "fresh_entries6 es \<longleftrightarrow> list_all (fresh_entry6 (2 ^ 128)) es \<and> distinct (map ip_address6 es) \<and> length es \<le> MAX_POOL6_SIZE"

lemma init_loop_fresh:
  assumes "length cur = 16" "list_all (fresh_entry6 (be_val cur)) es" "distinct (map ip_address6 es)"
    and "length es \<le> MAX_POOL6_SIZE"
  shows "fresh_entries6 (init6_loop n cur end_ip es)"
  using assms
proof (induction n cur end_ip es rule: init6_loop.induct)
  case (1 n cur end_ip es)
  have less: "be_val cur < 2 ^ 128" using be_val_less [of cur] 1(2) by simp
  have weaken: "list_all (fresh_entry6 m) xs \<Longrightarrow> m \<le> k \<Longrightarrow> list_all (fresh_entry6 k) xs" for m k xs
    by (auto simp: list_all_iff fresh_entry6_def)
  let ?e = "\<lparr>ip_address6 = cur, entry_state6 = IP6_STATE_AVAILABLE, entry_duid = [], last_allocated6 = 0\<rparr>"
  have stay: "fresh_entries6 es" using 1(3-5) weaken less by (simp add: fresh_entries6_def)
  obtain ok nxt where i: "ipv6_increment cur = (ok, nxt)" by fastforce
  note v = ipv6_increment_val [OF 1(2) i]
  have new: "list_all (fresh_entry6 (be_val cur + 1)) (es @ [?e])" "distinct (map ip_address6 (es @ [?e]))"
    using 1(2-4) weaken [OF 1(3), of "be_val cur + 1"] by (auto simp: list_all_iff fresh_entry6_def)
  show ?case
  proof (cases "ipv6_compare cur end_ip \<le> 0 \<and> \<not> n > 50000 \<and> \<not> length es \<ge> MAX_POOL6_SIZE")
    case True
    then have l: "length (es @ [?e]) \<le> MAX_POOL6_SIZE" by simp
    have stop: "fresh_entries6 (es @ [?e])"
      using new l less weaken [OF new(1), of "2 ^ 128"] by (simp add: fresh_entries6_def)
    have "fresh_entries6 (init6_loop (n + 1) nxt end_ip (es @ [?e]))" if ok
      using 1(1) [OF _ _ _ refl i [symmetric]] True that v new l by simp
    then show ?thesis using True stop by (subst init6_loop.simps) (cases ok; simp add: i)
  next
    case False
    then show ?thesis using stay by (subst init6_loop.simps) auto
  qed
qed

lemma fresh_pool_wf:
  assumes "fresh_entries6 es"
  shows "pool6_wf \<lparr>pool_subnet6 = sub, entries6 = es, available_count6 = of_nat (length es),
    allocated_count6 = 0, reserved_count6 = 0\<rparr>"
proof -
  have "filter (state6_is IP6_STATE_AVAILABLE) es = es" "filter (state6_is IP6_STATE_ALLOCATED) es = []"
    "filter (state6_is IP6_STATE_RESERVED) es = []"
    using assms by (auto simp: filter_id_conv filter_empty_conv fresh_entries6_def fresh_entry6_def list_all_iff state6_is_def)
  moreover have "unat (of_nat (length es) :: u32) = length es"
    using assms by (simp add: fresh_entries6_def unat_of_nat take_bit_nat_eq_self)
  ultimately show ?thesis
    using assms by (auto simp: pool6_wf_def count_if_def fresh_entries6_def fresh_entry6_def list_all_iff)
qed

lemma init_hosts_wf: "pool6_wf p \<Longrightarrow> pool6_wf (foldl (init6_host now) p hs)"
  by (induction hs arbitrary: p) (auto simp: init6_host_def reserve_wf)

lemma init6_wf:
  assumes "ip6_pool_init now sub db = Some p" "length (pool_start_bin sub) = 16"
  shows "pool6_wf p"
proof -
  have "fresh_entries6 (init6_loop 0 (pool_start_bin sub) (pool_end_bin sub) [])"
    by (rule init_loop_fresh) (simp_all add: assms(2))
  then show ?thesis
    using assms(1) fresh_pool_wf sync_wf by (auto simp: ip6_pool_init_def Let_def intro!: init_hosts_wf split: if_splits option.split)
qed

subsection \<open>Runs\<close>

text \<open>
  The calls of the pool operations, in any order; between them the lease table may change in any
  way, since the server also updates it directly.
\<close>

inductive pool6_step :: "ip6_pool_t \<times> lease_v6_db_t \<Rightarrow> ip6_pool_t \<times> lease_v6_db_t \<Rightarrow> bool" where
  allocate6: "ip6_pool_allocate a cfg ip p db = (r, p', db') \<Longrightarrow> pool6_step (p, db) (p', db')"
| reserve6: "ip6_pool_reserve_ip now p ip duid = (r, p') \<Longrightarrow> pool6_step (p, db) (p', db)"
| release6: "ip6_pool_release_ip io now p ip (Some db) = (r, p', Some db') \<Longrightarrow> pool6_step (p, db) (p', db')"
| conflict6: "ip6_pool_mark_conflict io now p ip (Some db) = (r, p', Some db') \<Longrightarrow> pool6_step (p, db) (p', db')"
| update6: "pool6_step (p, db) (ip6_pool_update_from_lease p L, db)"
| sync6: "pool6_step (p, db) (ip6_pool_sync_with_leases p db, db)"
| table6: "pool6_step (p, db) (p, db')"

lemma pool6_step_wf: "pool6_step s s' \<Longrightarrow> pool6_wf (fst s) \<Longrightarrow> pool6_wf (fst s')"
proof (induction rule: pool6_step.induct)
  case (allocate6 a cfg ip p db r p' db')
  then show ?case using allocate_ok by (auto simp: alloc6_ok_def)
next
  case (reserve6 now p ip duid r p' db)
  then show ?case using reserve_wf [of p now ip duid] by simp
next
  case (release6 io now p ip db r p' db')
  then show ?case using release_wf [of p io now ip "Some db"] by simp
next
  case (conflict6 io now p ip db r p' db')
  then show ?case using mark_conflict_wf [of p io now ip "Some db"] by simp
qed (simp_all add: update_from_lease_wf sync_wf)

interpretation pool6_run: invariant_system "\<lambda>s. pool6_wf (fst s)" pool6_step "\<lambda>s. pool6_wf (fst s)"
  by unfold_locales (use pool6_step_wf in blast)+

section \<open>Properties\<close>

text \<open>A pool of the two addresses of the sample subnet, and a client.\<close>

definition sample_pool6 :: ip6_pool_t where
  "sample_pool6 = the (ip6_pool_init 5 sample_subnet6 None)"

definition sample_client6 :: alloc6_args where
  "sample_client6 = \<lparr>arg_duid = ''00:03:0a'', arg_iaid = 7, arg_hostname = None, arg_lease_time = 3600,
     arg_now = 100, arg_io = True, arg_ping = (\<lambda>_ _. False)\<rparr>"

definition sample_table6 :: lease_v6_db_t where
  "sample_table6 = lease_v6_db_init ''leases6''"

definition sample_call6 :: "in6_addr \<Rightarrow> alloc6_state" where
  "sample_call6 ip = ip6_pool_allocate sample_client6 sample_config6 ip sample_pool6 sample_table6"

abbreviation sample_result6 :: "in6_addr \<Rightarrow> ip6_allocation_result_t" where "sample_result6 ip \<equiv> fst (sample_call6 ip)"
abbreviation sample_after6 :: "in6_addr \<Rightarrow> ip6_pool_t" where "sample_after6 ip \<equiv> fst (snd (sample_call6 ip))"
abbreviation sample_leases6 :: "in6_addr \<Rightarrow> lease_v6_db_t" where "sample_leases6 ip \<equiv> snd (snd (sample_call6 ip))"

lemma sample_pool6_init: "ip6_pool_init 5 sample_subnet6 None = Some sample_pool6"
  by (simp add: sample_pool6_def ip6_pool_init_def sample_subnet6_def Let_def)

lemma sample_start6: "length (pool_start_bin sample_subnet6) = 16" "available_count6 sample_pool6 = 2"
  by code_simp+

lemma sample_call6_eq:
  "ip6_pool_allocate sample_client6 sample_config6 ip sample_pool6 sample_table6 =
     (sample_result6 ip, sample_after6 ip, sample_leases6 ip)"
  by (simp add: sample_call6_def)

lemma sample_results6:
  "success6 (sample_result6 (addr6 2))" "result_ip6 (sample_result6 (addr6 2)) = addr6 2"
  "available_count6 (sample_after6 (addr6 2)) = 1"
  by code_simp+

lemma sample_pool6_wf: "pool6_wf sample_pool6"
  by (rule init6_wf [OF sample_pool6_init sample_start6(1)])

lemma sample_client6_duid: "duid_text_ok (arg_duid sample_client6)" "arg_duid sample_client6 \<noteq> []"
  "length (arg_duid sample_client6) < 128" "fixed_entry (arg_duid sample_client6) sample_pool6 = None"
  by code_simp+

text \<open>
  C17: The counters of an IPv6 pool are exact.  After \<open>ip6_pool_init\<close> on any subnet with a range, and
  after any sequence of allocations, reservations, releases, conflicts, lease updates and
  synchronisations, with the lease table changing in any way in between, \<open>available_count\<close>,
  \<open>allocated_count\<close> and \<open>reserved_count\<close> are the numbers of entries in these states, no address
  has two entries and the pool has at most 4096 of them.
\<close>

theorem ip6_pool_counters_exact:
  assumes "ip6_pool_init now sub db0 = Some p0" "length (pool_start_bin sub) = 16"
    and "pool6_step\<^sup>*\<^sup>* (p0, db1) (p, db)"
  shows "unat (available_count6 p) = count_if (state6_is IP6_STATE_AVAILABLE) (entries6 p)
    \<and> unat (allocated_count6 p) = count_if (state6_is IP6_STATE_ALLOCATED) (entries6 p)
    \<and> unat (reserved_count6 p) = count_if (state6_is IP6_STATE_RESERVED) (entries6 p)
    \<and> distinct (map ip_address6 (entries6 p)) \<and> length (entries6 p) \<le> MAX_POOL6_SIZE"
  using pool6_run.steps_inv [OF assms(3)] init6_wf [OF assms(1,2)] by (simp add: pool6_wf_def)

theorem ip6_pool_counters_exact_witness:
  "available_count6 (sample_after6 (addr6 2)) = 1
   \<and> count_if (state6_is IP6_STATE_AVAILABLE) (entries6 (sample_after6 (addr6 2))) = 1"
proof -
  have "pool6_step\<^sup>*\<^sup>* (sample_pool6, sample_table6) (sample_after6 (addr6 2), sample_leases6 (addr6 2))"
    using pool6_step.allocate6 [OF sample_call6_eq] by blast
  from ip6_pool_counters_exact [OF sample_pool6_init sample_start6(1) this] show ?thesis
    by (simp add: sample_results6)
qed

text \<open>
  C16: An allocation of an IPv6 address never takes an address from another client.  When
  \<open>ip6_pool_allocate\<close> succeeds, the address is that of the entry of the first host reservation with
  this DUID; where there is no such entry, of the first entry already allocated to this DUID; and
  where there is none either, of an entry that was available.  Afterwards the entry is allocated, and
  every other entry is as before, except that an available one whose address answered the probe is
  now in conflict (or is available again after its lease could not be stored).
\<close>

theorem allocate6_never_steals:
  assumes "pool6_wf p" "ip6_pool_allocate a cfg ip p db = (r, p', db')" "success6 r"
  shows "\<exists>i < length (entries6 p). result_ip6 r = ip_address6 (entries6 p ! i)
    \<and> (fixed_entry (arg_duid a) p = Some i
       \<or> fixed_entry (arg_duid a) p = None \<and> own_entry (arg_duid a) p = Some i
       \<or> fixed_entry (arg_duid a) p = None \<and> own_entry (arg_duid a) p = None
         \<and> entry_state6 (entries6 p ! i) = IP6_STATE_AVAILABLE)
    \<and> entry_state6 (entries6 p' ! i) = IP6_STATE_ALLOCATED
    \<and> (\<forall>j < length (entries6 p). j \<noteq> i \<longrightarrow> entries6 p' ! j = entries6 p ! j
        \<or> entry_state6 (entries6 p ! j) = IP6_STATE_AVAILABLE
          \<and> entry_state6 (entries6 p' ! j) \<in> {IP6_STATE_AVAILABLE, IP6_STATE_CONFLICT})"
  using allocate_ok [OF assms(1,2)] assms(3) unfolding alloc6_ok_def by blast

theorem allocate6_never_steals_witness:
  "\<exists>i < length (entries6 sample_pool6). result_ip6 (sample_result6 (addr6 2)) = ip_address6 (entries6 sample_pool6 ! i)
     \<and> entry_state6 (entries6 (sample_after6 (addr6 2)) ! i) = IP6_STATE_ALLOCATED"
  using allocate6_never_steals [OF sample_pool6_wf sample_call6_eq sample_results6(1)] by blast

text \<open>
  A successful allocation is in the lease table.  When the DUID text can be decoded, is not empty
  and the table has room for a row, a successful \<open>ip6_pool_allocate\<close> leaves a well-formed table with
  an active lease of the address, with the IAID and the DUID bytes of the client, that starts now and
  ends after the lease time.
\<close>

lemma allocate6_persists:
  assumes "db6_wf db" "length (leases6 db) < LEASES6_MAX" "duid_text_ok (arg_duid a)" "arg_duid a \<noteq> []"
    and "ip6_pool_allocate a cfg ip p db = (r, p', db')" "success6 r"
  shows "db6_wf db' \<and> (\<exists>L. db6_abs db' (Addr (result_ip6 r)) = Some L \<and> state6 L = LEASE6_ACTIVE
     \<and> iaid6 L = arg_iaid a \<and> starts6 L = arg_now a \<and> ends6 L = arg_now a + uint (arg_lease_time a)
     \<and> take (unat (duid_len6 L)) (duid6 L) = snd (duid_hex_to_bin (arg_duid a) 128))"
  using allocate_leased [OF _ assms(3-5)] assms(1,2,6) by (simp add: db6_room_def leased6_def holds_lease6_def)

text \<open>
  A client that asks again gets its address again.  After a successful allocation for a DUID of at
  most 127 characters that has no host reservation, every later \<open>ip6_pool_allocate\<close> of that DUID on
  the resulting pool succeeds with the same address, not marked as new, and leaves the pool as it is.
\<close>

lemma allocate6_again:
  assumes "pool6_wf p" "ip6_pool_allocate a cfg ip p db = (r, p', db')" "success6 r"
    and "fixed_entry (arg_duid a) p = None" "arg_duid a \<noteq> []" "length (arg_duid a) < 128"
    and "arg_duid b = arg_duid a" "ip6_pool_allocate b cfg2 ip2 p' db2 = (r2, p2, db3)"
  shows "success6 r2 \<and> \<not> is_new6 r2 \<and> result_ip6 r2 = result_ip6 r \<and> p2 = p'"
proof -
  obtain i where i: "i < length (entries6 p)" "result_ip6 r = ip_address6 (entries6 p ! i)"
    "length (entries6 p') = length (entries6 p)" "entry_state6 (entries6 p' ! i) = IP6_STATE_ALLOCATED"
    "entry_duid (entries6 p' ! i) = arg_duid a" "pool_subnet6 p' = pool_subnet6 p"
    "map ip_address6 (entries6 p') = map ip_address6 (entries6 p)"
    and own: "own_entry (arg_duid a) p = None \<or> own_entry (arg_duid a) p = Some i"
    and others: "\<forall>j < length (entries6 p). j \<noteq> i \<longrightarrow> entries6 p' ! j = entries6 p ! j
        \<or> entry_state6 (entries6 p ! j) = IP6_STATE_AVAILABLE
          \<and> entry_state6 (entries6 p' ! j) \<in> {IP6_STATE_AVAILABLE, IP6_STATE_CONFLICT}"
    using allocate_ok [OF assms(1,2)] assms(3,4,6) unfolding alloc6_ok_def by auto
  have "own_entry (arg_duid b) p' = Some i"
    using own_after_alloc [OF own i(1,3,4,5) assms(5) others] assms(7) by simp
  moreover have "fixed_entry (arg_duid b) p' = None"
    using fixed_entry_same [OF i(6,7)] assms(4,7) by simp
  moreover have "ip_address6 (entries6 p' ! i) = ip_address6 (entries6 p ! i)"
    using i(1,3,7) by (metis nth_map)
  ultimately show ?thesis
    using assms(8) i(2) by (auto simp: ip6_pool_allocate_def empty_result6_def Let_def split: prod.splits)
qed

end
