(* ===== verification/Pd_Pool.thy ===== *)
theory Pd_Pool
  imports Ip6_Pool
begin

text \<open>
  The pools of delegated prefixes of the DHCPv6 server (sources/pd_pool.c, include/pd_pool.h).  The
  entries are the counted part of the array \<open>entries\<close>; a pointer to an entry is its index.  The pool
  runs through the range of the subnet in steps of one delegated prefix; no address belongs to two of
  them, and the counters are exact.
\<close>

section \<open>Model\<close>

subsection \<open>Data (pd_pool.h)\<close>

abbreviation MAX_PD_POOL_SIZE :: nat where "MAX_PD_POOL_SIZE \<equiv> 1024"

record pd_pool_entry_t =
  pd_prefix :: in6_addr
  pd_plen :: u8
  pd_state :: ip6_state_t
  pd_duid :: string
  pd_last_allocated :: time_t

record pd_pool_t =
  pd_subnet :: dhcpv6_subnet_t
  base_prefix :: in6_addr
  base_plen :: u8
  delegated_plen :: u8
  pd_entries :: "pd_pool_entry_t list"
  pd_available_count :: u32
  pd_allocated_count :: u32
  pd_reserved_count :: u32

record pd_allocation_result_t =
  pd_success :: bool
  pd_is_new :: bool
  result_prefix :: in6_addr
  result_plen :: u8
  pd_error_message :: string

definition empty_pd_result :: pd_allocation_result_t where
  "empty_pd_result = \<lparr>pd_success = False, pd_is_new = False, result_prefix = in6_zero, result_plen = 0,
     pd_error_message = []\<rparr>"

subsection \<open>Look-ups\<close>

definition pd_pool_find_entry :: "pd_pool_t \<Rightarrow> in6_addr \<Rightarrow> u8 \<Rightarrow> nat option" where
  "pd_pool_find_entry pool prefix plen = find_idx (\<lambda>e. pd_plen e = plen \<and> pd_prefix e = prefix) (pd_entries pool)"

definition pd_pool_is_available :: "pd_pool_t \<Rightarrow> in6_addr \<Rightarrow> u8 \<Rightarrow> bool" where
  "pd_pool_is_available pool prefix plen = (case pd_pool_find_entry pool prefix plen of
     None \<Rightarrow> False | Some i \<Rightarrow> pd_state (pd_entries pool ! i) = IP6_STATE_AVAILABLE)"

definition put_pd :: "nat \<Rightarrow> pd_pool_entry_t \<Rightarrow> pd_pool_t \<Rightarrow> pd_pool_t" where
  "put_pd i e pool = pool\<lparr>pd_entries := (pd_entries pool)[i := e]\<rparr>"

subsection \<open>Initialisation\<close>

function pd_init_loop :: "u8 \<Rightarrow> in6_addr \<Rightarrow> in6_addr \<Rightarrow> pd_pool_entry_t list \<Rightarrow> pd_pool_entry_t list" where
  "pd_init_loop plen cur end_ip es =
     (if ipv6_compare cur end_ip \<le> 0 then
        if length es \<ge> MAX_PD_POOL_SIZE then es
        else
          let es' = es @ [\<lparr>pd_prefix = cur, pd_plen = plen, pd_state = IP6_STATE_AVAILABLE, pd_duid = [],
                           pd_last_allocated = 0\<rparr>];
              next_ip = increment_prefix cur plen
          in if ipv6_compare next_ip cur \<le> 0 then es' else pd_init_loop plen next_ip end_ip es'
      else es)"
  by pat_completeness auto

termination pd_init_loop
  by (relation "measure (\<lambda>(_, _, _, es). MAX_PD_POOL_SIZE - length es)") auto

declare pd_init_loop.simps [simp del]

definition pd_leave :: "ip6_state_t \<Rightarrow> pd_pool_t \<Rightarrow> pd_pool_t" where
  "pd_leave s pool =
     (if s = IP6_STATE_AVAILABLE then pool\<lparr>pd_available_count := sat_dec (pd_available_count pool)\<rparr>
      else if s = IP6_STATE_ALLOCATED then pool\<lparr>pd_allocated_count := sat_dec (pd_allocated_count pool)\<rparr>
      else pool)"

definition pd_enter :: "ip6_state_t \<Rightarrow> pd_pool_t \<Rightarrow> pd_pool_t" where
  "pd_enter s pool =
     (if s = IP6_STATE_ALLOCATED then pool\<lparr>pd_allocated_count := pd_allocated_count pool + 1\<rparr>
      else if s = IP6_STATE_AVAILABLE then pool\<lparr>pd_available_count := pd_available_count pool + 1\<rparr>
      else pool)"

text \<open>One round of the loop over the leases at the end of \<open>pd_pool_init\<close>.\<close>

definition pd_sync_lease :: "pd_pool_t \<Rightarrow> dhcpv6_lease_t \<Rightarrow> pd_pool_t" where
  "pd_sync_lease pool L =
     (if type6 L \<noteq> Lease6_IA_PD then pool
      else if \<not> in_use6 L then pool
      else case pd_pool_find_entry pool (prefix_v6 L) (plen6 L) of
          None \<Rightarrow> pool
        | Some i \<Rightarrow>
            let e = pd_entries pool ! i; ns = ip6_state_from_lease_state (state6 L);
                e' = e\<lparr>pd_state := ns, pd_last_allocated := starts6 L,
                       pd_duid := (if duid_len6 L > 0 then lease_duid_hex L else pd_duid e)\<rparr>
            in pd_enter ns (put_pd i e' (pd_leave (pd_state e) pool)))"

text \<open>The result code and the pool that the call leaves.\<close>

definition pd_pool_init :: "dhcpv6_subnet_t \<Rightarrow> lease_v6_db_t option \<Rightarrow> u8 \<Rightarrow> int \<times> pd_pool_t" where
  "pd_pool_init subnet db plen =
     (let pool = \<lparr>pd_subnet = subnet, base_prefix = in6_zero, base_plen = 0, delegated_plen = plen,
                  pd_entries = [], pd_available_count = 0, pd_allocated_count = 0, pd_reserved_count = 0\<rparr>
      in if \<not> pd_enabled subnet \<or> \<not> has_pd_pool subnet then (0, pool)
         else if ipv6_compare (pd_pool_start_bin subnet) (pd_pool_end_bin subnet) > 0 then (-1, pool)
         else
           let es = pd_init_loop plen (pd_pool_start_bin subnet) (pd_pool_end_bin subnet) [];
               pool1 = pool\<lparr>base_prefix := pd_pool_start_bin subnet, base_plen := plen, pd_entries := es,
                            pd_available_count := of_nat (length es)\<rparr>
           in (0, case db of None \<Rightarrow> pool1 | Some d \<Rightarrow> foldl pd_sync_lease pool1 (leases6 d)))"

subsection \<open>Allocation and release\<close>

text \<open>The client's data in a call of \<open>pd_pool_allocate\<close>; the call ignores the result of saving the table.\<close>

record pd_args =
  pa_duid :: string
  pa_iaid :: u32
  pa_hostname :: "string option"
  pa_lease_time :: u32
  pa_now :: time_t

definition pd_add_lease :: "pd_args \<Rightarrow> pd_pool_entry_t \<Rightarrow> lease_v6_db_t \<Rightarrow> bool \<times> lease_v6_db_t" where
  "pd_add_lease a e db =
     (case lease_v6_add_ia_pd (pa_now a) db (pa_duid a) (pa_iaid a) (pd_prefix e) (pd_plen e) (pa_lease_time a)
             (pa_hostname a) of (r, db') \<Rightarrow> (r \<noteq> None, db'))"

definition pd_own :: "string \<Rightarrow> pd_pool_t \<Rightarrow> nat option" where
  "pd_own duid_hex pool =
     find_idx (\<lambda>e. pd_state e = IP6_STATE_ALLOCATED \<and> pd_duid e = duid_hex) (pd_entries pool)"

definition pd_victim :: "pd_pool_t \<Rightarrow> nat option" where
  "pd_victim pool = find_idx (\<lambda>e. pd_state e = IP6_STATE_AVAILABLE) (pd_entries pool)"

definition pd_taken :: "pd_args \<Rightarrow> pd_pool_entry_t \<Rightarrow> pd_pool_entry_t" where
  "pd_taken a e = e\<lparr>pd_state := IP6_STATE_ALLOCATED, pd_duid := take 127 (pa_duid a), pd_last_allocated := pa_now a\<rparr>"

definition pd_granted :: "bool \<Rightarrow> pd_pool_entry_t \<Rightarrow> pd_allocation_result_t" where
  "pd_granted new e =
     empty_pd_result\<lparr>pd_success := True, pd_is_new := new, result_prefix := pd_prefix e, result_plen := pd_plen e\<rparr>"

definition pd_pool_allocate ::
    "pd_args \<Rightarrow> pd_pool_t \<Rightarrow> lease_v6_db_t \<Rightarrow> pd_allocation_result_t \<times> pd_pool_t \<times> lease_v6_db_t" where
  "pd_pool_allocate a pool db = (case pd_own (pa_duid a) pool of
     Some i \<Rightarrow> (pd_granted False (pd_entries pool ! i), pool, snd (pd_add_lease a (pd_entries pool ! i) db))
   | None \<Rightarrow>
       (case pd_victim pool of
          None \<Rightarrow> (empty_pd_result\<lparr>pd_error_message := ''No prefixes available''\<rparr>, pool, db)
        | Some i \<Rightarrow>
            let e = pd_taken a (pd_entries pool ! i);
                pool1 = (put_pd i e pool)\<lparr>pd_available_count := pd_available_count pool - 1,
                          pd_allocated_count := pd_allocated_count pool + 1\<rparr>;
                (ok, db') = pd_add_lease a e db
            in if \<not> ok then
                 (empty_pd_result\<lparr>pd_error_message := ''DB error''\<rparr>,
                  (put_pd i (e\<lparr>pd_state := IP6_STATE_AVAILABLE, pd_duid := []\<rparr>) pool1)
                    \<lparr>pd_available_count := pd_available_count pool1 + 1,
                     pd_allocated_count := pd_allocated_count pool1 - 1\<rparr>, db')
               else (pd_granted True e, pool1, db')))"

definition pd_pool_release ::
    "bool \<Rightarrow> time_t \<Rightarrow> pd_pool_t \<Rightarrow> in6_addr \<Rightarrow> u8 \<Rightarrow> lease_v6_db_t option \<Rightarrow> int \<times> pd_pool_t \<times> lease_v6_db_t option" where
  "pd_pool_release io now pool prefix plen db = (case pd_pool_find_entry pool prefix plen of
     None \<Rightarrow> (-1, pool, db)
   | Some i \<Rightarrow>
       let e = pd_entries pool ! i;
           pool' = (if pd_state e = IP6_STATE_ALLOCATED
             then let p1 = put_pd i (e\<lparr>pd_state := IP6_STATE_AVAILABLE, pd_duid := []\<rparr>) pool
                  in p1\<lparr>pd_allocated_count := sat_dec (pd_allocated_count pool),
                        pd_available_count := pd_available_count pool + 1\<rparr>
             else pool)
       in (0, pool', map_option (\<lambda>d. snd (lease_v6_release_prefix io now d prefix plen)) db))"

definition pd_pool_free :: "pd_pool_t \<Rightarrow> pd_pool_t" where
  "pd_pool_free pool = \<lparr>pd_subnet = zero_subnet6, base_prefix = in6_zero, base_plen = 0, delegated_plen = 0,
     pd_entries = [], pd_available_count = 0, pd_allocated_count = 0, pd_reserved_count = 0\<rparr>"

section \<open>Lemmas\<close>

subsection \<open>Moves of an entry\<close>

definition pd_move :: "nat \<Rightarrow> pd_pool_entry_t \<Rightarrow> pd_pool_t \<Rightarrow> pd_pool_t" where
  "pd_move i e pool = pd_enter (pd_state e) (put_pd i e (pd_leave (pd_state (pd_entries pool ! i)) pool))"

definition pd_state_is :: "ip6_state_t \<Rightarrow> pd_pool_entry_t \<Rightarrow> bool" where
  "pd_state_is s e \<longleftrightarrow> pd_state e = s"

lemmas pd_move_simps = pd_enter_def pd_leave_def put_pd_def sat_dec_def pd_state_is_def

lemma pd_move_fields [simp]:
  "pd_entries (pd_move i e p) = (pd_entries p)[i := e]" "pd_subnet (pd_move i e p) = pd_subnet p"
  "delegated_plen (pd_move i e p) = delegated_plen p" "pd_reserved_count (pd_move i e p) = pd_reserved_count p"
  by (simp_all add: pd_move_def pd_move_simps)

lemma pd_move_counts:
  "pd_available_count (pd_move i e p) =
     (if pd_state_is IP6_STATE_AVAILABLE (pd_entries p ! i) \<and> pd_available_count p \<noteq> 0 then pd_available_count p - 1
      else pd_available_count p) + of_bool (pd_state_is IP6_STATE_AVAILABLE e)"
  "pd_allocated_count (pd_move i e p) =
     (if pd_state_is IP6_STATE_ALLOCATED (pd_entries p ! i) \<and> pd_allocated_count p \<noteq> 0 then pd_allocated_count p - 1
      else pd_allocated_count p) + of_bool (pd_state_is IP6_STATE_ALLOCATED e)"
  by (auto simp: pd_move_def pd_move_simps)

interpretation pd_available: saturating_counter pd_entries "pd_state_is IP6_STATE_AVAILABLE" pd_available_count pd_move
  by unfold_locales (simp_all add: pd_move_counts)

interpretation pd_allocated: saturating_counter pd_entries "pd_state_is IP6_STATE_ALLOCATED" pd_allocated_count pd_move
  by unfold_locales (simp_all add: pd_move_counts)

subsection \<open>The invariant\<close>

definition pd_spaced :: "u8 \<Rightarrow> pd_pool_entry_t list \<Rightarrow> bool" where
  "pd_spaced plen es \<longleftrightarrow> list_all (\<lambda>e. length (pd_prefix e) = 16 \<and> pd_plen e = plen) es
     \<and> (\<exists>v. map (\<lambda>e. be_val (pd_prefix e)) es = map (\<lambda>k. v + k * 2 ^ (128 - unat plen)) [0..<length es])"

definition pd_counts :: "pd_pool_t \<Rightarrow> bool" where
  "pd_counts p \<longleftrightarrow> length (pd_entries p) \<le> MAX_PD_POOL_SIZE
     \<and> unat (pd_available_count p) = count_if (pd_state_is IP6_STATE_AVAILABLE) (pd_entries p)
     \<and> unat (pd_allocated_count p) = count_if (pd_state_is IP6_STATE_ALLOCATED) (pd_entries p)"

definition pd_wf :: "pd_pool_t \<Rightarrow> bool" where
  "pd_wf p \<longleftrightarrow> pd_counts p \<and> pd_spaced (delegated_plen p) (pd_entries p)"

definition pd_same :: "pd_pool_entry_t \<Rightarrow> pd_pool_entry_t \<Rightarrow> bool" where
  "pd_same e e' \<longleftrightarrow> pd_prefix e = pd_prefix e' \<and> pd_plen e = pd_plen e'"

lemma pd_move_wf:
  assumes "pd_wf p" "i < length (pd_entries p)" "pd_same e (pd_entries p ! i)"
  shows "pd_wf (pd_move i e p)"
proof -
  have "pd_spaced (delegated_plen p) ((pd_entries p)[i := e])"
    using assms unfolding pd_wf_def pd_spaced_def pd_same_def
    by (auto simp: map_update_same list_all_length nth_list_update)
  then show ?thesis
    using assms pd_available.exact_move [OF assms(2), of e] pd_allocated.exact_move [OF assms(2), of e]
    by (simp add: pd_wf_def pd_counts_def)
qed

lemma pd_wf_length: "pd_wf p \<Longrightarrow> length (pd_entries p) \<le> MAX_PD_POOL_SIZE"
  by (simp add: pd_wf_def pd_counts_def)

lemma pd_find_bound:
  "pd_pool_find_entry p pfx l = Some i \<Longrightarrow> i < length (pd_entries p)"
  "pd_own d p = Some i \<Longrightarrow> i < length (pd_entries p) \<and> pd_state (pd_entries p ! i) = IP6_STATE_ALLOCATED
     \<and> pd_duid (pd_entries p ! i) = d"
  "pd_victim p = Some i \<Longrightarrow> i < length (pd_entries p) \<and> pd_state (pd_entries p ! i) = IP6_STATE_AVAILABLE"
  by (auto simp: pd_pool_find_entry_def pd_own_def pd_victim_def dest: find_idx_SomeD)

subsection \<open>Every operation is a move\<close>

lemma pd_sync_wf:
  assumes "pd_wf p"
  shows "pd_wf (pd_sync_lease p L)"
proof (cases "pd_pool_find_entry p (prefix_v6 L) (plen6 L)")
  case (Some i)
  let ?e = "pd_entries p ! i" and ?ns = "ip6_state_from_lease_state (state6 L)"
  let ?e' = "?e\<lparr>pd_state := ?ns, pd_last_allocated := starts6 L,
    pd_duid := (if duid_len6 L > 0 then lease_duid_hex L else pd_duid ?e)\<rparr>"
  have "pd_wf (pd_move i ?e' p)" by (rule pd_move_wf [OF assms pd_find_bound(1) [OF Some]]) (simp add: pd_same_def)
  then show ?thesis using assms Some by (simp add: pd_sync_lease_def pd_move_def Let_def)
qed (use assms in \<open>simp add: pd_sync_lease_def\<close>)

lemma pd_count_pos:
  assumes "pd_wf p" "i < length (pd_entries p)"
  shows "pd_state (pd_entries p ! i) = IP6_STATE_AVAILABLE \<Longrightarrow> pd_available_count p \<noteq> 0"
    "pd_state (pd_entries p ! i) = IP6_STATE_ALLOCATED \<Longrightarrow> pd_allocated_count p \<noteq> 0"
  using assms(1) count_if_pos [OF assms(2), of "pd_state_is IP6_STATE_AVAILABLE"]
    count_if_pos [OF assms(2), of "pd_state_is IP6_STATE_ALLOCATED"]
  by (auto simp: pd_wf_def pd_counts_def pd_state_is_def)

lemma pd_take_is_move:
  assumes "pd_wf p" "i < length (pd_entries p)" "pd_state (pd_entries p ! i) = IP6_STATE_AVAILABLE"
  shows "(put_pd i (pd_taken a (pd_entries p ! i)) p)\<lparr>pd_available_count := pd_available_count p - 1,
      pd_allocated_count := pd_allocated_count p + 1\<rparr> = pd_move i (pd_taken a (pd_entries p ! i)) p"
  using pd_count_pos(1) [OF assms] assms(3) by (simp add: pd_move_def pd_move_simps pd_taken_def)

lemma pd_free_is_move:
  assumes "pd_wf p" "i < length (pd_entries p)" "pd_state (pd_entries p ! i) = IP6_STATE_ALLOCATED"
    and "pd_state e = IP6_STATE_AVAILABLE"
  shows "(put_pd i e p)\<lparr>pd_available_count := pd_available_count p + 1,
      pd_allocated_count := pd_allocated_count p - 1\<rparr> = pd_move i e p"
    "(put_pd i e p)\<lparr>pd_allocated_count := sat_dec (pd_allocated_count p),
      pd_available_count := pd_available_count p + 1\<rparr> = pd_move i e p"
  using pd_count_pos(2) [OF assms(1-3)] assms(3,4) by (simp_all add: pd_move_def pd_move_simps)

lemma pd_allocate_cases:
  assumes "pd_wf p" "pd_pool_allocate a p db = (r, p', db')"
  obtains (own) i where "pd_own (pa_duid a) p = Some i" "p' = p" "r = pd_granted False (pd_entries p ! i)"
      "db' = snd (pd_add_lease a (pd_entries p ! i) db)"
  | (full) "pd_own (pa_duid a) p = None" "pd_victim p = None" "p' = p" "db' = db" "\<not> pd_success r"
  | (failed) i e where "pd_own (pa_duid a) p = None" "pd_victim p = Some i" "\<not> pd_success r"
      "pd_same e (pd_entries p ! i)" "pd_state e = IP6_STATE_AVAILABLE" "p' = pd_move i e (pd_move i (pd_taken a (pd_entries p ! i)) p)"
      "\<not> fst (pd_add_lease a (pd_taken a (pd_entries p ! i)) db)"
      "db' = snd (pd_add_lease a (pd_taken a (pd_entries p ! i)) db)"
  | (fresh) i where "pd_own (pa_duid a) p = None" "pd_victim p = Some i" "r = pd_granted True (pd_entries p ! i)"
      "p' = pd_move i (pd_taken a (pd_entries p ! i)) p" "fst (pd_add_lease a (pd_taken a (pd_entries p ! i)) db)"
      "db' = snd (pd_add_lease a (pd_taken a (pd_entries p ! i)) db)"
proof (cases "pd_own (pa_duid a) p")
  case (Some i)
  show ?thesis by (rule own [OF Some]) (use assms(2) Some in \<open>auto simp: pd_pool_allocate_def\<close>)
next
  case no_own: None
  show ?thesis
  proof (cases "pd_victim p")
    case None
    show ?thesis
      by (rule full [OF no_own None]) (use assms(2) no_own None in \<open>auto simp: pd_pool_allocate_def empty_pd_result_def\<close>)
  next
    case (Some i)
    let ?e = "pd_taken a (pd_entries p ! i)" and ?q = "pd_move i (pd_taken a (pd_entries p ! i)) p"
    let ?f = "?e\<lparr>pd_state := IP6_STATE_AVAILABLE, pd_duid := []\<rparr>"
    obtain ok d where d: "pd_add_lease a ?e db = (ok, d)" by fastforce
    note i = pd_find_bound(3) [OF Some]
    have q: "(put_pd i ?e p)\<lparr>pd_available_count := pd_available_count p - 1, pd_allocated_count := pd_allocated_count p + 1\<rparr> = ?q"
      using pd_take_is_move [OF assms(1)] i by simp
    have s: "pd_same ?e (pd_entries p ! i)" "pd_same ?f (pd_entries p ! i)" by (simp_all add: pd_same_def pd_taken_def)
    have "(put_pd i ?f ?q)\<lparr>pd_available_count := pd_available_count ?q + 1, pd_allocated_count := pd_allocated_count ?q - 1\<rparr>
        = pd_move i ?f ?q"
      using i s(1) by (intro pd_free_is_move(1) pd_move_wf assms(1)) (simp_all add: pd_taken_def)
    then have r: "pd_pool_allocate a p db =
       (if \<not> ok then (empty_pd_result\<lparr>pd_error_message := ''DB error''\<rparr>, pd_move i ?f ?q, d) else (pd_granted True ?e, ?q, d))"
      by (simp add: pd_pool_allocate_def no_own Some Let_def d q)
    have g: "pd_granted True ?e = pd_granted True (pd_entries p ! i)" by (simp add: pd_granted_def pd_taken_def)
    show ?thesis
    proof (cases ok)
      case True
      then show ?thesis using r assms(2) d g by (intro fresh [OF no_own Some]) simp_all
    next
      case False
      then show ?thesis using r assms(2) d s(2) by (intro failed [OF no_own Some, of ?f]) (auto simp: empty_pd_result_def)
    qed
  qed
qed

lemma pd_taken_same: "pd_same (pd_taken a e) e"
  by (simp add: pd_same_def pd_taken_def)

lemma pd_allocate_wf:
  assumes "pd_wf p" "pd_pool_allocate a p db = (r, p', db')"
  shows "pd_wf p'"
  using assms
proof (cases rule: pd_allocate_cases)
  case (failed i e)
  note i = pd_find_bound(3) [OF failed(2)]
  have "pd_wf (pd_move i (pd_taken a (pd_entries p ! i)) p)" using pd_move_wf assms(1) i pd_taken_same by blast
  then show ?thesis unfolding failed(6) using i failed(4) by - (rule pd_move_wf, simp_all add: pd_same_def pd_taken_def)
next
  case (fresh i)
  then show ?thesis using pd_find_bound(3) [OF fresh(2)] pd_move_wf [OF assms(1)] pd_taken_same by blast
qed (use assms in simp_all)

lemma pd_granted_length:
  assumes "pd_wf p" "pd_pool_allocate a p db = (r, p', db')" "pd_success r"
  shows "length (result_prefix r) = 16"
proof -
  have l: "i < length (pd_entries p) \<Longrightarrow> length (pd_prefix (pd_entries p ! i)) = 16" for i
    using assms(1) by (auto simp: pd_wf_def pd_spaced_def list_all_length)
  from assms(1,2) show ?thesis
    by (cases rule: pd_allocate_cases) (use assms(3) l in \<open>auto simp: pd_granted_def dest: pd_find_bound(2,3)\<close>)
qed

lemma pd_release_wf:
  assumes "pd_wf p" "pd_pool_release io now p pfx l db = (r, p', db')"
  shows "pd_wf p'"
proof (cases "pd_pool_find_entry p pfx l")
  case None
  then show ?thesis using assms by (simp add: pd_pool_release_def)
next
  case (Some i)
  let ?e = "(pd_entries p ! i)\<lparr>pd_state := IP6_STATE_AVAILABLE, pd_duid := []\<rparr>"
  note i = pd_find_bound(1) [OF Some]
  have "pd_wf (pd_move i ?e p)" by (rule pd_move_wf [OF assms(1) i]) (simp add: pd_same_def)
  then show ?thesis
    using assms Some pd_free_is_move(2) [OF assms(1) i, of ?e] by (auto simp: pd_pool_release_def Let_def split: if_splits)
qed

subsection \<open>The lease table\<close>

text \<open>An allocation changes the row of its prefix only.\<close>

lemma pd_add_lease_db:
  assumes "db6_wf db" "duid_text_ok (pa_duid a)"
  shows "db6_wf (snd (pd_add_lease a e db)) \<and> db6_abs (snd (pd_add_lease a e db)) (Addr x) = db6_abs db (Addr x)"
  using add_pd_refines [OF assms, of "pa_now a" "pa_iaid a" "pd_prefix e" "pd_plen e" "pa_lease_time a" "pa_hostname a"]
  by (auto simp: pd_add_lease_def upsert6_def split_beta split: option.splits)

lemma pd_allocate_db:
  assumes "db6_wf db" "duid_text_ok (pa_duid a)"
  shows "db6_wf (snd (snd (pd_pool_allocate a p db)))
    \<and> db6_abs (snd (snd (pd_pool_allocate a p db))) (Addr x) = db6_abs db (Addr x)"
proof (cases "pd_own (pa_duid a) p")
  case (Some i)
  then show ?thesis using pd_add_lease_db [OF assms] by (simp add: pd_pool_allocate_def)
next
  case None
  then show ?thesis
    using assms pd_add_lease_db [OF assms, of _ x]
    by (simp add: pd_pool_allocate_def Let_def split_beta split: option.split)
qed

subsection \<open>Initialisation\<close>

lemma mod_wrap_less:
  fixes a m w :: nat
  assumes "a < (a + w) mod m" "a < m" "w \<le> m"
  shows "(a + w) mod m = a + w"
proof (cases "a + w < m")
  case False
  then have "(a + w) mod m = (a + w - m) mod m" by (simp add: le_mod_geq)
  also have "\<dots> \<le> a + w - m" by simp
  finally show ?thesis using assms False by linarith
qed simp

lemma pd_init_spaced:
  assumes "length cur = 16" "length end_ip = 16" "length es \<le> MAX_PD_POOL_SIZE"
    and "list_all (\<lambda>e. length (pd_prefix e) = 16 \<and> pd_plen e = plen) es"
    and "list_all (pd_state_is IP6_STATE_AVAILABLE) es"
    and "map (\<lambda>e. be_val (pd_prefix e)) es = map (\<lambda>k. v + k * 2 ^ (128 - unat plen)) [0..<length es]"
    and "be_val cur = v + length es * 2 ^ (128 - unat plen)"
  shows "length (pd_init_loop plen cur end_ip es) \<le> MAX_PD_POOL_SIZE
    \<and> list_all (pd_state_is IP6_STATE_AVAILABLE) (pd_init_loop plen cur end_ip es)
    \<and> pd_spaced plen (pd_init_loop plen cur end_ip es)"
  using assms
proof (induction plen cur end_ip es rule: pd_init_loop.induct)
  case (1 plen cur end_ip es)
  let ?e = "\<lparr>pd_prefix = cur, pd_plen = plen, pd_state = IP6_STATE_AVAILABLE, pd_duid = [], pd_last_allocated = 0\<rparr>"
  let ?next = "increment_prefix cur plen"
  let ?good = "\<lambda>xs. length xs \<le> MAX_PD_POOL_SIZE \<and> list_all (pd_state_is IP6_STATE_AVAILABLE) xs \<and> pd_spaced plen xs"
  have available: "pd_state_is IP6_STATE_AVAILABLE ?e" by (simp add: pd_state_is_def)
  have stay: "length es \<le> MAX_PD_POOL_SIZE \<and> list_all (pd_state_is IP6_STATE_AVAILABLE) es \<and> pd_spaced plen es"
    using 1(4-7) unfolding pd_spaced_def by blast
  have new: "list_all (\<lambda>e. length (pd_prefix e) = 16 \<and> pd_plen e = plen) (es @ [?e])"
    "list_all (pd_state_is IP6_STATE_AVAILABLE) (es @ [?e])"
    "map (\<lambda>e. be_val (pd_prefix e)) (es @ [?e]) = map (\<lambda>k. v + k * 2 ^ (128 - unat plen)) [0..<length (es @ [?e])]"
    using 1(2,5-8) available by simp_all
  show ?case
  proof (cases "ipv6_compare cur end_ip \<le> 0 \<and> \<not> length es \<ge> MAX_PD_POOL_SIZE")
    case True
    then have l: "length (es @ [?e]) \<le> MAX_PD_POOL_SIZE" by simp
    show ?thesis
    proof (cases "ipv6_compare ?next cur \<le> 0")
      case over: True
      have "pd_spaced plen (es @ [?e])" using new(1,3) unfolding pd_spaced_def by blast
      moreover have "pd_init_loop plen cur end_ip es = es @ [?e]"
        using True over by (subst pd_init_loop.simps) simp
      ultimately show ?thesis using l new(2) by (simp only: simp_thms)
    next
      case go: False
      have "?next = cur" if "plen = 0 \<or> plen > 128"
        unfolding increment_prefix_def using that by (simp only: if_True)
      then have "\<not> (plen = 0 \<or> plen > 128)" using go ipv6_compare_val [of cur cur] by auto
      then have p: "0 < plen" "plen \<le> 128" by (auto simp: word_gt_0)
      note v = increment_prefix_val [OF 1(2) p]
      have "be_val cur < be_val ?next" using go ipv6_compare_val [of ?next cur] v 1(2) by simp
      moreover have "be_val cur < 2 ^ 128" using be_val_less [of cur] 1(2) by simp
      moreover have "(2 :: nat) ^ (128 - unat plen) \<le> 2 ^ 128" by (rule power_increasing) simp_all
      ultimately have "be_val ?next = be_val cur + 2 ^ (128 - unat plen)"
        using v mod_wrap_less [where a = "be_val cur" and m = "2 ^ 128" and w = "2 ^ (128 - unat plen)"] by (simp only:)
      then have "be_val ?next = v + length (es @ [?e]) * 2 ^ (128 - unat plen)"
        using 1(8) by (simp add: algebra_simps)
      then have "?good (pd_init_loop plen ?next end_ip (es @ [?e]))"
        using 1(1) [OF _ _ refl refl go] True v 1(3) l new by (simp only: simp_thms)
      moreover have "pd_init_loop plen cur end_ip es = pd_init_loop plen ?next end_ip (es @ [?e])"
        using True go by (subst pd_init_loop.simps) simp
      ultimately show ?thesis by (simp only:)
    qed
  next
    case False
    then have "pd_init_loop plen cur end_ip es = es" by (subst pd_init_loop.simps) auto
    then show ?thesis using stay by (simp only:)
  qed
qed

lemma pd_fresh_wf:
  assumes "length start = 16" "length end_ip = 16"
    and "pd_entries p = pd_init_loop (delegated_plen p) start end_ip []"
    and "pd_available_count p = of_nat (length (pd_entries p))" "pd_allocated_count p = 0"
  shows "pd_wf p"
proof -
  have e: "length (pd_entries p) \<le> MAX_PD_POOL_SIZE" "list_all (pd_state_is IP6_STATE_AVAILABLE) (pd_entries p)"
    "pd_spaced (delegated_plen p) (pd_entries p)"
    using pd_init_spaced [OF assms(1,2), of "[]"] assms(3) by simp_all
  then have "filter (pd_state_is IP6_STATE_AVAILABLE) (pd_entries p) = pd_entries p"
    "filter (pd_state_is IP6_STATE_ALLOCATED) (pd_entries p) = []"
    by (auto simp: filter_id_conv filter_empty_conv list_all_iff pd_state_is_def)
  then show ?thesis using e assms(4,5) by (simp add: pd_wf_def pd_counts_def count_if_def unat_of_nat take_bit_nat_eq_self)
qed

lemma pd_sync_all_wf: "pd_wf p \<Longrightarrow> pd_wf (foldl pd_sync_lease p Ls)"
  by (induction Ls arbitrary: p) (auto simp: pd_sync_wf)

lemma pd_init_wf:
  assumes "pd_pool_init sub db plen = (r, p)" "length (pd_pool_start_bin sub) = 16" "length (pd_pool_end_bin sub) = 16"
  shows "pd_wf p"
proof -
  let ?none = "\<lparr>pd_subnet = sub, base_prefix = in6_zero, base_plen = 0, delegated_plen = plen, pd_entries = [],
     pd_available_count = 0, pd_allocated_count = 0, pd_reserved_count = 0\<rparr>"
  let ?es = "pd_init_loop plen (pd_pool_start_bin sub) (pd_pool_end_bin sub) []"
  have "pd_wf ?none" by (simp add: pd_wf_def pd_counts_def pd_spaced_def)
  moreover have "pd_wf (?none\<lparr>base_prefix := pd_pool_start_bin sub, base_plen := plen, pd_entries := ?es,
      pd_available_count := of_nat (length ?es)\<rparr>)"
    by (rule pd_fresh_wf [OF assms(2,3)]) simp_all
  ultimately show ?thesis
    using assms(1) pd_sync_all_wf by (auto simp: pd_pool_init_def Let_def split: if_splits option.splits)
qed

subsection \<open>Runs\<close>

inductive pd_step :: "pd_pool_t \<Rightarrow> pd_pool_t \<Rightarrow> bool" where
  pd_allocate: "pd_pool_allocate a p db = (r, p', db') \<Longrightarrow> pd_step p p'"
| pd_release: "pd_pool_release io now p pfx l db = (r, p', db') \<Longrightarrow> pd_step p p'"

lemma pd_step_wf: "pd_step p p' \<Longrightarrow> pd_wf p \<Longrightarrow> pd_wf p'"
  by (induction rule: pd_step.induct) (use pd_allocate_wf pd_release_wf in blast)+

interpretation pd_run: invariant_system pd_wf pd_step pd_wf
  by unfold_locales (use pd_step_wf in blast)+

text \<open>Prefixes that lie a multiple of their size apart have no address in common.\<close>

lemma blocks_disjoint:
  fixes v w :: nat
  assumes "0 < w" "(v + i * w) div w = (v + j * w) div w"
  shows "i = j"
  using assms by (simp add: div_mult_self1)

lemma pd_wf_disjoint:
  assumes "pd_wf p" "i < length (pd_entries p)" "j < length (pd_entries p)" "length x = 16"
    and "ipv6_in_subnet x (pd_prefix (pd_entries p ! i)) (delegated_plen p)"
    and "ipv6_in_subnet x (pd_prefix (pd_entries p ! j)) (delegated_plen p)"
  shows "i = j"
proof -
  let ?w = "2 ^ (128 - unat (delegated_plen p)) :: nat"
  obtain v where v: "map (\<lambda>e. be_val (pd_prefix e)) (pd_entries p) = map (\<lambda>k. v + k * ?w) [0..<length (pd_entries p)]"
    and l: "\<forall>e \<in> set (pd_entries p). length (pd_prefix e) = 16"
    using assms(1) unfolding pd_wf_def pd_spaced_def list_all_iff by blast
  have val: "be_val (pd_prefix (pd_entries p ! k)) = v + k * ?w" if "k < length (pd_entries p)" for k
    using arg_cong [OF v, of "\<lambda>xs. xs ! k"] that by simp
  have "be_val x div ?w = be_val (pd_prefix (pd_entries p ! k)) div ?w"
    if "k < length (pd_entries p)" "ipv6_in_subnet x (pd_prefix (pd_entries p ! k)) (delegated_plen p)" for k
    using ipv6_in_subnet_val [OF assms(4), of "pd_prefix (pd_entries p ! k)" "delegated_plen p"] l that by simp
  from this [OF assms(2,5)] this [OF assms(3,6)] have "(v + i * ?w) div ?w = (v + j * ?w) div ?w"
    unfolding val [OF assms(2)] val [OF assms(3)] by (simp only:)
  then show ?thesis by (rule blocks_disjoint [rotated]) (rule zero_less_power, rule zero_less_numeral)
qed

section \<open>Properties\<close>

text \<open>The prefixes 2001:db8:0:1::/64 and 2001:db8:0:2::/64, and a client.\<close>

definition pd_addr :: "u8 \<Rightarrow> in6_addr" where
  "pd_addr b = [0x20, 1, 0xD, 0xB8, 0, 0, 0, b] @ replicate 8 0"

definition sample_pd_subnet :: dhcpv6_subnet_t where
  "sample_pd_subnet = zero_subnet6\<lparr>pd_enabled := True, pd_pool_start_bin := pd_addr 1, pd_pool_end_bin := pd_addr 2,
     has_pd_pool := True, pd_prefix_len := 64\<rparr>"

definition sample_pd_pool :: pd_pool_t where
  "sample_pd_pool = snd (pd_pool_init sample_pd_subnet None 64)"

definition sample_pd_client :: pd_args where
  "sample_pd_client = \<lparr>pa_duid = ''00:03:0a'', pa_iaid = 7, pa_hostname = None, pa_lease_time = 3600, pa_now = 100\<rparr>"

definition sample_pd_call :: "pd_allocation_result_t \<times> pd_pool_t \<times> lease_v6_db_t" where
  "sample_pd_call = pd_pool_allocate sample_pd_client sample_pd_pool (lease_v6_db_init ''leases6'')"

lemma sample_pd_init:
  "pd_pool_init sample_pd_subnet None 64 = (fst (pd_pool_init sample_pd_subnet None 64), sample_pd_pool)"
  "length (pd_pool_start_bin sample_pd_subnet) = 16" "length (pd_pool_end_bin sample_pd_subnet) = 16"
  "length (pd_entries sample_pd_pool) = 2"
  by (simp add: sample_pd_pool_def) code_simp+

lemma sample_pd_call_eq:
  "pd_pool_allocate sample_pd_client sample_pd_pool (lease_v6_db_init ''leases6'') =
     (fst sample_pd_call, fst (snd sample_pd_call), snd (snd sample_pd_call))"
  by (simp add: sample_pd_call_def)

lemma sample_pd_results:
  "pd_success (fst sample_pd_call)" "result_prefix (fst sample_pd_call) = pd_addr 1" "result_plen (fst sample_pd_call) = 64"
  "pd_allocated_count (fst (snd sample_pd_call)) = 1"
  by code_simp+

text \<open>
  C18: Delegated prefixes do not overlap and are counted exactly.  After \<open>pd_pool_init\<close> with any lease
  table and any delegated length, and after any sequence of allocations and releases, no address
  lies in the prefixes of two different entries, the pool has at most 1024 of them, and
  \<open>available_count\<close> and \<open>allocated_count\<close> are the numbers of available and allocated entries.
\<close>

theorem pd_pool_disjoint:
  assumes "pd_pool_init sub db plen = (r, p0)" "length (pd_pool_start_bin sub) = 16" "length (pd_pool_end_bin sub) = 16"
    and "pd_step\<^sup>*\<^sup>* p0 p"
  shows "(\<forall>i < length (pd_entries p). \<forall>j < length (pd_entries p). \<forall>x. length x = 16 \<longrightarrow>
      ipv6_in_subnet x (pd_prefix (pd_entries p ! i)) (delegated_plen p) \<longrightarrow>
      ipv6_in_subnet x (pd_prefix (pd_entries p ! j)) (delegated_plen p) \<longrightarrow> i = j)
    \<and> length (pd_entries p) \<le> MAX_PD_POOL_SIZE
    \<and> unat (pd_available_count p) = count_if (pd_state_is IP6_STATE_AVAILABLE) (pd_entries p)
    \<and> unat (pd_allocated_count p) = count_if (pd_state_is IP6_STATE_ALLOCATED) (pd_entries p)"
proof -
  have wf: "pd_wf p" by (rule pd_run.reachable_inv [OF pd_init_wf [OF assms(1-3)] assms(4)])
  then show ?thesis using pd_wf_disjoint [OF wf] by (auto simp: pd_wf_def pd_counts_def)
qed

theorem pd_pool_disjoint_witness:
  "pd_allocated_count (fst (snd sample_pd_call)) = 1
   \<and> count_if (pd_state_is IP6_STATE_ALLOCATED) (pd_entries (fst (snd sample_pd_call))) = 1"
proof -
  have "pd_step\<^sup>*\<^sup>* sample_pd_pool (fst (snd sample_pd_call))" using pd_step.pd_allocate [OF sample_pd_call_eq] by blast
  from pd_pool_disjoint [OF sample_pd_init(1-3) this] show ?thesis by (simp add: sample_pd_results)
qed

text \<open>
  C26: Allocation of a prefix.  With a decodable DUID and room in the lease table, \<open>pd_pool_allocate\<close>
  fails exactly when the client has no allocated entry and no entry is available.  When it succeeds,
  the prefix is that of the first entry allocated to the DUID, or of the first available entry where
  there is none; that entry is allocated afterwards, all others are as before, and the lease table
  has an active lease of the prefix with the IAID and the DUID bytes of the client.
\<close>

theorem pd_allocate_correct:
  assumes "pd_wf p" "db6_wf db" "length (leases6 db) < LEASES6_MAX" "duid_text_ok (pa_duid a)" "pa_duid a \<noteq> []"
    and "pd_pool_allocate a p db = (r, p', db')"
  shows "(pd_success r \<longleftrightarrow> pd_own (pa_duid a) p \<noteq> None \<or> pd_victim p \<noteq> None)
    \<and> (pd_success r \<longrightarrow> (\<exists>i < length (pd_entries p).
         (pd_own (pa_duid a) p = Some i \<or> pd_own (pa_duid a) p = None \<and> pd_victim p = Some i)
         \<and> result_prefix r = pd_prefix (pd_entries p ! i) \<and> result_plen r = pd_plen (pd_entries p ! i)
         \<and> pd_state (pd_entries p' ! i) = IP6_STATE_ALLOCATED
         \<and> (\<forall>j. j \<noteq> i \<longrightarrow> pd_entries p' ! j = pd_entries p ! j))
       \<and> (\<exists>L. db6_abs db' (Pfx (result_prefix r) (result_plen r)) = Some L
            \<and> holds_lease6 (pa_now a) (pa_iaid a) (pa_lease_time a) (pa_duid a) L))"
proof -
  have ok: "fst (pd_add_lease a e db)"
    "\<exists>L. db6_abs (snd (pd_add_lease a e db)) (Pfx (pd_prefix e) (pd_plen e)) = Some L
       \<and> holds_lease6 (pa_now a) (pa_iaid a) (pa_lease_time a) (pa_duid a) L" for e
    using add_pd_ok [OF assms(4,3), of "pa_now a" "pa_iaid a" "pd_prefix e" "pd_plen e" "pa_lease_time a" "pa_hostname a"]
      add_pd_refines [OF assms(2,4), of "pa_now a" "pa_iaid a" "pd_prefix e" "pd_plen e" "pa_lease_time a" "pa_hostname a"]
      upsert6_holds [OF assms(2-5), of "Pfx (pd_prefix e) (pd_plen e)" "pa_now a" "pa_iaid a" "pa_lease_time a" "pa_hostname a"]
    by (auto simp: pd_add_lease_def split: prod.split)
  note g = pd_granted_def empty_pd_result_def
  from assms(1,6) show ?thesis
  proof (cases rule: pd_allocate_cases)
    case (own i)
    then show ?thesis using pd_find_bound(2) [OF own(1)] ok(2) [of "pd_entries p ! i"] by (auto simp: g)
  next
    case full
    then show ?thesis by simp
  next
    case (failed i e)
    then show ?thesis using ok(1) by blast
  next
    case (fresh i)
    have "pd_state (pd_entries p' ! i) = IP6_STATE_ALLOCATED" "\<forall>j. j \<noteq> i \<longrightarrow> pd_entries p' ! j = pd_entries p ! j"
      using pd_find_bound(3) [OF fresh(2)] fresh(4) by (simp_all add: pd_taken_def)
    then show ?thesis
      using fresh(1-3,6) pd_find_bound(3) [OF fresh(2)] ok(2) [of "pd_taken a (pd_entries p ! i)"]
      by (auto simp: g pd_taken_def)
  qed
qed

theorem pd_allocate_correct_witness:
  "pd_success (fst sample_pd_call)
   \<and> (\<exists>L. db6_abs (snd (snd sample_pd_call)) (Pfx (pd_addr 1) 64) = Some L
        \<and> holds_lease6 100 7 3600 ''00:03:0a'' L)"
proof -
  have h: "db6_wf (lease_v6_db_init ''leases6'')" "length (leases6 (lease_v6_db_init ''leases6'')) < LEASES6_MAX"
    by (simp_all add: lease_v6_db_init_def db6_wf_def)
  have d: "duid_text_ok (pa_duid sample_pd_client)" "pa_duid sample_pd_client \<noteq> []" by code_simp+
  have "\<exists>L. db6_abs (snd (snd sample_pd_call)) (Pfx (pd_addr 1) 64) = Some L
      \<and> holds_lease6 (pa_now sample_pd_client) (pa_iaid sample_pd_client) (pa_lease_time sample_pd_client) (pa_duid sample_pd_client) L"
    using pd_allocate_correct [OF pd_init_wf [OF sample_pd_init(1-3)] h d sample_pd_call_eq]
    by (simp add: sample_pd_results)
  then show ?thesis by (simp add: sample_pd_results sample_pd_client_def)
qed

end
