(* ===== verification/Protocol_V6.thy ===== *)
theory Protocol_V6
  imports Utils_V6
begin

text \<open>
  The DHCPv6 messages (sources/protocol_v6.c, include/protocol_v6.h): the parser that extracts the
  metadata of a message, the iteration over its options, and the functions that append options and
  build replies.  A packet is the list of its bytes; an output buffer is the list of the bytes before
  the write offset together with the size of the buffer, and None is the return value -1.  A pointer
  into the packet is the list of the bytes it stands for, None where it is NULL.
\<close>

named_theorems wire_simps \<open>lengths and decoding of the fields of a message\<close>

section \<open>Model\<close>

subsection \<open>Constants (protocol_v6.h)\<close>

abbreviation MSG_SOLICIT :: u8 where "MSG_SOLICIT \<equiv> 1"
abbreviation MSG_ADVERTISE :: u8 where "MSG_ADVERTISE \<equiv> 2"
abbreviation MSG_REQUEST :: u8 where "MSG_REQUEST \<equiv> 3"
abbreviation MSG_RENEW :: u8 where "MSG_RENEW \<equiv> 5"
abbreviation MSG_REBIND :: u8 where "MSG_REBIND \<equiv> 6"
abbreviation MSG_REPLY :: u8 where "MSG_REPLY \<equiv> 7"
abbreviation MSG_RELEASE :: u8 where "MSG_RELEASE \<equiv> 8"
abbreviation MSG_DECLINE :: u8 where "MSG_DECLINE \<equiv> 9"

abbreviation OPT_CLIENTID :: u16 where "OPT_CLIENTID \<equiv> 1"
abbreviation OPT_SERVERID :: u16 where "OPT_SERVERID \<equiv> 2"
abbreviation OPT_IA_NA :: u16 where "OPT_IA_NA \<equiv> 3"
abbreviation OPT_IAADDR :: u16 where "OPT_IAADDR \<equiv> 5"
abbreviation OPT_STATUS_CODE :: u16 where "OPT_STATUS_CODE \<equiv> 13"
abbreviation OPT_DNS_SERVERS :: u16 where "OPT_DNS_SERVERS \<equiv> 23"
abbreviation OPT_DNS_SEARCH_LIST :: u16 where "OPT_DNS_SEARCH_LIST \<equiv> 24"
abbreviation OPT_IA_PD :: u16 where "OPT_IA_PD \<equiv> 25"
abbreviation OPT_IAPREFIX :: u16 where "OPT_IAPREFIX \<equiv> 26"
abbreviation OPT_SNTP_SERVERS :: u16 where "OPT_SNTP_SERVERS \<equiv> 31"
abbreviation OPT_INFO_REFRESH_TIME :: u16 where "OPT_INFO_REFRESH_TIME \<equiv> 32"

abbreviation STATUS_SUCCESS :: u16 where "STATUS_SUCCESS \<equiv> 0"
abbreviation STATUS_NOADDRSAVAIL :: u16 where "STATUS_NOADDRSAVAIL \<equiv> 2"

subsection \<open>Fields in network order\<close>

definition put16 :: "u16 \<Rightarrow> u8 list" where
  "put16 v = [ucast (drop_bit 8 v), ucast v]"

definition get16 :: "u8 \<Rightarrow> u8 \<Rightarrow> u16" where
  "get16 a b = push_bit 8 (ucast a) OR ucast b"

definition set_u32 :: "u32 \<Rightarrow> u8 list" where
  "set_u32 v = [ucast (drop_bit 24 v), ucast (drop_bit 16 v), ucast (drop_bit 8 v), ucast v]"

definition get_u32 :: "u8 list \<Rightarrow> u32" where
  "get_u32 p = push_bit 24 (ucast (p ! 0)) OR push_bit 16 (ucast (p ! 1)) OR push_bit 8 (ucast (p ! 2)) OR ucast (p ! 3)"

text \<open>The three bytes of the transaction identifier in the header.\<close>

definition dhcpv6_get_xid :: "u8 list \<Rightarrow> u32" where
  "dhcpv6_get_xid h = push_bit 16 (ucast (h ! 1)) OR push_bit 8 (ucast (h ! 2)) OR ucast (h ! 3)"

definition dhcpv6_set_xid :: "u32 \<Rightarrow> u8 list" where
  "dhcpv6_set_xid v = (let xid = v AND 0x00FFFFFF
     in [ucast (drop_bit 16 xid AND 0xFF), ucast (drop_bit 8 xid AND 0xFF), ucast (xid AND 0xFF)])"

subsection \<open>Parsing\<close>

record dhcpv6_packet_meta_t =
  meta_msg_type :: u8
  meta_transaction_id :: u32
  meta_client_duid :: "u8 list option"
  meta_server_duid :: "u8 list option"
  meta_has_ia_na :: bool
  meta_iaid :: u32
  meta_has_requested_ip :: bool
  meta_requested_ip :: in6_addr
  meta_has_ia_pd :: bool
  meta_iaid_pd :: u32
  meta_has_requested_prefix :: bool
  meta_requested_prefix :: in6_addr
  meta_requested_plen :: u8
  meta_dns_servers :: "in6_addr list"
  meta_sntp_servers :: "in6_addr list"
  meta_domain_search :: "u8 list option"
  meta_info_refresh_time :: u32
  meta_has_info_refresh_time :: bool

definition zero_meta :: dhcpv6_packet_meta_t where
  "zero_meta = \<lparr>meta_msg_type = 0, meta_transaction_id = 0, meta_client_duid = None, meta_server_duid = None,
     meta_has_ia_na = False, meta_iaid = 0, meta_has_requested_ip = False, meta_requested_ip = replicate 16 0,
     meta_has_ia_pd = False, meta_iaid_pd = 0, meta_has_requested_prefix = False,
     meta_requested_prefix = replicate 16 0, meta_requested_plen = 0, meta_dns_servers = [],
     meta_sntp_servers = [], meta_domain_search = None, meta_info_refresh_time = 0,
     meta_has_info_refresh_time = False\<rparr>"

text \<open>
  The option at the front of the bytes that are left: its code, its value and the bytes behind it.
  None where the header or the value is cut off.
\<close>

fun option_front :: "u8 list \<Rightarrow> (u16 \<times> u8 list \<times> u8 list) option" where
  "option_front (c1 # c2 # l1 # l2 # rest) =
     (let len = unat (get16 l1 l2)
      in if length rest < len then None else Some (get16 c1 c2, take len rest, drop len rest))"
| "option_front _ = None"

lemma option_front_shorter: "option_front bs = Some (code, val, rest) \<Longrightarrow> length rest < length bs"
  by (cases bs rule: option_front.cases) (auto simp: Let_def split: if_splits)

text \<open>The loop over the options, the same for the message and inside IA_NA and IA_PD.\<close>

function options_of :: "u8 list \<Rightarrow> (u16 \<times> u8 list) list" where
  "options_of bs = (case option_front bs of
     None \<Rightarrow> [] | Some (code, val, rest) \<Rightarrow> (code, val) # options_of rest)"
  by pat_completeness auto

termination options_of
  by (relation "measure length") (auto dest: option_front_shorter)

declare options_of.simps [simp del]

definition parse_iaaddr :: "dhcpv6_packet_meta_t \<Rightarrow> u16 \<times> u8 list \<Rightarrow> dhcpv6_packet_meta_t" where
  "parse_iaaddr m opt = (case opt of (code, val) \<Rightarrow>
     if code = OPT_IAADDR \<and> length val \<ge> 16
     then m\<lparr>meta_requested_ip := take 16 val, meta_has_requested_ip := True\<rparr> else m)"

definition parse_iaprefix :: "dhcpv6_packet_meta_t \<Rightarrow> u16 \<times> u8 list \<Rightarrow> dhcpv6_packet_meta_t" where
  "parse_iaprefix m opt = (case opt of (code, val) \<Rightarrow>
     if code = OPT_IAPREFIX \<and> length val \<ge> 25
     then m\<lparr>meta_has_requested_prefix := True, meta_requested_plen := val ! 8,
            meta_requested_prefix := take 16 (drop 9 val)\<rparr> else m)"

text \<open>The addresses of a list option, of which the first four are kept.\<close>

definition addresses_of :: "u8 list \<Rightarrow> in6_addr list" where
  "addresses_of val = map (\<lambda>i. take 16 (drop (i * 16) val)) [0..<min 4 (length val div 16)]"

definition parse_option :: "dhcpv6_packet_meta_t \<Rightarrow> u16 \<times> u8 list \<Rightarrow> dhcpv6_packet_meta_t" where
  "parse_option m opt = (case opt of (code, val) \<Rightarrow>
     if code = OPT_CLIENTID then m\<lparr>meta_client_duid := Some val\<rparr>
     else if code = OPT_SERVERID then m\<lparr>meta_server_duid := Some val\<rparr>
     else if code = OPT_IA_NA then
       if length val \<ge> 12
       then foldl parse_iaaddr (m\<lparr>meta_iaid := get_u32 val, meta_has_ia_na := True\<rparr>) (options_of (drop 12 val))
       else m
     else if code = OPT_IA_PD then
       if length val \<ge> 12
       then foldl parse_iaprefix (m\<lparr>meta_has_ia_pd := True, meta_iaid_pd := get_u32 val\<rparr>) (options_of (drop 12 val))
       else m
     else if code = OPT_DNS_SERVERS then
       if length val > 0 \<and> length val mod 16 = 0 then m\<lparr>meta_dns_servers := addresses_of val\<rparr> else m
     else if code = OPT_DNS_SEARCH_LIST then
       if length val > 0 then m\<lparr>meta_domain_search := Some val\<rparr> else m
     else if code = OPT_SNTP_SERVERS then
       if length val > 0 \<and> length val mod 16 = 0 then m\<lparr>meta_sntp_servers := addresses_of val\<rparr> else m
     else if code = OPT_INFO_REFRESH_TIME then
       if length val \<ge> 4
       then m\<lparr>meta_info_refresh_time := get_u32 val, meta_has_info_refresh_time := True\<rparr> else m
     else m)"

definition dhcpv6_parse :: "u8 list \<Rightarrow> dhcpv6_packet_meta_t option" where
  "dhcpv6_parse buf =
     (if length buf < 4 then None
      else Some (foldl parse_option
        (zero_meta\<lparr>meta_msg_type := buf ! 0, meta_transaction_id := dhcpv6_get_xid buf\<rparr>)
        (options_of (drop 4 buf))))"

subsection \<open>Iterating over options\<close>

text \<open>The length field of the option at an offset, and the pointer to the next option as an offset.\<close>

definition option_len_at :: "u8 list \<Rightarrow> nat \<Rightarrow> nat" where
  "option_len_at options off = unat (get16 (options ! (off + 2)) (options ! (off + 3)))"

definition dhcpv6_next_option :: "u8 list \<Rightarrow> nat option \<Rightarrow> nat option" where
  "dhcpv6_next_option options prev =
     (if length options < 4 then None
      else case prev of
          None \<Rightarrow> if 4 + option_len_at options 0 > length options then None else Some 0
        | Some off \<Rightarrow>
            if off \<ge> length options then None
            else let next_off = off + 4 + option_len_at options off
              in if next_off + 4 > length options then None
                 else if next_off + 4 + option_len_at options next_off > length options then None
                 else Some next_off)"

subsection \<open>Appending options\<close>

definition option_bytes :: "u16 \<Rightarrow> u8 list \<Rightarrow> u8 list" where
  "option_bytes code val = put16 code @ put16 (of_nat (length val)) @ val"

definition dhcpv6_append_status :: "nat \<Rightarrow> u16 \<Rightarrow> string option \<Rightarrow> u8 list option" where
  "dhcpv6_append_status buf_len status_code message =
     (if buf_len < 4 + 2 then None
      else
        let max_msg = (if buf_len > 4 + 2 then buf_len - (4 + 2) else 0);
            msg = (case message of None \<Rightarrow> [] | Some s \<Rightarrow> if max_msg > 0 then take max_msg s else []);
            opt_len = of_nat (2 + length msg) :: u16; total = 4 + unat opt_len
        in if total > buf_len then None
           else Some (take total (put16 OPT_STATUS_CODE @ put16 opt_len @ put16 status_code @ map of_char msg)))"

definition dhcpv6_append_dns_servers :: "nat \<Rightarrow> in6_addr list \<Rightarrow> u8 list option" where
  "dhcpv6_append_dns_servers buf_len servers =
     (if servers = [] then None
      else if buf_len < 4 + 16 then None
      else
        let max_servers = (buf_len - 4) div 16
        in if max_servers = 0 then None
           else
             let use = min (length servers) max_servers; opt_len = of_nat (use * 16) :: u16
             in Some (put16 OPT_DNS_SERVERS @ put16 opt_len @ take (unat opt_len) (concat (take use servers))))"

definition dhcpv6_append_option :: "nat \<Rightarrow> u8 list \<Rightarrow> u16 \<Rightarrow> u8 list \<Rightarrow> u8 list option" where
  "dhcpv6_append_option buf_len out code data =
     (if length out + 4 + length data > buf_len then None else Some (out @ option_bytes code data))"

text \<open>The status option that stands in an IA for which nothing was assigned.\<close>

definition error_status :: "u16 \<Rightarrow> u8 list" where
  "error_status status_code = option_bytes OPT_STATUS_CODE (put16 status_code @ map of_char ''Error'')"

definition dhcpv6_append_ia_na ::
    "nat \<Rightarrow> u8 list \<Rightarrow> u32 \<Rightarrow> in6_addr \<Rightarrow> u32 \<Rightarrow> u32 \<Rightarrow> u32 \<Rightarrow> u32 \<Rightarrow> u16 \<Rightarrow> u8 list option" where
  "dhcpv6_append_ia_na buf_len out iaid assigned_ip t1 t2 pl vl status_code =
     (if length out + 4 + 12 > buf_len then None
      else
        let sub_off = length out + 4 + 12;
            sub = (if status_code = STATUS_SUCCESS
                   then option_bytes OPT_IAADDR (assigned_ip @ set_u32 pl @ set_u32 vl)
                   else error_status status_code)
        in if sub_off + length sub > buf_len then None
           else Some (out @ option_bytes OPT_IA_NA (set_u32 iaid @ set_u32 t1 @ set_u32 t2 @ sub)))"

definition dhcpv6_append_ia_pd ::
    "nat \<Rightarrow> u8 list \<Rightarrow> u32 \<Rightarrow> in6_addr option \<Rightarrow> u8 \<Rightarrow> u32 \<Rightarrow> u32 \<Rightarrow> u32 \<Rightarrow> u32 \<Rightarrow> u16 \<Rightarrow> u8 list option" where
  "dhcpv6_append_ia_pd buf_len out iaid prefix plen t1 t2 pl vl status_code =
     (if length out + 4 + 12 > buf_len then None
      else
        let sub_off = length out + 4 + 12;
            base = (case prefix of Some p \<Rightarrow> p | None \<Rightarrow> replicate 16 0);
            sub = (if status_code = STATUS_SUCCESS
                   then option_bytes OPT_IAPREFIX (set_u32 pl @ set_u32 vl @ plen # base)
                   else error_status status_code)
        in if sub_off + length sub > buf_len then None
           else Some (out @ option_bytes OPT_IA_PD (set_u32 iaid @ set_u32 t1 @ set_u32 t2 @ sub)))"

definition dhcpv6_append_u32_option :: "nat \<Rightarrow> u16 \<Rightarrow> u32 \<Rightarrow> u8 list option" where
  "dhcpv6_append_u32_option buf_len code v =
     (if buf_len < 4 + 4 then None else Some (option_bytes code (set_u32 v)))"

text \<open>The loop over the domains of a comma separated list; \<open>val\<close> are the bytes written so far.\<close>

definition trim_domain :: "string \<Rightarrow> string" where
  "trim_domain token =
     rev (dropWhile (\<lambda>c. c \<in> {CHR '' '', CHR 0x09, CHR 0x0A})
       (rev (dropWhile (\<lambda>c. c \<in> {CHR '' '', CHR 0x09}) token)))"

fun domain_list_loop :: "nat \<Rightarrow> u8 list \<Rightarrow> string list \<Rightarrow> u8 list option" where
  "domain_list_loop buf_len val [] = Some val"
| "domain_list_loop buf_len val (token # toks) =
     (let d = trim_domain token
      in if d = [] then domain_list_loop buf_len val toks
         else case encode_domain_name d (buf_len - 4 - length val) of
             None \<Rightarrow> None
           | Some bs \<Rightarrow> domain_list_loop buf_len (val @ bs) toks)"

definition dhcpv6_append_domain_list :: "nat \<Rightarrow> string \<Rightarrow> u8 list option" where
  "dhcpv6_append_domain_list buf_len domain_search_list =
     (if buf_len < 4 + (length domain_search_list + 256) then None
      else map_option (option_bytes OPT_DNS_SEARCH_LIST)
        (domain_list_loop buf_len [] (tokens '','' (take 511 domain_search_list))))"

subsection \<open>Whole replies\<close>

definition reply_header :: "u8 \<Rightarrow> dhcpv6_packet_meta_t \<Rightarrow> u8 list" where
  "reply_header msg_type req_meta = msg_type # dhcpv6_set_xid (meta_transaction_id req_meta)"

text \<open>The client identifier is copied when it is there and is not empty.\<close>

definition append_client_id :: "nat \<Rightarrow> dhcpv6_packet_meta_t \<Rightarrow> u8 list \<Rightarrow> u8 list option" where
  "append_client_id buf_len req_meta out = (case meta_client_duid req_meta of
     None \<Rightarrow> Some out
   | Some d \<Rightarrow> if d = [] then Some out else dhcpv6_append_option buf_len out OPT_CLIENTID d)"

definition ia_na_value :: "u32 \<Rightarrow> in6_addr \<Rightarrow> u32 \<Rightarrow> u32 \<Rightarrow> u16 \<Rightarrow> u8 list option" where
  "ia_na_value iaid ip pref valid status_code =
     (let v = set_u32 iaid @ set_u32 (pref div 2) @ set_u32 pref
            @ option_bytes OPT_IAADDR (ip @ set_u32 pref @ set_u32 valid)
      in if status_code = STATUS_SUCCESS then Some v
         else map_option (\<lambda>s. v @ s) (dhcpv6_append_status (512 - length v) status_code (Some ''Error'')))"

definition dhcpv6_build_ia_na_reply ::
    "u8 \<Rightarrow> nat \<Rightarrow> dhcpv6_packet_meta_t \<Rightarrow> u8 list \<Rightarrow> in6_addr \<Rightarrow> u32 \<Rightarrow> u32 \<Rightarrow> u16 \<Rightarrow> u8 list option" where
  "dhcpv6_build_ia_na_reply msg_type out_buf_len req_meta server_duid assigned_ip pref_lifetime valid_lifetime status_code =
     (if out_buf_len < 4 \<or> server_duid = [] then None
      else do {
        out1 \<leftarrow> dhcpv6_append_option out_buf_len (reply_header msg_type req_meta) OPT_SERVERID server_duid;
        out2 \<leftarrow> append_client_id out_buf_len req_meta out1;
        if \<not> meta_has_ia_na req_meta then Some out2
        else do {
          ia \<leftarrow> ia_na_value (meta_iaid req_meta) assigned_ip pref_lifetime valid_lifetime status_code;
          dhcpv6_append_option out_buf_len out2 OPT_IA_NA ia
        }
      })"

definition dhcpv6_build_ia_pd_reply ::
    "u8 \<Rightarrow> nat \<Rightarrow> dhcpv6_packet_meta_t \<Rightarrow> u8 list \<Rightarrow> in6_addr option \<Rightarrow> u8 \<Rightarrow> u32 \<Rightarrow> u32 \<Rightarrow> u8 list option" where
  "dhcpv6_build_ia_pd_reply msg_type out_buf_len req_meta server_duid delegated_prefix plen pref_lifetime valid_lifetime =
     (if out_buf_len < 4 then None
      else do {
        out1 \<leftarrow> (if server_duid \<noteq> []
                then dhcpv6_append_option out_buf_len (reply_header msg_type req_meta) OPT_SERVERID server_duid
                else Some (reply_header msg_type req_meta));
        out2 \<leftarrow> append_client_id out_buf_len req_meta out1;
        dhcpv6_append_option out_buf_len out2 OPT_IA_PD
          (set_u32 (if meta_has_ia_pd req_meta then meta_iaid_pd req_meta else 0) @ set_u32 0 @ set_u32 0
            @ option_bytes OPT_IAPREFIX (set_u32 pref_lifetime @ set_u32 valid_lifetime
                @ plen # (case delegated_prefix of Some p \<Rightarrow> p | None \<Rightarrow> replicate 16 0)))
      })"

section \<open>Lemmas\<close>

subsection \<open>Fields\<close>

lemma get_put16 [wire_simps]: "get16 (ucast (drop_bit 8 v)) (ucast v) = v"
  unfolding get16_def by (rule bit_word_eqI) (auto simp: bit_simps)

lemma get_set_u32 [wire_simps]: "get_u32 (set_u32 v @ bs) = v"
  unfolding get_u32_def set_u32_def
proof (rule bit_word_eqI)
  fix n
  assume "n < LENGTH(32)"
  then consider "n < 8" | "8 \<le> n \<and> n < 16" | "16 \<le> n \<and> n < 24" | "24 \<le> n \<and> n < 32" by fastforce
  then show "bit (push_bit 24 (ucast (([ucast (drop_bit 24 v), ucast (drop_bit 16 v), ucast (drop_bit 8 v), ucast v] @ bs) ! 0) :: u32)
      OR push_bit 16 (ucast (([ucast (drop_bit 24 v), ucast (drop_bit 16 v), ucast (drop_bit 8 v), ucast v] @ bs) ! 1))
      OR push_bit 8 (ucast (([ucast (drop_bit 24 v), ucast (drop_bit 16 v), ucast (drop_bit 8 v), ucast v] @ bs) ! 2))
      OR ucast (([ucast (drop_bit 24 v), ucast (drop_bit 16 v), ucast (drop_bit 8 v), ucast v] @ bs) ! 3)) n = bit v n"
    by cases (auto simp: bit_simps)
qed

lemma xid_bits:
  "push_bit 16 (ucast (ucast (drop_bit 16 (v AND mask 24) AND mask 8) :: u8))
     OR push_bit 8 (ucast (ucast (drop_bit 8 (v AND mask 24) AND mask 8) :: u8))
     OR ucast (ucast ((v AND mask 24) AND mask 8) :: u8) = v AND mask 24" for v :: u32
proof (rule bit_word_eqI)
  fix n
  assume "n < LENGTH(32)"
  then consider "n < 8" | "8 \<le> n \<and> n < 16" | "16 \<le> n \<and> n < 24" | "24 \<le> n \<and> n < 32" by fastforce
  then show "bit (push_bit 16 (ucast (ucast (drop_bit 16 (v AND mask 24) AND mask 8) :: u8) :: u32)
     OR push_bit 8 (ucast (ucast (drop_bit 8 (v AND mask 24) AND mask 8) :: u8))
     OR ucast (ucast ((v AND mask 24) AND mask 8) :: u8)) n = bit (v AND mask 24) n"
    by cases (auto simp: bit_simps)
qed

lemma get_set_xid [wire_simps]: "dhcpv6_get_xid (m # dhcpv6_set_xid v @ bs) = v AND 0x00FFFFFF"
proof -
  have m: "(0x00FFFFFF :: u32) = mask 24" "(0xFF :: u32) = mask 8" by (simp_all add: mask_eq_exp_minus_1)
  show ?thesis
    unfolding dhcpv6_get_xid_def dhcpv6_set_xid_def Let_def m using xid_bits [of v] by (simp only: nth_Cons_0 append.simps nth_Cons_numeral nth_Cons_Suc One_nat_def) simp
qed

lemma wire_lengths [wire_simps]:
  "length (put16 v) = 2" "length (set_u32 w) = 4" "length (dhcpv6_set_xid w) = 3"
  "length (option_bytes code val) = 4 + length val"
  by (simp_all add: put16_def set_u32_def dhcpv6_set_xid_def option_bytes_def Let_def)

lemma option_front_bytes:
  assumes "length val < 2 ^ 16"
  shows "option_front (option_bytes code val @ bs) = Some (code, val, bs)"
proof -
  have "unat (of_nat (length val) :: u16) = length val"
    using assms by (simp add: unat_of_nat take_bit_nat_eq_self)
  then show ?thesis by (simp add: option_bytes_def put16_def get_put16 Let_def)
qed

lemma options_of_Nil [simp]: "options_of [] = []"
  by (subst options_of.simps) simp

lemma options_of_bytes:
  "length val < 2 ^ 16 \<Longrightarrow> options_of (option_bytes code val @ bs) = (code, val) # options_of bs"
  by (subst options_of.simps) (simp only: option_front_bytes option.case prod.case)

text \<open>A sequence of options on the wire, and what the parser makes of it.\<close>

definition wire_options :: "(u16 \<times> u8 list) list \<Rightarrow> u8 list" where
  "wire_options os = concat (map (\<lambda>(code, val). option_bytes code val) os)"

lemma options_of_wire:
  "\<forall>(code, val) \<in> set os. length val < 2 ^ 16 \<Longrightarrow> options_of (wire_options os) = os"
  by (induction os) (auto simp: wire_options_def options_of_bytes)

lemma parse_wire:
  assumes "\<forall>(code, val) \<in> set os. length val < 2 ^ 16"
  shows "dhcpv6_parse (t # dhcpv6_set_xid x @ wire_options os) =
    Some (foldl parse_option (zero_meta\<lparr>meta_msg_type := t, meta_transaction_id := x AND 0x00FFFFFF\<rparr>) os)"
proof -
  have "drop 4 (t # dhcpv6_set_xid x @ wire_options os) = wire_options os" by (simp add: wire_lengths)
  then show ?thesis
    unfolding dhcpv6_parse_def by (simp add: wire_lengths options_of_wire [OF assms] get_set_xid)
qed

text \<open>What parsing an IA option with its address or prefix yields.\<close>

lemma parse_ia_na:
  assumes "length ip = 16"
  shows "parse_option m (OPT_IA_NA, set_u32 iaid @ set_u32 t1 @ set_u32 t2
      @ option_bytes OPT_IAADDR (ip @ set_u32 pl @ set_u32 vl)) =
    m\<lparr>meta_iaid := iaid, meta_has_ia_na := True, meta_requested_ip := ip, meta_has_requested_ip := True\<rparr>"
proof -
  let ?sub = "option_bytes OPT_IAADDR (ip @ set_u32 pl @ set_u32 vl)"
  have d: "drop 12 (set_u32 iaid @ set_u32 t1 @ set_u32 t2 @ ?sub) = ?sub" by (simp add: wire_lengths)
  have "options_of ?sub = [(OPT_IAADDR, ip @ set_u32 pl @ set_u32 vl)]"
    using options_of_bytes [of "ip @ set_u32 pl @ set_u32 vl" OPT_IAADDR "[]"] assms by (simp add: wire_lengths)
  then show ?thesis
    unfolding parse_option_def prod.case d using assms
    by (simp add: parse_iaaddr_def wire_lengths get_set_u32)
qed

lemma parse_ia_pd:
  assumes "length p = 16"
  shows "parse_option m (OPT_IA_PD, set_u32 iaid @ set_u32 t1 @ set_u32 t2
      @ option_bytes OPT_IAPREFIX (set_u32 pl @ set_u32 vl @ plen # p)) =
    m\<lparr>meta_has_ia_pd := True, meta_iaid_pd := iaid, meta_has_requested_prefix := True, meta_requested_plen := plen,
      meta_requested_prefix := p\<rparr>"
proof -
  let ?val = "set_u32 pl @ set_u32 vl @ plen # p"
  let ?sub = "option_bytes OPT_IAPREFIX ?val"
  have d: "drop 12 (set_u32 iaid @ set_u32 t1 @ set_u32 t2 @ ?sub) = ?sub" by (simp add: wire_lengths)
  have "options_of ?sub = [(OPT_IAPREFIX, ?val)]"
    using options_of_bytes [of ?val OPT_IAPREFIX "[]"] assms by (simp add: wire_lengths)
  moreover have "?val ! 8 = plen" "drop 9 ?val = p" by (simp_all add: nth_append wire_lengths)
  ultimately show ?thesis
    unfolding parse_option_def prod.case d using assms
    by (simp add: parse_iaprefix_def wire_lengths get_set_u32)
qed

subsection \<open>The iteration\<close>

text \<open>The offsets that repeated calls of \<open>dhcpv6_next_option\<close> return.\<close>

lemma next_option_later:
  assumes "dhcpv6_next_option bs (Some off) = Some next"
  shows "off < next \<and> next < length bs"
  using assms by (auto simp: dhcpv6_next_option_def Let_def split: if_splits)

function option_offsets :: "u8 list \<Rightarrow> nat option \<Rightarrow> nat list" where
  "option_offsets bs prev = (case dhcpv6_next_option bs prev of
     None \<Rightarrow> [] | Some off \<Rightarrow> off # option_offsets bs (Some off))"
  by pat_completeness auto

termination option_offsets
proof (relation "measure (\<lambda>(bs, prev). case prev of None \<Rightarrow> Suc (length bs) | Some off \<Rightarrow> length bs - off)", goal_cases)
  case (2 bs prev off)
  then show ?case by (cases prev) (auto dest!: next_option_later intro: diff_less_mono2)
qed simp

declare option_offsets.simps [simp del]

definition option_at :: "u8 list \<Rightarrow> nat \<Rightarrow> u16 \<times> u8 list" where
  "option_at bs off = (get16 (bs ! off) (bs ! (off + 1)), take (option_len_at bs off) (drop (off + 4) bs))"

lemma option_front_at:
  "option_front (drop off bs) =
     (if off + 4 + option_len_at bs off > length bs \<or> off + 4 > length bs then None
      else Some (fst (option_at bs off), snd (option_at bs off), drop (off + 4 + option_len_at bs off) bs))"
proof (cases "off + 4 \<le> length bs")
  case True
  then have "drop off bs = bs ! off # bs ! (off + 1) # bs ! (off + 2) # bs ! (off + 3) # drop (off + 4) bs"
    using Cons_nth_drop_Suc [of off bs] Cons_nth_drop_Suc [of "off + 1" bs] Cons_nth_drop_Suc [of "off + 2" bs]
      Cons_nth_drop_Suc [of "off + 3" bs] by (simp add: numeral_eq_Suc)
  then show ?thesis
    using True by (auto simp: option_at_def option_len_at_def Let_def add.commute add.left_commute)
next
  case False
  then have "length (drop off bs) < 4" by simp
  then have "option_front (drop off bs) = None" by (cases "drop off bs" rule: option_front.cases) auto
  then show ?thesis using False by simp
qed

lemma next_option_front:
  "dhcpv6_next_option bs prev = (let off = (case prev of None \<Rightarrow> 0 | Some o1 \<Rightarrow> o1 + 4 + option_len_at bs o1)
     in if (\<forall>o1. prev = Some o1 \<longrightarrow> o1 < length bs) \<and> option_front (drop off bs) \<noteq> None then Some off else None)"
  unfolding dhcpv6_next_option_def Let_def option_front_at by (cases prev) auto

lemma offsets_options:
  "\<forall>o1. prev = Some o1 \<longrightarrow> o1 + 4 + option_len_at bs o1 \<le> length bs \<Longrightarrow>
   map (option_at bs) (option_offsets bs prev) =
   options_of (drop (case prev of None \<Rightarrow> 0 | Some o1 \<Rightarrow> o1 + 4 + option_len_at bs o1) bs)"
proof (induction bs prev rule: option_offsets.induct)
  case (1 bs prev)
  let ?off = "case prev of None \<Rightarrow> 0 | Some o1 \<Rightarrow> o1 + 4 + option_len_at bs o1"
  have l: "\<forall>o1. prev = Some o1 \<longrightarrow> o1 < length bs" using 1(2) by auto
  show ?case
  proof (cases "option_front (drop ?off bs)")
    case None
    then have "dhcpv6_next_option bs prev = None" unfolding next_option_front Let_def by simp
    then show ?thesis using None by (subst option_offsets.simps, subst options_of.simps) simp
  next
    case (Some r)
    then have n: "dhcpv6_next_option bs prev = Some ?off" unfolding next_option_front Let_def using l by simp
    have f: "option_front (drop ?off bs) = Some (fst (option_at bs ?off), snd (option_at bs ?off),
        drop (?off + 4 + option_len_at bs ?off) bs)" and e: "?off + 4 + option_len_at bs ?off \<le> length bs"
      using Some option_front_at [of ?off bs] by (auto split: if_splits)
    have "map (option_at bs) (option_offsets bs (Some ?off)) = options_of (drop (?off + 4 + option_len_at bs ?off) bs)"
      using 1(1) [OF n] e by simp
    moreover have "option_offsets bs prev = ?off # option_offsets bs (Some ?off)"
      by (subst option_offsets.simps) (simp add: n)
    moreover have "options_of (drop ?off bs) = option_at bs ?off # options_of (drop (?off + 4 + option_len_at bs ?off) bs)"
      by (subst options_of.simps) (simp add: f)
    ultimately show ?thesis by simp
  qed
qed

section \<open>Properties\<close>

text \<open>
  C19: Parsing inverts the encoding of messages.  For a header with any type and transaction identifier and
  any sequence of options whose values fit the length field, \<open>dhcpv6_parse\<close> recovers the type, the 24
  bits of the identifier and exactly these options in order, and iterating with \<open>dhcpv6_next_option\<close>
  visits exactly these options.
\<close>

theorem dhcpv6_message_roundtrip:
  assumes "\<forall>(code, val) \<in> set os. length val < 2 ^ 16"
  shows "dhcpv6_parse (t # dhcpv6_set_xid x @ wire_options os) =
      Some (foldl parse_option (zero_meta\<lparr>meta_msg_type := t, meta_transaction_id := x AND 0x00FFFFFF\<rparr>) os)
    \<and> map (option_at (wire_options os)) (option_offsets (wire_options os) None) = os"
  using parse_wire [OF assms] options_of_wire [OF assms] offsets_options [of None "wire_options os"] by simp

theorem dhcpv6_message_roundtrip_witness:
  "map (option_at (wire_options [(OPT_CLIENTID, [1, 2]), (OPT_SERVERID, [3])]))
     (option_offsets (wire_options [(OPT_CLIENTID, [1, 2]), (OPT_SERVERID, [3])]) None)
   = [(OPT_CLIENTID, [1, 2]), (OPT_SERVERID, [3])]"
  using dhcpv6_message_roundtrip [of "[(OPT_CLIENTID, [1, 2]), (OPT_SERVERID, [3])]"] by simp

end
