(* ===== verification/Lease_File_V6.thy ===== *)
theory Lease_File_V6
  imports Leases_V6 Lease_Time
begin

text \<open>
  The lease file of the DHCPv6 server (sources/leases6.c): reading it at the start
  (\<open>lease_v6_db_load\<close> with its two block parsers), and the text that \<open>lease_v6_db_save\<close> and
  \<open>lease_v6_db_append\<close> write.  The file is its text; reading and writing do not fail.  The text form of an
  address is the parameter \<open>ntop\<close> (\<open>inet_ntop\<close>); \<open>localtime\<close> and \<open>mktime\<close> are parameters as in
  \<open>Lease_Time\<close>.  A block parser returns the rest of the file and the lease, or None for -1.
\<close>

section \<open>Definitions\<close>

subsection \<open>Lines\<close>

text \<open>Reading one line into a buffer of 65536 bytes; characters that do not fit are dropped.\<close>

definition fit_line :: "string \<Rightarrow> string" where
  "fit_line s = (if int (length s) \<le> 65535 then s else take 65535 s)"

definition rd_getline :: "string \<Rightarrow> (string \<times> string) option" where
  "rd_getline f = (if f = [] then None
     else Some (takeWhile (\<lambda>c. c \<noteq> CHR 0x00) (fit_line (strip_newline f)), drop (Suc (length (strip_newline f))) f))"

definition ltrim :: "string \<Rightarrow> string" where
  "ltrim s = dropWhile isspace s"

definition rtrim_inplace :: "string \<Rightarrow> string" where
  "rtrim_inplace s = rev (dropWhile isspace (rev s))"

definition trim6 :: "string \<Rightarrow> string" where
  "trim6 s = rtrim_inplace (ltrim s)"

definition strncmp_eq :: "string \<Rightarrow> string \<Rightarrow> bool" where
  "strncmp_eq s kw \<longleftrightarrow> take (length kw) s = kw"

subsection \<open>Blocks\<close>

text \<open>The state of a block parser: the lease and whether the two times were seen.\<close>

type_synonym block = "dhcpv6_lease_t \<times> bool \<times> bool"

definition scan_until :: "string \<Rightarrow> nat \<Rightarrow> char \<Rightarrow> string \<Rightarrow> string option" where
  "scan_until kw n c s = (case sscanf (scan_text kw @ [Until n [c]]) s of [VStr v] \<Rightarrow> Some v | _ \<Rightarrow> None)"

definition block_times :: "mktime \<Rightarrow> string \<Rightarrow> block \<Rightarrow> block option" where
  "block_times mktime s b = (case b of (L, seen_starts, seen_ends) \<Rightarrow>
     if strncmp_eq s ''starts'' then
       (case scan_until ''starts '' 127 CHR '';'' s of
          None \<Rightarrow> Some b
        | Some val \<Rightarrow>
            let t = parse_lease_time_any mktime (trim6 val)
            in if t > 0 then Some (L\<lparr>starts6 := t\<rparr>, True, seen_ends) else Some b)
     else if strncmp_eq s ''ends'' then
       (case scan_until ''ends '' 127 CHR '';'' s of
          None \<Rightarrow> Some b
        | Some val \<Rightarrow>
            let t = parse_lease_time_any mktime (trim6 val)
            in if t > 0 then Some (L\<lparr>ends6 := t\<rparr>, seen_starts, True) else Some b)
     else None)"

definition block_duid :: "string \<Rightarrow> dhcpv6_lease_t \<Rightarrow> dhcpv6_lease_t option" where
  "block_duid s L =
     (if strncmp_eq s ''duid'' then
        case scan_until ''duid '' 383 CHR '';'' s of
          None \<Rightarrow> Some L
        | Some hex \<Rightarrow> (case set_duid (rtrim_inplace hex) L of (ok, L') \<Rightarrow> if ok then Some L' else None)
      else Some L)"

definition block_iaid :: "string \<Rightarrow> dhcpv6_lease_t \<Rightarrow> dhcpv6_lease_t" where
  "block_iaid s L =
     (if strncmp_eq s ''iaid'' then
        case sscanf (scan_text ''iaid '' @ [UInt 32]) s of [VNum v] \<Rightarrow> L\<lparr>iaid6 := word_of_int v\<rparr> | _ \<Rightarrow> L
      else L)"

definition block_hostname :: "string \<Rightarrow> dhcpv6_lease_t \<Rightarrow> dhcpv6_lease_t" where
  "block_hostname s L =
     (if strncmp_eq s ''client-hostname'' then
        case scan_until (''client-hostname '' @ [CHR 0x22]) 127 CHR 0x22 s of
          Some hn \<Rightarrow> L\<lparr>client_hostname6 := hn\<rparr> | None \<Rightarrow> L
      else L)"

definition block_state :: "string \<Rightarrow> dhcpv6_lease_t \<Rightarrow> dhcpv6_lease_t" where
  "block_state s L =
     (if strncmp_eq s ''binding state'' then
        case scan_until ''binding state '' 15 CHR '';'' s of
          Some v \<Rightarrow> L\<lparr>state6 := lease_v6_state_from_string (rtrim_inplace v), binding_state6 := rtrim_inplace v\<rparr>
        | None \<Rightarrow> L
      else L)"

text \<open>One line of a block that is not empty, a comment or the end; None ends the parser with -1.\<close>

definition block_line :: "mktime \<Rightarrow> string \<Rightarrow> block \<Rightarrow> block option" where
  "block_line mktime s b = (case block_times mktime s b of
     Some b' \<Rightarrow> Some b'
   | None \<Rightarrow> (case b of (L, st, en) \<Rightarrow>
       map_option (\<lambda>L'. (block_state s (block_hostname s (block_iaid s L')), st, en)) (block_duid s L)))"

text \<open>
  The loop over the lines.  At the end of the file the parser of address blocks gives up.  The parser of
  prefix blocks only tests for a negative result, so it goes on with what is in its buffer: the line
  before, for ever, or an uninitialised buffer when it has read no line yet (\<open>first\<close>).
\<close>

function block_lines ::
    "lease_v6_type_t \<Rightarrow> mktime \<Rightarrow> bool \<Rightarrow> block \<Rightarrow> string \<Rightarrow> (string \<times> dhcpv6_lease_t option) outcome" where
  "block_lines ty mktime first b f = (case rd_getline f of
     None \<Rightarrow> (case ty of Lease6_IA_NA \<Rightarrow> Returns ([], None) | Lease6_IA_PD \<Rightarrow> if first then Undefined else Blocks)
   | Some (line, rest) \<Rightarrow>
       let s = trim6 line
       in if s = [] \<or> hd s = CHR ''#'' then block_lines ty mktime False b rest
          else if hd s = CHR ''}'' then
            (case b of (L, st, en) \<Rightarrow> Returns (rest, if \<not> st \<and> \<not> en then None else Some L))
          else (case block_line mktime s b of
              None \<Rightarrow> Returns (rest, None)
            | Some b' \<Rightarrow> block_lines ty mktime False b' rest))"
  by pat_completeness auto

lemma rd_getline_shorter: "rd_getline f = Some (line, rest) \<Longrightarrow> length rest < length f"
  by (auto simp: rd_getline_def split: if_splits)

termination block_lines
  by (relation "measure (\<lambda>(_, _, _, _, f). length f)") (auto dest: rd_getline_shorter)

declare block_lines.simps [simp del]

definition parse_block_ia_na ::
    "mktime \<Rightarrow> string \<Rightarrow> string \<Rightarrow> (string \<times> dhcpv6_lease_t option) outcome" where
  "parse_block_ia_na mktime f line0 =
     (case sscanf (scan_text ''lease '' @ [Str 95]) (trim6 line0) of
        [VStr ip] \<Rightarrow>
          (case inet_pton6 ip of
             None \<Rightarrow> Returns (f, None)
           | Some a \<Rightarrow> block_lines Lease6_IA_NA mktime True (zero_lease6\<lparr>ip6_addr := a\<rparr>, False, False) f)
      | _ \<Rightarrow> Returns (f, None))"

definition parse_block_ia_pd ::
    "mktime \<Rightarrow> string \<Rightarrow> string \<Rightarrow> (string \<times> dhcpv6_lease_t option) outcome" where
  "parse_block_ia_pd mktime f line0 =
     (case sscanf (scan_text ''prefix '' @ [Until 95 ''/'', Lit CHR ''/'', UInt 8]) (trim6 line0) of
        [VStr ip, VNum plen] \<Rightarrow>
          (case inet_pton6 ip of
             None \<Rightarrow> Returns (f, None)
           | Some a \<Rightarrow> block_lines Lease6_IA_PD mktime True
               (zero_lease6\<lparr>type6 := Lease6_IA_PD, prefix_v6 := a, plen6 := word_of_int plen\<rparr>, False, False) f)
      | _ \<Rightarrow> Returns (f, None))"

subsection \<open>The file\<close>

text \<open>A lease that was read replaces the row of its resource or is added, while there is room.\<close>

definition load_row :: "dhcpv6_lease_t \<Rightarrow> dhcpv6_lease_t list \<Rightarrow> dhcpv6_lease_t list" where
  "load_row tmp Ls =
     (let found = find_idx (\<lambda>L. type6 L = type6 tmp \<and> (case type6 tmp of
            Lease6_IA_NA \<Rightarrow> ip6_addr L = ip6_addr tmp
          | Lease6_IA_PD \<Rightarrow> plen6 L = plen6 tmp \<and> prefix_v6 L = prefix_v6 tmp)) Ls;
          row = tmp\<lparr>in_use6 := True\<rparr>
      in case found of
          Some i \<Rightarrow> Ls[i := row]
        | None \<Rightarrow> if length Ls < LEASES6_MAX then Ls @ [row] else Ls)"

definition load_block :: "dhcpv6_lease_t option \<Rightarrow> dhcpv6_lease_t list \<Rightarrow> dhcpv6_lease_t list" where
  "load_block r Ls = (case r of
     None \<Rightarrow> Ls | Some tmp \<Rightarrow> if starts6 tmp \<noteq> 0 \<and> ends6 tmp \<noteq> 0 then load_row tmp Ls else Ls)"

lemma block_lines_rest: "block_lines ty mktime first b f = Returns (rest, r) \<Longrightarrow> length rest \<le> length f"
proof (induction ty mktime first b f rule: block_lines.induct)
  case (1 ty mktime first b f)
  show ?case
  proof (cases "rd_getline f")
    case None
    then show ?thesis using 1(3) by (subst (asm) block_lines.simps) (auto split: lease_v6_type_t.splits if_splits)
  next
    case (Some lr)
    obtain line rest' where l: "rd_getline f = Some (line, rest')" using Some by (cases lr) auto
    note s = rd_getline_shorter [OF l]
    show ?thesis
      using 1(3) 1(1) [OF l refl refl] 1(2) [OF l refl refl] s l
      by (subst (asm) block_lines.simps) (fastforce simp: Let_def split: if_splits prod.splits option.splits)
  qed
qed

lemma parse_block_rest:
  "parse_block_ia_na mktime f l = Returns (rest, r) \<Longrightarrow> length rest \<le> length f"
  "parse_block_ia_pd mktime f l = Returns (rest, r) \<Longrightarrow> length rest \<le> length f"
  by (auto simp: parse_block_ia_na_def parse_block_ia_pd_def dest: block_lines_rest
      split: list.splits scan_value.splits option.splits)

text \<open>What the main loop does with a line: nothing, or parsing the block that it starts.\<close>

definition line_block :: "mktime \<Rightarrow> string \<Rightarrow> string \<Rightarrow> (string \<times> dhcpv6_lease_t option) outcome" where
  "line_block mktime s rest =
     (if s = [] \<or> hd s = CHR ''#'' then Returns (rest, None)
      else if strncmp_eq s ''lease '' then parse_block_ia_na mktime rest s
      else if strncmp_eq s ''prefix '' then parse_block_ia_pd mktime rest s
      else Returns (rest, None))"

lemma line_block_rest: "Returns (rest', r) = line_block mktime s rest \<Longrightarrow> length rest' \<le> length rest"
  by (auto simp: line_block_def dest: sym parse_block_rest [OF sym] split: if_splits)

function load6_lines :: "mktime \<Rightarrow> dhcpv6_lease_t list \<Rightarrow> string \<Rightarrow> dhcpv6_lease_t list outcome" where
  "load6_lines mktime Ls f = (case rd_getline f of
     None \<Rightarrow> Returns Ls
   | Some (line, rest) \<Rightarrow>
       (case line_block mktime (trim6 line) rest of
          Returns (rest', r) \<Rightarrow> load6_lines mktime (load_block r Ls) rest'
        | Blocks \<Rightarrow> Blocks
        | Undefined \<Rightarrow> Undefined))"
  by pat_completeness auto

termination load6_lines
  by (relation "measure (\<lambda>(_, _, f). length f)")
    (auto dest!: rd_getline_shorter line_block_rest [OF trans [rotated, OF sym]] simp: sym)

declare load6_lines.simps [simp del]

text \<open>The file is None when it cannot be opened; then the database stays as it is.\<close>

definition lease_v6_db_load :: "mktime \<Rightarrow> string option \<Rightarrow> lease_v6_db_t \<Rightarrow> (int \<times> lease_v6_db_t) outcome" where
  "lease_v6_db_load mktime file db = (case file of
     None \<Rightarrow> Returns (0, db)
   | Some f \<Rightarrow> and_then (load6_lines mktime [] f) (\<lambda>Ls. Returns (0, db\<lparr>leases6 := Ls\<rparr>)))"

subsection \<open>Writing\<close>

definition text_line :: "string \<Rightarrow> string" where
  "text_line s = [CHR 0x09] @ s @ '';'' @ [CHR 0x0A]"

definition quoted :: "string \<Rightarrow> string" where
  "quoted s = [CHR 0x22] @ s @ [CHR 0x22]"

definition duid_text :: "dhcpv6_lease_t \<Rightarrow> string" where
  "duid_text L = (if duid_len6 L = 0 then []
     else case duid_bin_to_hex (take (unat (duid_len6 L)) (duid6 L)) 384 of
       (n, hex) \<Rightarrow> if n < 0 then [] else hex)"

definition state_text :: "string \<Rightarrow> lease_state6_t \<Rightarrow> string" where
  "state_text kw s = text_line (kw @ lease_v6_state_to_string s)"

definition time_line :: "(time_t \<Rightarrow> tm option) \<Rightarrow> string \<Rightarrow> time_t \<Rightarrow> string" where
  "time_line localtime kw t = text_line (kw @ '' '' @ format_lease_time localtime t 64)"

text \<open>The optional lines behind the binding state, and the lines of the times that may be absent.\<close>

definition tail_text :: "dhcpv6_lease_t \<Rightarrow> string" where
  "tail_text L =
     (if next_state6 L \<noteq> LEASE6_FREE then state_text ''next binding state '' (next_state6 L) else [])
     @ (if rewind_state6 L \<noteq> LEASE6_FREE then state_text ''rewind binding state '' (rewind_state6 L) else [])
     @ (if client_hostname6 L \<noteq> [] then text_line (''client-hostname '' @ quoted (client_hostname6 L)) else [])
     @ (if vendor_class6 L \<noteq> [] then text_line (''vendor-class '' @ quoted (vendor_class6 L)) else [])
     @ (if fqdn6 L \<noteq> [] then text_line (''fqdn '' @ quoted (fqdn6 L)) else [])"

definition opt_times :: "(time_t \<Rightarrow> tm option) \<Rightarrow> dhcpv6_lease_t \<Rightarrow> string" where
  "opt_times localtime L =
     (if tstp6 L \<noteq> 0 then time_line localtime ''tstp'' (tstp6 L) else [])
     @ (if cltt6 L \<noteq> 0 then time_line localtime ''cltt'' (cltt6 L) else [])"

definition block_head :: "(in6_addr \<Rightarrow> string) \<Rightarrow> dhcpv6_lease_t \<Rightarrow> string" where
  "block_head ntop L = (case type6 L of
     Lease6_IA_NA \<Rightarrow> ''lease '' @ ntop (ip6_addr L)
   | Lease6_IA_PD \<Rightarrow> ''prefix '' @ ntop (prefix_v6 L) @ ''/'' @ print_int 0 (uint (plen6 L))) @ '' {'' @ [CHR 0x0A]"

definition lease_v6_db_append ::
    "(in6_addr \<Rightarrow> string) \<Rightarrow> (time_t \<Rightarrow> tm option) \<Rightarrow> dhcpv6_lease_t \<Rightarrow> string \<Rightarrow> string" where
  "lease_v6_db_append ntop localtime L file =
     file @ block_head ntop L @ text_line (''duid '' @ duid_text L) @ text_line (''iaid '' @ print_int 0 (uint (iaid6 L)))
     @ time_line localtime ''starts'' (starts6 L) @ time_line localtime ''ends'' (ends6 L) @ opt_times localtime L
     @ state_text ''binding state '' (state6 L) @ tail_text L @ ''}'' @ [CHR 0x0A, CHR 0x0A]"

definition save_block :: "(in6_addr \<Rightarrow> string) \<Rightarrow> (time_t \<Rightarrow> tm option) \<Rightarrow> dhcpv6_lease_t \<Rightarrow> string" where
  "save_block ntop localtime L =
     [CHR 0x0A] @ block_head ntop L @ time_line localtime ''starts'' (starts6 L)
     @ time_line localtime ''ends'' (ends6 L) @ opt_times localtime L
     @ (if duid_len6 L \<noteq> 0 then text_line (''duid '' @ duid_text L) else [])
     @ text_line (''iaid '' @ print_int 0 (uint (iaid6 L))) @ state_text ''binding state '' (state6 L)
     @ tail_text L @ ''}'' @ [CHR 0x0A]"

text \<open>The file after saving: a header of comments that ends with the text of \<open>ctime\<close>, then the blocks.\<close>

definition lease_v6_db_save ::
    "(in6_addr \<Rightarrow> string) \<Rightarrow> (time_t \<Rightarrow> tm option) \<Rightarrow> string \<Rightarrow> lease_v6_db_t \<Rightarrow> string" where
  "lease_v6_db_save ntop localtime header db =
     header @ concat (map (save_block ntop localtime) (filter in_use6 (leases6 db)))"

section \<open>Lemmas\<close>

subsection \<open>Reading one line\<close>

text \<open>Text without line breaks and zero bytes that fits the line buffer.\<close>

definition plain :: "string \<Rightarrow> bool" where
  "plain s \<longleftrightarrow> CHR 0x0A \<notin> set s \<and> CHR 0x00 \<notin> set s"

lemma rd_getline_plain:
  assumes "plain l" "length l \<le> 65535"
  shows "rd_getline (l @ CHR 0x0A # rest) = Some (l, rest)"
proof -
  have "strip_newline (l @ CHR 0x0A # rest) = l"
    using assms(1) by (simp add: strip_newline_def plain_def takeWhile_tail)
      (metis (mono_tags, lifting) takeWhile_eq_all_conv)
  moreover have "takeWhile (\<lambda>c. c \<noteq> CHR 0x00) l = l"
    using assms(1) by (simp add: plain_def) (metis (mono_tags, lifting) takeWhile_eq_all_conv)
  ultimately show ?thesis using assms(2) by (simp add: rd_getline_def fit_line_def)
qed

lemma rtrim_id: "s \<noteq> [] \<Longrightarrow> \<not> isspace (last s) \<Longrightarrow> rtrim_inplace s = s"
  by (cases s rule: rev_cases) (auto simp: rtrim_inplace_def)

lemma trim6_id: "s \<noteq> [] \<Longrightarrow> \<not> isspace (hd s) \<Longrightarrow> \<not> isspace (last s) \<Longrightarrow> trim6 s = s"
  by (cases s) (auto simp: trim6_def ltrim_def rtrim_id)

lemma isspace_marks [simp]: "isspace CHR 0x09" "\<not> isspace CHR '';''" "\<not> isspace CHR ''}''" "\<not> isspace CHR 0x22"
  by (simp_all add: isspace_def)

lemma trim6_tab: "trim6 (CHR 0x09 # s) = trim6 s"
  by (simp add: trim6_def ltrim_def)

text \<open>A line of a block: the parser goes on behind it.\<close>

lemma block_step:
  assumes "plain s" "length s \<le> 65000" "s \<noteq> []" "\<not> isspace (hd s)" "hd s \<noteq> CHR ''#''" "hd s \<noteq> CHR ''}''"
    and "block_line mktime (s @ '';'') b = Some b'"
  shows "block_lines ty mktime first b (text_line s @ rest) = block_lines ty mktime False b' rest"
proof -
  have "rd_getline ((CHR 0x09 # s @ '';'') @ CHR 0x0A # rest) = Some (CHR 0x09 # s @ '';'', rest)"
    using assms(1,2) by (intro rd_getline_plain) (simp_all add: plain_def)
  moreover have "trim6 (CHR 0x09 # s @ '';'') = s @ '';''"
    using assms(3,4) by (simp add: trim6_tab trim6_id)
  moreover have "text_line s @ rest = (CHR 0x09 # s @ '';'') @ CHR 0x0A # rest" by (simp add: text_line_def)
  ultimately show ?thesis
    using assms(3,5,6,7) by (subst block_lines.simps) (simp add: Let_def)
qed

lemma block_end:
  "block_lines ty mktime first (L, st, en) (''}'' @ CHR 0x0A # rest) = Returns (rest, if \<not> st \<and> \<not> en then None else Some L)"
  using rd_getline_plain [of "''}''" rest]
  by (subst block_lines.simps) (simp add: plain_def trim6_id Let_def)

lemma takeWhile_stop: "\<forall>c \<in> set xs. P c \<Longrightarrow> \<not> P y \<Longrightarrow> takeWhile P (xs @ y # ys) = xs"
  by (simp add: takeWhile_tail)

text \<open>A value that ends before the character \<open>c\<close>.\<close>

lemma scan_value_until:
  assumes "c \<notin> set v" "v \<noteq> []" "length v \<le> n"
  shows "sscanf [Until n [c]] (v @ c # rest) = [VStr v]"
proof -
  have "\<forall>d \<in> set v. d \<noteq> c" using assms(1) by auto
  then have "takeWhile (\<lambda>d. d \<noteq> c) (v @ c # rest) = v" by (rule takeWhile_stop) simp
  then show ?thesis using assms(2,3) by (simp add: Let_def)
qed

lemma skip_no_space: "v \<noteq> [] \<Longrightarrow> \<not> isspace (hd v) \<Longrightarrow> dropWhile isspace (v @ rest) = v @ rest"
  by (cases v) auto

subsection \<open>Reading what was written\<close>

lemma nibbles_xdigit: "isxdigit (hex_digits ! (unat b div 16))" "isxdigit (hex_digits ! (unat b mod 16))" for b :: u8
  using hex_facts(1,4) [of b] by (simp_all only: isxdigit_def option.distinct not_False_eq_True)

lemma hex_bytes_chars: "list_all (\<lambda>c. isxdigit c \<or> c = CHR '':'') (hex_bytes bs)"
  by (induction bs rule: hex_bytes.induct) (simp_all add: nibbles_xdigit)

lemma no_xdigit:
  assumes "isspace c \<or> c = CHR '';'' \<or> c = CHR 0x00"
  shows "\<not> isxdigit c \<and> c \<noteq> CHR '':''"
proof -
  let ?cs = "[CHR '' '', CHR 0x09, CHR 0x0A, CHR 0x0B, CHR 0x0C, CHR 0x0D, CHR '';'', CHR 0x00]"
  have "c \<in> set ?cs" using assms by (auto simp: isspace_def)
  moreover have "list_all (\<lambda>c. \<not> isxdigit c \<and> c \<noteq> CHR '':'') ?cs" by code_simp
  ultimately show ?thesis unfolding list_all_iff by blast
qed

lemma hex_bytes_plain:
  assumes "bs \<noteq> []"
  shows "hex_bytes bs \<noteq> []" "\<not> isspace (hd (hex_bytes bs))" "\<not> isspace (last (hex_bytes bs))" "plain (hex_bytes bs)"
    "CHR '';'' \<notin> set (hex_bytes bs)"
proof -
  show n: "hex_bytes bs \<noteq> []" using length_hex_bytes [OF assms] assms by (cases bs) auto
  have p: "\<forall>c \<in> set (hex_bytes bs). \<not> isspace c \<and> c \<noteq> CHR '';'' \<and> c \<noteq> CHR 0x00"
    using hex_bytes_chars [of bs] no_xdigit unfolding list_all_iff by blast
  then show "\<not> isspace (hd (hex_bytes bs))" "\<not> isspace (last (hex_bytes bs))" "CHR '';'' \<notin> set (hex_bytes bs)"
    using n by auto
  have "isspace CHR 0x0A" by (simp add: isspace_def)
  then show "plain (hex_bytes bs)" using p by (auto simp: plain_def)
qed

lemma read_duid:
  assumes "bs \<noteq> []" "length bs \<le> 128" "length (duid6 L) = 128"
  shows "block_line mktime (''duid '' @ hex_bytes bs @ '';'') (L, st, en) =
    Some (L\<lparr>duid6 := bs @ drop (length bs) (duid6 L), duid_len6 := of_nat (length bs)\<rparr>, st, en)"
proof -
  note h = hex_bytes_plain [OF assms(1)]
  have "length (hex_bytes bs) \<le> 383" using length_hex_bytes [OF assms(1)] assms(2) by simp
  then have "scan_until ''duid '' 383 CHR '';'' (''duid '' @ hex_bytes bs @ '';'') = Some (hex_bytes bs)"
    using scan_value_until [of "CHR '';''" "hex_bytes bs" 383 "[]"] h skip_no_space [of "hex_bytes bs" "'';''"]
    by (simp add: scan_until_def scan_text_def isspace_def del: sscanf.simps(5))
  moreover have "duid_hex_to_bin (hex_bytes bs) 128 = (int (length bs), bs)"
    using duid_scan_hex [of "[]" bs 128] assms(2) by (simp add: duid_hex_to_bin_def)
  ultimately show ?thesis
    by (simp add: block_line_def block_times_def block_duid_def block_iaid_def block_hostname_def block_state_def
        strncmp_eq_def rtrim_id [OF h(1,3)] set_duid_def)
qed

lemma read_iaid:
  "block_line mktime (''iaid '' @ print_int 0 (uint v) @ '';'') (L, st, en) = Some (L\<lparr>iaid6 := v\<rparr>, st, en)"
proof -
  have d: "list_all isdigit (print_int 0 (uint v))" "print_int 0 (uint v) \<noteq> []" "dec_val (print_int 0 (uint v)) = uint v"
    using print_int_digits [of "uint v" 0] by auto
  have "\<not> isdigit CHR '';''" by (simp add: isdigit_def)
  then have "sscanf [UInt 32] (print_int 0 (uint v) @ '';'') = [VNum (uint v)]"
    using scan_UInt [OF d(1,2), of "'';''" 32 "[]"] d(3) uint_lt2p [of v] by simp
  moreover have "dropWhile isspace (print_int 0 (uint v) @ '';'') = print_int 0 (uint v) @ '';''"
    by (rule digits_front(1) [OF d(1,2)])
  ultimately have "sscanf (scan_text ''iaid '' @ [UInt 32]) (''iaid '' @ print_int 0 (uint v) @ '';'') = [VNum (uint v)]"
    by (simp add: scan_text_def isspace_def [of "CHR '' ''"] isspace_def [of "CHR ''i''"] isspace_def [of "CHR ''a''"]
        isspace_def [of "CHR ''d''"] del: sscanf.simps(6))
  then show ?thesis
    by (simp add: block_line_def block_times_def block_duid_def block_iaid_def block_hostname_def block_state_def
        strncmp_eq_def)
qed

text \<open>The text of a time: it starts and ends with a digit and holds no semicolon.\<close>

definition time_char :: "char \<Rightarrow> bool" where
  "time_char c \<longleftrightarrow> isdigit c \<or> c = CHR ''/'' \<or> c = CHR '':'' \<or> c = CHR '' ''"

lemma time_char_other: "\<not> time_char CHR '';''" "\<not> time_char CHR 0x0A" "\<not> time_char CHR 0x00"
  by (simp_all add: time_char_def isdigit_def)

lemma digits_time: "list_all isdigit ds \<Longrightarrow> list_all time_char ds"
  by (simp add: list_all_iff time_char_def)

lemma time_text:
  assumes "localtime t = Some f" "tm_ok f"
  shows "list_all time_char (format_lease_time localtime t 64)"
    "length (format_lease_time localtime t 64) = 21"
    "isdigit (hd (format_lease_time localtime t 64))" "isdigit (last (format_lease_time localtime t 64))"
proof -
  note l = assms(2) [unfolded tm_ok_def]
  have n64: "22 \<le> (64 :: nat)" by simp
  note tx = format_lease_time_text [of localtime, OF assms n64]
  have d: "list_all isdigit (print_int 1 (tm_wday f))" "list_all isdigit (print_int 4 (tm_year f + 1900))"
    "list_all isdigit (print_int 2 (tm_mon f + 1))" "list_all isdigit (print_int 2 (tm_mday f))"
    "list_all isdigit (print_int 2 (tm_hour f))" "list_all isdigit (print_int 2 (tm_min f))"
    "list_all isdigit (print_int 2 (tm_sec f))"
    using l by (auto intro!: print_int_digits(1))
  show "list_all time_char (format_lease_time localtime t 64)"
    unfolding tx list_all_append using d [THEN digits_time] by (simp add: time_char_def)
  have n: "length (print_int 1 (tm_wday f)) = 1" "length (print_int 4 (tm_year f + 1900)) = 4"
    "length (print_int 2 (tm_mon f + 1)) = 2" "length (print_int 2 (tm_mday f)) = 2"
    "length (print_int 2 (tm_hour f)) = 2" "length (print_int 2 (tm_min f)) = 2" "length (print_int 2 (tm_sec f)) = 2"
    using l by (auto intro!: print_int_length)
  then show "length (format_lease_time localtime t 64) = 21" unfolding tx by simp
  have "print_int 1 (tm_wday f) \<noteq> []" "print_int 2 (tm_sec f) \<noteq> []" using n by auto
  then show "isdigit (hd (format_lease_time localtime t 64))" "isdigit (last (format_lease_time localtime t 64))"
    unfolding tx using d(1,7) by (simp_all add: list_all_iff)
qed

text \<open>What the lines with a time need of its text.\<close>

lemma time_value:
  assumes "localtime t = Some f" "tm_ok f"
  shows "format_lease_time localtime t 64 \<noteq> []" "CHR '';'' \<notin> set (format_lease_time localtime t 64)"
    "\<not> isspace (hd (format_lease_time localtime t 64))" "\<not> isspace (last (format_lease_time localtime t 64))"
    "plain (format_lease_time localtime t 64)" "length (format_lease_time localtime t 64) \<le> 127"
  using time_text [of localtime, OF assms] time_char_other
  by (auto simp: list_all_iff plain_def dest: isdigit_plain)

lemma scan_time:
  assumes "localtime t = Some f" "tm_ok f" "\<forall>c \<in> set kw. \<not> isspace c"
  shows "scan_until (kw @ '' '') 127 CHR '';'' ((kw @ '' '' @ format_lease_time localtime t 64) @ '';'')
    = Some (format_lease_time localtime t 64)"
proof -
  let ?v = "format_lease_time localtime t 64"
  note v = time_value [of localtime, OF assms(1,2)]
  have "sscanf (scan_text kw @ fs) (kw @ s) = sscanf fs s" for fs s
    using assms(3) by (induction kw) (simp_all add: scan_text_def)
  then have "sscanf (scan_text (kw @ '' '') @ [Until 127 [CHR '';'']]) ((kw @ '' '' @ ?v) @ '';'')
      = sscanf [Space, Until 127 [CHR '';'']] ('' '' @ ?v @ '';'')"
    by (simp add: scan_text_def isspace_def [of "CHR '' ''"] del: sscanf.simps)
  also have "\<dots> = [VStr ?v]"
    using scan_value_until [OF v(2,1,6), of "[]"] skip_no_space [OF v(1,3), of "'';''"]
    by (simp add: isspace_def [of "CHR '' ''"] del: sscanf.simps(5))
  finally show ?thesis by (simp add: scan_until_def)
qed

lemma read_time:
  assumes "localtime t = Some f" "tm_ok f" "tm_wday f \<noteq> 0"
  shows "block_line mktime ((''starts '' @ format_lease_time localtime t 64) @ '';'') (L, st, en)
      = Some (L\<lparr>starts6 := tm_wday f\<rparr>, True, en)"
    "block_line mktime ((''ends '' @ format_lease_time localtime t 64) @ '';'') (L, st, en)
      = Some (L\<lparr>ends6 := tm_wday f\<rparr>, st, True)"
proof -
  let ?v = "format_lease_time localtime t 64"
  note v = time_value(1,3,4) [of localtime, OF assms(1,2)]
  have r: "parse_lease_time_any mktime (trim6 ?v) = tm_wday f"
    using reads_weekday [of localtime, OF assms, of 64] trim6_id [OF v] by simp
  have w: "tm_wday f > 0" using assms(2,3) by (simp add: tm_ok_def)
  have "scan_until ''starts '' 127 CHR '';'' ((''starts '' @ ?v) @ '';'') = Some ?v"
    "scan_until ''ends '' 127 CHR '';'' ((''ends '' @ ?v) @ '';'') = Some ?v"
    using scan_time [of localtime, OF assms(1,2), of "''starts''"] scan_time [of localtime, OF assms(1,2), of "''ends''"]
    by (simp_all add: isspace_def)
  then show "block_line mktime ((''starts '' @ ?v) @ '';'') (L, st, en) = Some (L\<lparr>starts6 := tm_wday f\<rparr>, True, en)"
    "block_line mktime ((''ends '' @ ?v) @ '';'') (L, st, en) = Some (L\<lparr>ends6 := tm_wday f\<rparr>, st, True)"
    using w by (simp_all add: block_line_def block_times_def strncmp_eq_def r)
qed

lemma state_text_chars:
  "lease_v6_state_to_string s \<noteq> []" "\<not> isspace (hd (lease_v6_state_to_string s))"
  "\<not> isspace (last (lease_v6_state_to_string s))" "CHR '';'' \<notin> set (lease_v6_state_to_string s)"
  "length (lease_v6_state_to_string s) \<le> 15" "plain (lease_v6_state_to_string s)"
  by (cases s; simp add: lease_v6_state_to_string_def isspace_def plain_def)+

lemma state_text_roundtrip: "lease_v6_state_from_string (lease_v6_state_to_string s) = s"
  by (cases s) (simp_all add: lease_v6_state_to_string_def lease_v6_state_from_string_def)

lemma read_state:
  "block_line mktime ((''binding state '' @ lease_v6_state_to_string s) @ '';'') (L, st, en)
   = Some (L\<lparr>state6 := s, binding_state6 := lease_v6_state_to_string s\<rparr>, st, en)"
proof -
  let ?v = "lease_v6_state_to_string s"
  note c = state_text_chars [of s]
  have "scan_until ''binding state '' 15 CHR '';'' ((''binding state '' @ ?v) @ '';'') = Some ?v"
    using scan_value_until [OF c(4,1,5), of "[]"] skip_no_space [OF c(1,2), of "'';''"]
    by (simp add: scan_until_def scan_text_def isspace_def del: sscanf.simps(5))
  then show ?thesis
    using rtrim_id [OF c(1,3)]
    by (simp add: block_line_def block_times_def block_duid_def block_iaid_def block_hostname_def block_state_def
        strncmp_eq_def state_text_roundtrip)
qed

lemma read_hostname:
  assumes "h \<noteq> []" "CHR 0x22 \<notin> set h" "length h \<le> 127"
  shows "block_line mktime ((''client-hostname '' @ quoted h) @ '';'') (L, st, en)
    = Some (L\<lparr>client_hostname6 := h\<rparr>, st, en)"
proof -
  have "scan_until (''client-hostname '' @ [CHR 0x22]) 127 CHR 0x22 ((''client-hostname '' @ quoted h) @ '';'') = Some h"
    using scan_value_until [OF assms(2,1,3), of "'';''"]
    by (simp add: scan_until_def scan_text_def quoted_def isspace_def del: sscanf.simps(5))
  then show ?thesis
    by (simp add: block_line_def block_times_def block_duid_def block_iaid_def block_hostname_def block_state_def
        strncmp_eq_def)
qed

text \<open>The lines that the parser does not know.\<close>

definition known_keywords :: "string list" where
  "known_keywords = [''starts'', ''ends'', ''duid'', ''iaid'', ''client-hostname'', ''binding state'']"

lemma read_unknown:
  assumes "\<forall>kw \<in> set known_keywords. \<not> strncmp_eq s kw"
  shows "block_line mktime s b = Some b"
  using assms
  by (cases b) (simp add: known_keywords_def block_line_def block_times_def block_duid_def block_iaid_def
      block_hostname_def block_state_def)

subsection \<open>Reading a block that was appended\<close>

text \<open>The fields of a lease that fit their buffers and hold no quotes or line breaks.\<close>

definition lease_text_ok :: "dhcpv6_lease_t \<Rightarrow> bool" where
  "lease_text_ok L \<longleftrightarrow> 0 < unat (duid_len6 L) \<and> unat (duid_len6 L) \<le> 128 \<and> length (duid6 L) = 128
     \<and> plain (client_hostname6 L) \<and> CHR 0x22 \<notin> set (client_hostname6 L) \<and> length (client_hostname6 L) \<le> 127
     \<and> plain (vendor_class6 L) \<and> length (vendor_class6 L) \<le> 127 \<and> plain (fqdn6 L) \<and> length (fqdn6 L) \<le> 255"

definition times_ok :: "(time_t \<Rightarrow> tm option) \<Rightarrow> bool" where
  "times_ok localtime \<longleftrightarrow> (\<forall>t. \<exists>f. localtime t = Some f \<and> tm_ok f)"

lemma plain_append: "plain (xs @ ys) \<longleftrightarrow> plain xs \<and> plain ys"
  by (auto simp: plain_def)

text \<open>A line that starts with a keyword the parser does not know is skipped.\<close>

lemma skip_line:
  assumes "plain v" "length v \<le> 1000"
    and "kw \<in> {''tstp '', ''cltt '', ''next binding state '', ''rewind binding state '', ''vendor-class '', ''fqdn ''}"
  shows "block_lines ty mktime first b (text_line (kw @ v) @ rest) = block_lines ty mktime False b rest"
proof (rule block_step)
  show "plain (kw @ v)" using assms(1,3) by (auto simp: plain_def)
  show "length (kw @ v) \<le> 65000" using assms(2,3) by auto
  show "kw @ v \<noteq> []" "\<not> isspace (hd (kw @ v))" "hd (kw @ v) \<noteq> CHR ''#''" "hd (kw @ v) \<noteq> CHR ''}''"
    using assms(3) by (auto simp: isspace_def)
  show "block_line mktime ((kw @ v) @ '';'') b = Some b"
    using assms(3) by (intro read_unknown) (auto simp: known_keywords_def strncmp_eq_def)
qed

lemma opt_times_skip:
  assumes "times_ok localtime"
  shows "block_lines ty mktime False b (opt_times localtime L @ rest) = block_lines ty mktime False b rest"
proof -
  have p: "plain (format_lease_time localtime t 64) \<and> length (format_lease_time localtime t 64) \<le> 1000" for t
    using assms time_value(5,6) [of localtime t] by (fastforce simp: times_ok_def)
  show ?thesis
    using p [of "tstp6 L"] p [of "cltt6 L"] skip_line [of _ "''tstp ''"] skip_line [of _ "''cltt ''"]
    by (simp add: opt_times_def time_line_def)
qed

lemma tail_read:
  assumes "lease_text_ok L"
  shows "block_lines ty mktime False (L0, st, en) (tail_text L @ rest) = block_lines ty mktime False
    (if client_hostname6 L \<noteq> [] then L0\<lparr>client_hostname6 := client_hostname6 L\<rparr> else L0, st, en) rest"
proof -
  note c = state_text_chars
  have h: "block_lines ty mktime False (L0, st, en) (text_line (''client-hostname '' @ quoted (client_hostname6 L)) @ rest) =
      block_lines ty mktime False (L0\<lparr>client_hostname6 := client_hostname6 L\<rparr>, st, en) rest"
    if "client_hostname6 L \<noteq> []" for rest
    using assms that read_hostname [of "client_hostname6 L"]
    by (intro block_step) (auto simp: lease_text_ok_def plain_def quoted_def isspace_def)
  have q: "plain (quoted s) \<longleftrightarrow> plain s" "length (quoted s) = length s + 2" for s
    by (auto simp: quoted_def plain_def)
  have n: "block_lines ty mktime False b ((if g then state_text kw s else []) @ rest) = block_lines ty mktime False b rest"
    if "kw \<in> {''next binding state '', ''rewind binding state ''}" for kw s b g rest
  proof (cases g)
    case True
    have "block_lines ty mktime False b (state_text kw s @ rest) = block_lines ty mktime False b rest"
      unfolding state_text_def using that c(5,6) [of s] by (intro skip_line) auto
    then show ?thesis using True by (simp only: if_True)
  qed simp
  have v: "block_lines ty mktime False b ((if g then text_line (kw @ quoted s) else []) @ rest) = block_lines ty mktime False b rest"
    if "kw \<in> {''vendor-class '', ''fqdn ''}" "plain s" "length s \<le> 255" for kw s b g rest
  proof (cases g)
    case True
    have "block_lines ty mktime False b (text_line (kw @ quoted s) @ rest) = block_lines ty mktime False b rest"
      using that by (intro skip_line) (auto simp: q)
    then show ?thesis using True by (simp only: if_True)
  qed simp
  have p: "plain (vendor_class6 L)" "length (vendor_class6 L) \<le> 255" "plain (fqdn6 L)" "length (fqdn6 L) \<le> 255"
    using assms by (auto simp: lease_text_ok_def)
  have u: "block_lines ty mktime False b (tail_text L @ rest) = block_lines ty mktime False b
      ((if client_hostname6 L \<noteq> [] then text_line (''client-hostname '' @ quoted (client_hostname6 L)) else []) @
       (if vendor_class6 L \<noteq> [] then text_line (''vendor-class '' @ quoted (vendor_class6 L)) else []) @
       (if fqdn6 L \<noteq> [] then text_line (''fqdn '' @ quoted (fqdn6 L)) else []) @ rest)" for b
    unfolding tail_text_def append_assoc by (simp only: n insertI1 insertI2)
  show ?thesis
  proof (cases "client_hostname6 L = []")
    case True
    then show ?thesis unfolding u by (simp only: v p insertI1 insertI2 simp_thms if_False append_Nil)
  next
    case False
    then show ?thesis unfolding u by (simp only: h v p insertI1 insertI2 not_False_eq_True if_True)
  qed
qed

text \<open>The lease that is read from the block of \<open>L\<close>, with the two times that the reader makes of it.\<close>

definition reloaded6 :: "time_t \<Rightarrow> time_t \<Rightarrow> dhcpv6_lease_t \<Rightarrow> dhcpv6_lease_t" where
  "reloaded6 ws we L = zero_lease6\<lparr>ip6_addr := ip6_addr L,
     duid6 := take (unat (duid_len6 L)) (duid6 L) @ replicate (128 - unat (duid_len6 L)) 0,
     duid_len6 := duid_len6 L, iaid6 := iaid6 L, starts6 := ws, ends6 := we, state6 := state6 L,
     binding_state6 := lease_v6_state_to_string (state6 L), client_hostname6 := client_hostname6 L\<rparr>"

lemma read_body:
  assumes ok: "lease_text_ok L" "times_ok localtime"
    and s: "localtime (starts6 L) = Some fs" "tm_wday fs \<noteq> 0" and e: "localtime (ends6 L) = Some fe" "tm_wday fe \<noteq> 0"
  shows "block_lines ty mktime True (zero_lease6\<lparr>ip6_addr := ip6_addr L\<rparr>, False, False)
      (text_line (''duid '' @ duid_text L) @ text_line (''iaid '' @ print_int 0 (uint (iaid6 L)))
       @ time_line localtime ''starts'' (starts6 L) @ time_line localtime ''ends'' (ends6 L) @ opt_times localtime L
       @ state_text ''binding state '' (state6 L) @ tail_text L @ ''}'' @ CHR 0x0A # rest)
    = Returns (rest, Some (reloaded6 (tm_wday fs) (tm_wday fe) L))"
proof -
  let ?bs = "take (unat (duid_len6 L)) (duid6 L)"
  have bs: "?bs \<noteq> []" "length ?bs \<le> 128" "length ?bs = unat (duid_len6 L)" using ok(1) by (auto simp: lease_text_ok_def)
  have "duid_len6 L \<noteq> 0" using ok(1) by (auto simp: lease_text_ok_def)
  then have dt: "duid_text L = hex_bytes ?bs"
    using bs by (auto simp: duid_text_def duid_bin_to_hex_def Let_def)
  have fok: "tm_ok fs" "tm_ok fe" using ok(2) s(1) e(1) by (metis times_ok_def option.inject)+
  note h = hex_bytes_plain [OF bs(1)] length_hex_bytes [OF bs(1)]
  note ts = time_value [of localtime, OF s(1) fok(1)] and te = time_value [of localtime, OF e(1) fok(2)]
  note c = state_text_chars [of "state6 L"]
  have du: "block_lines ty mktime True (zero_lease6\<lparr>ip6_addr := ip6_addr L\<rparr>, False, False) (text_line (''duid '' @ duid_text L) @ rest) =
      block_lines ty mktime False (zero_lease6\<lparr>ip6_addr := ip6_addr L, duid6 := ?bs @ replicate (128 - length ?bs) 0,
        duid_len6 := duid_len6 L\<rparr>, False, False) rest" for rest
    using read_duid [OF bs(1,2), of "zero_lease6\<lparr>ip6_addr := ip6_addr L\<rparr>"] h bs(2,3) unfolding dt
    by (intro block_step) (auto simp: plain_def isspace_def zero_lease6_def)
  have ia: "block_lines ty mktime False (L0, a, b) (text_line (''iaid '' @ print_int 0 (uint (iaid6 L))) @ rest) =
      block_lines ty mktime False (L0\<lparr>iaid6 := iaid6 L\<rparr>, a, b) rest" for L0 a b rest
  proof (rule block_step)
    have d: "list_all isdigit (print_int 0 (uint (iaid6 L)))" by (rule print_int_digits(1)) simp
    then show "plain (''iaid '' @ print_int 0 (uint (iaid6 L)))"
      using digits_time [OF d] time_char_other by (auto simp: plain_def list_all_iff)
    have "uint (iaid6 L) < 10 ^ 10" using uint_lt2p [of "iaid6 L"] by simp
    then show "length (''iaid '' @ print_int 0 (uint (iaid6 L))) \<le> 65000"
      using print_dec_length [of "uint (iaid6 L)" 10] by (simp add: print_int_def)
  qed (use read_iaid [of mktime "iaid6 L" L0 a b] in \<open>simp_all add: isspace_def\<close>)
  have st: "block_lines ty mktime False (L0, a, b) (time_line localtime ''starts'' (starts6 L) @ rest) =
      block_lines ty mktime False (L0\<lparr>starts6 := tm_wday fs\<rparr>, True, b) rest" for L0 a b rest
    unfolding time_line_def using read_time(1) [of localtime, OF s(1) fok(1) s(2), of mktime L0 a b] ts
    by (intro block_step) (auto simp: plain_def isspace_def)
  have en: "block_lines ty mktime False (L0, a, b) (time_line localtime ''ends'' (ends6 L) @ rest) =
      block_lines ty mktime False (L0\<lparr>ends6 := tm_wday fe\<rparr>, a, True) rest" for L0 a b rest
    unfolding time_line_def using read_time(2) [of localtime, OF e(1) fok(2) e(2), of mktime L0 a b] te
    by (intro block_step) (auto simp: plain_def isspace_def)
  have bi: "block_lines ty mktime False (L0, a, b) (state_text ''binding state '' (state6 L) @ rest) =
      block_lines ty mktime False (L0\<lparr>state6 := state6 L, binding_state6 := lease_v6_state_to_string (state6 L)\<rparr>, a, b) rest"
    for L0 a b rest
    unfolding state_text_def using read_state [of mktime "state6 L" L0 a b] c
    by (intro block_step) (auto simp: plain_def isspace_def)
  show ?thesis
    unfolding du ia st en opt_times_skip [OF ok(2)] bi tail_read [OF ok(1)] block_end
    using bs(3) by (simp add: reloaded6_def zero_lease6_def)
qed

text \<open>What the text form of an address needs: \<open>inet_pton\<close> reads it back, and it is one short word.\<close>

definition ntop_ok :: "(in6_addr \<Rightarrow> string) \<Rightarrow> in6_addr \<Rightarrow> bool" where
  "ntop_ok ntop a \<longleftrightarrow> inet_pton6 (ntop a) = Some a \<and> length (ntop a) \<le> 45
     \<and> list_all (\<lambda>c. \<not> isspace c \<and> c \<noteq> CHR ''/'' \<and> c \<noteq> CHR 0x00) (ntop a)"

lemma ntop_facts:
  assumes "ntop_ok ntop a"
  shows "ntop a \<noteq> []" "\<not> isspace (hd (ntop a))" "plain (ntop a)" "CHR ''/'' \<notin> set (ntop a)"
    "takeWhile (\<lambda>c. \<not> isspace c) (ntop a @ CHR '' '' # rest) = ntop a"
proof -
  show n: "ntop a \<noteq> []" using assms by (auto simp: ntop_ok_def inet_pton6_def)
  have l: "isspace CHR 0x0A" "isspace CHR '' ''" by (simp_all add: isspace_def)
  then show "\<not> isspace (hd (ntop a))" "plain (ntop a)" "CHR ''/'' \<notin> set (ntop a)"
    using assms n by (auto simp: ntop_ok_def list_all_iff plain_def)
  show "takeWhile (\<lambda>c. \<not> isspace c) (ntop a @ CHR '' '' # rest) = ntop a"
    using assms l by (intro takeWhile_stop) (auto simp: ntop_ok_def list_all_iff)
qed

lemma getline_head:
  assumes "plain h" "length h \<le> 1000" "h \<noteq> []" "\<not> isspace (hd h)"
  shows "rd_getline (h @ '' {'' @ CHR 0x0A # rest) = Some (h @ '' {'', rest)" "trim6 (h @ '' {'') = h @ '' {''"
proof -
  have "plain (h @ '' {'')" using assms(1) by (auto simp: plain_def)
  then show "rd_getline (h @ '' {'' @ CHR 0x0A # rest) = Some (h @ '' {'', rest)"
    using rd_getline_plain [of "h @ '' {''" rest] assms(2) by simp
  show "trim6 (h @ '' {'') = h @ '' {''" using assms(3,4) by (intro trim6_id) (auto simp: isspace_def)
qed

lemma scan_lease_head:
  assumes "ntop_ok ntop a"
  shows "sscanf (scan_text ''lease '' @ [Str 95]) ((''lease '' @ ntop a) @ '' {'') = [VStr (ntop a)]"
proof -
  note f = ntop_facts [OF assms]
  have "length (ntop a) \<le> 95" using assms by (simp add: ntop_ok_def)
  then show ?thesis
    using f(1) f(5) [of "''{''"] skip_no_space [OF f(1,2), of "'' {''"]
    by (simp add: scan_text_def isspace_def [of "CHR ''l''"] isspace_def [of "CHR ''e''"] isspace_def [of "CHR ''a''"]
        isspace_def [of "CHR ''s''"] isspace_def [of "CHR '' ''"] Let_def)
qed

lemma load_appended:
  assumes ok: "lease_text_ok L" "times_ok localtime" "type6 L = Lease6_IA_NA" "ntop_ok ntop (ip6_addr L)"
    and s: "localtime (starts6 L) = Some fs" "tm_wday fs \<noteq> 0" and e: "localtime (ends6 L) = Some fe" "tm_wday fe \<noteq> 0"
  shows "load6_lines mktime Ls (lease_v6_db_append ntop localtime L [] @ rest)
    = load6_lines mktime (load_row (reloaded6 (tm_wday fs) (tm_wday fe) L) Ls) rest"
proof -
  let ?h = "''lease '' @ ntop (ip6_addr L)" and ?R = "reloaded6 (tm_wday fs) (tm_wday fe) L"
  let ?body = "text_line (''duid '' @ duid_text L) @ text_line (''iaid '' @ print_int 0 (uint (iaid6 L)))
       @ time_line localtime ''starts'' (starts6 L) @ time_line localtime ''ends'' (ends6 L) @ opt_times localtime L
       @ state_text ''binding state '' (state6 L) @ tail_text L @ ''}'' @ CHR 0x0A # CHR 0x0A # rest"
  note f = ntop_facts [OF ok(4)]
  have h: "plain ?h" "length ?h \<le> 1000" "?h \<noteq> []" "\<not> isspace (hd ?h)"
    using f(3) ok(4) by (auto simp: plain_def ntop_ok_def isspace_def)
  note g = getline_head [OF h]
  have t: "lease_v6_db_append ntop localtime L [] @ rest = ?h @ '' {'' @ CHR 0x0A # ?body"
    unfolding lease_v6_db_append_def block_head_def ok(3) by simp
  have "parse_block_ia_na mktime ?body (?h @ '' {'') = Returns (CHR 0x0A # rest, Some ?R)"
    unfolding parse_block_ia_na_def g(2) scan_lease_head [OF ok(4)]
    using ok(4) read_body [OF ok(1,2) s e, of Lease6_IA_NA mktime "CHR 0x0A # rest"] by (simp add: ntop_ok_def)
  moreover have "strncmp_eq (?h @ '' {'') ''lease ''" "?h @ '' {'' \<noteq> []" "hd (?h @ '' {'') \<noteq> CHR ''#''"
    by (simp_all add: strncmp_eq_def)
  ultimately have b: "line_block mktime (?h @ '' {'') ?body = Returns (CHR 0x0A # rest, Some ?R)"
    unfolding line_block_def by (simp only: simp_thms if_False if_True)
  have w: "starts6 ?R \<noteq> 0" "ends6 ?R \<noteq> 0" using s(2) e(2) by (simp_all add: reloaded6_def)
  have "load6_lines mktime Ls (?h @ '' {'' @ CHR 0x0A # ?body) = load6_lines mktime (load_row ?R Ls) (CHR 0x0A # rest)"
    unfolding load6_lines.simps [of mktime Ls "?h @ '' {'' @ CHR 0x0A # ?body"] g option.case prod.case b outcome.case
    using w by (simp add: load_block_def)
  also have "\<dots> = load6_lines mktime (load_row ?R Ls) rest"
    using rd_getline_plain [of "[]" rest]
    by (subst load6_lines.simps) (simp add: plain_def trim6_def ltrim_def rtrim_inplace_def line_block_def load_block_def)
  finally show ?thesis unfolding t .
qed

text \<open>The text of a number.\<close>

lemma number_text:
  fixes w :: "'a::len word"
  shows "list_all isdigit (print_int 0 (uint w))" "print_int 0 (uint w) \<noteq> []" "dec_val (print_int 0 (uint w)) = uint w"
    "plain (print_int 0 (uint w))"
proof -
  show d: "list_all isdigit (print_int 0 (uint w))" "print_int 0 (uint w) \<noteq> []" "dec_val (print_int 0 (uint w)) = uint w"
    using print_int_digits [of "uint w" 0] by auto
  show "plain (print_int 0 (uint w))"
    using digits_time [OF d(1)] time_char_other by (auto simp: plain_def list_all_iff)
qed

lemma number_length: "length (print_int 0 (uint w)) \<le> 10" if "LENGTH('a) \<le> 32" for w :: "'a::len word"
proof -
  have "uint w < 2 ^ LENGTH('a)" by (rule uint_lt2p)
  also have "\<dots> \<le> 2 ^ 32" using that by (intro power_increasing) auto
  finally show ?thesis using print_dec_length [of "uint w" 10] by (simp add: print_int_def)
qed

lemma scan_prefix_head:
  fixes l :: u8
  assumes "ntop_ok ntop a"
  shows "sscanf (scan_text ''prefix '' @ [Until 95 ''/'', Lit CHR ''/'', UInt 8])
      ((''prefix '' @ ntop a @ ''/'' @ print_int 0 (uint l)) @ '' {'') = [VStr (ntop a), VNum (uint l)]"
proof -
  note f = ntop_facts [OF assms] and n = number_text [of l]
  have "\<not> isdigit CHR '' ''" by (simp add: isdigit_def)
  then have u: "sscanf [UInt 8] (print_int 0 (uint l) @ '' {'') = [VNum (uint l)]"
    using scan_UInt [OF n(1,2), of "'' {''" 8 "[]"] n(3) uint_lt2p [of l] by simp
  have "takeWhile (\<lambda>c. c \<noteq> CHR ''/'') (ntop a @ CHR ''/'' # print_int 0 (uint l) @ '' {'') = ntop a"
    using f(4) by (intro takeWhile_stop) auto
  then have "sscanf [Until 95 ''/'', Lit CHR ''/'', UInt 8] (ntop a @ ''/'' @ print_int 0 (uint l) @ '' {'')
      = [VStr (ntop a), VNum (uint l)]"
    using u f(1) assms by (simp add: Let_def ntop_ok_def del: sscanf.simps(6))
  then show ?thesis
    using skip_no_space [OF f(1,2)] by (simp add: scan_text_def isspace_def del: sscanf.simps(5,6))
qed

text \<open>A prefix block without its end: the parser does not return.\<close>

lemma truncated_block:
  "block_lines Lease6_IA_PD mktime True (L, False, False) (text_line (''iaid '' @ print_int 0 (uint v))) = Blocks"
  for v :: u32
proof -
  have "block_lines Lease6_IA_PD mktime True (L, False, False) (text_line (''iaid '' @ print_int 0 (uint v)) @ [])
      = block_lines Lease6_IA_PD mktime False (L\<lparr>iaid6 := v\<rparr>, False, False) []"
    using read_iaid [of mktime v L False False] number_text(4) [of v] number_length [of v]
    by (intro block_step) (simp_all add: plain_def isspace_def)
  then show ?thesis by (simp add: block_lines.simps [of _ _ _ _ "[]"] rd_getline_def)
qed

definition weekday :: "(time_t \<Rightarrow> tm option) \<Rightarrow> time_t \<Rightarrow> int" where
  "weekday localtime t = tm_wday (the (localtime t))"

definition reload_row :: "(time_t \<Rightarrow> tm option) \<Rightarrow> dhcpv6_lease_t \<Rightarrow> dhcpv6_lease_t" where
  "reload_row localtime L = (reloaded6 (weekday localtime (starts6 L)) (weekday localtime (ends6 L)) L)\<lparr>in_use6 := True\<rparr>"

text \<open>An address lease that can be written, with times on days other than Sunday.\<close>

definition writable6 :: "(in6_addr \<Rightarrow> string) \<Rightarrow> (time_t \<Rightarrow> tm option) \<Rightarrow> dhcpv6_lease_t \<Rightarrow> bool" where
  "writable6 ntop localtime L \<longleftrightarrow> lease_text_ok L \<and> type6 L = Lease6_IA_NA \<and> ntop_ok ntop (ip6_addr L)
     \<and> weekday localtime (starts6 L) \<noteq> 0 \<and> weekday localtime (ends6 L) \<noteq> 0"

lemma load_row_new:
  assumes "type6 R = Lease6_IA_NA" "ip6_addr R \<notin> ip6_addr ` set Ls" "length Ls < LEASES6_MAX"
  shows "load_row R Ls = Ls @ [R\<lparr>in_use6 := True\<rparr>]"
proof -
  have "find_idx (\<lambda>L. type6 L = Lease6_IA_NA \<and> ip6_addr L = ip6_addr R) Ls = None"
    using assms(2) by (auto simp: find_idx_None image_iff)
  then show ?thesis using assms(1,3) by (simp add: load_row_def)
qed

lemma load_log:
  assumes "times_ok localtime" "list_all (writable6 ntop localtime) Ls" "distinct (map ip6_addr Ls)"
    and "ip6_addr ` set acc \<inter> ip6_addr ` set Ls = {}" "length acc + length Ls \<le> LEASES6_MAX"
  shows "load6_lines mktime acc (concat (map (\<lambda>L. lease_v6_db_append ntop localtime L []) Ls))
    = Returns (acc @ map (reload_row localtime) Ls)"
  using assms(2-)
proof (induction Ls arbitrary: acc)
  case Nil
  then show ?case by (simp add: load6_lines.simps rd_getline_def)
next
  case (Cons L Ls)
  have w: "writable6 ntop localtime L" using Cons.prems(1) by simp
  obtain fs fe where f: "localtime (starts6 L) = Some fs" "localtime (ends6 L) = Some fe"
    using assms(1) unfolding times_ok_def by metis
  then have k: "lease_text_ok L" "type6 L = Lease6_IA_NA" "ntop_ok ntop (ip6_addr L)" "tm_wday fs \<noteq> 0" "tm_wday fe \<noteq> 0"
    using w by (auto simp: writable6_def weekday_def)
  let ?R = "reloaded6 (tm_wday fs) (tm_wday fe) L"
  have r: "type6 ?R = Lease6_IA_NA" "ip6_addr ?R = ip6_addr L" "?R\<lparr>in_use6 := True\<rparr> = reload_row localtime L"
    using f by (simp_all add: reloaded6_def zero_lease6_def reload_row_def weekday_def)
  have "load_row ?R acc = acc @ [reload_row localtime L]"
    using load_row_new [OF r(1), of acc] Cons.prems(3,4) r by auto
  then have "load6_lines mktime acc (concat (map (\<lambda>L. lease_v6_db_append ntop localtime L []) (L # Ls)))
      = load6_lines mktime (acc @ [reload_row localtime L]) (concat (map (\<lambda>L. lease_v6_db_append ntop localtime L []) Ls))"
    using load_appended [OF k(1) assms(1) k(2,3) f(1) k(4) f(2) k(5)] by simp
  also have "\<dots> = Returns ((acc @ [reload_row localtime L]) @ map (reload_row localtime) Ls)"
    using Cons.prems by (intro Cons.IH) (auto simp: reload_row_def reloaded6_def)
  finally show ?case by simp
qed

lemma append_log:
  "fold (lease_v6_db_append ntop localtime) Ls f = f @ concat (map (\<lambda>L. lease_v6_db_append ntop localtime L []) Ls)"
  by (induction Ls arbitrary: f) (simp_all add: lease_v6_db_append_def)

subsection \<open>Loading gives a well-formed table\<close>

definition rows6_ok :: "dhcpv6_lease_t list \<Rightarrow> bool" where
  "rows6_ok Ls \<longleftrightarrow> length Ls \<le> LEASES6_MAX \<and> distinct (map key6 Ls)
     \<and> list_all (\<lambda>L. in_use6 L \<and> length (duid6 L) = 128) Ls"

lemma block_line_duid:
  assumes "block_line mktime s (L, st, en) = Some (L', st', en')" "length (duid6 L) = 128"
  shows "length (duid6 L') = 128"
proof (cases "block_times mktime s (L, st, en)")
  case None
  then obtain M where m: "block_duid s L = Some M" and l: "L' = block_state s (block_hostname s (block_iaid s M))"
    using assms(1) by (auto simp: block_line_def)
  have "length (duid6 M) = 128"
    using m assms(2) set_duid_length [OF assms(2)] by (auto simp: block_duid_def split: if_splits option.splits prod.splits) (metis snd_conv)
  moreover have "duid6 L' = duid6 M"
    by (simp add: l block_state_def block_hostname_def block_iaid_def split: option.split list.split scan_value.split)
  ultimately show ?thesis by simp
next
  case (Some b)
  then show ?thesis
    using assms by (auto simp: block_line_def block_times_def Let_def split: if_splits option.splits)
qed

lemma block_lines_duid:
  "block_lines ty mktime first b f = Returns (rest, Some M) \<Longrightarrow> length (duid6 (fst b)) = 128 \<Longrightarrow> length (duid6 M) = 128"
proof (induction ty mktime first b f rule: block_lines.induct)
  case (1 ty mktime first b f)
  obtain L st en where b: "b = (L, st, en)" by (cases b) auto
  show ?case
  proof (cases "rd_getline f")
    case None
    then show ?thesis using 1(3) by (subst (asm) block_lines.simps) (auto split: lease_v6_type_t.splits if_splits)
  next
    case (Some lr)
    obtain line more where l: "rd_getline f = Some (line, more)" using Some by (cases lr) auto
    show ?thesis
      using 1(3,4) 1(1) [OF l refl refl] 1(2) [OF l refl refl] block_line_duid [of mktime "trim6 line" L st en] l b
      by (subst (asm) block_lines.simps) (fastforce simp: Let_def split: if_splits option.splits)
  qed
qed

lemma parse_block_duid:
  "parse_block_ia_na mktime f l = Returns (rest, Some M) \<Longrightarrow> length (duid6 M) = 128"
  "parse_block_ia_pd mktime f l = Returns (rest, Some M) \<Longrightarrow> length (duid6 M) = 128"
  by (auto simp: parse_block_ia_na_def parse_block_ia_pd_def zero_lease6_def dest!: block_lines_duid
      split: list.splits scan_value.splits option.splits)

lemma load_row_ok:
  assumes "rows6_ok Ls" "length (duid6 tmp) = 128"
  shows "rows6_ok (load_row tmp Ls)"
proof -
  let ?row = "tmp\<lparr>in_use6 := True\<rparr>"
  let ?P = "\<lambda>L. type6 L = type6 tmp \<and> (case type6 tmp of Lease6_IA_NA \<Rightarrow> ip6_addr L = ip6_addr tmp
     | Lease6_IA_PD \<Rightarrow> plen6 L = plen6 tmp \<and> prefix_v6 L = prefix_v6 tmp)"
  have k: "?P L \<longleftrightarrow> key6 L = key6 ?row" if "in_use6 L" for L
    using that by (auto simp: key6_def split: lease_v6_type_t.splits)
  have u: "in_use6 L" if "L \<in> set Ls" for L using assms(1) that by (auto simp: rows6_ok_def list_all_iff)
  show ?thesis
  proof (cases "find_idx ?P Ls")
    case None
    then have "key6 ?row \<notin> key6 ` set Ls" using k u by (force simp: find_idx_None)
    then show ?thesis using None assms by (simp add: load_row_def rows6_ok_def Let_def)
  next
    case (Some i)
    have i: "i < length Ls" "?P (Ls ! i)" using find_idx_SomeD [OF Some] by blast+
    then have "key6 ?row = key6 (Ls ! i)" using k [OF u [OF nth_mem]] by metis
    with i(1) have "map key6 (Ls[i := ?row]) = map key6 Ls" by (rule map_update_same)
    moreover have "list_all (\<lambda>L. in_use6 L \<and> length (duid6 L) = 128) (Ls[i := ?row])"
      using assms by (auto simp: rows6_ok_def list_all_iff dest!: set_update_subset_insert [THEN subsetD])
    ultimately show ?thesis using Some assms(1) by (simp add: load_row_def rows6_ok_def Let_def)
  qed
qed

lemma line_block_duid: "line_block mktime s f = Returns (rest, Some M) \<Longrightarrow> length (duid6 M) = 128"
  by (auto simp: line_block_def dest: parse_block_duid split: if_splits)

lemma load6_lines_ok: "load6_lines mktime Ls f = Returns Ms \<Longrightarrow> rows6_ok Ls \<Longrightarrow> rows6_ok Ms"
proof (induction mktime Ls f rule: load6_lines.induct)
  case (1 mktime Ls f)
  show ?case
  proof (cases "rd_getline f")
    case None
    then show ?thesis using 1(2,3) by (subst (asm) load6_lines.simps) simp
  next
    case (Some lr)
    obtain line more where l: "rd_getline f = Some (line, more)" using Some by (cases lr) auto
    obtain rest r where b: "line_block mktime (trim6 line) more = Returns (rest, r)"
      and m: "load6_lines mktime (load_block r Ls) rest = Returns Ms"
      using 1(2) l by (subst (asm) load6_lines.simps) (auto split: outcome.splits)
    have "rows6_ok (load_block r Ls)"
      using 1(3) load_row_ok line_block_duid b by (auto simp: load_block_def split: option.split)
    then show ?thesis using 1(1) [OF l refl b refl m] by simp
  qed
qed

lemma load_db_wf:
  "lease_v6_db_load mktime path db = Returns (rc, db') \<Longrightarrow> db6_wf db \<Longrightarrow> db6_wf db'"
proof (cases path)
  case (Some f)
  assume "lease_v6_db_load mktime path db = Returns (rc, db')"
  then obtain Ls where "load6_lines mktime [] f = Returns Ls" "db' = db\<lparr>leases6 := Ls\<rparr>"
    using Some by (cases "load6_lines mktime [] f") (auto simp: lease_v6_db_load_def)
  then show ?thesis using load6_lines_ok [of mktime "[]" f Ls] by (simp add: rows6_ok_def db6_wf_def)
qed (simp add: lease_v6_db_load_def)

section \<open>Properties\<close>


definition sample_lease6 :: dhcpv6_lease_t where
  "sample_lease6 = zero_lease6\<lparr>in_use6 := True, duid6 := [0, 1, 0xAB] @ replicate 125 0, duid_len6 := 3, iaid6 := 1234,
     ip6_addr := [0x20, 1, 0xD, 0xB8, 0, 0, 0, 0, 0, 0, 0, 0, 0, 0, 0, 1], starts6 := 1729953000, ends6 := 1729956600,
     tstp6 := 1729953000, cltt6 := 1729953000, client_hostname6 := ''laptop'', state6 := LEASE6_ACTIVE\<rparr>"


text \<open>
  A lease file that ends inside of the block of a delegated prefix (the server was stopped while it
  appended the block) keeps the DHCPv6 server from starting: \<open>lease_v6_db_load\<close> never returns.
\<close>

lemma load_truncated_prefix_hangs:
  assumes "ntop_ok ntop (prefix_v6 L)" "type6 L = Lease6_IA_PD"
  shows "lease_v6_db_load mktime (Some (block_head ntop L @ text_line (''iaid '' @ print_int 0 (uint (iaid6 L))))) db = Blocks"
proof -
  let ?h = "''prefix '' @ ntop (prefix_v6 L) @ ''/'' @ print_int 0 (uint (plen6 L))"
  let ?line = "text_line (''iaid '' @ print_int 0 (uint (iaid6 L)))"
  have h: "plain ?h" "length ?h \<le> 1000" "?h \<noteq> []" "\<not> isspace (hd ?h)"
    using ntop_facts(3) [OF assms(1)] number_text(4) [of "plen6 L"] number_length [of "plen6 L"] assms(1)
    by (auto simp: plain_def ntop_ok_def isspace_def)
  note g = getline_head [OF h]
  have "parse_block_ia_pd mktime ?line (?h @ '' {'') = Blocks"
    unfolding parse_block_ia_pd_def g(2) scan_prefix_head [OF assms(1)]
    using assms(1) truncated_block by (simp add: ntop_ok_def)
  moreover have "\<not> strncmp_eq (?h @ '' {'') ''lease ''" "strncmp_eq (?h @ '' {'') ''prefix ''" "?h @ '' {'' \<noteq> []"
    "hd (?h @ '' {'') \<noteq> CHR ''#''" by (simp_all add: strncmp_eq_def)
  ultimately have b: "line_block mktime (?h @ '' {'') ?line = Blocks"
    unfolding line_block_def by (simp only: simp_thms if_False if_True)
  have "load6_lines mktime [] (?h @ '' {'' @ CHR 0x0A # ?line) = Blocks"
    unfolding load6_lines.simps [of mktime "[]" "?h @ '' {'' @ CHR 0x0A # ?line"] g option.case prod.case b outcome.case ..
  moreover have "block_head ntop L @ ?line = ?h @ '' {'' @ CHR 0x0A # ?line"
    unfolding block_head_def assms(2) by simp
  ultimately show ?thesis by (simp only: lease_v6_db_load_def option.case and_then.simps)
qed

end
