(* ===== verification/Server_V6.thy ===== *)
theory Server_V6
  imports Ip6_Pool Pd_Pool Protocol_V6 Lease_File_V6 Bounded_Fifo
begin

text \<open>
  The DHCPv6 server (sources/server.c, include/shm_stats.h): the task queue between the receiving loop
  and the workers, the handling of one packet, the cleanup round, the start and the end of the agent.
  The handling of a packet and the cleanup round each run under \<open>db_lock\<close>, so each is one step of
  the server.  What a step reads from the system (the time, the success of writing the lease file,
  the answers to the ICMPv6 probe) is in its environment; the datagram that it sends is its result.
\<close>

section \<open>Model\<close>

subsection \<open>State\<close>

record server_stats_t =
  start_time6 :: time_t
  pkt_received :: u64
  pkt_processed :: u64
  leases_active :: u64
  errors_count :: u64

record server_ctx_t =
  ctx_config :: dhcpv6_config_t
  ctx_db :: lease_v6_db_t
  ctx_pools :: "ip6_pool_t list"
  ctx_pd_pools :: "pd_pool_t list"
  ctx_stats :: "server_stats_t option"

record env6 =
  env_now :: time_t
  env_io :: bool
  env_ping :: "in6_addr \<Rightarrow> u32 \<Rightarrow> bool"

abbreviation BUF_SIZE :: nat where "BUF_SIZE \<equiv> 4096"
abbreviation QUEUE_SIZE :: nat where "QUEUE_SIZE \<equiv> 256"

subsection \<open>The task queue\<close>

text \<open>A task is the received bytes and the address of the client.\<close>

type_synonym task_t = "u8 list \<times> in6_addr"

record task_queue_t = "task_t ring" +
  shutdown6 :: bool

definition queue_init :: "task_t list \<Rightarrow> task_queue_t" where
  "queue_init tasks = \<lparr>queue = tasks, head = 0, tail = 0, count = 0, shutdown6 = False\<rparr>"

definition queue_push :: "task_t \<Rightarrow> task_queue_t \<Rightarrow> bool \<times> task_queue_t" where
  "queue_push t q =
     (if count q < QUEUE_SIZE \<and> \<not> shutdown6 q then (True, ring_push QUEUE_SIZE t q) else (False, q))"

text \<open>
  What a worker takes: nothing while the queue is empty, where it waits, and nothing after the
  shutdown, where it ends.
\<close>

definition worker_take :: "task_queue_t \<Rightarrow> task_t option \<times> task_queue_t" where
  "worker_take q =
     (if shutdown6 q then (None, q)
      else if count q = 0 then (None, q)
      else case ring_pop QUEUE_SIZE q of (t, q') \<Rightarrow> (Some t, q'))"

subsection \<open>Subnets\<close>

definition is_linklocal :: "in6_addr \<Rightarrow> bool" where
  "is_linklocal a \<longleftrightarrow> a ! 0 = 0xFE \<and> a ! 1 AND 0xC0 = 0x80"

text \<open>The index of the subnet of a client; without a match it is the first one, which may be empty.\<close>

definition find_subnet :: "server_ctx_t \<Rightarrow> in6_addr \<Rightarrow> nat" where
  "find_subnet ctx src_ip =
     (if is_linklocal src_ip then 0
      else case find_idx (\<lambda>s. ipv6_in_subnet src_ip (prefix_bin s) (prefix_len s)) (subnets6 (ctx_config ctx)) of
          Some i \<Rightarrow> i
        | None \<Rightarrow> 0)"

definition subnet_at :: "server_ctx_t \<Rightarrow> nat \<Rightarrow> dhcpv6_subnet_t" where
  "subnet_at ctx i = (if i < length (subnets6 (ctx_config ctx)) then subnets6 (ctx_config ctx) ! i else zero_subnet6)"

text \<open>\<open>get_pool_by_subnet\<close> and \<open>get_pd_pool_by_subnet\<close> give a pool when the index is below the subnet count.\<close>

definition has_pool :: "server_ctx_t \<Rightarrow> nat \<Rightarrow> bool" where
  "has_pool ctx i \<longleftrightarrow> i < length (subnets6 (ctx_config ctx))"

subsection \<open>One packet\<close>

definition server_duid :: "u8 list" where
  "server_duid = [0, 1, 0, 1, 0xAA, 0xBB, 0xCC, 0xDD, 0xEE, 0xFF, 0, 0, 0, 0]"

definition reply_type :: "u8 \<Rightarrow> u8" where
  "reply_type t =
     (if t = MSG_SOLICIT then MSG_ADVERTISE
      else if t = MSG_REQUEST \<or> t = MSG_RENEW \<or> t = MSG_REBIND \<or> t = MSG_RELEASE \<or> t = MSG_DECLINE then MSG_REPLY
      else 0)"

definition gives_up :: "dhcpv6_packet_meta_t \<Rightarrow> bool" where
  "gives_up meta \<longleftrightarrow> meta_msg_type meta = MSG_RELEASE \<or> meta_msg_type meta = MSG_DECLINE"

text \<open>The hexadecimal text of the client identifier in a buffer of 256 bytes; empty when it does not fit.\<close>

definition client_hex :: "dhcpv6_packet_meta_t \<Rightarrow> string" where
  "client_hex meta = snd (duid_bin_to_hex (case meta_client_duid meta of None \<Rightarrow> [] | Some d \<Rightarrow> d) 256)"

text \<open>An append whose result the caller ignores.\<close>

definition appended :: "u8 list \<Rightarrow> u8 list option \<Rightarrow> u8 list" where
  "appended out r = (case r of None \<Rightarrow> out | Some out' \<Rightarrow> out')"

definition count_active :: "u64 \<Rightarrow> server_ctx_t \<Rightarrow> server_ctx_t" where
  "count_active d ctx = ctx\<lparr>ctx_stats := map_option (\<lambda>s. s\<lparr>leases_active := leases_active s + d\<rparr>) (ctx_stats ctx)\<rparr>"

definition put_pool :: "nat \<Rightarrow> ip6_pool_t \<Rightarrow> lease_v6_db_t \<Rightarrow> server_ctx_t \<Rightarrow> server_ctx_t" where
  "put_pool i p db ctx = ctx\<lparr>ctx_pools := (ctx_pools ctx)[i := p], ctx_db := db\<rparr>"

definition put_pd_pool :: "nat \<Rightarrow> pd_pool_t \<Rightarrow> lease_v6_db_t \<Rightarrow> server_ctx_t \<Rightarrow> server_ctx_t" where
  "put_pd_pool i p db ctx = ctx\<lparr>ctx_pd_pools := (ctx_pd_pools ctx)[i := p], ctx_db := db\<rparr>"

text \<open>The actions for RELEASE and DECLINE before the reply is built.\<close>

definition give_up_address :: "env6 \<Rightarrow> nat \<Rightarrow> dhcpv6_packet_meta_t \<Rightarrow> server_ctx_t \<Rightarrow> server_ctx_t" where
  "give_up_address env i meta ctx =
     (if meta_has_ia_na meta \<and> length (leases6 (ctx_db ctx)) > 0 then
        if meta_msg_type meta = MSG_RELEASE then
          ctx\<lparr>ctx_db := snd (lease_v6_release_ip (env_io env) (env_now env) (ctx_db ctx) (meta_requested_ip meta))\<rparr>
        else if has_pool ctx i then
          (case ip6_pool_mark_conflict (env_io env) (env_now env) (ctx_pools ctx ! i) (meta_requested_ip meta)
                  (Some (ctx_db ctx)) of
             (_, p, db) \<Rightarrow> put_pool i p (the db) ctx)
        else ctx
      else ctx)"

definition give_up_prefix :: "env6 \<Rightarrow> nat \<Rightarrow> dhcpv6_packet_meta_t \<Rightarrow> server_ctx_t \<Rightarrow> server_ctx_t" where
  "give_up_prefix env i meta ctx =
     (if meta_has_ia_pd meta \<and> has_pool ctx i \<and> meta_msg_type meta = MSG_RELEASE then
        (case pd_pool_release (env_io env) (env_now env) (ctx_pd_pools ctx ! i) (meta_requested_prefix meta)
                (meta_requested_plen meta) (Some (ctx_db ctx)) of
           (_, p, db) \<Rightarrow> put_pd_pool i p (the db) ctx)
      else ctx)"

definition append_dns :: "server_ctx_t \<Rightarrow> nat \<Rightarrow> u8 list \<Rightarrow> u8 list" where
  "append_dns ctx i out =
     (let subnet = subnet_at ctx i;
          dns_str = (if dns_servers6 subnet \<noteq> [] then dns_servers6 subnet else g6_dns_servers (global6 (ctx_config ctx)));
          dlist = str_to_ipv6_list dns_str 8
      in if dns_str \<noteq> [] \<and> dlist \<noteq> [] then
           (case dhcpv6_append_dns_servers (BUF_SIZE - length out) dlist of None \<Rightarrow> out | Some w \<Rightarrow> out @ w)
         else out)"

definition handle_ia_na ::
    "env6 \<Rightarrow> nat \<Rightarrow> dhcpv6_packet_meta_t \<Rightarrow> server_ctx_t \<times> u8 list \<Rightarrow> server_ctx_t \<times> u8 list" where
  "handle_ia_na env i meta st = (case st of (ctx, out) \<Rightarrow>
     let subnet = subnet_at ctx i; d = default_lease_time6 subnet; m = max_lease_time6 subnet
     in if \<not> (meta_has_ia_na meta \<and> has_pool ctx i) then (ctx, out)
        else if gives_up meta then
          (count_active (-1) ctx, appended out (dhcpv6_append_ia_na BUF_SIZE out (meta_iaid meta)
             (meta_requested_ip meta) 0 0 0 0 STATUS_SUCCESS))
        else
          (case ip6_pool_allocate \<lparr>arg_duid = client_hex meta, arg_iaid = meta_iaid meta, arg_hostname = None,
                    arg_lease_time = d, arg_now = env_now env, arg_io = env_io env, arg_ping = env_ping env\<rparr>
                  (ctx_config ctx) (meta_requested_ip meta) (ctx_pools ctx ! i) (ctx_db ctx) of
             (res, p, db) \<Rightarrow>
               let ctx' = put_pool i p db ctx
               in if success6 res then
                    (if is_new6 res then count_active 1 ctx' else ctx',
                     appended out (dhcpv6_append_ia_na BUF_SIZE out (meta_iaid meta) (result_ip6 res) d m d m
                       STATUS_SUCCESS))
                  else (ctx', appended out (dhcpv6_append_ia_na BUF_SIZE out (meta_iaid meta) in6_zero 0 0 0 0
                       STATUS_NOADDRSAVAIL))))"

definition handle_ia_pd ::
    "env6 \<Rightarrow> nat \<Rightarrow> dhcpv6_packet_meta_t \<Rightarrow> server_ctx_t \<times> u8 list \<Rightarrow> server_ctx_t \<times> u8 list" where
  "handle_ia_pd env i meta st = (case st of (ctx, out) \<Rightarrow>
     let subnet = subnet_at ctx i; d = default_lease_time6 subnet; m = max_lease_time6 subnet
     in if \<not> (meta_has_ia_pd meta \<and> has_pool ctx i) then (ctx, out)
        else if gives_up meta then
          (count_active (-1) ctx, appended out (dhcpv6_append_ia_pd BUF_SIZE out (meta_iaid_pd meta)
             (Some (meta_requested_prefix meta)) (meta_requested_plen meta) 0 0 0 0 STATUS_SUCCESS))
        else
          (case pd_pool_allocate \<lparr>pa_duid = client_hex meta, pa_iaid = meta_iaid_pd meta, pa_hostname = None,
                    pa_lease_time = d, pa_now = env_now env\<rparr> (ctx_pd_pools ctx ! i) (ctx_db ctx) of
             (res, p, db) \<Rightarrow>
               let ctx' = put_pd_pool i p db ctx
               in if pd_success res then
                    (if pd_is_new res then count_active 1 ctx' else ctx',
                     appended out (dhcpv6_append_ia_pd BUF_SIZE out (meta_iaid_pd meta) (Some (result_prefix res))
                       (result_plen res) d m d m STATUS_SUCCESS))
                  else (ctx', appended out (dhcpv6_append_ia_pd BUF_SIZE out (meta_iaid_pd meta) (Some in6_zero) 0
                       0 0 0 0 STATUS_NOADDRSAVAIL))))"

definition reply_front :: "u8 \<Rightarrow> dhcpv6_packet_meta_t \<Rightarrow> u8 list" where
  "reply_front rt meta =
     (let hdr = rt # dhcpv6_set_xid (meta_transaction_id meta);
          out = appended hdr (dhcpv6_append_option BUF_SIZE hdr OPT_SERVERID server_duid)
      in case meta_client_duid meta of
           None \<Rightarrow> out
         | Some d \<Rightarrow> if length d > 0 then appended out (dhcpv6_append_option BUF_SIZE out OPT_CLIENTID d) else out)"

text \<open>The datagram that is sent back, if any, and the new state.\<close>

definition process_packet :: "env6 \<Rightarrow> task_t \<Rightarrow> server_ctx_t \<Rightarrow> u8 list option \<times> server_ctx_t" where
  "process_packet env task ctx = (case task of (buf, src) \<Rightarrow>
     (case dhcpv6_parse buf of
        None \<Rightarrow> (None, ctx)
      | Some meta \<Rightarrow>
          let i = find_subnet ctx src; rt = reply_type (meta_msg_type meta)
          in if rt = 0 then (None, ctx)
             else
               let out1 = reply_front rt meta;
                   ctx1 = (if gives_up meta then give_up_prefix env i meta (give_up_address env i meta ctx) else ctx);
                   out2 = append_dns ctx1 i out1;
                   (ctx2, out3) = handle_ia_pd env i meta (handle_ia_na env i meta (ctx1, out2))
               in (if length out3 > 4 then Some out3 else None, ctx2)))"

subsection \<open>The cleanup round\<close>

definition cleanup_round :: "time_t \<Rightarrow> server_ctx_t \<Rightarrow> server_ctx_t" where
  "cleanup_round now ctx =
     (let (expired, db1) = lease_v6_mark_expired_older now (ctx_db ctx);
          db2 = (if expired > 0 then snd (lease_v6_cleanup db1) else db1);
          pools = map (\<lambda>p. ip6_pool_sync_with_leases p db2) (ctx_pools ctx);
          active = length (filter (\<lambda>L. state6 L = LEASE6_ACTIVE) (leases6 db2))
      in ctx\<lparr>ctx_db := db2, ctx_pools := pools,
             ctx_stats := map_option (\<lambda>s. s\<lparr>leases_active := of_nat active\<rparr>) (ctx_stats ctx)\<rparr>)"

subsection \<open>Start and end of the agent\<close>

text \<open>A pool whose subnet has no range stays empty.\<close>

definition pool_or_empty :: "time_t \<Rightarrow> dhcpv6_subnet_t \<Rightarrow> lease_v6_db_t \<Rightarrow> ip6_pool_t" where
  "pool_or_empty now s db = (case ip6_pool_init now s (Some db) of
     Some p \<Rightarrow> p
   | None \<Rightarrow> \<lparr>pool_subnet6 = s, entries6 = [], available_count6 = 0, allocated_count6 = 0, reserved_count6 = 0\<rparr>)"

text \<open>
  The configuration file, the lease file (None where it cannot be opened), and whether the shared memory of the
  statistics is there.  The result is None when the configuration cannot be loaded.
\<close>

definition dhcpv6_agent_start ::
    "mktime \<Rightarrow> time_t \<Rightarrow> string option \<Rightarrow> string option \<Rightarrow> bool \<Rightarrow> server_ctx_t option outcome" where
  "dhcpv6_agent_start mktime now conf_file lease_file shm =
     (let (rc, cfg0) = load_config_v6 conf_file
      in if rc \<noteq> 0 then Returns None
         else
           let cfg = convert_all_to_binary cfg0; db0 = lease_v6_db_init ''DHCPv6/leases/dhcpd6.leases''
           in and_then (lease_v6_db_load mktime lease_file db0) (\<lambda>(_, db).
                Returns (Some \<lparr>ctx_config = cfg, ctx_db = db,
                  ctx_pools = map (\<lambda>s. pool_or_empty now s db) (subnets6 cfg),
                  ctx_pd_pools = map (\<lambda>s. snd (pd_pool_init s (Some db) (pd_prefix_len s))) (subnets6 cfg),
                  ctx_stats = (if shm then Some \<lparr>start_time6 = now, pkt_received = 0, pkt_processed = 0,
                     leases_active = 0, errors_count = 0\<rparr> else None)\<rparr>)))"

text \<open>The end: the lease file that is written last, and the state that is left.\<close>

definition dhcpv6_agent_end ::
    "(in6_addr \<Rightarrow> string) \<Rightarrow> (time_t \<Rightarrow> tm option) \<Rightarrow> string \<Rightarrow> server_ctx_t \<Rightarrow> string \<times> server_ctx_t" where
  "dhcpv6_agent_end ntop localtime header ctx =
     (lease_v6_db_save ntop localtime header (ctx_db ctx),
      ctx\<lparr>ctx_db := lease_v6_db_free (ctx_db ctx), ctx_pools := map ip6_pool_free (ctx_pools ctx),
          ctx_pd_pools := map pd_pool_free (ctx_pd_pools ctx), ctx_stats := None\<rparr>)"

subsection \<open>The running server\<close>

record agent6 =
  agent_ctx :: server_ctx_t
  agent_queue :: task_queue_t
  running6 :: bool
  sent6 :: "(u8 list \<times> in6_addr) list"

definition receive_packet :: "task_t \<Rightarrow> agent6 \<Rightarrow> agent6" where
  "receive_packet t a =
     (let c = agent_ctx a
      in a\<lparr>agent_ctx := c\<lparr>ctx_stats := map_option (\<lambda>s. s\<lparr>pkt_received := pkt_received s + 1\<rparr>) (ctx_stats c)\<rparr>,
           agent_queue := snd (queue_push t (agent_queue a))\<rparr>)"

definition work :: "env6 \<Rightarrow> agent6 \<Rightarrow> agent6" where
  "work env a = (case worker_take (agent_queue a) of
     (None, q) \<Rightarrow> a\<lparr>agent_queue := q\<rparr>
   | (Some t, q) \<Rightarrow>
       (case process_packet env t (agent_ctx a) of (reply, c) \<Rightarrow>
          a\<lparr>agent_ctx := c, agent_queue := q,
            sent6 := sent6 a @ (case reply of None \<Rightarrow> [] | Some out \<Rightarrow> [(out, snd t)])\<rparr>))"

inductive agent6_step :: "agent6 \<Rightarrow> agent6 \<Rightarrow> bool" where
  receive: "running6 a \<Longrightarrow> length (snd t) = 16 \<Longrightarrow> agent6_step a (receive_packet t a)"
| work: "agent6_step a (work env a)"
| clean: "running6 a \<Longrightarrow> agent6_step a (a\<lparr>agent_ctx := cleanup_round now (agent_ctx a)\<rparr>)"
| stop: "agent6_step a (a\<lparr>running6 := False, agent_queue := (agent_queue a)\<lparr>shutdown6 := True\<rparr>\<rparr>)"

section \<open>Lemmas\<close>

subsection \<open>The task queue\<close>

definition queue6_ok :: "task_queue_t \<Rightarrow> bool" where
  "queue6_ok q \<longleftrightarrow> ring_ok QUEUE_SIZE q"

interpretation task_fifo: bounded_fifo "\<lambda>q. if shutdown6 q then 0 else QUEUE_SIZE"
    "\<lambda>q. if shutdown6 q then [] else ring_items q" queue6_ok "\<lambda>_ q. \<not> shutdown6 q" queue_push worker_take
proof (unfold_locales, goal_cases)
  case (1 q)
  then show ?case by (simp add: queue6_ok_def ring_ok_def)
next
  case (2 q x)
  then show ?case
    using ring_push_ok [of QUEUE_SIZE q x] ring_push_items [of QUEUE_SIZE q x]
    by (auto simp: queue6_ok_def queue_push_def ring_push_def)
next
  case (3 q x)
  then show ?case by (auto simp: queue_push_def split: if_splits)
next
  case (4 q)
  then show ?case by (auto simp: worker_take_def split: if_splits)
next
  case (5 q x xs)
  then have "\<not> shutdown6 q" "0 < count q" using length_ring_items [of q] by (auto split: if_splits simp del: length_ring_items)
  then show ?case
    using 5 ring_pop_ok [of QUEUE_SIZE q] ring_pop_items [of QUEUE_SIZE q]
    by (auto simp: queue6_ok_def worker_take_def ring_pop_def)
qed

subsection \<open>The invariant\<close>

definition ctx_wf :: "server_ctx_t \<Rightarrow> bool" where
  "ctx_wf ctx \<longleftrightarrow> length (ctx_pools ctx) = length (subnets6 (ctx_config ctx))
     \<and> length (ctx_pd_pools ctx) = length (subnets6 (ctx_config ctx))
     \<and> list_all pool6_wf (ctx_pools ctx) \<and> list_all pd_wf (ctx_pd_pools ctx) \<and> db6_wf (ctx_db ctx)"

lemma client_hex_ok: "duid_text_ok (client_hex meta)"
proof -
  let ?d = "case meta_client_duid meta of None \<Rightarrow> [] | Some d \<Rightarrow> d"
  consider "?d = []" | "?d \<noteq> []" "length ?d \<le> 85" | "length ?d > 85" by fastforce
  then show ?thesis
  proof cases
    case 1
    have "duid_text_ok []" by code_simp
    then show ?thesis unfolding client_hex_def 1 by (simp add: duid_bin_to_hex_def)
  next
    case 2
    then show ?thesis using duid_roundtrip [of ?d 128 256] by (simp add: client_hex_def duid_text_ok_def)
  next
    case 3
    have "duid_text_ok []" by code_simp
    moreover have "snd (duid_bin_to_hex ?d 256) = []" using 3 by (auto simp: duid_bin_to_hex_def Let_def)
    ultimately show ?thesis by (simp add: client_hex_def)
  qed
qed

lemma long_client_hex: "meta_client_duid meta = Some d \<Longrightarrow> length d > 85 \<Longrightarrow> client_hex meta = []"
  by (auto simp: client_hex_def duid_bin_to_hex_def Let_def)

lemma client_hex_bytes:
  assumes "meta_client_duid meta = Some d" "d \<noteq> []" "length d \<le> 85"
  shows "client_hex meta \<noteq> []" "snd (duid_hex_to_bin (client_hex meta) 128) = d"
proof -
  have r: "fst (duid_bin_to_hex d 256) = int (3 * length d - 1)"
    "duid_hex_to_bin (snd (duid_bin_to_hex d 256)) 128 = (int (length d), d)"
    using duid_roundtrip [of d 128 256] assms(2,3) by simp_all
  then show "snd (duid_hex_to_bin (client_hex meta) 128) = d" by (simp add: client_hex_def assms(1))
  have "duid_hex_to_bin [] 128 = (0, [])" by code_simp
  then show "client_hex meta \<noteq> []" using r(2) assms(1,2) by (auto simp: client_hex_def)
qed

lemma ctx_wf_pool: "ctx_wf ctx \<Longrightarrow> has_pool ctx i \<Longrightarrow> i < length (ctx_pools ctx) \<and> pool6_wf (ctx_pools ctx ! i)"
  by (auto simp: ctx_wf_def has_pool_def list_all_length)

lemma ctx_wf_pd: "ctx_wf ctx \<Longrightarrow> has_pool ctx i \<Longrightarrow> i < length (ctx_pd_pools ctx) \<and> pd_wf (ctx_pd_pools ctx ! i)"
  by (auto simp: ctx_wf_def has_pool_def list_all_length)

lemma ctx_wf_db: "ctx_wf ctx \<Longrightarrow> db6_wf (ctx_db ctx)"
  by (simp add: ctx_wf_def)

lemma ctx_changes [simp]:
  "ctx_wf ctx \<Longrightarrow> pool6_wf p \<Longrightarrow> db6_wf db \<Longrightarrow> ctx_wf (put_pool i p db ctx)"
  "ctx_wf ctx \<Longrightarrow> pd_wf q \<Longrightarrow> db6_wf db \<Longrightarrow> ctx_wf (put_pd_pool i q db ctx)"
  "ctx_wf (count_active d ctx) \<longleftrightarrow> ctx_wf ctx"
  "ctx_wf ctx \<Longrightarrow> db6_wf db \<Longrightarrow> ctx_wf (ctx\<lparr>ctx_db := db\<rparr>)"
  by (simp_all add: ctx_wf_def put_pool_def put_pd_pool_def count_active_def list_all_update)

lemma ctx_same [simp]:
  "ctx_config (put_pool i p db ctx) = ctx_config ctx" "ctx_config (put_pd_pool i q db ctx) = ctx_config ctx"
  "ctx_config (count_active d ctx) = ctx_config ctx" "ctx_db (count_active d ctx) = ctx_db ctx"
  "ctx_db (put_pool i p db ctx) = db" "ctx_db (put_pd_pool i q db ctx) = db"
  "ctx_pd_pools (put_pool i p db ctx) = ctx_pd_pools ctx" "ctx_pools (put_pd_pool i q db ctx) = ctx_pools ctx"
  "ctx_pools (put_pool i p db ctx) = (ctx_pools ctx)[i := p]"
  "ctx_pd_pools (put_pd_pool i q db ctx) = (ctx_pd_pools ctx)[i := q]"
  "ctx_pools (count_active d ctx) = ctx_pools ctx" "ctx_pd_pools (count_active d ctx) = ctx_pd_pools ctx"
  by (simp_all add: put_pool_def put_pd_pool_def count_active_def)

lemma release_db:
  assumes "db6_wf db"
  shows "db6_wf (snd (lease_v6_release_ip io now db ip))" "db6_wf (snd (lease_v6_release_prefix io now db p l))"
    "db6_wf (snd (lease_v6_mark_conflict io now db ip))"
  using db6_exec_refines [OF assms, of "ReleaseIp ip" io now] db6_exec_refines [OF assms, of "ReleasePrefix p l" io now]
    set_state_refines [OF assms, of io now ip LEASE6_ABANDONED]
  by (simp_all add: lease_v6_mark_conflict_def)

lemma conflict_step:
  assumes "pool6_wf p" "db6_wf db" "ip6_pool_mark_conflict io now p ip (Some db) = (r, p', db')"
  shows "pool6_wf p' \<and> db6_wf (the db')"
  using assms mark_conflict_wf [OF assms(1), of io now ip "Some db"] release_db(3) [OF assms(2)]
  by (auto simp: ip6_pool_mark_conflict_def Let_def split: option.splits)

lemma give_up_wf: "ctx_wf ctx \<Longrightarrow> ctx_wf (give_up_prefix env i meta (give_up_address env i meta ctx))"
proof -
  assume wf: "ctx_wf ctx"
  have a: "ctx_wf (give_up_address env i meta ctx)"
    using wf release_db(1) ctx_wf_db [OF wf] conflict_step [OF conjunct2 [OF ctx_wf_pool [OF wf, of i]] ctx_wf_db [OF wf]]
    by (auto simp: give_up_address_def split: prod.split)
  have "db6_wf (the db')" "pd_wf q"
    if "pd_pool_release io now (ctx_pd_pools (give_up_address env i meta ctx) ! i) p l (Some (ctx_db (give_up_address env i meta ctx))) = (r, q, db')"
      "has_pool (give_up_address env i meta ctx) i" for io now p l r q db'
  proof -
    show "pd_wf q" using pd_release_wf [OF _ that(1)] ctx_wf_pd [OF a that(2)] by blast
    show "db6_wf (the db')"
      using that(1) a release_db(2) by (auto simp: pd_pool_release_def ctx_wf_def Let_def split: option.splits)
  qed
  then show ?thesis using a by (auto simp: give_up_prefix_def split: prod.split)
qed

lemma handle_ia_na_wf: "ctx_wf ctx \<Longrightarrow> ctx_wf (fst (handle_ia_na env i meta (ctx, out)))"
proof -
  assume wf: "ctx_wf ctx"
  show ?thesis
  proof (cases "meta_has_ia_na meta \<and> has_pool ctx i \<and> \<not> gives_up meta")
    case True
    let ?a = "\<lparr>arg_duid = client_hex meta, arg_iaid = meta_iaid meta, arg_hostname = None,
      arg_lease_time = default_lease_time6 (subnet_at ctx i), arg_now = env_now env, arg_io = env_io env, arg_ping = env_ping env\<rparr>"
    obtain r p db where r: "ip6_pool_allocate ?a (ctx_config ctx) (meta_requested_ip meta) (ctx_pools ctx ! i) (ctx_db ctx) = (r, p, db)"
      by (metis prod_cases3)
    have "pool6_wf p" using allocate_ok [OF _ r] ctx_wf_pool [OF wf, of i] True by (auto simp: alloc6_ok_def)
    moreover have "db6_wf db"
      using allocate_db [of "ctx_db ctx" ?a "ctx_config ctx" "meta_requested_ip meta" "ctx_pools ctx ! i"] wf client_hex_ok r
      by (simp add: ctx_wf_def)
    ultimately show ?thesis using wf True r by (simp add: handle_ia_na_def Let_def)
  qed (use wf in \<open>auto simp: handle_ia_na_def Let_def\<close>)
qed

lemma handle_ia_pd_wf: "ctx_wf ctx \<Longrightarrow> ctx_wf (fst (handle_ia_pd env i meta (ctx, out)))"
proof -
  assume wf: "ctx_wf ctx"
  show ?thesis
  proof (cases "meta_has_ia_pd meta \<and> has_pool ctx i \<and> \<not> gives_up meta")
    case True
    let ?a = "\<lparr>pa_duid = client_hex meta, pa_iaid = meta_iaid_pd meta, pa_hostname = None,
      pa_lease_time = default_lease_time6 (subnet_at ctx i), pa_now = env_now env\<rparr>"
    obtain r p db where r: "pd_pool_allocate ?a (ctx_pd_pools ctx ! i) (ctx_db ctx) = (r, p, db)" by (metis prod_cases3)
    have "pd_wf p" using pd_allocate_wf [OF _ r] ctx_wf_pd [OF wf, of i] True by blast
    moreover have "db6_wf db"
      using pd_allocate_db [of "ctx_db ctx" ?a "ctx_pd_pools ctx ! i"] wf client_hex_ok r by (simp add: ctx_wf_def)
    ultimately show ?thesis using wf True r by (simp add: handle_ia_pd_def Let_def)
  qed (use wf in \<open>auto simp: handle_ia_pd_def Let_def\<close>)
qed

lemma process_packet_wf: "ctx_wf ctx \<Longrightarrow> ctx_wf (snd (process_packet env task ctx))"
  using give_up_wf handle_ia_na_wf handle_ia_pd_wf
  by (simp add: process_packet_def Let_def split_beta split: option.split) (metis prod.collapse)

lemma cleanup_round_wf: "ctx_wf ctx \<Longrightarrow> ctx_wf (cleanup_round now ctx)"
proof -
  assume wf: "ctx_wf ctx"
  let ?m = "lease_v6_mark_expired_older now (ctx_db ctx)"
  have "db6_wf (snd ?m)" using db6_exec_refines [of "ctx_db ctx" MarkExpired] wf by (simp add: ctx_wf_def)
  moreover have "db6_wf (snd (lease_v6_cleanup (snd ?m)))" using db6_exec_refines [OF calculation, of CleanupDb] by simp
  ultimately show ?thesis
    using wf sync_wf by (auto simp: cleanup_round_def ctx_wf_def Let_def split_beta list_all_iff)
qed

lemma start_wf:
  assumes "dhcpv6_agent_start mktime now conf path shm = Returns (Some ctx)"
  shows "ctx_wf ctx"
proof -
  let ?cfg = "convert_all_to_binary (snd (load_config_v6 conf))"
  obtain rc db where l: "lease_v6_db_load mktime path (lease_v6_db_init ''DHCPv6/leases/dhcpd6.leases'') = Returns (rc, db)"
    and c: "ctx_config ctx = ?cfg" "ctx_db ctx = db" "ctx_pools ctx = map (\<lambda>s. pool_or_empty now s db) (subnets6 ?cfg)"
      "ctx_pd_pools ctx = map (\<lambda>s. snd (pd_pool_init s (Some db) (pd_prefix_len s))) (subnets6 ?cfg)"
    using assms
    by (cases "lease_v6_db_load mktime path (lease_v6_db_init ''DHCPv6/leases/dhcpd6.leases'')")
      (auto simp: dhcpv6_agent_start_def Let_def split_beta split: if_splits)
  have "db6_wf (lease_v6_db_init ''DHCPv6/leases/dhcpd6.leases'')" by (simp add: lease_v6_db_init_def db6_wf_def)
  then have db: "db6_wf db" by (rule load_db_wf [OF l])
  have s: "length (pool_start_bin s) = 16 \<and> length (pd_pool_start_bin s) = 16 \<and> length (pd_pool_end_bin s) = 16"
    if "s \<in> set (subnets6 ?cfg)" for s
    using convert_all_ok [OF load_config_v6_ok [of conf]] that
    by (auto simp: config6_ok_def subnet6_ok_def addresses6_ok_def list_all_iff)
  have "pool6_wf (pool_or_empty now s db)" if "s \<in> set (subnets6 ?cfg)" for s
    using s [OF that] init6_wf [of now s "Some db"] by (auto simp: pool_or_empty_def pool6_wf_def split: option.split)
  moreover have "pd_wf (snd (pd_pool_init s (Some db) (pd_prefix_len s)))" if "s \<in> set (subnets6 ?cfg)" for s
    using s [OF that] pd_init_wf [of s "Some db" "pd_prefix_len s"] by (metis prod.collapse)
  ultimately show ?thesis using db by (simp add: ctx_wf_def c list_all_iff)
qed

subsection \<open>Runs\<close>

definition agent6_inv :: "agent6 \<Rightarrow> bool" where
  "agent6_inv a \<longleftrightarrow> ctx_wf (agent_ctx a) \<and> queue6_ok (agent_queue a)"

lemma take_ok: "queue6_ok q \<Longrightarrow> queue6_ok (snd (worker_take q))"
  using task_fifo.deq_cases [of q "fst (worker_take q)" "snd (worker_take q)"] by simp

lemma push_ok: "queue6_ok q \<Longrightarrow> queue6_ok (snd (queue_push t q))"
  using task_fifo.enq_cases [of q t "fst (queue_push t q)" "snd (queue_push t q)"] by simp

lemma agent6_step_inv: "agent6_step a a' \<Longrightarrow> agent6_inv a \<Longrightarrow> agent6_inv a'"
proof (induction rule: agent6_step.induct)
  case (receive a t)
  then show ?case using push_ok by (simp add: agent6_inv_def receive_packet_def ctx_wf_def Let_def)
next
  case (work a env)
  then show ?case
    using take_ok [of "agent_queue a"] process_packet_wf [of "agent_ctx a" env]
    by (auto simp: agent6_inv_def work_def split: prod.splits option.splits) (metis snd_conv)+
next
  case (clean a now)
  then show ?case using cleanup_round_wf by (simp add: agent6_inv_def)
next
  case (stop a)
  then show ?case by (simp add: agent6_inv_def queue6_ok_def ring_ok_def)
qed

interpretation agent6_run: invariant_system agent6_inv agent6_step agent6_inv
  by unfold_locales (use agent6_step_inv in blast)+

subsection \<open>Replies on the wire\<close>

definition is_reply :: "u8 \<Rightarrow> u32 \<Rightarrow> (u16 \<times> u8 list) list \<Rightarrow> u8 list \<Rightarrow> bool" where
  "is_reply rt x os out \<longleftrightarrow> out = rt # dhcpv6_set_xid x @ wire_options os \<and> (\<forall>(code, val) \<in> set os. length val < 2 ^ 16)"

lemma is_reply_parse:
  "is_reply rt x os out \<Longrightarrow> dhcpv6_parse out =
     Some (foldl parse_option (zero_meta\<lparr>meta_msg_type := rt, meta_transaction_id := x AND 0x00FFFFFF\<rparr>) os)"
  using parse_wire [of os rt x] by (auto simp: is_reply_def)

lemma is_reply_add:
  "is_reply rt x os out \<Longrightarrow> length val < 2 ^ 16 \<Longrightarrow> is_reply rt x (os @ [(code, val)]) (out @ option_bytes code val)"
  by (auto simp: is_reply_def wire_options_def)

lemma front_reply:
  assumes "meta_client_duid meta = Some d" "d \<noteq> []" "length d \<le> 85"
  shows "is_reply rt (meta_transaction_id meta) [(OPT_SERVERID, server_duid), (OPT_CLIENTID, d)] (reply_front rt meta)"
    "length (reply_front rt meta) \<le> 111"
proof -
  let ?h = "rt # dhcpv6_set_xid (meta_transaction_id meta)"
  have l: "length server_duid = 14" by (simp add: server_duid_def)
  have f: "reply_front rt meta = ?h @ option_bytes OPT_SERVERID server_duid @ option_bytes OPT_CLIENTID d"
    using assms l by (simp add: reply_front_def dhcpv6_append_option_def appended_def wire_lengths Let_def)
  show "is_reply rt (meta_transaction_id meta) [(OPT_SERVERID, server_duid), (OPT_CLIENTID, d)] (reply_front rt meta)"
    using assms l by (simp add: f is_reply_def wire_options_def)
  show "length (reply_front rt meta) \<le> 111" using assms l by (simp add: f wire_lengths)
qed

lemma length_addresses: "\<forall>a \<in> set xs. length a = 16 \<Longrightarrow> length (concat xs) = 16 * length xs"
  by (induction xs) auto

lemma dns_reply:
  obtains (none) "append_dns ctx i out = out"
  | (some) val where "append_dns ctx i out = out @ option_bytes OPT_DNS_SERVERS val" "length val \<le> 128"
proof -
  define s where "s = (if dns_servers6 (subnet_at ctx i) \<noteq> [] then dns_servers6 (subnet_at ctx i)
    else g6_dns_servers (global6 (ctx_config ctx)))"
  let ?dl = "str_to_ipv6_list s 8"
  have dl: "length ?dl \<le> 8" "\<forall>a \<in> set ?dl. length a = 16"
    using str_to_ipv6_list_sound(1) [of s 8] str_to_ipv6_list_sound(2) [of _ s 8] by auto
  define use where "use = min (length ?dl) ((BUF_SIZE - length out - 4) div 16)"
  let ?val = "concat (take use ?dl)"
  have use: "use \<le> length ?dl" "use \<le> 8" using dl(1) by (simp_all add: use_def min.coboundedI1)
  have "\<forall>a \<in> set (take use ?dl). length a = 16" using dl(2) by (meson in_set_takeD)
  from length_addresses [OF this] have c: "length ?val = use * 16" using use(1) by (simp only: length_take min.absorb2 mult.commute)
  have "unat (of_nat (use * 16) :: u16) = use * 16"
    unfolding unat_of_nat using use(2) by simp
  then have o: "put16 OPT_DNS_SERVERS @ put16 (of_nat (use * 16)) @ take (unat (of_nat (use * 16) :: u16)) ?val
      = option_bytes OPT_DNS_SERVERS ?val"
    using c by (simp only: option_bytes_def take_all order_refl)
  have "append_dns ctx i out = out \<or> append_dns ctx i out = out @ option_bytes OPT_DNS_SERVERS ?val"
    unfolding append_dns_def Let_def s_def [symmetric] dhcpv6_append_dns_servers_def use_def [symmetric] o
    by (simp only: option.case split: if_split) blast
  moreover have "length ?val \<le> 128" using c use(2) by linarith
  ultimately show thesis using none some by metis
qed

lemma front_dns_reply:
  assumes "meta_client_duid meta = Some d" "d \<noteq> []" "length d \<le> 85"
  shows "\<exists>ds. is_reply rt (meta_transaction_id meta) ([(OPT_SERVERID, server_duid), (OPT_CLIENTID, d)] @ ds)
      (append_dns ctx i (reply_front rt meta))
    \<and> length (append_dns ctx i (reply_front rt meta)) \<le> 300 \<and> (ds = [] \<or> (\<exists>val. ds = [(OPT_DNS_SERVERS, val)]))"
proof (cases rule: dns_reply [of ctx i "reply_front rt meta"])
  case none
  then show ?thesis using front_reply [OF assms, of rt] by (intro exI [of _ "[]"]) simp
next
  case (some val)
  have "is_reply rt (meta_transaction_id meta) ([(OPT_SERVERID, server_duid), (OPT_CLIENTID, d)] @ [(OPT_DNS_SERVERS, val)])
      (append_dns ctx i (reply_front rt meta))"
    unfolding some(1) by (rule is_reply_add [OF front_reply(1) [OF assms]]) (use some(2) in simp)
  then show ?thesis using front_reply(2) [OF assms, of rt] some by (intro exI [of _ "[(OPT_DNS_SERVERS, val)]"]) (simp add: wire_lengths)
qed

text \<open>The part of the metadata that the IA_NA and the identifiers set.\<close>

definition na_view :: "dhcpv6_packet_meta_t \<Rightarrow>
    u8 \<times> u32 \<times> u8 list option \<times> u8 list option \<times> bool \<times> u32 \<times> bool \<times> in6_addr" where
  "na_view m = (meta_msg_type m, meta_transaction_id m, meta_client_duid m, meta_server_duid m, meta_has_ia_na m,
     meta_iaid m, meta_has_requested_ip m, meta_requested_ip m)"

lemma na_view_iaprefix: "na_view (foldl parse_iaprefix m os) = na_view m"
  by (induction os arbitrary: m) (auto simp: parse_iaprefix_def na_view_def split: prod.split)

lemma na_view_others:
  "na_view (parse_option m (OPT_DNS_SERVERS, val)) = na_view m" "na_view (parse_option m (OPT_IA_PD, val)) = na_view m"
  by (simp_all add: parse_option_def na_view_iaprefix) (simp_all add: na_view_def)

lemma parse_na_error:
  "na_view (parse_option m (OPT_IA_NA, set_u32 iaid @ set_u32 t1 @ set_u32 t2 @ error_status st)) =
   na_view (m\<lparr>meta_iaid := iaid, meta_has_ia_na := True\<rparr>)"
proof -
  let ?val = "put16 st @ map of_char ''Error''"
  have d: "drop 12 (set_u32 iaid @ set_u32 t1 @ set_u32 t2 @ error_status st) = error_status st" by (simp add: wire_lengths)
  have "options_of (error_status st) = [(OPT_STATUS_CODE, ?val)]"
    using options_of_bytes [of ?val OPT_STATUS_CODE "[]"] by (simp add: error_status_def wire_lengths)
  then show ?thesis
    unfolding parse_option_def prod.case d by (simp add: parse_iaaddr_def wire_lengths get_set_u32 error_status_def)
qed

text \<open>What the two handlers append, for a client that asks for something.\<close>

lemma ia_pd_reply:
  assumes "is_reply rt x os out" "length out \<le> 400" "ctx_wf ctx" "\<not> gives_up meta"
    and "handle_ia_pd env i meta (ctx, out) = (ctx', out')"
  shows "\<exists>os'. is_reply rt x (os @ os') out' \<and> (os' = [] \<or> (\<exists>val. os' = [(OPT_IA_PD, val)]))
    \<and> (\<forall>a. db6_abs (ctx_db ctx') (Addr a) = db6_abs (ctx_db ctx) (Addr a)) \<and> length out \<le> length out'"
proof (cases "meta_has_ia_pd meta \<and> has_pool ctx i")
  case False
  then show ?thesis using assms(1,5) by (auto simp: handle_ia_pd_def Let_def intro!: exI [of _ "[]"])
next
  case True
  let ?a = "\<lparr>pa_duid = client_hex meta, pa_iaid = meta_iaid_pd meta, pa_hostname = None,
    pa_lease_time = default_lease_time6 (subnet_at ctx i), pa_now = env_now env\<rparr>"
  obtain r p db where r: "pd_pool_allocate ?a (ctx_pd_pools ctx ! i) (ctx_db ctx) = (r, p, db)" by (metis prod_cases3)
  have keep: "db6_abs db (Addr a) = db6_abs (ctx_db ctx) (Addr a)" for a
    using pd_allocate_db [of "ctx_db ctx" ?a "ctx_pd_pools ctx ! i" a] ctx_wf_db [OF assms(3)] client_hex_ok [of meta] r by simp
  have l: "length (result_prefix r) = 16" if "pd_success r"
    using pd_granted_length [OF _ r that] ctx_wf_pd [OF assms(3)] True by simp
  obtain val where "out' = out @ option_bytes OPT_IA_PD val" "length val \<le> 41" "ctx_db ctx' = db"
    using assms(2,4,5) True r l
    by (cases "pd_success r")
      (auto simp: handle_ia_pd_def dhcpv6_append_ia_pd_def appended_def error_status_def wire_lengths Let_def split: if_splits)
  then show ?thesis using is_reply_add [OF assms(1), of val OPT_IA_PD] keep by auto
qed

lemma ia_na_reply:
  assumes "is_reply rt x os out" "length out \<le> 300" "ctx_wf ctx" "\<not> gives_up meta"
    and "meta_has_ia_na meta" "has_pool ctx i" "length (leases6 (ctx_db ctx)) < LEASES6_MAX"
    and "meta_client_duid meta = Some d" "d \<noteq> []" "length d \<le> 85"
    and "handle_ia_na env i meta (ctx, out) = (ctx', out')"
  shows "\<exists>val. is_reply rt x (os @ [(OPT_IA_NA, val)]) out' \<and> length out' \<le> 400
    \<and> (\<forall>m. let v = parse_option m (OPT_IA_NA, val) in
        (na_view v = na_view (m\<lparr>meta_iaid := meta_iaid meta, meta_has_ia_na := True\<rparr>)
         \<or> (\<exists>ip L. na_view v = na_view (m\<lparr>meta_iaid := meta_iaid meta, meta_has_ia_na := True,
                meta_requested_ip := ip, meta_has_requested_ip := True\<rparr>)
              \<and> db6_abs (ctx_db ctx') (Addr ip) = Some L
              \<and> holds_lease6 (env_now env) (meta_iaid meta) (default_lease_time6 (subnet_at ctx i)) (client_hex meta) L)))"
proof -
  let ?t = "default_lease_time6 (subnet_at ctx i)" and ?m = "max_lease_time6 (subnet_at ctx i)"
  let ?a = "\<lparr>arg_duid = client_hex meta, arg_iaid = meta_iaid meta, arg_hostname = None,
    arg_lease_time = ?t, arg_now = env_now env, arg_io = env_io env, arg_ping = env_ping env\<rparr>"
  obtain r p db where r: "ip6_pool_allocate ?a (ctx_config ctx) (meta_requested_ip meta) (ctx_pools ctx ! i) (ctx_db ctx) = (r, p, db)"
    by (metis prod_cases3)
  note wf = ctx_wf_pool [OF assms(3,6)]
  have db: "ctx_db ctx' = db" using assms(4,5,6,11) r by (auto simp: handle_ia_na_def Let_def split: if_splits)
  show ?thesis
  proof (cases "success6 r")
    case True
    have lease: "leased6 ?a (result_ip6 r) db"
      using allocate_leased [OF _ _ _ r] True assms(7) ctx_wf_db [OF assms(3)] client_hex_ok [of meta]
        client_hex_bytes(1) [OF assms(8-10)] by (simp add: db6_room_def)
    have len: "length (result_ip6 r) = 16"
      using allocate_ok [OF conjunct2 [OF wf] r] True pool6_address [OF conjunct2 [OF wf]] by (auto simp: alloc6_ok_def)
    let ?val = "set_u32 (meta_iaid meta) @ set_u32 ?t @ set_u32 ?m
      @ option_bytes OPT_IAADDR (result_ip6 r @ set_u32 ?t @ set_u32 ?m)"
    have o: "out' = out @ option_bytes OPT_IA_NA ?val"
      using assms(2,4,5,6,11) r True len
      by (auto simp: handle_ia_na_def dhcpv6_append_ia_na_def appended_def wire_lengths Let_def split: if_splits)
    have "is_reply rt x (os @ [(OPT_IA_NA, ?val)]) out'"
      unfolding o by (rule is_reply_add [OF assms(1)]) (simp add: len wire_lengths)
    moreover have "length out' \<le> 400" using assms(2) len by (simp add: o wire_lengths)
    ultimately show ?thesis
      using lease by (intro exI [of _ ?val]) (auto simp: parse_ia_na [OF len] leased6_def db Let_def)
  next
    case False
    let ?val = "set_u32 (meta_iaid meta) @ set_u32 0 @ set_u32 0 @ error_status STATUS_NOADDRSAVAIL"
    have o: "out' = out @ option_bytes OPT_IA_NA ?val"
      using assms(2,4,5,6,11) r False
      by (auto simp: handle_ia_na_def dhcpv6_append_ia_na_def appended_def error_status_def wire_lengths Let_def split: if_splits)
    have l: "length ?val = 23" by (simp add: wire_lengths error_status_def)
    have "is_reply rt x (os @ [(OPT_IA_NA, ?val)]) out'"
      unfolding o by (rule is_reply_add [OF assms(1)]) (simp only: l, simp)
    moreover have "length out' \<le> 400" using assms(2) by (simp add: o wire_lengths error_status_def)
    ultimately show ?thesis by (intro exI [of _ ?val]) (simp add: parse_na_error Let_def)
  qed
qed

subsection \<open>Cleanup and the pools\<close>

text \<open>Synchronising touches no entry whose address has no lease.\<close>

lemma update_from_lease_other:
  assumes "pool6_wf p" "i < length (entries6 p)" "ip_address6 (entries6 p ! i) \<noteq> ip6_addr L"
  shows "entries6 (ip6_pool_update_from_lease p L) ! i = entries6 p ! i
    \<and> length (entries6 (ip6_pool_update_from_lease p L)) = length (entries6 p)"
proof (cases "ip6_pool_find_entry p (ip6_addr L)")
  case None
  then show ?thesis by (simp add: ip6_pool_update_from_lease_def)
next
  case (Some k)
  then have "k \<noteq> i" using assms(3) by_entry6.find_key by metis
  then show ?thesis
    using Some by (simp add: ip6_pool_update_from_lease_def Let_def enter_state6_def leave_state6_def put_entry6_def
        split: ip6_state_t.split)
qed

lemma update_length: "length (entries6 (ip6_pool_update_from_lease p L)) = length (entries6 p)"
  by (simp add: ip6_pool_update_from_lease_def Let_def enter_state6_def leave_state6_def put_entry6_def
      split: option.split ip6_state_t.split)

lemma sync_length: "length (entries6 (ip6_pool_sync_with_leases p db)) = length (entries6 p)"
proof -
  have "length (entries6 (foldl (\<lambda>p L. if \<not> in_use6 L then p else ip6_pool_update_from_lease p L) p Ls)) = length (entries6 p)" for Ls
    by (induction Ls arbitrary: p) (simp_all add: update_length)
  then show ?thesis by (simp add: ip6_pool_sync_with_leases_def)
qed

lemma sync_other:
  assumes "pool6_wf p" "i < length (entries6 p)" "\<forall>L \<in> set Ls. in_use6 L \<longrightarrow> ip6_addr L \<noteq> ip_address6 (entries6 p ! i)"
  shows "entries6 (foldl (\<lambda>p L. if \<not> in_use6 L then p else ip6_pool_update_from_lease p L) p Ls) ! i = entries6 p ! i"
  using assms
proof (induction Ls arbitrary: p)
  case (Cons L Ls)
  show ?case
  proof (cases "in_use6 L")
    case True
    let ?q = "ip6_pool_update_from_lease p L"
    have u: "entries6 ?q ! i = entries6 p ! i" "length (entries6 ?q) = length (entries6 p)"
      using update_from_lease_other [OF Cons.prems(1,2), of L] Cons.prems(3) True by auto
    have "entries6 (foldl (\<lambda>p L. if \<not> in_use6 L then p else ip6_pool_update_from_lease p L) ?q Ls) ! i = entries6 ?q ! i"
      using Cons.prems u by (intro Cons.IH update_from_lease_wf) simp_all
    then show ?thesis using True u by simp
  next
    case False
    then show ?thesis using Cons by simp
  qed
qed simp

lemma expired_rows_removed:
  assumes "db6_wf db" "db6_abs db (Addr ip) = Some L" "state6 L = LEASE6_ACTIVE" "ends6 L < now"
    and "lease_v6_mark_expired_older now db = (n, db1)"
  shows "n > 0 \<and> db6_abs (snd (lease_v6_cleanup db1)) (Addr ip) = None
    \<and> (\<forall>M \<in> set (leases6 (snd (lease_v6_cleanup db1))). \<exists>M' \<in> set (leases6 db). ip6_addr M = ip6_addr M' \<and> type6 M = type6 M')"
proof -
  have L: "L \<in> set (leases6 db)" using assms(2) by (auto simp: db6_abs_def key_rows_def dest: map_of_SomeD)
  have u: "list_all in_use6 (leases6 db)" using assms(1) by (simp add: db6_wf_def list_all_iff)
  have d: "db1 = db\<lparr>leases6 := map (expired_lease6 now) (leases6 db)\<rparr>"
    and n: "n = int (count_if (lease_v6_is_expired now) (leases6 db))"
    using assms(5) lease_v6_expire_eq [OF u, of now] by simp_all
  have e: "lease_v6_is_expired now L" using L u assms(3,4) by (auto simp: lease_v6_is_expired_def list_all_iff)
  then have "n > 0" using L unfolding n by (auto simp: count_if_def filter_empty_conv)
  have x: "db6_wf db1" "db6_abs db1 = spec6_exec now MarkExpired (db6_abs db)"
    using db6_exec_refines [OF assms(1), of MarkExpired _ now] assms(5) by simp_all
  have "is_dead6 (expired_lease6 now L)"
    using e L u by (auto simp: is_dead6_def expired_lease6_def list_all_iff)
  then have "db6_abs (snd (lease_v6_cleanup db1)) (Addr ip) = None"
    using db6_exec_refines [OF x(1), of CleanupDb _ now] x(2) assms(2) by simp
  moreover have "\<forall>M \<in> set (leases6 (snd (lease_v6_cleanup db1))). \<exists>M' \<in> set (leases6 db). ip6_addr M = ip6_addr M' \<and> type6 M = type6 M'"
    by (auto simp: lease_v6_cleanup_eq d expired_lease6_def)
  ultimately show ?thesis using \<open>n > 0\<close> by blast
qed

lemma expired_entry_stays:
  assumes "ctx_wf ctx" "k < length (ctx_pools ctx)" "i < length (entries6 (ctx_pools ctx ! k))"
    and "ip = ip_address6 (entries6 (ctx_pools ctx ! k) ! i)"
    and "db6_abs (ctx_db ctx) (Addr ip) = Some L" "state6 L = LEASE6_ACTIVE" "ends6 L < now"
    and "\<forall>M \<in> set (leases6 (ctx_db ctx)). ip6_addr M = ip \<longrightarrow> type6 M = Lease6_IA_NA"
  shows "db6_abs (ctx_db (cleanup_round now ctx)) (Addr ip) = None
    \<and> entries6 (ctx_pools (cleanup_round now ctx) ! k) ! i = entries6 (ctx_pools ctx ! k) ! i"
proof -
  obtain n db1 where m: "lease_v6_mark_expired_older now (ctx_db ctx) = (n, db1)" by fastforce
  let ?db = "snd (lease_v6_cleanup db1)"
  note r = expired_rows_removed [OF ctx_wf_db [OF assms(1)] assms(5-7) m]
  have wf: "pool6_wf (ctx_pools ctx ! k)" using assms(1,2) by (simp add: ctx_wf_def list_all_length)
  have "ip6_addr M \<noteq> ip" if "M \<in> set (leases6 ?db)" "in_use6 M" for M
  proof
    assume ip: "ip6_addr M = ip"
    then have "type6 M = Lease6_IA_NA" using r that(1) assms(8) by metis
    then have "key6 M = Some (Addr ip)" using that(2) ip by (simp add: key6_def)
    then have "Some (Addr ip) \<in> dom (map_of (key_rows key6 (leases6 ?db)))"
      unfolding dom_key_rows using that(1) by (intro rev_image_eqI [of M]) simp_all
    then have "db6_abs ?db (Addr ip) \<noteq> None" by (simp only: db6_abs_def domIff not_False_eq_True)
    then show False using r by simp
  qed
  then have "entries6 (ip6_pool_sync_with_leases (ctx_pools ctx ! k) ?db) ! i = entries6 (ctx_pools ctx ! k) ! i"
    unfolding ip6_pool_sync_with_leases_def using assms(4) by (intro sync_other [OF wf assms(3)]) auto
  then show ?thesis using r assms(2) m by (simp add: cleanup_round_def Let_def)
qed

lemma allocated_entry_kept_from_others:
  assumes "pool6_wf p" "i < length (entries6 p)" "entry_state6 (entries6 p ! i) = IP6_STATE_ALLOCATED"
    and "ip6_pool_allocate a cfg ip p db = (r, p', db')" "success6 r"
    and "fixed_entry (arg_duid a) p = None" "arg_duid a \<noteq> entry_duid (entries6 p ! i)"
  shows "result_ip6 r \<noteq> ip_address6 (entries6 p ! i)"
proof
  assume eq: "result_ip6 r = ip_address6 (entries6 p ! i)"
  obtain k where k: "k < length (entries6 p)" "result_ip6 r = ip_address6 (entries6 p ! k)"
    "own_entry (arg_duid a) p = Some k \<or> entry_state6 (entries6 p ! k) = IP6_STATE_AVAILABLE"
    using allocate_ok [OF assms(1,4)] assms(5,6) by (auto simp: alloc6_ok_def)
  have "k = i"
    using assms(1,2) k(1,2) eq by (auto simp: pool6_wf_def distinct_conv_nth)
  then show False
    using k(3) assms(3,7) by (auto simp: own_entry_def dest!: find_idx_SomeD)
qed

subsection \<open>Long identifiers\<close>

lemma pd_again:
  assumes "pd_wf p" "pd_pool_allocate a p db = (r, p', db')" "pd_success r" "length (pa_duid a) < 128"
    and "pa_duid b = pa_duid a" "pd_pool_allocate b p' db2 = (r2, p2, db3)"
  shows "pd_success r2 \<and> result_prefix r2 = result_prefix r \<and> result_plen r2 = result_plen r \<and> \<not> pd_is_new r2"
proof -
  have "\<exists>i. pd_own (pa_duid a) p' = Some i \<and> result_prefix r = pd_prefix (pd_entries p' ! i) \<and> result_plen r = pd_plen (pd_entries p' ! i)"
    using assms(1,2)
  proof (cases rule: pd_allocate_cases)
    case (own i)
    then show ?thesis by (auto simp: pd_granted_def)
  next
    case (fresh i)
    note i = pd_find_bound(3) [OF fresh(2)]
    have "pd_own (pa_duid a) p' = Some i"
      unfolding pd_own_def
    proof (rule find_idx_first)
      fix j assume "j < i"
      then show "\<not> (pd_state (pd_entries p' ! j) = IP6_STATE_ALLOCATED \<and> pd_duid (pd_entries p' ! j) = pa_duid a)"
        using fresh(1,4) i by (auto simp: pd_own_def find_idx_None)
    qed (use i fresh(4) assms(4) in \<open>auto simp: pd_taken_def\<close>)
    then show ?thesis using fresh(3,4) i by (auto simp: pd_granted_def pd_taken_def)
  qed (use assms(3) in auto)
  then show ?thesis using assms(5,6) by (auto simp: pd_pool_allocate_def pd_granted_def empty_pd_result_def)
qed

section \<open>Properties\<close>

text \<open>A server for the sample subnet, and a SOLICIT of a client for one address.\<close>

definition sample_ctx6 :: server_ctx_t where
  "sample_ctx6 = \<lparr>ctx_config = sample_config6, ctx_db = sample_table6, ctx_pools = [sample_pool6],
     ctx_pd_pools = [snd (pd_pool_init sample_subnet6 None 64)], ctx_stats = None\<rparr>"

definition sample_solicit :: "u8 list" where
  "sample_solicit = MSG_SOLICIT # dhcpv6_set_xid 0x10203
     @ wire_options [(OPT_CLIENTID, [0, 3, 10]), (OPT_IA_NA, set_u32 7 @ set_u32 0 @ set_u32 0)]"

definition sample_env6 :: env6 where
  "sample_env6 = \<lparr>env_now = 100, env_io = True, env_ping = (\<lambda>_ _. False)\<rparr>"

definition sample_src6 :: in6_addr where
  "sample_src6 = [0xFE, 0x80] @ replicate 13 0 @ [9]"

definition sample_meta6 :: dhcpv6_packet_meta_t where
  "sample_meta6 = the (dhcpv6_parse sample_solicit)"

lemma sample_request6:
  "dhcpv6_parse sample_solicit = Some sample_meta6" "meta_msg_type sample_meta6 = MSG_SOLICIT"
  "meta_client_duid sample_meta6 = Some [0, 3, 10]" "meta_has_ia_na sample_meta6" "meta_iaid sample_meta6 = 7"
  "has_pool sample_ctx6 (find_subnet sample_ctx6 sample_src6)" "default_lease_time6 (subnet_at sample_ctx6 (find_subnet sample_ctx6 sample_src6)) = 0"
  by (simp add: sample_meta6_def sample_solicit_def dhcpv6_parse_def wire_lengths) code_simp+

lemma sample_ctx6_wf: "ctx_wf sample_ctx6"
proof -
  have "length (pd_pool_start_bin sample_subnet6) = 16" "length (pd_pool_end_bin sample_subnet6) = 16" by code_simp+
  then have "pd_wf (snd (pd_pool_init sample_subnet6 None 64))"
    using pd_init_wf [of sample_subnet6 None 64] by (metis prod.collapse)
  then show ?thesis
    using sample_pool6_wf
    by (simp add: ctx_wf_def sample_ctx6_def sample_config6_def sample_table6_def lease_v6_db_init_def db6_wf_def)
qed

text \<open>
  C13: The DHCPv6 server keeps its invariants.  When the agent starts, from any configuration file that loads and
  any lease file on which loading ends, and then receives packets of any content, lets workers process
  them and cleanup rounds run in any order until and after it is stopped, then the lease table has at
  most one row per address and prefix, the counters of every address and prefix pool are exact, no
  two prefixes of a pool overlap, and the task queue never holds more than 256 packets.
\<close>

theorem agent6_invariant:
  assumes "dhcpv6_agent_start mktime now conf path shm = Returns (Some ctx)" "length tasks = QUEUE_SIZE"
    and "agent6_step\<^sup>*\<^sup>* \<lparr>agent_ctx = ctx, agent_queue = queue_init tasks, running6 = True, sent6 = []\<rparr> a"
  shows "db6_wf (ctx_db (agent_ctx a)) \<and> list_all pool6_wf (ctx_pools (agent_ctx a))
    \<and> list_all pd_wf (ctx_pd_pools (agent_ctx a)) \<and> length (ring_items (agent_queue a)) \<le> QUEUE_SIZE"
proof -
  have "agent6_inv \<lparr>agent_ctx = ctx, agent_queue = queue_init tasks, running6 = True, sent6 = []\<rparr>"
    using start_wf [OF assms(1)] assms(2) by (simp add: agent6_inv_def queue6_ok_def ring_ok_def queue_init_def)
  from agent6_run.reachable_inv [OF this assms(3)] show ?thesis
    by (simp add: agent6_inv_def ctx_wf_def queue6_ok_def ring_ok_def)
qed

definition sample_boot6 :: "server_ctx_t option outcome" where
  "sample_boot6 = dhcpv6_agent_start (\<lambda>_. 0) 5 (Some sample_file6) None False"

definition sample_agent6 :: agent6 where
  "sample_agent6 = \<lparr>agent_ctx = (case sample_boot6 of Returns (Some c) \<Rightarrow> c | _ \<Rightarrow> sample_ctx6),
     agent_queue = queue_init (replicate QUEUE_SIZE ([], [])), running6 = True, sent6 = []\<rparr>"

lemma sample_started6: "sample_boot6 = Returns (Some (agent_ctx sample_agent6))"
proof -
  have "fst (load_config_v6 (Some sample_file6)) = 0" using sample_file6_loaded by simp
  then show ?thesis
    by (simp add: sample_agent6_def sample_boot6_def dhcpv6_agent_start_def lease_v6_db_load_def Let_def split_beta)
qed

theorem agent6_invariant_witness:
  "agent6_step\<^sup>*\<^sup>* sample_agent6 (receive_packet (sample_solicit, sample_src6) sample_agent6)
   \<and> list_all pool6_wf (ctx_pools (agent_ctx (receive_packet (sample_solicit, sample_src6) sample_agent6)))"
proof -
  have "agent6_step\<^sup>*\<^sup>* sample_agent6 (receive_packet (sample_solicit, sample_src6) sample_agent6)"
    using agent6_step.receive [of sample_agent6 "(sample_solicit, sample_src6)"]
    by (simp add: sample_agent6_def sample_src6_def)
  moreover have "sample_agent6 = \<lparr>agent_ctx = agent_ctx sample_agent6, agent_queue = queue_init (replicate QUEUE_SIZE ([], [])),
      running6 = True, sent6 = []\<rparr>" by (simp add: sample_agent6_def)
  ultimately show ?thesis
    using agent6_invariant [OF sample_started6 [unfolded sample_boot6_def] length_replicate,
        of "([], [])" "receive_packet (sample_solicit, sample_src6) sample_agent6"] by metis
qed

lemma reply6_lease:
  assumes "ctx_wf ctx" "length (leases6 (ctx_db ctx)) < LEASES6_MAX" "dhcpv6_parse buf = Some req"
    and "meta_msg_type req = MSG_SOLICIT \<or> meta_msg_type req = MSG_REQUEST \<or> meta_msg_type req = MSG_RENEW
      \<or> meta_msg_type req = MSG_REBIND"
    and "meta_client_duid req = Some d" "d \<noteq> []" "length d \<le> 85" "meta_has_ia_na req"
    and "has_pool ctx (find_subnet ctx src)" "process_packet env (buf, src) ctx = (reply, ctx')"
  shows "\<exists>out m. reply = Some out \<and> dhcpv6_parse out = Some m
    \<and> meta_msg_type m = (if meta_msg_type req = MSG_SOLICIT then MSG_ADVERTISE else MSG_REPLY)
    \<and> meta_transaction_id m = meta_transaction_id req AND 0x00FFFFFF
    \<and> meta_client_duid m = Some d \<and> meta_server_duid m = Some server_duid
    \<and> meta_has_ia_na m \<and> meta_iaid m = meta_iaid req
    \<and> (meta_has_requested_ip m \<longrightarrow> (\<exists>L. db6_abs (ctx_db ctx') (Addr (meta_requested_ip m)) = Some L
         \<and> state6 L = LEASE6_ACTIVE \<and> iaid6 L = meta_iaid req \<and> take (unat (duid_len6 L)) (duid6 L) = d
         \<and> ends6 L = env_now env + uint (default_lease_time6 (subnet_at ctx (find_subnet ctx src)))))"
proof -
  define i where "i = find_subnet ctx src"
  define rt where "rt = reply_type (meta_msg_type req)"
  let ?x = "meta_transaction_id req" and ?front = "[(OPT_SERVERID, server_duid), (OPT_CLIENTID, d)]"
  have g: "\<not> gives_up req" "rt \<noteq> 0" "rt = (if meta_msg_type req = MSG_SOLICIT then MSG_ADVERTISE else MSG_REPLY)"
    using assms(4) by (auto simp: gives_up_def rt_def reply_type_def)
  let ?dns = "append_dns ctx i (reply_front rt req)"
  obtain ds where ds: "is_reply rt ?x (?front @ ds) ?dns" "length ?dns \<le> 300"
    "ds = [] \<or> (\<exists>val. ds = [(OPT_DNS_SERVERS, val)])"
    using front_dns_reply [OF assms(5-7)] by metis
  obtain ctx1 out1 where h1: "handle_ia_na env i req (ctx, ?dns) = (ctx1, out1)" by fastforce
  obtain ctx2 out2 where h2: "handle_ia_pd env i req (ctx1, out1) = (ctx2, out2)" by fastforce
  have p: "reply = (if length out2 > 4 then Some out2 else None)" "ctx' = ctx2"
    using assms(3,10) g h1 h2 by (auto simp: process_packet_def Let_def i_def rt_def)
  obtain val where na: "is_reply rt ?x ((?front @ ds) @ [(OPT_IA_NA, val)]) out1" "length out1 \<le> 400"
    and v: "\<And>m. let v = parse_option m (OPT_IA_NA, val) in
        na_view v = na_view (m\<lparr>meta_iaid := meta_iaid req, meta_has_ia_na := True\<rparr>)
        \<or> (\<exists>ip L. na_view v = na_view (m\<lparr>meta_iaid := meta_iaid req, meta_has_ia_na := True,
                meta_requested_ip := ip, meta_has_requested_ip := True\<rparr>)
              \<and> db6_abs (ctx_db ctx1) (Addr ip) = Some L
              \<and> holds_lease6 (env_now env) (meta_iaid req) (default_lease_time6 (subnet_at ctx i)) (client_hex req) L)"
    using ia_na_reply [OF ds(1,2) assms(1) g(1) assms(8) _ assms(2,5-7) h1] assms(9) i_def by metis
  have "ctx_wf ctx1" using handle_ia_na_wf [OF assms(1), of env i req ?dns] h1 by simp
  from ia_pd_reply [OF na(1,2) this g(1) h2] obtain ps where ps: "is_reply rt ?x (((?front @ ds) @ [(OPT_IA_NA, val)]) @ ps) out2"
    "ps = [] \<or> (\<exists>val. ps = [(OPT_IA_PD, val)])" "\<And>a. db6_abs (ctx_db ctx2) (Addr a) = db6_abs (ctx_db ctx1) (Addr a)"
    "length out1 \<le> length out2" by blast
  define m0 where "m0 = foldl parse_option (zero_meta\<lparr>meta_msg_type := rt, meta_transaction_id := ?x AND 0x00FFFFFF\<rparr>) (?front @ ds)"
  define m where "m = foldl parse_option (parse_option m0 (OPT_IA_NA, val)) ps"
  have out: "dhcpv6_parse out2 = Some m" using is_reply_parse [OF ps(1)] by (simp add: m_def m0_def)
  have v0: "na_view m0 = (rt, ?x AND 0x00FFFFFF, Some d, Some server_duid, False, 0, False, replicate 16 0)"
    using ds(3) na_view_others(1) by (auto simp: m0_def) (simp_all add: parse_option_def na_view_def zero_meta_def)
  have vm: "na_view m = na_view (parse_option m0 (OPT_IA_NA, val))" using ps(2) na_view_others(2) by (auto simp: m_def)
  have "4 < length out2" using na(1) ps(4) by (auto simp: is_reply_def wire_options_def wire_lengths)
  then have r: "reply = Some out2" using p by simp
  show ?thesis
    using v [of m0] vm v0 r out g(3) p(2) ps(3) client_hex_bytes(2) [OF assms(5-7)]
    unfolding i_def by (auto simp: na_view_def holds_lease6_def Let_def)
qed

text \<open>
  C14: What the server offers it has leased.  For a SOLICIT, REQUEST, RENEW or REBIND with an IA_NA and a client
  identifier of at most 85 bytes, from a client of a configured subnet and with room in the lease
  table, \<open>process_packet\<close> sends a reply that \<open>dhcpv6_parse\<close> reads back with the expected type, the
  transaction identifier, the identifiers of client and server and the IAID; and if it carries an
  address, the lease table has an active lease of that address for this IAID and this identifier.
\<close>

theorem reply6_announces_lease:
  assumes "ctx_wf ctx" "length (leases6 (ctx_db ctx)) < LEASES6_MAX" "dhcpv6_parse buf = Some req"
    and "meta_msg_type req = MSG_SOLICIT \<or> meta_msg_type req = MSG_REQUEST \<or> meta_msg_type req = MSG_RENEW
      \<or> meta_msg_type req = MSG_REBIND"
    and "meta_client_duid req = Some d" "d \<noteq> []" "length d \<le> 85" "meta_has_ia_na req"
    and "has_pool ctx (find_subnet ctx src)" "process_packet env (buf, src) ctx = (reply, ctx')"
  shows "\<exists>out m. reply = Some out \<and> dhcpv6_parse out = Some m
    \<and> meta_msg_type m = (if meta_msg_type req = MSG_SOLICIT then MSG_ADVERTISE else MSG_REPLY)
    \<and> meta_transaction_id m = meta_transaction_id req AND 0x00FFFFFF
    \<and> meta_client_duid m = Some d \<and> meta_server_duid m = Some server_duid
    \<and> meta_has_ia_na m \<and> meta_iaid m = meta_iaid req
    \<and> (meta_has_requested_ip m \<longrightarrow> (\<exists>L. db6_abs (ctx_db ctx') (Addr (meta_requested_ip m)) = Some L
         \<and> state6 L = LEASE6_ACTIVE \<and> iaid6 L = meta_iaid req \<and> take (unat (duid_len6 L)) (duid6 L) = d
         \<and> ends6 L = env_now env + uint (default_lease_time6 (subnet_at ctx (find_subnet ctx src)))))"
  using reply6_lease [OF assms] .

theorem reply6_announces_lease_witness:
  "\<exists>out m. fst (process_packet sample_env6 (sample_solicit, sample_src6) sample_ctx6) = Some out
     \<and> dhcpv6_parse out = Some m \<and> meta_client_duid m = Some [0, 3, 10] \<and> meta_iaid m = 7"
proof -
  let ?r = "process_packet sample_env6 (sample_solicit, sample_src6) sample_ctx6"
  have l: "length (leases6 (ctx_db sample_ctx6)) < LEASES6_MAX"
    by (simp add: sample_ctx6_def sample_table6_def lease_v6_db_init_def)
  have s: "meta_msg_type sample_meta6 = MSG_SOLICIT \<or> meta_msg_type sample_meta6 = MSG_REQUEST
      \<or> meta_msg_type sample_meta6 = MSG_RENEW \<or> meta_msg_type sample_meta6 = MSG_REBIND" using sample_request6(2) by simp
  have "?r = (fst ?r, snd ?r)" by simp
  from reply6_announces_lease [OF sample_ctx6_wf l sample_request6(1) s sample_request6(3) _ _ sample_request6(4,6) this]
  show ?thesis using sample_request6(5) by auto
qed


definition sample_served6 :: server_ctx_t where
  "sample_served6 = snd (process_packet sample_env6 (sample_solicit, sample_src6) sample_ctx6)"

lemma sample_served6_facts:
  "length (ctx_pools sample_served6) = 1" "length (entries6 (ctx_pools sample_served6 ! 0)) = 2"
  "ip_address6 (entries6 (ctx_pools sample_served6 ! 0) ! 0) = addr6 1"
  "entry_state6 (entries6 (ctx_pools sample_served6 ! 0) ! 0) = IP6_STATE_ALLOCATED"
  "db6_abs (ctx_db sample_served6) (Addr (addr6 1)) = Some (hd (leases6 (ctx_db sample_served6)))"
  "state6 (hd (leases6 (ctx_db sample_served6))) = LEASE6_ACTIVE" "ends6 (hd (leases6 (ctx_db sample_served6))) < 200"
  "list_all (\<lambda>M. type6 M = Lease6_IA_NA) (leases6 (ctx_db sample_served6))"
  by code_simp+


text \<open>
  Clients with long identifiers share one prefix.  The text of a client identifier of more than 85 bytes
  does not fit the buffer of 256 characters and is left empty, and \<open>pd_pool_allocate\<close> compares the
  texts only.  So when one such client has been delegated a prefix, the next one, whatever its
  identifier, is delegated the same prefix, as if it were a renewal.
\<close>

lemma long_duids_share_prefix:
  assumes "pd_wf p" "meta_client_duid m1 = Some d1" "length d1 > 85" "meta_client_duid m2 = Some d2" "length d2 > 85"
    and "pa_duid a = client_hex m1" "pa_duid b = client_hex m2"
    and "pd_pool_allocate a p db = (r, p', db')" "pd_success r" "pd_pool_allocate b p' db2 = (r2, p2, db3)"
  shows "pd_success r2 \<and> result_prefix r2 = result_prefix r \<and> result_plen r2 = result_plen r \<and> \<not> pd_is_new r2"
  using pd_again [OF assms(1,8,9) _ _ assms(10)] long_client_hex [OF assms(2,3)] long_client_hex [OF assms(4,5)] assms(6,7)
  by simp

definition long_meta :: "u8 \<Rightarrow> dhcpv6_packet_meta_t" where
  "long_meta b = zero_meta\<lparr>meta_client_duid := Some (replicate 86 b)\<rparr>"

definition long_args :: "u8 \<Rightarrow> pd_args" where
  "long_args b = sample_pd_client\<lparr>pa_duid := client_hex (long_meta b)\<rparr>"

definition long_call :: "u8 \<Rightarrow> pd_pool_t \<Rightarrow> pd_allocation_result_t \<times> pd_pool_t \<times> lease_v6_db_t" where
  "long_call b p = pd_pool_allocate (long_args b) p sample_table6"

lemma long_call_1: "pd_success (fst (long_call 1 sample_pd_pool))" "result_prefix (fst (long_call 1 sample_pd_pool)) = pd_addr 1"
  by code_simp+

end
