(* ===== verification/Client_V6.thy ===== *)
theory Client_V6
  imports Server_V6 Utils_V4
begin

text \<open>
  The DHCPv6 client (client/client_v6.c): its identifier, its arguments, the messages it builds in a buffer of
  4096 bytes and the state machine of its main loop.  One round of the loop is a function of the datagram
  that \<open>recvfrom\<close> delivers, None where it fails; the loop sets no timeout, so a round that receives
  nothing does not end.
\<close>

section \<open>Definitions\<close>

subsection \<open>Identifier and arguments\<close>

definition generate_duid :: "mac \<Rightarrow> u8 list" where
  "generate_duid m = [0, 3, 0, 1] @ take 6 m"

text \<open>\<open>strtol\<close> with base 16, converted to \<open>int\<close>.\<close>

definition strtol16 :: "string \<Rightarrow> int" where
  "strtol16 s =
     (let (neg, s1) = sign_of (dropWhile isspace s);
          s2 = (if (take 2 s1 = ''0x'' \<or> take 2 s1 = ''0X'') \<and> takeWhile isxdigit (drop 2 s1) \<noteq> [] then drop 2 s1 else s1);
          n = hex_val (takeWhile isxdigit s2)
      in signed_take_bit 31 (if neg then max (- n) (- (2 ^ 63)) else min n (2 ^ 63 - 1)))"

record client6_args =
  arg6_ifname :: "string option"
  arg6_pd :: bool
  arg6_spoof :: int

fun parse_args6 :: "string list \<Rightarrow> client6_args \<Rightarrow> client6_args" where
  "parse_args6 [] a = a"
| "parse_args6 (w # rest) a =
     (if w = ''-P'' then parse_args6 rest (a\<lparr>arg6_pd := True\<rparr>)
      else if w = ''-S'' then
        (case rest of [] \<Rightarrow> a | v # rest2 \<Rightarrow> parse_args6 rest2 (a\<lparr>arg6_spoof := strtol16 v\<rparr>))
      else parse_args6 rest (if arg6_ifname a = None then a\<lparr>arg6_ifname := Some w\<rparr> else a))"

definition default_args6 :: client6_args where
  "default_args6 = \<lparr>arg6_ifname = None, arg6_pd = False, arg6_spoof = -1\<rparr>"

definition spoofed_mac :: "client6_args \<Rightarrow> mac \<Rightarrow> mac" where
  "spoofed_mac a m = (if arg6_spoof a \<ge> 0 then m[5 := word_of_int (arg6_spoof a)] else m)"

subsection \<open>Messages\<close>

text \<open>
  SOLICIT, REQUEST and RENEW have the same parts; SOLICIT has no server identifier.  A message that does not
  fit the buffer is written beyond its end.
\<close>

definition client6_message :: "u8 \<Rightarrow> u32 \<Rightarrow> u8 list \<Rightarrow> u8 list \<Rightarrow> bool \<Rightarrow> u8 list outcome" where
  "client6_message msg_type x duid server request_pd =
     (let ia = (\<lambda>iaid. set_u32 iaid @ set_u32 0 @ set_u32 0);
          out = msg_type # dhcpv6_set_xid x @ option_bytes OPT_CLIENTID duid
            @ (if server \<noteq> [] then option_bytes OPT_SERVERID server else [])
            @ option_bytes OPT_IA_NA (ia 1)
            @ (if request_pd then option_bytes OPT_IA_PD (ia 2) else [])
      in if length out > BUF_SIZE then Undefined else Returns out)"

subsection \<open>The state machine\<close>

datatype client_state6 = STATE_INIT | STATE_SOLICITING | STATE_REQUESTING | STATE_BOUND | STATE_RENEWING

record client_v6 =
  c6_state :: client_state6
  c6_xid :: u32
  c6_duid :: "u8 list"
  c6_pd :: bool
  c6_server :: "u8 list"
  c6_assigned :: "in6_addr option"
  c6_prefix :: "(in6_addr \<times> u8) option"

text \<open>The server identifier is kept for RENEW when it is there and fits its buffer.\<close>

definition keep_server :: "dhcpv6_packet_meta_t \<Rightarrow> client_v6 \<Rightarrow> client_v6" where
  "keep_server meta c = (case meta_server_duid meta of
     None \<Rightarrow> c
   | Some d \<Rightarrow> if d \<noteq> [] \<and> length d < 128 then c\<lparr>c6_server := d\<rparr> else c)"

definition received6 :: "u8 list option \<Rightarrow> dhcpv6_packet_meta_t option" where
  "received6 rx = (case rx of None \<Rightarrow> None | Some bs \<Rightarrow> if bs = [] then None else dhcpv6_parse bs)"

definition soliciting_round :: "u8 list option \<Rightarrow> client_v6 \<Rightarrow> (u8 list option \<times> client_v6) outcome" where
  "soliciting_round rx c = (case received6 rx of
     None \<Rightarrow> Returns (None, c)
   | Some meta \<Rightarrow>
       if meta_msg_type meta = MSG_ADVERTISE \<and> meta_transaction_id meta = c6_xid c then
         and_then (client6_message MSG_REQUEST (c6_xid c + 1) (c6_duid c)
             (case meta_server_duid meta of None \<Rightarrow> [] | Some d \<Rightarrow> d) (c6_pd c)) (\<lambda>r.
           Returns (Some r, (keep_server meta c)\<lparr>c6_state := STATE_REQUESTING, c6_xid := c6_xid c + 1\<rparr>))
       else Returns (None, c))"

definition requesting6_round :: "u8 list option \<Rightarrow> client_v6 \<Rightarrow> client_v6" where
  "requesting6_round rx c = (case received6 rx of
     None \<Rightarrow> c
   | Some meta \<Rightarrow>
       if meta_msg_type meta = MSG_REPLY \<and> meta_transaction_id meta = c6_xid c then
         (keep_server meta c)\<lparr>c6_state := STATE_BOUND,
            c6_assigned := (if meta_has_requested_ip meta then Some (meta_requested_ip meta) else c6_assigned c),
            c6_prefix := (if c6_pd c \<and> meta_has_ia_pd meta \<and> meta_has_requested_prefix meta
               then Some (meta_requested_prefix meta, meta_requested_plen meta) else c6_prefix c)\<rparr>
       else c)"

definition renewing6_round :: "u8 list option \<Rightarrow> client_v6 \<Rightarrow> (u8 list option \<times> client_v6) outcome" where
  "renewing6_round rx c =
     and_then (client6_message MSG_RENEW (c6_xid c) (c6_duid c) (c6_server c) (c6_pd c)) (\<lambda>t.
       Returns (Some t, case received6 rx of
           None \<Rightarrow> c
         | Some meta \<Rightarrow>
             if meta_msg_type meta = MSG_REPLY \<and> meta_transaction_id meta = c6_xid c
             then c\<lparr>c6_state := STATE_BOUND, c6_xid := c6_xid c + 1\<rparr> else c))"

definition client6_round :: "u8 list option \<Rightarrow> client_v6 \<Rightarrow> (u8 list option \<times> client_v6) outcome" where
  "client6_round rx c = (case c6_state c of
     STATE_INIT \<Rightarrow> and_then (client6_message MSG_SOLICIT (c6_xid c) (c6_duid c) [] (c6_pd c)) (\<lambda>s.
       Returns (Some s, c\<lparr>c6_state := STATE_SOLICITING\<rparr>))
   | STATE_SOLICITING \<Rightarrow> soliciting_round rx c
   | STATE_REQUESTING \<Rightarrow> Returns (None, requesting6_round rx c)
   | STATE_BOUND \<Rightarrow> Returns (None, c\<lparr>c6_state := STATE_RENEWING, c6_xid := c6_xid c + 1\<rparr>)
   | STATE_RENEWING \<Rightarrow> renewing6_round rx c)"

definition new_client6 :: "client6_args \<Rightarrow> mac \<Rightarrow> client_v6" where
  "new_client6 a m = \<lparr>c6_state = STATE_INIT, c6_xid = 0x123456, c6_duid = generate_duid (spoofed_mac a m), c6_pd = arg6_pd a,
     c6_server = [], c6_assigned = None, c6_prefix = None\<rparr>"

section \<open>Lemmas\<close>

subsection \<open>The messages on the wire\<close>

definition client6_options :: "u8 list \<Rightarrow> u8 list \<Rightarrow> bool \<Rightarrow> (u16 \<times> u8 list) list" where
  "client6_options duid server request_pd =
     [(OPT_CLIENTID, duid)] @ (if server \<noteq> [] then [(OPT_SERVERID, server)] else [])
     @ [(OPT_IA_NA, set_u32 1 @ set_u32 0 @ set_u32 0)] @ (if request_pd then [(OPT_IA_PD, set_u32 2 @ set_u32 0 @ set_u32 0)] else [])"

lemma client6_message_fits:
  assumes "length duid + length server \<le> 4000"
  shows "\<exists>out. client6_message ty x duid server pd = Returns out \<and> is_reply ty x (client6_options duid server pd) out"
  using assms
  by (auto simp: client6_message_def Let_def is_reply_def client6_options_def wire_options_def wire_lengths)

lemma parse_ia_request: "parse_option m (OPT_IA_NA, set_u32 iaid @ set_u32 0 @ set_u32 0) = m\<lparr>meta_iaid := iaid, meta_has_ia_na := True\<rparr>"
proof -
  have d: "drop 12 (set_u32 iaid @ set_u32 0 @ set_u32 0) = []" by (simp add: wire_lengths)
  show ?thesis unfolding parse_option_def prod.case d by (simp add: wire_lengths get_set_u32)
qed

lemma client6_message_parse:
  assumes "client6_message ty x duid server pd = Returns out" "length duid + length server \<le> 4000"
  shows "\<exists>m. dhcpv6_parse out = Some m \<and> meta_msg_type m = ty \<and> meta_transaction_id m = x AND 0x00FFFFFF \<and>
    meta_client_duid m = Some duid \<and> meta_has_ia_na m \<and> meta_iaid m = 1"
proof -
  let ?z = "zero_meta\<lparr>meta_msg_type := ty, meta_transaction_id := x AND 0x00FFFFFF\<rparr>"
  define m where "m = foldl parse_option ?z (client6_options duid server pd)"
  have p: "dhcpv6_parse out = Some m"
    using client6_message_fits [OF assms(2), of ty x pd] assms(1) is_reply_parse by (auto simp: m_def)
  define m1 where "m1 = parse_option ?z (OPT_CLIENTID, duid)"
  define m2 where "m2 = (if server \<noteq> [] then parse_option m1 (OPT_SERVERID, server) else m1)"
  have "na_view m = na_view (parse_option m2 (OPT_IA_NA, set_u32 1 @ set_u32 0 @ set_u32 0))"
    by (simp add: m_def client6_options_def m2_def m1_def na_view_others)
  then have "na_view m = na_view (m2\<lparr>meta_iaid := 1, meta_has_ia_na := True\<rparr>)" by (simp add: parse_ia_request)
  then have "meta_msg_type m = ty \<and> meta_transaction_id m = x AND 0x00FFFFFF \<and> meta_client_duid m = Some duid \<and> meta_has_ia_na m \<and> meta_iaid m = 1"
    by (simp add: na_view_def m2_def m1_def parse_option_def split: if_splits)
  then show ?thesis using p by blast
qed

lemma give_up_config:
  "ctx_config (give_up_address env i meta ctx) = ctx_config ctx" "ctx_config (give_up_prefix env i meta ctx) = ctx_config ctx"
  by (simp_all add: give_up_address_def give_up_prefix_def put_pool_def put_pd_pool_def split: prod.split)

lemma handle_ia_config:
  "ctx_config (fst (handle_ia_na env i meta st)) = ctx_config (fst st)" "ctx_config (fst (handle_ia_pd env i meta st)) = ctx_config (fst st)"
  by (simp_all add: handle_ia_na_def handle_ia_pd_def put_pool_def put_pd_pool_def count_active_def Let_def split_beta)

lemma process_packet_config: "ctx_config (snd (process_packet env (buf, src) ctx)) = ctx_config ctx"
  by (cases "dhcpv6_parse buf") (simp_all add: process_packet_def Let_def split_beta handle_ia_config give_up_config)

subsection \<open>Set-up\<close>

lemma parse_args6_prefix: "parse_args6 [w, ''-P''] default_args6 = default_args6\<lparr>arg6_ifname := Some w, arg6_pd := True\<rparr>"
  if "w \<notin> {''-P'', ''-S''}"
  using that by (simp add: default_args6_def)

section \<open>Properties\<close>

text \<open>
  C15: the DHCPv6 client and server complete the four messages.  A client in its first state, of a configured
  subnet and with room in the lease table: the SOLICIT is answered with an ADVERTISE that the client accepts,
  its REQUEST with a REPLY that it accepts, and then it is bound; if it takes an address, the server
  has an active lease of the address for the identifier of this client.
\<close>

theorem handshake6_binds:
  assumes "ctx_wf ctx" "length (leases6 (ctx_db ctx)) < LEASES6_MAX" "has_pool ctx (find_subnet ctx src)"
    and "c6_state c = STATE_INIT" "c6_duid c = d" "d \<noteq> []" "length d \<le> 85" "c6_assigned c = None"
    and "c6_xid c AND 0x00FFFFFF = c6_xid c" "(c6_xid c + 1) AND 0x00FFFFFF = c6_xid c + 1"
    and "client6_round None c = Returns (Some s, c1)" "process_packet env1 (s, src) ctx = (adv, ctx1)"
    and "length (leases6 (ctx_db ctx1)) < LEASES6_MAX"
  shows "\<exists>r c2 rep ctx2 c3. client6_round adv c1 = Returns (Some r, c2) \<and> process_packet env2 (r, src) ctx1 = (Some rep, ctx2) \<and>
    client6_round (Some rep) c2 = Returns (None, c3) \<and> c6_state c3 = STATE_BOUND \<and>
    (\<forall>ip. c6_assigned c3 = Some ip \<longrightarrow> (\<exists>L. db6_abs (ctx_db ctx2) (Addr ip) = Some L \<and> state6 L = LEASE6_ACTIVE \<and>
       iaid6 L = 1 \<and> take (unat (duid_len6 L)) (duid6 L) = d))"
proof -
  have sd: "length server_duid = 14" by (simp add: server_duid_def)
  have s: "client6_message MSG_SOLICIT (c6_xid c) d [] (c6_pd c) = Returns s" "c1 = c\<lparr>c6_state := STATE_SOLICITING\<rparr>"
    using assms(4,5,11) by (auto simp: client6_round_def and_then_Returns)
  obtain q where q: "dhcpv6_parse s = Some q" "meta_msg_type q = MSG_SOLICIT" "meta_transaction_id q = c6_xid c" "meta_client_duid q = Some d"
    "meta_has_ia_na q" "meta_iaid q = 1"
    using client6_message_parse [OF s(1)] assms(7,9) by auto
  obtain a m where a: "adv = Some a" "dhcpv6_parse a = Some m" "meta_msg_type m = MSG_ADVERTISE" "meta_transaction_id m = c6_xid c"
    "meta_server_duid m = Some server_duid"
    using reply6_lease [OF assms(1,2) q(1) _ q(4) assms(6,7) q(5) assms(3,12)] q(2,3) assms(9) by auto
  obtain r where r: "client6_message MSG_REQUEST (c6_xid c + 1) d server_duid (c6_pd c) = Returns r"
    using client6_message_fits [of d server_duid MSG_REQUEST "c6_xid c + 1" "c6_pd c"] assms(7) sd by auto
  define c2 where "c2 = (keep_server m c1)\<lparr>c6_state := STATE_REQUESTING, c6_xid := c6_xid c + 1\<rparr>"
  have c2: "client6_round adv c1 = Returns (Some r, c2)"
    using a r s(2) assms(5) by (auto simp: client6_round_def soliciting_round_def received6_def c2_def dhcpv6_parse_def split: if_splits)
  have c2f: "c6_state c2 = STATE_REQUESTING" "c6_xid c2 = c6_xid c + 1" "c6_assigned c2 = None"
    using assms(8) by (simp_all add: c2_def keep_server_def s(2) split: option.splits)
  obtain q2 where q2: "dhcpv6_parse r = Some q2" "meta_msg_type q2 = MSG_REQUEST" "meta_transaction_id q2 = c6_xid c + 1" "meta_client_duid q2 = Some d"
    "meta_has_ia_na q2" "meta_iaid q2 = 1"
    using client6_message_parse [OF r] assms(7,10) sd by auto
  have cfg: "ctx_config ctx1 = ctx_config ctx" using process_packet_config [of env1 s src ctx] assms(12) by simp
  then have "find_subnet ctx1 src = find_subnet ctx src" by (simp add: find_subnet_def)
  then have ctx1: "ctx_wf ctx1" "has_pool ctx1 (find_subnet ctx1 src)"
    using process_packet_wf [OF assms(1), of env1 "(s, src)"] assms(3,12) cfg by (simp_all add: has_pool_def)
  obtain rep0 ctx2 where p: "process_packet env2 (r, src) ctx1 = (rep0, ctx2)" by fastforce
  obtain rep m2 where b: "rep0 = Some rep" "dhcpv6_parse rep = Some m2" "meta_msg_type m2 = MSG_REPLY" "meta_transaction_id m2 = c6_xid c + 1"
    "meta_has_requested_ip m2 \<longrightarrow> (\<exists>L. db6_abs (ctx_db ctx2) (Addr (meta_requested_ip m2)) = Some L \<and> state6 L = LEASE6_ACTIVE \<and>
       iaid6 L = 1 \<and> take (unat (duid_len6 L)) (duid6 L) = d)"
    using reply6_lease [OF ctx1(1) assms(13) q2(1) _ q2(4) assms(6,7) q2(5) ctx1(2) p] q2(2,3,6) assms(10) by auto
  have "rep \<noteq> []" using b(2) by (auto simp: dhcpv6_parse_def)
  then have "client6_round (Some rep) c2 = Returns (None, requesting6_round (Some rep) c2)" "received6 (Some rep) = Some m2"
    using c2f(1) b(2) by (simp_all add: client6_round_def received6_def)
  then show ?thesis
    using c2 p b c2f by (auto simp: requesting6_round_def keep_server_def split: option.splits)
qed

definition first_client6 :: client_v6 where
  "first_client6 = new_client6 default_args6 [2, 0, 0, 0, 0, 1]"

definition sample_solicit6 :: "u8 list" where
  "sample_solicit6 = (case client6_message MSG_SOLICIT 0x123456 (c6_duid first_client6) [] False of Returns s \<Rightarrow> s | _ \<Rightarrow> [])"

lemma sample_room6: "length (leases6 (ctx_db (snd (process_packet sample_env6 (sample_solicit6, sample_src6) sample_ctx6)))) = 1"
  by code_simp

theorem handshake6_binds_witness:
  "\<exists>r c2 rep ctx2 c3. client6_round (fst (process_packet sample_env6 (sample_solicit6, sample_src6) sample_ctx6))
       (first_client6\<lparr>c6_state := STATE_SOLICITING\<rparr>) = Returns (Some r, c2) \<and>
     process_packet sample_env6 (r, sample_src6) (snd (process_packet sample_env6 (sample_solicit6, sample_src6) sample_ctx6)) = (Some rep, ctx2) \<and>
     client6_round (Some rep) c2 = Returns (None, c3) \<and> c6_state c3 = STATE_BOUND"
proof -
  let ?p = "process_packet sample_env6 (sample_solicit6, sample_src6) sample_ctx6"
  have l: "length (leases6 (ctx_db sample_ctx6)) < LEASES6_MAX"
    by (simp add: sample_ctx6_def sample_table6_def lease_v6_db_init_def)
  have c: "c6_state first_client6 = STATE_INIT" "c6_duid first_client6 \<noteq> []" "length (c6_duid first_client6) \<le> 85"
    "c6_assigned first_client6 = None" "c6_xid first_client6 = 0x123456" "c6_pd first_client6 = False"
    by (simp_all add: first_client6_def new_client6_def default_args6_def generate_duid_def spoofed_mac_def)
  have "client6_message MSG_SOLICIT 0x123456 (c6_duid first_client6) [] False = Returns sample_solicit6"
    using client6_message_fits [of "c6_duid first_client6" "[]" MSG_SOLICIT "0x123456" False] c(3) by (auto simp: sample_solicit6_def)
  then have "client6_round None first_client6 = Returns (Some sample_solicit6, first_client6\<lparr>c6_state := STATE_SOLICITING\<rparr>)"
    using c by (simp add: client6_round_def)
  then show ?thesis
    using handshake6_binds [OF sample_ctx6_wf l sample_request6(6) c(1) refl c(2-4), of sample_solicit6
        "first_client6\<lparr>c6_state := STATE_SOLICITING\<rparr>" sample_env6 "fst ?p" "snd ?p" sample_env6] c(5) sample_room6
    by auto
qed

text \<open>
  C40: a server identifier can be too long for the client.  An ADVERTISE that fits the receive buffer and whose server
  identifier has more than 4058 bytes makes the client write its REQUEST beyond the end of its buffer.
\<close>

theorem advertise_overflows_client:
  assumes "c6_state c = STATE_SOLICITING" "dhcpv6_parse rx = Some m" "meta_msg_type m = MSG_ADVERTISE" "meta_transaction_id m = c6_xid c"
    and "meta_server_duid m = Some d" "4058 < length d" "length (c6_duid c) = 10"
  shows "client6_round (Some rx) c = Undefined"
proof -
  have "client6_message MSG_REQUEST (c6_xid c + 1) (c6_duid c) d (c6_pd c) = Undefined"
    using assms(6,7) by (auto simp: client6_message_def wire_lengths Let_def)
  moreover have "received6 (Some rx) = Some m" using assms(2) by (auto simp: received6_def dhcpv6_parse_def)
  ultimately show ?thesis using assms by (simp add: client6_round_def soliciting_round_def)
qed

definition large_advertise :: "u8 list" where
  "large_advertise = MSG_ADVERTISE # dhcpv6_set_xid 0x123456 @ option_bytes OPT_SERVERID (replicate 4060 7)"

theorem advertise_overflows_client_witness:
  "length large_advertise \<le> BUF_SIZE \<and>
   client6_round (Some large_advertise) ((new_client6 default_args6 [2, 0, 0, 0, 0, 1])\<lparr>c6_state := STATE_SOLICITING\<rparr>) = Undefined"
proof -
  let ?c = "(new_client6 default_args6 [2, 0, 0, 0, 0, 1])\<lparr>c6_state := STATE_SOLICITING\<rparr>"
  define d :: "u8 list" where "d = replicate 4060 7"
  have d: "length d = 4060" by (simp add: d_def)
  have "dhcpv6_parse large_advertise = Some (foldl parse_option
      (zero_meta\<lparr>meta_msg_type := MSG_ADVERTISE, meta_transaction_id := 0x123456 AND 0x00FFFFFF\<rparr>) [(OPT_SERVERID, d)])"
    using parse_wire [of "[(OPT_SERVERID, d)]" MSG_ADVERTISE "0x123456"] d
    by (simp add: large_advertise_def d_def [symmetric] wire_options_def)
  then obtain m where "dhcpv6_parse large_advertise = Some m" "meta_msg_type m = MSG_ADVERTISE" "meta_transaction_id m = 0x123456"
    "meta_server_duid m = Some d"
    by (simp add: parse_option_def)
  moreover have "length large_advertise \<le> BUF_SIZE" using d by (simp add: large_advertise_def d_def [symmetric] wire_lengths)
  ultimately show ?thesis
    using advertise_overflows_client [of ?c large_advertise m d] d
    by (simp add: new_client6_def default_args6_def generate_duid_def spoofed_mac_def)
qed

text \<open>What the client keeps of its identifier and of a spoofed address.\<close>

lemma generate_duid_length: "length m = 6 \<Longrightarrow> length (generate_duid (spoofed_mac a m)) = 10"
  by (simp add: generate_duid_def spoofed_mac_def)

end
