(* ===== verification/Dns_Name.thy ===== *)
theory Dns_Name
  imports Prelude
begin

text \<open>
  Domain names in DNS packets (DNS_Server/utils/string_utils.c) and the parser of requests
  (DNS_Server/sources/dns_parser.c, include/dns_packet.h).  A packet buffer is the list of its bytes; a
  read behind its end and a write behind the end of the output buffer are Undefined.  The loop
  over a name follows compression pointers without any bound, so it takes fuel: without fuel left
  the result is Blocks.
\<close>

section \<open>Model\<close>

subsection \<open>Names\<close>

abbreviation dot :: char where "dot \<equiv> CHR ''.''"

definition byte_char :: "u8 \<Rightarrow> char" where
  "byte_char b = char_of (unat b)"

text \<open>The C string at the start of a buffer.\<close>

definition c_string :: "string \<Rightarrow> string" where
  "c_string s = takeWhile (\<lambda>c. c \<noteq> CHR 0x00) s"

text \<open>\<open>out\<close> are the characters written so far into the buffer of 256 characters.\<close>

fun name_loop :: "nat \<Rightarrow> u8 list \<Rightarrow> nat \<Rightarrow> bool \<Rightarrow> nat \<Rightarrow> string \<Rightarrow> (nat \<times> string) outcome" where
  "name_loop 0 buf rp jumped cnt out = Blocks"
| "name_loop (Suc n) buf rp jumped cnt out =
     (if rp \<ge> length buf then Undefined
      else if buf ! rp = 0 then Returns (cnt, out)
      else if buf ! rp \<ge> 192 then
        if rp + 1 \<ge> length buf then Undefined
        else name_loop n buf (unat (buf ! rp AND 0x3F) * 256 + unat (buf ! (rp + 1))) True
               (if jumped then cnt else cnt + 1) out
      else let len = unat (buf ! rp)
        in if rp + len + 1 > length buf \<or> length out + len + 1 > 256 then Undefined
           else name_loop n buf (rp + len + 1) jumped (if jumped then cnt else cnt + len + 1)
                  (out @ map byte_char (take len (drop (rp + 1) buf)) @ [dot]))"

text \<open>The number of bytes that the name takes and the text.\<close>

definition dns_binary_to_text :: "nat \<Rightarrow> u8 list \<Rightarrow> nat \<Rightarrow> (nat \<times> string) outcome" where
  "dns_binary_to_text fuel buf rp =
     and_then (name_loop fuel buf rp False 1 []) (\<lambda>(cnt, out).
       Returns (cnt, if out \<noteq> [] then c_string (butlast out) else [dot]))"

text \<open>The loop over the characters; \<open>lab\<close> is the label that is being read.\<close>

fun host_labels :: "string \<Rightarrow> string \<Rightarrow> u8 list" where
  "host_labels lab [] = []"
| "host_labels lab (c # cs) =
     (if c = dot then of_nat (length lab) # map of_char lab @ host_labels [] cs else host_labels (lab @ [c]) cs)"

text \<open>With 255 or more characters \<open>strncpy\<close> leaves \<open>temp_host\<close> without a terminator.\<close>

definition text_to_dns_binary :: "string \<Rightarrow> u8 list outcome" where
  "text_to_dns_binary host =
     (if length host \<ge> 255 then Undefined else Returns (host_labels [] (host @ [dot]) @ [0]))"

subsection \<open>Requests\<close>

abbreviation DNS_HEADER_SIZE :: nat where "DNS_HEADER_SIZE \<equiv> 12"
abbreviation ERR_INVALID_LENGTH :: int where "ERR_INVALID_LENGTH \<equiv> -8"
abbreviation ERR_PTR_OUT_OF_BUFFER_RANGE :: int where "ERR_PTR_OUT_OF_BUFFER_RANGE \<equiv> -9"
abbreviation ERR_OUT_OF_BUFFER_SPACE :: int where "ERR_OUT_OF_BUFFER_SPACE \<equiv> -10"

definition ntohs_at :: "u8 list \<Rightarrow> nat \<Rightarrow> u16" where
  "ntohs_at buf i = push_bit 8 (ucast (buf ! i)) OR ucast (buf ! (i + 1))"

text \<open>The bytes of a 16 and a 32 bit value in network order.\<close>

definition htons_bytes :: "u16 \<Rightarrow> u8 list" where
  "htons_bytes x = [ucast (drop_bit 8 x), ucast x]"

definition htonl_bytes :: "u32 \<Rightarrow> u8 list" where
  "htonl_bytes x = rev (le_bytes32 x)"

text \<open>
  The result code and what is in \<open>qname\<close> and \<open>qtype\<close> afterwards; both are zero before the call.  The
  length may exceed the buffer only where a read failed, and then the fixed part of the question may
  lie behind it.
\<close>

definition parse_dns_request :: "nat \<Rightarrow> u8 list \<Rightarrow> nat \<Rightarrow> (int \<times> string \<times> u16) outcome" where
  "parse_dns_request fuel buf len =
     (if len < DNS_HEADER_SIZE then Returns (ERR_INVALID_LENGTH, [], 0)
      else if DNS_HEADER_SIZE \<ge> len then Returns (ERR_PTR_OUT_OF_BUFFER_RANGE, [], 0)
      else and_then (dns_binary_to_text fuel buf DNS_HEADER_SIZE) (\<lambda>(cnt, qname).
        let reader = DNS_HEADER_SIZE + cnt
        in if reader + 4 > len then Returns (ERR_OUT_OF_BUFFER_SPACE, qname, 0)
           else if reader + 2 > length buf then Undefined
           else Returns (0, qname, ntohs_at buf reader)))"

section \<open>Lemmas\<close>

subsection \<open>Labels\<close>

text \<open>A name as the list of its labels: its text and its bytes.\<close>

definition label_ok :: "string \<Rightarrow> bool" where
  "label_ok l \<longleftrightarrow> l \<noteq> [] \<and> length l < 192 \<and> dot \<notin> set l \<and> CHR 0x00 \<notin> set l"

definition dotted :: "string list \<Rightarrow> string" where
  "dotted ls = concat (map (\<lambda>l. l @ [dot]) ls)"

definition name_text :: "string list \<Rightarrow> string" where
  "name_text ls = butlast (dotted ls)"

definition name_bytes :: "string list \<Rightarrow> u8 list" where
  "name_bytes ls = concat (map (\<lambda>l. of_nat (length l) # map of_char l) ls)"

lemma dotted_text: "ls \<noteq> [] \<Longrightarrow> name_text ls @ [dot] = dotted ls"
  by (induction ls rule: rev_induct) (simp_all add: name_text_def dotted_def butlast_append)

lemma length_name_bytes: "length (name_bytes ls) = length (dotted ls)"
  by (induction ls) (simp_all add: name_bytes_def dotted_def)

lemma host_labels_label: "dot \<notin> set l \<Longrightarrow> host_labels lab (l @ dot # cs) =
    of_nat (length (lab @ l)) # map of_char (lab @ l) @ host_labels [] cs"
  by (induction l arbitrary: lab) auto

lemma host_labels_dotted: "list_all label_ok ls \<Longrightarrow> host_labels [] (dotted ls) = name_bytes ls"
  by (induction ls) (simp_all add: dotted_def name_bytes_def label_ok_def host_labels_label)

lemma byte_char_of_char: "byte_char (of_char c) = c"
proof -
  have "unat (of_char c :: u8) = unat (of_nat (of_char c) :: u8)" by (simp only: of_nat_of_char)
  also have "\<dots> = of_char c mod 256" by (simp only: unat_of_nat) simp
  finally show ?thesis by (simp only: byte_char_def char_of_mod_256 char_of_char)
qed

subsection \<open>Reading a name back\<close>

lemma unat_label_length: "length l < 192 \<Longrightarrow> unat (of_nat (length l) :: u8) = length l"
  by (simp add: unat_of_nat)

lemma label_length_word:
  assumes "label_ok l"
  shows "(of_nat (length l) :: u8) \<noteq> 0" and "\<not> 192 \<le> (of_nat (length l) :: u8)"
  using assms unat_label_length [of l] by (auto simp: label_ok_def word_le_nat_alt)

text \<open>One turn of the loop over a label.\<close>

lemma name_loop_label:
  assumes "label_ok l" and "drop rp buf = of_nat (length l) # map of_char l @ rest"
    and "length out + length l + 1 \<le> 256"
  shows "name_loop (Suc n) buf rp False cnt out =
    name_loop n buf (rp + length l + 1) False (cnt + length l + 1) (out @ l @ [dot])"
proof -
  have at: "rp < length buf" "buf ! rp = of_nat (length l)"
    using assms(2) by (metis drop_eq_Nil2 leI list.discI, metis Cons_nth_drop_Suc drop_eq_Nil2 leI list.inject list.discI)
  have tail: "drop (rp + 1) buf = map of_char l @ rest"
    using assms(2) by (metis drop_drop drop_Suc_Cons drop0 Suc_eq_plus1 add.commute plus_1_eq_Suc)
  have len: "length (drop rp buf) = Suc (length l) + length rest" using assms(2) by simp
  have in_range: "rp + length l + 1 \<le> length buf" using len at(1) by simp
  have chars: "map (byte_char \<circ> of_char) l = l" by (simp add: o_def byte_char_of_char)
  have len_l: "length l < 192" using assms(1) by (simp add: label_ok_def)
  show ?thesis
    using assms(3) at(1) in_range chars label_length_word [OF assms(1)]
    by (simp add: at(2) tail [simplified] unat_label_length [OF len_l] Let_def)
qed

lemma name_loop_names:
  assumes "list_all label_ok ls" and "drop rp buf = name_bytes ls @ 0 # rest"
    and "length out + length (dotted ls) \<le> 256" and "length ls < n"
  shows "name_loop n buf rp False cnt out = Returns (cnt + length (dotted ls), out @ dotted ls)"
  using assms
proof (induction ls arbitrary: n rp cnt out)
  case Nil
  then have "rp < length buf" "buf ! rp = 0"
    by (simp_all add: name_bytes_def, metis drop_eq_Nil2 leI list.discI,
        metis Cons_nth_drop_Suc drop_eq_Nil2 leI list.inject list.discI)
  then show ?case using Nil by (cases n) (simp_all add: dotted_def)
next
  case (Cons l ls)
  obtain m where n: "n = Suc m" using Cons.prems(4) by (cases n) auto
  let ?tl = "name_bytes ls @ 0 # rest"
  have d: "drop rp buf = of_nat (length l) # map of_char l @ ?tl"
    using Cons.prems(2) by (simp add: name_bytes_def)
  have "drop (rp + length l + 1) buf = drop (length l + 1) (drop rp buf)" by (simp add: add.commute add.left_commute)
  then have d2: "drop (rp + length l + 1) buf = ?tl" by (simp add: d)
  have l: "label_ok l" "list_all label_ok ls" using Cons.prems(1) by simp_all
  have sz: "length out + length l + 1 + length (dotted ls) \<le> 256"
    using Cons.prems(3) by (simp add: dotted_def)
  have "name_loop n buf rp False cnt out =
      name_loop m buf (rp + length l + 1) False (cnt + length l + 1) (out @ l @ [dot])"
    unfolding n using name_loop_label [OF l(1) d] sz by simp
  also have "\<dots> = Returns (cnt + length l + 1 + length (dotted ls), (out @ l @ [dot]) @ dotted ls)"
    using Cons.IH [OF l(2) d2] sz Cons.prems(4) n by simp
  finally show ?case by (simp add: dotted_def)
qed

lemma c_string_id: "CHR 0x00 \<notin> set s \<Longrightarrow> c_string s = s"
  by (simp add: c_string_def takeWhile_eq_all_conv) metis

lemma name_text_no_nul: "list_all label_ok ls \<Longrightarrow> CHR 0x00 \<notin> set (name_text ls)"
  by (auto simp: name_text_def dotted_def list_all_iff label_ok_def dest!: in_set_butlastD split: if_splits)

lemma length_dotted: "ls \<noteq> [] \<Longrightarrow> length (dotted ls) = length (name_text ls) + 1"
  using arg_cong [OF dotted_text, of ls length] by simp

text \<open>Reading the bytes of a name anywhere in a packet.\<close>

lemma dns_read_name:
  assumes "ls \<noteq> []" and "list_all label_ok ls" and "length (name_text ls) < 255" and "length ls < fuel"
  shows "dns_binary_to_text fuel (before @ name_bytes ls @ 0 # after) (length before) =
    Returns (length (name_text ls) + 2, name_text ls)"
proof -
  have "name_loop fuel (before @ name_bytes ls @ 0 # after) (length before) False 1 []
      = Returns (1 + length (dotted ls), dotted ls)"
    using name_loop_names [OF assms(2), of "length before" "before @ name_bytes ls @ 0 # after" after "[]" fuel 1]
      assms length_dotted [OF assms(1)] by simp
  moreover have "dotted ls \<noteq> []" using length_dotted [OF assms(1)] by auto
  ultimately show ?thesis
    using length_dotted [OF assms(1)] name_text_no_nul [OF assms(2)]
    by (simp add: dns_binary_to_text_def c_string_id flip: name_text_def)
qed

lemma text_to_dns_binary_name:
  assumes "ls \<noteq> []" and "list_all label_ok ls" and "length (name_text ls) < 255"
  shows "text_to_dns_binary (name_text ls) = Returns (name_bytes ls @ [0])"
  using assms by (simp add: text_to_dns_binary_def dotted_text host_labels_dotted)

text \<open>
  C22: A name of labels of 1 to 191 characters without dots and NULs, of less than 255 characters,
  is encoded by \<open>text_to_dns_binary\<close> into its length plus two bytes, and wherever these bytes stand in
  a packet \<open>dns_binary_to_text\<close> reads the same name back, counting exactly those bytes.
\<close>

theorem dns_name_roundtrip:
  assumes "ls \<noteq> []" and "list_all label_ok ls" and "length (name_text ls) < 255"
    and "length ls < fuel"
  shows "\<exists>bytes. text_to_dns_binary (name_text ls) = Returns bytes \<and>
    length bytes = length (name_text ls) + 2 \<and>
    dns_binary_to_text fuel (before @ bytes @ after) (length before) = Returns (length bytes, name_text ls)"
  using text_to_dns_binary_name [OF assms(1-3)] dns_read_name [OF assms] length_dotted [OF assms(1)]
  by (simp add: length_name_bytes)

theorem dns_name_roundtrip_witness:
  "\<exists>bytes. text_to_dns_binary ''www.mta.ro'' = Returns bytes \<and> length bytes = 12 \<and>
    dns_binary_to_text 4 ([0, 0] @ bytes @ [0, 1]) 2 = Returns (length bytes, ''www.mta.ro'')"
  using dns_name_roundtrip [of "[''www'', ''mta'', ''ro'']" 4 "[0, 0]" "[0, 1]"]
  by (simp add: label_ok_def name_text_def dotted_def eval_nat_numeral)

subsection \<open>Compression pointers\<close>

text \<open>
  C39: A compression pointer that points at itself is followed for ever: on a request whose question
  starts with such a pointer the parser never returns, however long it runs.
\<close>

theorem self_pointer_hangs:
  assumes "length header = DNS_HEADER_SIZE"
  shows "parse_dns_request fuel (header @ 0xC0 # 0x0C # rest) (14 + length rest) = Blocks"
proof -
  have "name_loop n (header @ 0xC0 # 0x0C # rest) 12 jumped cnt out = Blocks" for n jumped cnt out
    using assms by (induction n arbitrary: jumped cnt) (simp_all add: nth_append)
  then show ?thesis using assms by (simp add: parse_dns_request_def dns_binary_to_text_def)
qed

theorem self_pointer_hangs_witness:
  "parse_dns_request 1000 (replicate 12 0 @ 0xC0 # 0x0C # [0, 1, 0, 1]) 18 = Blocks"
  using self_pointer_hangs [of "replicate 12 0" 1000 "[0, 1, 0, 1]"] by simp

text \<open>A request that is accepted has its name and the type of its question in the packet.\<close>

lemma parse_dns_request_ok:
  assumes "parse_dns_request fuel buf len = Returns (0, qname, qtype)"
  obtains cnt where "dns_binary_to_text fuel buf 12 = Returns (cnt, qname)"
    and "16 + cnt \<le> len" and "qtype = ntohs_at buf (12 + cnt)"
  using assms
  by (cases "dns_binary_to_text fuel buf 12")
    (auto simp: parse_dns_request_def Let_def split: if_splits)

end
