(* ===== verification/Dns_Config.thy ===== *)
theory Dns_Config
  imports C_Text
begin

text \<open>
  The parser of the configuration of the DNS server (DNS_Server/sources/dns_config.c, include/dns_config.h).
  The file system is a function from paths to contents.  A nested include keeps the including file
  open, so the depth of the recursion is limited by the file descriptors that the process has
  left: \<open>fopen\<close> fails without one.  A parse error ends the process with \<open>exit(1)\<close>: the result is None.
\<close>

section \<open>Model\<close>

datatype config_node_type = CONFIG_OPTIONS | CONFIG_ZONE | CONFIG_INCLUDE | CONFIG_UNKNOWN

text \<open>The member \<open>next\<close> of a node is the rest of the list of nodes.\<close>

datatype config_node = Config_Node (node_type: config_node_type) (node_name: "string option") (pairs: "config_pair list")
  and config_pair = Config_Pair (key: string) (pair_value: "string option") (sub_block: "config_node option")

subsection \<open>Tokens\<close>

definition trim :: "string \<Rightarrow> string" where
  "trim s = rev (dropWhile isspace (rev (dropWhile isspace s)))"

datatype token = TOK_EOF | TOK_IDENT string | TOK_STRING string | TOK_LBRACE | TOK_RBRACE | TOK_SEMI | TOK_INCLUDE

definition ident_char :: "char \<Rightarrow> bool" where
  "ident_char c \<longleftrightarrow> \<not> isspace c \<and> c \<notin> {CHR ''{'', CHR ''}'', CHR '';'', CHR ''#''}"

definition next_token :: "string \<Rightarrow> token \<times> string" where
  "next_token s =
     (case dropWhile isspace s of
        [] \<Rightarrow> (TOK_EOF, [])
      | c # p \<Rightarrow>
          if c = CHR ''#'' then (TOK_EOF, [])
          else if c = CHR ''{'' then (TOK_LBRACE, p)
          else if c = CHR ''}'' then (TOK_RBRACE, p)
          else if c = CHR '';'' then (TOK_SEMI, p)
          else if c = CHR 0x22 then
            (TOK_STRING (takeWhile (\<lambda>c. c \<noteq> CHR 0x22) p), tl (dropWhile (\<lambda>c. c \<noteq> CHR 0x22) p))
          else let w = takeWhile ident_char (c # p); rest = dropWhile ident_char (c # p)
            in (if w = ''include'' then TOK_INCLUDE else TOK_IDENT w, rest))"

text \<open>\<open>getline\<close> reads up to and with the next newline; the caller sees the C string of the line.\<close>

definition getline :: "string \<Rightarrow> (string \<times> string) option" where
  "getline f =
     (if f = [] then None
      else Some (takeWhile (\<lambda>c. c \<noteq> CHR 0x00) (take (Suc (length (strip_newline f))) f),
                 drop (Suc (length (strip_newline f))) f))"

definition blank_line :: "string \<Rightarrow> bool" where
  "blank_line line \<longleftrightarrow> line = [] \<or> hd line = CHR ''#''"

subsection \<open>Blocks\<close>

definition pair_new :: "string \<Rightarrow> string option \<Rightarrow> config_node option \<Rightarrow> config_pair" where
  "pair_new k v sub = Config_Pair k v sub"

definition node_append_pair :: "config_node \<Rightarrow> config_pair \<Rightarrow> config_node" where
  "node_append_pair n p = Config_Node (node_type n) (node_name n) (pairs n @ [p])"

definition new_node :: "config_node_type \<Rightarrow> string option \<Rightarrow> config_node" where
  "new_node ty name = Config_Node ty name []"

definition set_name :: "config_node \<Rightarrow> string \<Rightarrow> config_node" where
  "set_name n k = Config_Node (node_type n) (case node_name n of None \<Rightarrow> Some k | Some s \<Rightarrow> Some s) (pairs n)"

lemma getline_shorter:
  assumes "getline f = Some (line, rest)"
  shows "length line + length rest \<le> length f" and "length rest < length f"
proof -
  let ?k = "Suc (length (strip_newline f))"
  have f: "f \<noteq> []" "line = takeWhile (\<lambda>c. c \<noteq> CHR 0x00) (take ?k f)" "rest = drop ?k f"
    using assms by (auto simp: getline_def split: if_splits)
  have "length line \<le> length (take ?k f)" by (simp only: f(2) length_takeWhile_le)
  then show "length line + length rest \<le> length f" by (simp add: f(3)) linarith
  show "length rest < length f" using f(1) by (cases f) (simp_all add: f(3))
qed

lemma length_trim: "length (trim s) \<le> length s"
proof -
  have "length (trim s) \<le> length (dropWhile isspace s)"
    using length_dropWhile_le [of isspace "rev (dropWhile isspace s)"] by (simp add: trim_def)
  also have "\<dots> \<le> length s" by (rule length_dropWhile_le)
  finally show ?thesis .
qed

lemma next_token_shorter:
  assumes "next_token s = (t, rest)"
  shows "length rest \<le> length s" and "t \<noteq> TOK_EOF \<Longrightarrow> length rest < length s"
proof -
  have d: "length (dropWhile isspace s) \<le> length s" by (rule length_dropWhile_le)
  have "length rest \<le> length (dropWhile isspace s) \<and> (t \<noteq> TOK_EOF \<longrightarrow> length rest < length (dropWhile isspace s))"
  proof (cases "dropWhile isspace s")
    case Nil
    then show ?thesis using assms unfolding next_token_def Nil by simp
  next
    case (Cons c p)
    have "length (tl (dropWhile (\<lambda>c. c \<noteq> CHR 0x22) p)) \<le> length p"
      using length_dropWhile_le [of "\<lambda>c. c \<noteq> CHR 0x22" p] by simp
    moreover have "length (dropWhile ident_char p) \<le> length p" by (rule length_dropWhile_le)
    moreover have "\<not> isspace c" using Cons by (metis dropWhile_eq_Cons_conv)
    ultimately show ?thesis
      using assms Cons
      by (auto simp: next_token_def Let_def ident_char_def split: if_splits)
  qed
  then show "length rest \<le> length s" and "t \<noteq> TOK_EOF \<Longrightarrow> length rest < length s" using d by auto
qed

text \<open>The loop that skips empty lines and comments behind a value.\<close>

function next_line :: "string \<Rightarrow> (string \<times> string) option" where
  "next_line f =
     (case getline f of
        None \<Rightarrow> None
      | Some (line, rest) \<Rightarrow> if blank_line (trim line) then next_line rest else Some (trim line, rest))"
  by pat_completeness auto
termination
  by (relation "measure length") (auto dest: getline_shorter)

text \<open>The semicolon behind a value, which may be on a later line: the position behind it and the rest of the file.\<close>

definition value_semi :: "string \<Rightarrow> string \<Rightarrow> (string \<times> string) option" where
  "value_semi pos f =
     (case next_token pos of
        (TOK_EOF, _) \<Rightarrow>
          (case next_line f of
             None \<Rightarrow> None
           | Some (line, rest) \<Rightarrow> (case next_token line of (TOK_SEMI, p2) \<Rightarrow> Some (p2, rest) | _ \<Rightarrow> None))
      | (TOK_SEMI, p2) \<Rightarrow> Some (p2, f)
      | _ \<Rightarrow> None)"

definition skip_semi :: "string \<Rightarrow> string" where
  "skip_semi pos = (case next_token pos of (TOK_SEMI, p2) \<Rightarrow> p2 | _ \<Rightarrow> pos)"

declare next_line.simps [simp del]

lemma next_line_shorter: "next_line f = Some (line, rest) \<Longrightarrow> length line + length rest \<le> length f \<and> length rest < length f"
proof (induction f rule: next_line.induct)
  case (1 f)
  show ?case
  proof (cases "getline f")
    case None
    then show ?thesis using 1(2) by (simp add: next_line.simps [of f])
  next
    case (Some lr)
    obtain l r where lr: "lr = (l, r)" by (cases lr)
    note shorter = getline_shorter [OF Some [unfolded lr]]
    show ?thesis
      using 1(1) [OF Some] 1(2) lr shorter length_trim [of l]
      by (auto simp: next_line.simps [of f] Some split: if_splits)
  qed
qed

lemma value_semi_shorter:
  assumes "value_semi pos f = Some (p2, rest)"
  shows "2 * length rest + length p2 < 2 * length f + length pos"
proof -
  obtain t p where t: "next_token pos = (t, p)" by fastforce
  note shorter = next_token_shorter [OF t]
  show ?thesis
  proof (cases "t = TOK_EOF")
    case True
    then obtain line r where l: "next_line f = Some (line, r)"
      using assms t by (auto simp: value_semi_def split: option.splits)
    obtain t2 p3 where t2: "next_token line = (t2, p3)" by fastforce
    show ?thesis
      using assms t True l t2 next_line_shorter [OF l] next_token_shorter [OF t2]
      by (auto simp: value_semi_def split: token.splits)
  next
    case False
    then show ?thesis using assms t shorter by (auto simp: value_semi_def split: token.splits)
  qed
qed

lemma length_skip_semi: "length (skip_semi pos) \<le> length pos"
proof -
  obtain t p where t: "next_token pos = (t, p)" by fastforce
  then show ?thesis using next_token_shorter [OF t] by (simp add: skip_semi_def split: token.split)
qed

text \<open>
  The loop of a block: \<open>node\<close> is the node so far, \<open>cur\<close> the rest of the line, \<open>f\<close> the rest of the file.
\<close>

function parse_block :: "config_node \<Rightarrow> string \<Rightarrow> string \<Rightarrow> (config_node \<times> string \<times> string) option" where
  "parse_block node cur f =
     (if cur = [] then
        (case getline f of None \<Rightarrow> None | Some (line, rest) \<Rightarrow> parse_block node (trim line) rest)
      else case next_token cur of
        (TOK_EOF, p) \<Rightarrow> parse_block node [] f
      | (TOK_RBRACE, p) \<Rightarrow> Some (node, p, f)
      | (TOK_STRING s, p) \<Rightarrow>
          (case next_token p of
             (TOK_EOF, p2) \<Rightarrow> parse_block node [] f
           | (TOK_SEMI, p2) \<Rightarrow>
               parse_block (node_append_pair node (pair_new ''__item'' (Some (take 1023 s)) None)) p2 f
           | _ \<Rightarrow> None)
      | (TOK_IDENT s, p) \<Rightarrow>
          (case next_token p of
             (TOK_SEMI, p2) \<Rightarrow>
               parse_block (node_append_pair node (pair_new ''__item'' (Some (take 255 s)) None)) p2 f
           | (TOK_LBRACE, p2) \<Rightarrow>
               (case parse_block (new_node CONFIG_UNKNOWN None) p2 f of
                  None \<Rightarrow> None
                | Some (sub, p3, f2) \<Rightarrow>
                    parse_block (node_append_pair node
                      (pair_new (take 255 s) None (Some (set_name sub (take 255 s))))) (skip_semi p3) f2)
           | (TOK_STRING v, p2) \<Rightarrow>
               (case value_semi p2 f of
                  None \<Rightarrow> None
                | Some (p3, f2) \<Rightarrow>
                    parse_block (node_append_pair node (pair_new (take 255 s) (Some (take 1023 v)) None)) p3 f2)
           | (TOK_IDENT v, p2) \<Rightarrow>
               (case value_semi p2 f of
                  None \<Rightarrow> None
                | Some (p3, f2) \<Rightarrow>
                    parse_block (node_append_pair node (pair_new (take 255 s) (Some (take 1023 v)) None)) p3 f2)
           | _ \<Rightarrow> None)
      | _ \<Rightarrow> None)"
  by pat_completeness auto

lemma getline_measure: "getline f = Some (line, rest) \<Longrightarrow> 2 * length rest + length (trim line) < 2 * length f"
  using getline_shorter [of f line rest] length_trim [of line] by simp

lemma parse_block_shrinks:
  "parse_block_dom (node, cur, f) \<Longrightarrow> parse_block node cur f = Some (n2, p2, f2) \<Longrightarrow>
    2 * length f2 + length p2 \<le> 2 * length f + length cur"
proof (induction arbitrary: n2 p2 f2 rule: parse_block.pinduct)
  case (1 node cur f)
  note res = "1.prems" [unfolded parse_block.psimps [OF "1.hyps"]]
  show ?case
  proof (cases "cur = []")
    case True
    then obtain line rest where l: "getline f = Some (line, rest)" "parse_block node (trim line) rest = Some (n2, p2, f2)"
      using res by (auto split: option.splits)
    show ?thesis
      using "1.IH"(1) [OF True l(1) refl l(2)] getline_measure [OF l(1)] by simp
  next
    case False
    obtain t p where t: "next_token cur = (t, p)" by fastforce
    note sh = next_token_shorter [OF t]
    obtain t' p' where t': "next_token p = (t', p')" by fastforce
    note sh' = next_token_shorter [OF t']
    note ih = "1.IH"(2-) [OF False t [symmetric]]
    show ?thesis
    proof (cases t)
      case TOK_EOF
      then show ?thesis using ih(1) [of n2 p2 f2] res False t by simp
    next
      case (TOK_STRING s)
      then show ?thesis 
        using ih(7) [OF TOK_STRING t' [symmetric], of n2 p2 f2] ih(8) [OF TOK_STRING t' [symmetric], of n2 p2 f2]
          res False t t' sh sh' by (auto split: token.splits)
    next
      case (TOK_IDENT s)
      note second = TOK_IDENT t' [symmetric]
      show ?thesis
      proof (cases t')
        case (TOK_IDENT v)
        then obtain p3 f3 where v: "value_semi p' f = Some (p3, f3)"
          using res False t t' second by (auto split: option.splits)
        then show ?thesis
          using ih(2) [OF second TOK_IDENT v refl, of n2 p2 f2] value_semi_shorter [OF v] res False t t' second sh sh'
            TOK_IDENT by simp
      next
        case (TOK_STRING v)
        then obtain p3 f3 where v: "value_semi p' f = Some (p3, f3)"
          using res False t t' second by (auto split: option.splits)
        then show ?thesis
          using ih(3) [OF second TOK_STRING v refl, of n2 p2 f2] value_semi_shorter [OF v] res False t t' second sh sh'
            TOK_STRING by simp
      next
        case TOK_LBRACE
        then obtain sub p3 f3 where b: "parse_block (new_node CONFIG_UNKNOWN None) p' f = Some (sub, p3, f3)"
          using res False t t' second by (auto split: option.splits)
        have "2 * length f2 + length p2 \<le> 2 * length f3 + length (skip_semi p3)"
          using ih(5) [OF second TOK_LBRACE b refl refl, of n2 p2 f2] b res False t t' second TOK_LBRACE by simp
        then show ?thesis
          using ih(4) [OF second TOK_LBRACE b] length_skip_semi [of p3] sh sh' by simp
      next
        case TOK_SEMI
        then show ?thesis using ih(6) [OF second TOK_SEMI, of n2 p2 f2] res False t t' second sh sh' by simp
      qed (use res False t t' second in auto)
    qed (use res False t sh in auto)
  qed
qed

lemma two_tokens:
  assumes "(t, p) = next_token s" and "t \<noteq> TOK_EOF" and "(t2, p2) = next_token p"
  shows "length p2 < length s"
  using next_token_shorter [OF assms(1) [symmetric]] next_token_shorter [OF assms(3) [symmetric]] assms(2) by simp

lemma parse_block_total: "All parse_block_dom"
proof (relation "measure (\<lambda>(node, cur, f). 2 * length f + length cur)", goal_cases)
  case (2 node cur f line rest)
  then show ?case using getline_measure by auto
next
  case (4 node cur f t p s t2 p2 v b p3 f2)
  then show ?case using two_tokens [of t p cur t2 p2] value_semi_shorter by fastforce
next
  case (5 node cur f t p s t2 p2 v b p3 f2)
  then show ?case using two_tokens [of t p cur t2 p2] value_semi_shorter by fastforce
next
  case (7 node cur f t p s t2 p2 b sub b2 p3 f2)
  then show ?case
    using two_tokens [of t p cur t2 p2] parse_block_shrinks [of "new_node CONFIG_UNKNOWN None" p2 f sub p3 f2]
      length_skip_semi [of p3] by auto
qed (use two_tokens in auto)

termination parse_block
  by (rule parse_block_total)


declare parse_block.simps [simp del]

subsection \<open>Files\<close>

definition open_block :: "config_node_type \<Rightarrow> string option \<Rightarrow> string \<Rightarrow> string \<Rightarrow> (config_node \<times> string \<times> string) option" where
  "open_block ty name pos f =
     (case next_token pos of (TOK_LBRACE, p2) \<Rightarrow> parse_block (new_node ty name) p2 f | _ \<Rightarrow> None)"

lemma open_block_shorter: "open_block ty name pos f = Some (n2, p2, f2) \<Longrightarrow> 2 * length f2 \<le> 2 * length f + length pos"
proof -
  assume a: "open_block ty name pos f = Some (n2, p2, f2)"
  obtain t p where t: "next_token pos = (t, p)" by fastforce
  then have "2 * length f2 + length p2 \<le> 2 * length f + length p"
    using a by (intro parse_block_shrinks [of "new_node ty name"]) (auto simp: open_block_def parse_block_total [THEN spec] split: token.splits)
  then show ?thesis using next_token_shorter(1) [OF t] by simp
qed

function parse_lines :: "(string \<Rightarrow> config_node list option) \<Rightarrow> string \<Rightarrow> config_node list \<Rightarrow> config_node list option" where
  "parse_lines inc f nodes =
     (case getline f of
        None \<Rightarrow> Some nodes
      | Some (line, f1) \<Rightarrow>
          if blank_line (trim line) then parse_lines inc f1 nodes
          else case next_token (trim line) of
            (TOK_INCLUDE, p) \<Rightarrow>
              (case next_token p of
                 (TOK_STRING s, p2) \<Rightarrow>
                   if fst (next_token p2) = TOK_SEMI then
                     (case inc (take 511 s) of None \<Rightarrow> None | Some ns \<Rightarrow> parse_lines inc f1 (nodes @ ns))
                   else None
               | _ \<Rightarrow> None)
          | (TOK_IDENT w, p) \<Rightarrow>
              if w = ''options'' then
                (case open_block CONFIG_OPTIONS None p f1 of
                   None \<Rightarrow> None
                 | Some (node, p2, f2) \<Rightarrow> parse_lines inc f2 (nodes @ [node]))
              else if w = ''zone'' then
                (case next_token p of
                   (TOK_STRING s, p2) \<Rightarrow>
                     (case open_block CONFIG_ZONE (if s = [] then None else Some (take 255 s)) p2 f1 of
                        None \<Rightarrow> None
                      | Some (node, p3, f2) \<Rightarrow> parse_lines inc f2 (nodes @ [node]))
                 | _ \<Rightarrow> None)
              else parse_lines inc f1 nodes
          | _ \<Rightarrow> parse_lines inc f1 nodes)"
  by pat_completeness auto
termination
proof (relation "measure (\<lambda>(inc, f, nodes). length f)", goal_cases)
  case (4 inc f nodes r line f1 t p w b node b2 p2 f2)
  then show ?case
    using getline_measure [of f line f1] open_block_shorter [of CONFIG_OPTIONS None p f1 node p2 f2]
      next_token_shorter(1) [of "trim line" t p] by auto
next
  case (5 inc f nodes r line f1 t p w t2 p2 s b node b2 p3 f2)
  then show ?case
    using getline_measure [of f line f1] open_block_shorter [of CONFIG_ZONE "if s = [] then None else Some (take 255 s)" p2 f1 node p3 f2]
      next_token_shorter(1) [of "trim line" t p] next_token_shorter(1) [of p t2 p2] by auto
qed (auto dest: getline_shorter)

declare parse_lines.simps [simp del]

text \<open>\<open>fds\<close> is the number of files that can still be opened.\<close>

primrec parse_file :: "nat \<Rightarrow> (string \<Rightarrow> string option) \<Rightarrow> string \<Rightarrow> config_node list option" where
  "parse_file 0 fs path = Some []"
| "parse_file (Suc fds) fs path =
     (case fs path of None \<Rightarrow> Some [] | Some contents \<Rightarrow> parse_lines (parse_file fds fs) contents [])"

definition parse_config_file :: "nat \<Rightarrow> (string \<Rightarrow> string option) \<Rightarrow> string \<Rightarrow> config_node list option" where
  "parse_config_file fds fs path = parse_file fds fs path"

subsection \<open>Output and look-up\<close>

abbreviation newline :: char where "newline \<equiv> CHR 0x0A"
abbreviation quote :: char where "quote \<equiv> CHR 0x22"

text \<open>A node without pairs has a null pointer, which \<open>dump_pair\<close> reads.\<close>

fun dump_pair :: "config_pair list \<Rightarrow> string outcome" and dump_node :: "config_node \<Rightarrow> string outcome" where
  "dump_pair [] = Returns []"
| "dump_pair (Config_Pair k v sub # ps) =
     and_then
       (case v of
          Some s \<Rightarrow> Returns (quote # s @ [quote] @ '';'' @ [newline])
        | None \<Rightarrow> and_then (case sub of None \<Rightarrow> Returns [] | Some n \<Rightarrow> dump_node n) (\<lambda>b.
            Returns (''{'' @ [newline] @ b @ '' }'' @ [newline])))
       (\<lambda>h. and_then (dump_pair ps) (\<lambda>r. Returns ('' '' @ k @ '' '' @ h @ r)))"
| "dump_node (Config_Node ty name ps) =
     (let n = (case name of None \<Rightarrow> [] | Some s \<Rightarrow> s)
      in if ty = CONFIG_INCLUDE then Returns (''include '' @ [quote] @ n @ [quote] @ '';'' @ [newline])
         else if ps = [] then Undefined
         else and_then (dump_pair ps) (\<lambda>b.
           Returns ((case ty of CONFIG_OPTIONS \<Rightarrow> ''options '' | CONFIG_ZONE \<Rightarrow> ''zone '' @ [quote] @ n @ [quote] @ '' ''
                     | _ \<Rightarrow> ''unknown '') @ ''{'' @ [newline] @ b @ ''}'' @ [newline])))"

primrec config_dump :: "config_node list \<Rightarrow> string outcome" where
  "config_dump [] = Returns []"
| "config_dump (n # ns) = and_then (dump_node n) (\<lambda>h. and_then (config_dump ns) (\<lambda>r. Returns (h @ r)))"

text \<open>zone_manager.c: the value of the first pair with a key.  An entry may be present with a null value.\<close>

definition get_config_value :: "config_pair list \<Rightarrow> string \<Rightarrow> string option" where
  "get_config_value ps k = (case find (\<lambda>p. key p = k) ps of None \<Rightarrow> None | Some p \<Rightarrow> pair_value p)"

text \<open>dns_server.c: the value of the first pair with a key in any block of options.\<close>

fun get_global_option :: "config_node list \<Rightarrow> string \<Rightarrow> string option" where
  "get_global_option [] k = None"
| "get_global_option (n # ns) k =
     (if node_type n = CONFIG_OPTIONS then
        (case find (\<lambda>p. key p = k) (pairs n) of Some p \<Rightarrow> pair_value p | None \<Rightarrow> get_global_option ns k)
      else get_global_option ns k)"

section \<open>Lemmas\<close>

subsection \<open>Reading printed text\<close>

lemma getline_line:
  assumes "newline \<notin> set s" and "CHR 0x00 \<notin> set s"
  shows "getline (s @ newline # rest) = Some (s @ [newline], rest)"
proof -
  have "strip_newline (s @ newline # rest) = s"
    using assms(1) unfolding strip_newline_def by (subst takeWhile_append2) auto
  moreover have "takeWhile (\<lambda>c. c \<noteq> CHR 0x00) (s @ [newline]) = s @ [newline]"
    using assms(2) by (subst takeWhile_append2) auto
  ultimately show ?thesis by (simp add: getline_def)
qed

lemma trim_line:
  assumes "s \<noteq> []" and "\<not> isspace (hd s)" and "\<not> isspace (last s)"
  shows "trim (s @ [newline]) = s" and "trim (CHR '' '' # s @ [newline]) = s"
proof -
  obtain c u where s: "s = c # u" using assms(1) by (cases s) auto
  obtain v d where s2: "s = v @ [d]" using assms(1) by (cases s rule: rev_cases) auto
  have nl: "isspace newline" "isspace (CHR '' '')" by (simp_all add: isspace_def)
  have "dropWhile isspace (s @ [newline]) = s @ [newline]" using assms(2) by (simp add: s)
  moreover have "dropWhile isspace (rev (s @ [newline])) = rev s" using assms(3) nl by (simp add: s2)
  ultimately show "trim (s @ [newline]) = s" and "trim (CHR '' '' # s @ [newline]) = s"
    by (simp_all add: trim_def nl)
qed

lemma token_plain:
  "next_token (CHR '';'' # p) = (TOK_SEMI, p)" "next_token (CHR ''}'' # p) = (TOK_RBRACE, p)"
  "next_token (CHR ''{'' # p) = (TOK_LBRACE, p)" "next_token (CHR '' '' # p) = next_token p"
  by (simp_all add: next_token_def isspace_def)

lemma token_string: "quote \<notin> set v \<Longrightarrow> next_token (quote # v @ quote # p) = (TOK_STRING v, p)"
  by (simp add: next_token_def isspace_def takeWhile_append2 dropWhile_append2 takeWhile_append1)
    (auto simp: takeWhile_append dropWhile_append takeWhile_eq_all_conv)

definition key_ok :: "string \<Rightarrow> bool" where
  "key_ok k \<longleftrightarrow> k \<noteq> [] \<and> length k < 256 \<and> list_all (\<lambda>c. ident_char c \<and> c \<noteq> CHR 0x00) k \<and> hd k \<noteq> quote \<and> k \<noteq> ''include''"

definition text_ok :: "nat \<Rightarrow> string \<Rightarrow> bool" where
  "text_ok n s \<longleftrightarrow> length s < n \<and> quote \<notin> set s \<and> newline \<notin> set s \<and> CHR 0x00 \<notin> set s"

lemma token_ident:
  assumes "key_ok k"
  shows "next_token (k @ CHR '' '' # p) = (TOK_IDENT k, CHR '' '' # p)"
proof -
  obtain c u where k: "k = c # u" using assms by (cases k) (auto simp: key_ok_def)
  have c: "ident_char c" "c \<noteq> quote" "list_all ident_char k"
    using assms by (auto simp: key_ok_def k list_all_iff)
  have "\<not> ident_char (CHR '' '')" by (simp add: ident_char_def isspace_def)
  then have "takeWhile ident_char (k @ CHR '' '' # p) = k" "dropWhile ident_char (k @ CHR '' '' # p) = CHR '' '' # p"
    using c(3) by (auto simp: takeWhile_append dropWhile_append list_all_iff)
  then show ?thesis using c assms by (simp add: next_token_def k ident_char_def key_ok_def Let_def)
qed

definition pair_text :: "string \<Rightarrow> string \<Rightarrow> string" where
  "pair_text k v = k @ CHR '' '' # quote # v @ [quote, CHR '';'']"

lemma pair_text_plain:
  assumes "key_ok k" and "text_ok 1024 v"
  shows "newline \<notin> set (pair_text k v)" "CHR 0x00 \<notin> set (pair_text k v)" "pair_text k v \<noteq> []"
    "\<not> isspace (hd (pair_text k v))" "\<not> isspace (last (pair_text k v))"
  using assms by (auto simp: pair_text_def key_ok_def text_ok_def list_all_iff ident_char_def isspace_def hd_append)

text \<open>One turn of the loop of a block on a printed pair.\<close>

lemma parse_block_pair:
  assumes "key_ok k" and "text_ok 1024 v"
  shows "parse_block node [] (CHR '' '' # pair_text k v @ newline # rest) =
    parse_block (node_append_pair node (Config_Pair k (Some v) None)) [] rest"
proof -
  note plain = pair_text_plain [OF assms]
  have "getline ((CHR '' '' # pair_text k v) @ newline # rest) = Some ((CHR '' '' # pair_text k v) @ [newline], rest)"
    by (rule getline_line) (use plain in auto)
  then have "parse_block node [] (CHR '' '' # pair_text k v @ newline # rest) = parse_block node (pair_text k v) rest"
    using trim_line [OF plain(3-5)] by (subst parse_block.simps) simp
  also have "\<dots> = parse_block (node_append_pair node (Config_Pair k (Some v) None)) [] rest"
  proof -
    have "next_token (pair_text k v) = (TOK_IDENT k, CHR '' '' # quote # v @ [quote, CHR '';''])"
      using token_ident [OF assms(1)] by (simp add: pair_text_def)
    moreover have "next_token (CHR '' '' # quote # v @ [quote, CHR '';'']) = (TOK_STRING v, '';'')"
      using token_string [of v "'';''"] assms(2) by (simp add: token_plain text_ok_def)
    moreover have "value_semi '';'' rest = Some ([], rest)" by (simp add: value_semi_def token_plain)
    moreover have "take 255 k = k" "take 1023 v = v" using assms by (auto simp: key_ok_def text_ok_def)
    ultimately show ?thesis using plain(3) by (subst parse_block.simps) (simp add: pair_new_def)
  qed
  finally show ?thesis .
qed

definition flat_pair :: "config_pair \<Rightarrow> bool" where
  "flat_pair p \<longleftrightarrow> (case p of Config_Pair k (Some v) None \<Rightarrow> key_ok k \<and> text_ok 1024 v | _ \<Rightarrow> False)"

lemma flat_pairE:
  assumes "flat_pair p"
  obtains k v where "p = Config_Pair k (Some v) None" and "key_ok k" and "text_ok 1024 v"
  using assms by (auto simp: flat_pair_def split: config_pair.splits option.splits)

definition pairs_text :: "config_pair list \<Rightarrow> string" where
  "pairs_text ps = concat (map (\<lambda>p. CHR '' '' # pair_text (key p) (the (pair_value p)) @ [newline]) ps)"

lemma dump_pair_flat: "list_all flat_pair ps \<Longrightarrow> dump_pair ps = Returns (pairs_text ps)"
  by (induction ps) (auto elim!: flat_pairE simp: pairs_text_def pair_text_def)

lemma parse_block_flat: "list_all flat_pair ps \<Longrightarrow>
    parse_block node [] (pairs_text ps @ ''}'' @ newline # rest) =
      Some (Config_Node (node_type node) (node_name node) (pairs node @ ps), [], rest)"
proof (induction ps arbitrary: node)
  case Nil
  have "getline ([CHR ''}''] @ newline # rest) = Some ([CHR ''}''] @ [newline], rest)"
    by (rule getline_line) simp_all
  moreover have "trim ([CHR ''}''] @ [newline]) = [CHR ''}'']" by (rule trim_line) (simp_all add: isspace_def)
  ultimately show ?case
    by (subst parse_block.simps) (simp add: pairs_text_def token_plain parse_block.simps [of _ "[CHR ''}'']"])
next
  case (Cons p ps)
  then obtain k v where p: "p = Config_Pair k (Some v) None" "key_ok k" "text_ok 1024 v"
    by (auto elim: flat_pairE)
  have "pairs_text (p # ps) = CHR '' '' # pair_text k v @ newline # pairs_text ps"
    by (simp add: pairs_text_def p)
  then show ?case
    using Cons.IH [of "node_append_pair node p"] Cons.prems parse_block_pair [OF p(2,3), of node]
    by (simp add: p(1) node_append_pair_def)
qed

definition flat_node :: "config_node \<Rightarrow> bool" where
  "flat_node n \<longleftrightarrow> pairs n \<noteq> [] \<and> list_all flat_pair (pairs n) \<and>
     (case node_type n of
        CONFIG_OPTIONS \<Rightarrow> node_name n = None
      | CONFIG_ZONE \<Rightarrow> (case node_name n of None \<Rightarrow> False | Some s \<Rightarrow> s \<noteq> [] \<and> text_ok 256 s)
      | _ \<Rightarrow> False)"

definition head_text :: "config_node \<Rightarrow> string" where
  "head_text n = (case node_name n of None \<Rightarrow> ''options {'' | Some s \<Rightarrow> ''zone '' @ quote # s @ quote # '' {'')"

lemma dump_node_flat: "flat_node n \<Longrightarrow>
    dump_node n = Returns (head_text n @ newline # pairs_text (pairs n) @ ''}'' @ [newline])"
  by (cases n) (auto simp: flat_node_def head_text_def dump_pair_flat split: config_node_type.splits option.splits)

lemma key_words: "key_ok ''options''" "key_ok ''zone''"
  by (simp_all add: key_ok_def ident_char_def isspace_def)

lemma parse_lines_head:
  assumes "newline \<notin> set h" and "CHR 0x00 \<notin> set h" and "h \<noteq> []" and "\<not> isspace (hd h)" and "\<not> isspace (last h)"
    and "hd h \<noteq> CHR ''#''" and "next_token h = (TOK_IDENT w, p)"
  shows "parse_lines inc (h @ newline # f1) nodes =
    (if w = ''options'' then
       (case open_block CONFIG_OPTIONS None p f1 of
          None \<Rightarrow> None | Some (node, p2, f2) \<Rightarrow> parse_lines inc f2 (nodes @ [node]))
     else if w = ''zone'' then
       (case next_token p of
          (TOK_STRING s, p2) \<Rightarrow>
            (case open_block CONFIG_ZONE (if s = [] then None else Some (take 255 s)) p2 f1 of
               None \<Rightarrow> None | Some (node, p3, f2) \<Rightarrow> parse_lines inc f2 (nodes @ [node]))
        | _ \<Rightarrow> None)
     else parse_lines inc f1 nodes)"
  using getline_line [OF assms(1,2), of f1] trim_line(1) [OF assms(3-5)] assms(3,6,7)
  by (subst parse_lines.simps) (simp add: blank_line_def)

lemma parse_lines_node:
  assumes "flat_node n"
  shows "parse_lines inc (head_text n @ newline # pairs_text (pairs n) @ ''}'' @ newline # rest) nodes =
    parse_lines inc rest (nodes @ [n])"
proof -
  obtain ty name ps where n: "n = Config_Node ty name ps" by (cases n)
  let ?f1 = "pairs_text ps @ ''}'' @ newline # rest"
  have ps: "list_all flat_pair ps" using assms by (simp add: flat_node_def n)
  have block: "open_block ty name '' {'' ?f1 = Some (n, [], rest)"
    using parse_block_flat [OF ps, of "new_node ty name" rest]
    by (simp add: open_block_def token_plain new_node_def n)
  have kind: "ty = CONFIG_OPTIONS \<and> name = None \<or>
      (\<exists>s. ty = CONFIG_ZONE \<and> name = Some s \<and> s \<noteq> [] \<and> text_ok 256 s)"
    using assms by (auto simp: flat_node_def n split: config_node_type.splits option.splits)
  then show ?thesis
  proof (elim disjE exE)
    assume o: "ty = CONFIG_OPTIONS \<and> name = None"
    have "next_token ''options {'' = (TOK_IDENT ''options'', '' {'')"
      using token_ident [OF key_words(1), of "''{''"] by simp
    then show ?thesis
      using parse_lines_head [of "''options {''" "''options''" "'' {''" inc ?f1 nodes] block o
      by (simp add: isspace_def head_text_def n)
  next
    fix s assume z: "ty = CONFIG_ZONE \<and> name = Some s \<and> s \<noteq> [] \<and> text_ok 256 s"
    let ?q = "CHR '' '' # quote # s @ quote # '' {''"
    have h: "head_text n = ''zone'' @ ?q" using z by (simp add: head_text_def n)
    have "next_token (''zone'' @ ?q) = (TOK_IDENT ''zone'', ?q)" using token_ident [OF key_words(2)] by blast
    moreover have "next_token ?q = (TOK_STRING s, '' {'')"
      using token_string [of s "'' {''"] z by (simp add: token_plain text_ok_def)
    moreover have "take 255 s = s" using z by (simp add: text_ok_def)
    ultimately show ?thesis
      using parse_lines_head [of "''zone'' @ ?q" "''zone''" ?q inc ?f1 nodes] block z
      unfolding h by (simp add: isspace_def text_ok_def n)
  qed
qed

lemma config_roundtrip_lines: "list_all flat_node ns \<Longrightarrow>
    \<exists>out. config_dump ns = Returns out \<and> (\<forall>nodes. parse_lines inc out nodes = Some (nodes @ ns))"
proof (induction ns)
  case Nil
  then show ?case by (simp add: parse_lines.simps [of inc "[]"] getline_def)
next
  case (Cons n ns)
  then obtain out where out: "config_dump ns = Returns out" "\<And>nodes. parse_lines inc out nodes = Some (nodes @ ns)"
    by auto
  show ?case
    using Cons.prems parse_lines_node [of n inc out] by (simp add: dump_node_flat out)
qed


definition sample_config :: "config_node list" where
  "sample_config =
     [Config_Node CONFIG_OPTIONS None [Config_Pair ''port'' (Some ''5379'') None],
      Config_Node CONFIG_ZONE (Some ''proiect_pso'') [Config_Pair ''type'' (Some ''master'') None,
        Config_Pair ''file'' (Some ''proiect_pso.zone'') None]]"


end
