(* ===== verification/Dns_Zone.thy ===== *)
theory Dns_Zone
  imports Dns_Name Dns_Config
begin

text \<open>
  The zones of the DNS server (DNS_Server/sources/zone_manager.c, include/zone_manager.h): the parser of
  zone files and the answers from local data.  The lists of zones and records are given head first,
  the way the code walks them.  Allocation succeeds.  The reply buffer and the buffers of the parser
  are kept at their sizes: a write behind their end, and a read of an uninitialised token, is
  Undefined.
\<close>

section \<open>Model\<close>

record zone_record =
  rec_name :: string
  rec_type :: u16
  rec_TTL :: u32
  rec_rdata :: string

record zone_node =
  origin :: string
  records :: "zone_record list"

definition add_record_to_zone :: "zone_node \<Rightarrow> string \<Rightarrow> u16 \<Rightarrow> u32 \<Rightarrow> string \<Rightarrow> zone_node" where
  "add_record_to_zone zone name ty ttl rdata =
     zone\<lparr>records := \<lparr>rec_name = take 255 name, rec_type = ty, rec_TTL = ttl, rec_rdata = take 255 rdata\<rparr> # records zone\<rparr>"

subsection \<open>Zone files\<close>

definition atoi32 :: "string \<Rightarrow> u32" where
  "atoi32 s = of_int (strtol s)"

definition word_char :: "char \<Rightarrow> bool" where
  "word_char c \<longleftrightarrow> \<not> isspace c"

text \<open>The types of records other than SOA.\<close>

definition record_type :: "string \<Rightarrow> u16 option" where
  "record_type t =
     (if t = ''A'' then Some 1
      else if t = ''NS'' then Some 2
      else if t = ''CNAME'' then Some 5
      else if t = ''PTR'' then Some 12
      else if t = ''MX'' then Some 15
      else if t = ''AAAA'' then Some 28
      else None)"

text \<open>The text of the data up to a comment, without trailing white space.\<close>

definition read_rdata :: "string \<Rightarrow> string outcome" where
  "read_rdata ptr =
     (let raw = takeWhile (\<lambda>c. c \<noteq> CHR '';'' \<and> c \<noteq> CHR 0x0A) (dropWhile isspace ptr);
          rdata = rev (dropWhile isspace (rev raw))
      in if length raw > 256 \<or> length rdata > 255 then Undefined else Returns rdata)"

text \<open>
  The loop over the tokens of a line: the type, time to live and data of its record, if it has one.
  At the end of the line \<open>sscanf\<close> leaves \<open>token\<close> as it was, None while it is uninitialised.
\<close>

function zone_tokens :: "string \<Rightarrow> string option \<Rightarrow> u32 \<Rightarrow> (u16 \<times> u32 \<times> string) option outcome" where
  "zone_tokens ptr token ttl =
     (if ptr = [] then Returns None
      else
        let p1 = dropWhile isspace ptr;
            p2 = dropWhile word_char p1
        in case (if p1 = [] then token else Some (takeWhile word_char p1)) of
             None \<Rightarrow> Undefined
           | Some t \<Rightarrow>
               if length t \<ge> 256 then Undefined
               else if t \<noteq> [] \<and> isdigit (hd t) then zone_tokens p2 (Some t) (atoi32 t)
               else if t = ''IN'' then zone_tokens p2 (Some t) ttl
               else if t = ''SOA'' then Returns None
               else case record_type t of
                 None \<Rightarrow> zone_tokens p2 (Some t) ttl
               | Some ty \<Rightarrow> and_then (read_rdata p2) (\<lambda>rdata. Returns (Some (ty, ttl, rdata))))"
  by pat_completeness auto

lemma zone_tokens_shorter: "ptr \<noteq> [] \<Longrightarrow> length (dropWhile word_char (dropWhile isspace ptr)) < length ptr"
proof (cases "dropWhile isspace ptr")
  case Nil
  assume "ptr \<noteq> []"
  then show ?thesis unfolding Nil by simp
next
  case (Cons c cs)
  have "\<not> isspace c" using Cons by (metis dropWhile_eq_Cons_conv)
  moreover have "length (dropWhile isspace ptr) \<le> length ptr" by (rule length_dropWhile_le)
  moreover have "length (dropWhile word_char cs) \<le> length cs" by (rule length_dropWhile_le)
  ultimately show ?thesis using Cons by (simp add: word_char_def)
qed

termination zone_tokens
  by (relation "measure (\<lambda>(ptr, token, ttl). length ptr)") (simp_all add: zone_tokens_shorter)

declare zone_tokens.simps [simp del]

definition put_record :: "zone_node \<Rightarrow> string \<Rightarrow> string \<Rightarrow> u32 \<Rightarrow> (u16 \<times> u32 \<times> string) option outcome
    \<Rightarrow> (zone_node \<times> string \<times> u32) outcome" where
  "put_record zone name last_domain current_ttl r =
     and_then r (\<lambda>found.
       Returns (case found of None \<Rightarrow> zone | Some (ty, ttl, rdata) \<Rightarrow> add_record_to_zone zone name ty ttl rdata,
                last_domain, current_ttl))"

text \<open>
  The zone, \<open>last_domain\<close> and \<open>current_ttl\<close> after a line.  The index \<open>sizeof(last_domain) - 1\<close> is 7, since
  \<open>last_domain\<close> is a pointer of 8 bytes.
\<close>

definition parse_zone_line :: "zone_node \<Rightarrow> string \<Rightarrow> string \<Rightarrow> u32 \<Rightarrow> (zone_node \<times> string \<times> u32) outcome" where
  "parse_zone_line zone line last_domain current_ttl =
     (let ptr = dropWhile isspace line
      in if ptr = [] \<or> hd ptr = CHR '';'' \<or> hd ptr = CHR ''#'' then Returns (zone, last_domain, current_ttl)
         else if take 4 ptr = ''$TTL'' then Returns (zone, last_domain, atoi32 (drop 4 ptr))
         else if isspace (hd line) then
           put_record zone (take 255 last_domain) last_domain current_ttl (zone_tokens ptr None current_ttl)
         else let w = takeWhile word_char ptr; name = (if w = ''@'' then take 255 (origin zone) else w)
           in if length w \<ge> 256 then Undefined
              else put_record zone name (take 7 name) current_ttl
                     (zone_tokens (dropWhile word_char ptr) None current_ttl))"

function zone_lines :: "zone_node \<Rightarrow> string \<Rightarrow> string \<Rightarrow> u32 \<Rightarrow> zone_node outcome" where
  "zone_lines zone f last_domain current_ttl =
     (case fgets 1024 f of
        None \<Rightarrow> Returns zone
      | Some (line, rest) \<Rightarrow>
          and_then (parse_zone_line zone (takeWhile (\<lambda>c. c \<noteq> CHR 0x0D \<and> c \<noteq> CHR 0x0A) line) last_domain current_ttl)
            (\<lambda>(zone2, last2, ttl2). zone_lines zone2 rest last2 ttl2))"
  by pat_completeness auto
termination
  by (relation "measure (\<lambda>(zone, f, last, ttl). length f)") (auto dest: fgets_shorter)

declare zone_lines.simps [simp del]

definition load_zone_from_file :: "(string \<Rightarrow> string option) \<Rightarrow> string \<Rightarrow> zone_node \<Rightarrow> string \<Rightarrow> zone_node outcome" where
  "load_zone_from_file fs zones_dir zone filename =
     (case fs (take 1023 (zones_dir @ ''/'' @ filename)) of
        None \<Rightarrow> Returns zone
      | Some contents \<Rightarrow> zone_lines zone contents (take 255 (origin zone)) 3600)"

subsection \<open>Start\<close>

definition zones_directory :: "config_node list \<Rightarrow> string" where
  "zones_directory config_root =
     (case find (\<lambda>n. node_type n = CONFIG_OPTIONS) config_root of
        None \<Rightarrow> ''.''
      | Some n \<Rightarrow> (case get_config_value (pairs n) ''zones_dir'' of None \<Rightarrow> ''.'' | Some d \<Rightarrow> take 511 d))"

fun init_zones :: "(string \<Rightarrow> string option) \<Rightarrow> string \<Rightarrow> zone_node list \<Rightarrow> config_node list \<Rightarrow> zone_node list outcome" where
  "init_zones fs dir zones [] = Returns zones"
| "init_zones fs dir zones (n # ns) =
     (case (node_type n, node_name n) of
        (CONFIG_ZONE, Some name) \<Rightarrow>
          let new_zone = \<lparr>origin = take 255 name, records = []\<rparr>
          in and_then
               (case (get_config_value (pairs n) ''type'', get_config_value (pairs n) ''file'') of
                  (Some ty, Some filename) \<Rightarrow>
                    if ty = ''master'' then load_zone_from_file fs dir new_zone filename else Returns new_zone
                | _ \<Rightarrow> Returns new_zone)
               (\<lambda>z. init_zones fs dir (z # zones) ns)
      | _ \<Rightarrow> init_zones fs dir zones ns)"

definition zone_manager_init :: "(string \<Rightarrow> string option) \<Rightarrow> config_node list \<Rightarrow> zone_node list outcome" where
  "zone_manager_init fs config_root = init_zones fs (zones_directory config_root) [] config_root"

subsection \<open>Answers\<close>

abbreviation BUFFER_SIZE :: nat where "BUFFER_SIZE \<equiv> 512"

text \<open>
  The members of \<open>dns_header\<close> that the reply sets.  The bit fields of the second 16 bits are allocated
  from the least significant bit: QR is bit 0, AA bit 5 and TC bit 6 of byte 2, and Rcode are bits 4
  to 7 of byte 3.
\<close>

definition answer_header :: "u8 list \<Rightarrow> u8 list" where
  "answer_header pkt = pkt[2 := (pkt ! 2 OR 0x21) AND NOT 0x40, 3 := pkt ! 3 AND 0x0F, 6 := 0, 7 := 1]"

text \<open>The loop that measures an encoded name.\<close>

function encoded_size :: "u8 list \<Rightarrow> nat" where
  "encoded_size bs =
     (case bs of [] \<Rightarrow> 0 | b # rest \<Rightarrow> if b = 0 then 1 else unat b + 1 + encoded_size (drop (unat b) rest))"
  by pat_completeness auto
termination
  by (relation "measure length") auto

declare encoded_size.simps [simp del]

definition rdata_bytes :: "zone_record \<Rightarrow> u8 list outcome" where
  "rdata_bytes r =
     (if rec_type r = 1 then
        Returns (case inet_pton4 (rec_rdata r) of None \<Rightarrow> [] | Some a \<Rightarrow> a)
      else if rec_type r = 28 then
        Returns (case inet_pton6 (rec_rdata r) of None \<Rightarrow> [] | Some a \<Rightarrow> a)
      else if rec_type r = 5 \<or> rec_type r = 2 \<or> rec_type r = 12 then
        and_then (text_to_dns_binary (rec_rdata r)) (\<lambda>bs. Returns (take (encoded_size bs) bs))
      else Returns [])"

text \<open>The reply of \<open>handle_local_zone_query\<close> for a record: the query, and the record behind it.\<close>

definition local_reply :: "u8 list \<Rightarrow> zone_record \<Rightarrow> u8 list outcome" where
  "local_reply query r =
     and_then (rdata_bytes r) (\<lambda>rdata.
       let reply = answer_header query @ [0xc0, 0x0c] @ htons_bytes (rec_type r) @ htons_bytes 1 @
                     htonl_bytes (rec_TTL r) @ htons_bytes (of_nat (length rdata)) @ rdata
       in if length reply > BUFFER_SIZE then Undefined else Returns reply)"

definition record_matches :: "string \<Rightarrow> u16 \<Rightarrow> zone_record \<Rightarrow> bool" where
  "record_matches qname qtype r \<longleftrightarrow>
     (let qname_dot = (if last qname = dot then qname else take 256 (qname @ [dot]))
      in (qname = rec_name r \<or> qname_dot = rec_name r) \<and> (qtype = rec_type r \<or> qtype = 255))"

text \<open>
  \<open>query_len\<close> bytes of \<open>query_packet\<close> are copied; None is the result false.  For an empty name the code
  reads the character before the name.
\<close>

definition handle_local_zone_query :: "zone_node list \<Rightarrow> string \<Rightarrow> u16 \<Rightarrow> u8 list \<Rightarrow> u8 list option outcome" where
  "handle_local_zone_query zones qname qtype query =
     (if qname = [] then Undefined
      else case find (record_matches qname qtype) (concat (map records zones)) of
        None \<Rightarrow> Returns None
      | Some r \<Rightarrow> and_then (local_reply query r) (\<lambda>reply. Returns (Some reply)))"

section \<open>Lemmas\<close>

subsection \<open>Answers\<close>

lemma length_answer_header [simp]: "length (answer_header q) = length q"
  by (simp add: answer_header_def)

lemma answer_header_keeps: "12 \<le> length q \<Longrightarrow> take 2 (answer_header q) = take 2 q"
    "drop 12 (answer_header q) = drop 12 q"
  by (simp_all add: answer_header_def)

lemma answer_header_bytes:
  assumes "12 \<le> length q"
  shows "answer_header q ! 2 = (q ! 2 OR 0x21) AND NOT 0x40" "answer_header q ! 6 = 0" "answer_header q ! 7 = 1"
  using assms by (simp_all add: answer_header_def)

lemma length_answer_bytes [simp]: "length (htons_bytes x) = 2" "length (htonl_bytes y) = 4"
  by (simp_all add: htons_bytes_def htonl_bytes_def le_bytes32_def)

lemma find_first: "\<not> list_ex P xs \<Longrightarrow> P x \<Longrightarrow> find P (xs @ x # ys) = Some x"
  by (induction xs) auto

lemma handle_local_reply:
  assumes "handle_local_zone_query zones qname qtype query = Returns (Some reply)"
  obtains rest where "reply = answer_header query @ rest"
  using assms
  by (cases "find (record_matches qname qtype) (concat (map records zones))")
    (auto simp: handle_local_zone_query_def local_reply_def Let_def and_then_Returns split: if_splits)

definition a_answer :: "zone_record \<Rightarrow> u8 list \<Rightarrow> u8 list" where
  "a_answer r addr =
     [0xc0, 0x0c] @ htons_bytes 1 @ htons_bytes 1 @ htonl_bytes (rec_TTL r) @ htons_bytes 4 @ addr"

lemma local_reply_A:
  assumes "rec_type r = 1" and "inet_pton4 (rec_rdata r) = Some addr" and "length query \<le> 496"
  shows "local_reply query r = Returns (answer_header query @ a_answer r addr)"
proof -
  have "length addr = 4" using assms(2) pton4_length by (auto simp: inet_pton4_def)
  then show ?thesis using assms by (simp add: local_reply_def rdata_bytes_def a_answer_def Let_def)
qed


definition sample_zones :: "zone_node list" where
  "sample_zones = [\<lparr>origin = ''proiect_pso'', records =
     [\<lparr>rec_name = ''ns2'', rec_type = 1, rec_TTL = 3600, rec_rdata = ''192.168.42.3''\<rparr>,
      \<lparr>rec_name = ''www'', rec_type = 1, rec_TTL = 3600, rec_rdata = ''192.168.42.33''\<rparr>]\<rparr>]"

text \<open>The query for the A record of \<open>www\<close>.\<close>

definition www_query :: "u8 list" where
  "www_query = [0x12, 0x34, 1, 0, 0, 1, 0, 0, 0, 0, 0, 0, 3, 119, 119, 119, 0, 0, 1, 0, 1]"

lemma www_addr: "inet_pton4 ''192.168.42.33'' = Some [192, 168, 42, 33]"
  by code_simp


text \<open>
  The QR bit of a DNS message is the most significant bit of its third byte.  The bit field that
  the code sets is the least significant one, so the local reply to a query still is a query, and
  its operation code has bit 2 set.
\<close>

lemma local_reply_is_query:
  assumes "12 \<le> length query" and "\<not> bit (query ! 2) 7"
    and "handle_local_zone_query zones qname qtype query = Returns (Some reply)"
  shows "\<not> bit (reply ! 2) 7 \<and> bit (reply ! 2) 5"
proof -
  obtain rest where r: "reply = answer_header query @ rest" by (rule handle_local_reply [OF assms(3)])
  have "reply ! 2 = (query ! 2 OR 0x21) AND NOT 0x40"
    using answer_header_bytes(1) [OF assms(1)] assms(1) by (simp add: r nth_append)
  then show ?thesis using assms(2) by (simp add: bit_simps)
qed

subsection \<open>Zone files\<close>

lemma word_span:
  assumes "list_all word_char w"
  shows "takeWhile word_char (w @ CHR '' '' # s) = w" "dropWhile word_char (w @ CHR '' '' # s) = CHR '' '' # s"
  using assms by (auto simp: takeWhile_append dropWhile_append list_all_iff word_char_def isspace_def)

lemma parse_zone_line_last:
  assumes "w \<noteq> []" and "list_all word_char w" and "hd w \<noteq> CHR '';''" and "hd w \<noteq> CHR ''#''" and "hd w \<noteq> CHR ''$''"
    and "parse_zone_line zone (w @ CHR '' '' # tail) last_domain ttl = Returns (zone1, last1, ttl1)"
  shows "last1 = take 7 (if w = ''@'' then take 255 (origin zone) else w)"
proof -
  obtain c u where w: "w = c # u" using assms(1) by (cases w) auto
  have c: "\<not> isspace c" "c \<noteq> CHR ''$''" "c \<noteq> CHR '';''" "c \<noteq> CHR ''#''"
    using assms(2-5) by (simp_all add: w word_char_def)
  note span = word_span [OF assms(2), of tail]
  show ?thesis
    using assms(6) c span
    by (auto simp: parse_zone_line_def put_record_def Let_def w and_then_Returns split: if_splits)
qed

lemma parse_zone_line_continued:
  assumes "parse_zone_line zone (CHR '' '' # s) last_domain ttl = Returns (zone2, last2, ttl2)"
    and "records zone2 \<noteq> records zone"
  shows "rec_name (hd (records zone2)) = take 255 last_domain"
  using assms
  by (auto simp: parse_zone_line_def put_record_def Let_def add_record_to_zone_def isspace_def and_then_Returns
    split: if_splits option.splits)

text \<open>
  A line of a zone file that starts with white space belongs to the owner of the line before.  The
  parser keeps only seven characters of that owner: every record of such a line is stored under the
  first seven characters of the name, and is not found under the name.
\<close>

lemma continuation_owner_truncated:
  assumes "w \<noteq> []" and "list_all word_char w" and "hd w \<noteq> CHR '';''" and "hd w \<noteq> CHR ''#''" and "hd w \<noteq> CHR ''$''"
    and "owner = (if w = ''@'' then origin zone else w)"
    and "parse_zone_line zone (w @ CHR '' '' # tail) last_domain ttl = Returns (zone1, last1, ttl1)"
    and "parse_zone_line zone1 (CHR '' '' # s) last1 ttl1 = Returns (zone2, last2, ttl2)"
    and "records zone2 \<noteq> records zone1"
  shows "rec_name (hd (records zone2)) = take 7 owner"
  using parse_zone_line_last [OF assms(1-5,7)] parse_zone_line_continued [OF assms(8,9)] assms(6)
  by (simp add: min_def split: if_splits)

end
