(* ===== verification/Dns_Cache.thy ===== *)
theory Dns_Cache
  imports Prelude
begin

text \<open>
  The cache of answers (DNS_Server/sources/dns_cache.c, include/dns_cache.h): a trie whose nodes have one
  child for each character of a name.  The array of children is a function from indices; every index
  that the code uses is below its length.  The trie is shown to refine a map from names, read without
  regard to case, to answers and the time when they expire.
\<close>

section \<open>Model\<close>

abbreviation CACHE_CHARS :: nat where "CACHE_CHARS \<equiv> 40"

datatype cache_entry = Cache_Entry (is_leaf: bool) (expires_at: u32) (response: "u8 list")
  (child: "nat \<Rightarrow> cache_entry option")

definition tolower :: "char \<Rightarrow> char" where
  "tolower c = (let n = of_char c :: nat in if 65 \<le> n \<and> n \<le> 90 then char_of (n + 32) else c)"

definition get_trie_index :: "char \<Rightarrow> nat option" where
  "get_trie_index c0 =
     (let c = tolower c0; n = of_char c :: nat
      in if 97 \<le> n \<and> n \<le> 122 then Some (n - 97)
         else if 48 \<le> n \<and> n \<le> 57 then Some (26 + (n - 48))
         else if c = CHR ''-'' then Some 36
         else if c = CHR ''_'' then Some 37
         else if c = CHR ''.'' then Some 38
         else None)"

definition new_cache_entry :: cache_entry where
  "new_cache_entry = Cache_Entry False 0 [] (\<lambda>i. None)"

definition cache_initialize :: cache_entry where
  "cache_initialize = new_cache_entry"

definition set_child :: "cache_entry \<Rightarrow> nat \<Rightarrow> cache_entry \<Rightarrow> cache_entry" where
  "set_child e i n = Cache_Entry (is_leaf e) (expires_at e) (response e) ((child e)(i := Some n))"

text \<open>
  The walk along the name from a node.  A character without an index ends it, and the nodes that
  were allocated before stay in the trie.
\<close>

fun insert_from :: "cache_entry \<Rightarrow> string \<Rightarrow> u8 list \<Rightarrow> u32 \<Rightarrow> cache_entry" where
  "insert_from e [] resp expires = Cache_Entry True expires resp (child e)"
| "insert_from e (c # cs) resp expires =
     (case get_trie_index c of
        None \<Rightarrow> e
      | Some i \<Rightarrow> set_child e i (insert_from
          (case child e i of None \<Rightarrow> new_cache_entry | Some n \<Rightarrow> n) cs resp expires))"

definition cache_insert :: "cache_entry \<Rightarrow> string \<Rightarrow> u8 list \<Rightarrow> time_t \<Rightarrow> u32 \<Rightarrow> cache_entry" where
  "cache_insert root query_name resp now ttl = insert_from root query_name resp (of_int now + ttl)"

text \<open>The node that a name leads to, and an update of that node through its pointer.\<close>

fun find_node :: "cache_entry \<Rightarrow> string \<Rightarrow> cache_entry option" where
  "find_node e [] = Some e"
| "find_node e (c # cs) =
     (case get_trie_index c of
        None \<Rightarrow> None
      | Some i \<Rightarrow> (case child e i of None \<Rightarrow> None | Some n \<Rightarrow> find_node n cs))"

fun expire_node :: "cache_entry \<Rightarrow> string \<Rightarrow> cache_entry" where
  "expire_node e [] = Cache_Entry False 0 (response e) (child e)"
| "expire_node e (c # cs) =
     (case get_trie_index c of
        None \<Rightarrow> e
      | Some i \<Rightarrow> (case child e i of None \<Rightarrow> e | Some n \<Rightarrow> set_child e i (expire_node n cs)))"

definition cache_lookup :: "cache_entry \<Rightarrow> time_t \<Rightarrow> string \<Rightarrow> cache_entry option \<times> cache_entry" where
  "cache_lookup root now query_name =
     (case find_node root query_name of
        None \<Rightarrow> (None, root)
      | Some e \<Rightarrow>
          if is_leaf e then
            if of_int now < expires_at e then (Some e, root) else (None, expire_node root query_name)
          else (None, root))"

section \<open>Specification\<close>

text \<open>What a name stands for: the indices of its characters.\<close>

fun cache_key :: "string \<Rightarrow> nat list option" where
  "cache_key [] = Some []"
| "cache_key (c # cs) =
     (case get_trie_index c of None \<Rightarrow> None | Some i \<Rightarrow> map_option ((#) i) (cache_key cs))"

primrec cache_map :: "nat list \<Rightarrow> cache_entry \<Rightarrow> (u32 \<times> u8 list) option" where
  "cache_map [] e = (if is_leaf e then Some (expires_at e, response e) else None)"
| "cache_map (i # is) e = (case child e i of None \<Rightarrow> None | Some n \<Rightarrow> cache_map is n)"

definition cache_abs :: "cache_entry \<Rightarrow> nat list \<rightharpoonup> u32 \<times> u8 list" where
  "cache_abs e = (\<lambda>k. cache_map k e)"

definition spec_insert :: "(nat list \<rightharpoonup> u32 \<times> u8 list) \<Rightarrow> string \<Rightarrow> u8 list \<Rightarrow> u32 \<Rightarrow> nat list \<rightharpoonup> u32 \<times> u8 list" where
  "spec_insert m query_name resp expires =
     (case cache_key query_name of None \<Rightarrow> m | Some k \<Rightarrow> m(k \<mapsto> (expires, resp)))"

definition spec_live :: "(nat list \<rightharpoonup> u32 \<times> u8 list) \<Rightarrow> u32 \<Rightarrow> string \<Rightarrow> (u32 \<times> u8 list) option" where
  "spec_live m now query_name =
     Option.bind (cache_key query_name) (\<lambda>k.
       case m k of None \<Rightarrow> None | Some (x, r) \<Rightarrow> if now < x then Some (x, r) else None)"

text \<open>A look-up that finds nothing alive under its name removes what has expired there.\<close>

definition spec_purge :: "(nat list \<rightharpoonup> u32 \<times> u8 list) \<Rightarrow> u32 \<Rightarrow> string \<Rightarrow> nat list \<rightharpoonup> u32 \<times> u8 list" where
  "spec_purge m now query_name =
     (case cache_key query_name of None \<Rightarrow> m
      | Some k \<Rightarrow> if spec_live m now query_name = None then m(k := None) else m)"

section \<open>Lemmas\<close>

lemma get_trie_index_bound: "get_trie_index c = Some i \<Longrightarrow> i < CACHE_CHARS"
  by (auto simp: get_trie_index_def Let_def split: if_splits)

lemma child_set_child [simp]: "child (set_child e i n) = (child e)(i := Some n)"
  and is_leaf_set_child [simp]: "is_leaf (set_child e i n) = is_leaf e"
  and expires_set_child [simp]: "expires_at (set_child e i n) = expires_at e"
  and response_set_child [simp]: "response (set_child e i n) = response e"
  by (simp_all add: set_child_def)

lemma cache_map_set [simp]: "cache_map k (set_child e i n) =
    (case k of [] \<Rightarrow> cache_map [] e | j # js \<Rightarrow> if j = i then cache_map js n else cache_map k e)"
  by (cases k) auto

lemma cache_map_new: "cache_map k new_cache_entry = None"
  by (cases k) (simp_all add: new_cache_entry_def)

lemma cache_abs_initialize: "cache_abs cache_initialize = Map.empty"
  by (simp add: cache_abs_def cache_initialize_def cache_map_new)

lemma insert_from_map: "cache_map k (insert_from e name resp x) =
    (if cache_key name = Some k then Some (x, resp) else cache_map k e)"
proof (induction name arbitrary: e k)
  case Nil
  then show ?case by (cases k) auto
next
  case (Cons c cs)
  show ?case
    by (cases k) (auto simp: Cons cache_map_new split: option.split)
qed

lemma find_node_map: "cache_key name = Some k \<Longrightarrow>
    cache_map k e = (case find_node e name of None \<Rightarrow> None | Some n \<Rightarrow> cache_map [] n)"
  by (induction name arbitrary: e k) (auto split: option.splits)

lemma find_node_None_key: "cache_key name = None \<Longrightarrow> find_node e name = None"
  by (induction name arbitrary: e) (auto split: option.splits)

lemma expire_node_map: "cache_map k (expire_node e name) =
    (if cache_key name = Some k then None else cache_map k e)"
proof (induction name arbitrary: e k)
  case Nil
  then show ?case by (cases k) auto
next
  case (Cons c cs)
  show ?case
    by (cases k) (auto simp: Cons split: option.split)
qed

lemma cache_insert_abs:
  "cache_abs (cache_insert root name resp now ttl) = spec_insert (cache_abs root) name resp (of_int now + ttl)"
  by (auto simp: fun_eq_iff cache_abs_def cache_insert_def spec_insert_def insert_from_map split: option.split)

lemma cache_lookup_abs:
  "map_option (\<lambda>e. (expires_at e, response e)) (fst (cache_lookup root now name)) =
     spec_live (cache_abs root) (of_int now) name"
  "cache_abs (snd (cache_lookup root now name)) = spec_purge (cache_abs root) (of_int now) name"
  by (cases "cache_key name"; cases "find_node root name";
      auto simp: fun_eq_iff cache_abs_def cache_lookup_def spec_live_def spec_purge_def find_node_None_key
        find_node_map expire_node_map)+

lemma tolower_tolower: "tolower (tolower c) = tolower c"
  by (auto simp: tolower_def Let_def)

lemma get_trie_index_tolower [simp]: "get_trie_index (tolower c) = get_trie_index c"
  by (simp add: get_trie_index_def tolower_tolower)

lemma cache_key_tolower: "cache_key (map tolower name) = cache_key name"
  by (induction name) (simp_all split: option.split)


text \<open>What was inserted under a name is found under it, in any case, until its time to live is over.\<close>

lemma cache_lookup_inserted:
  assumes "cache_key name = Some k" and "cache_key name' = Some k"
  shows "map_option response (fst (cache_lookup (cache_insert root name resp now ttl) now' name')) =
    (if (of_int now' :: u32) < of_int now + ttl then Some resp else None)"
proof -
  have "map_option response r = map_option snd (map_option (\<lambda>e. (expires_at e, response e)) r)" for r
    by (cases r) simp_all
  then show ?thesis
    using assms by (simp add: cache_lookup_abs cache_insert_abs spec_live_def spec_insert_def)
qed

end
