(* ===== verification/Dns_Server.thy ===== *)
theory Dns_Server
  imports Dns_Zone Dns_Cache
begin

text \<open>
  The DNS server (DNS_Server/sources/dns_server.c) with its sockets (utils/network_utils.c): the start from
  the configuration and the body of the loop that serves one request.  The outcomes of the system
  calls are arguments, as is the clock, which a request may read twice.
\<close>

section \<open>Model\<close>

subsection \<open>Sockets\<close>

abbreviation ERR_INVALID_ARGUMENT :: int where "ERR_INVALID_ARGUMENT \<equiv> -3"
abbreviation ERR_INPUT_OUTPUT :: int where "ERR_INPUT_OUTPUT \<equiv> -6"
abbreviation ERR_FAILED_TO_BIND_SOCKET :: int where "ERR_FAILED_TO_BIND_SOCKET \<equiv> -11"

text \<open>The descriptor or an error code; \<open>fd\<close> is the result of \<open>socket\<close>.\<close>

definition initialize_udp_socket :: "int \<Rightarrow> bool \<Rightarrow> string \<Rightarrow> int" where
  "initialize_udp_socket fd bind_ok ip =
     (if fd < 0 then ERR_INPUT_OUTPUT
      else if inet_pton4 ip = None then ERR_INVALID_ARGUMENT
      else if \<not> bind_ok then ERR_FAILED_TO_BIND_SOCKET
      else fd)"

text \<open>What the system calls of a forwarded query give; \<open>up_recv\<close> is None on a timeout.\<close>

record upstream_io =
  up_socket :: bool
  up_sockopt :: bool
  up_sendto :: bool
  up_recv :: "u8 list option"

text \<open>The bytes of the answer; none is the length 0.\<close>

definition forward_to_upstream :: "upstream_io \<Rightarrow> string \<Rightarrow> u8 list" where
  "forward_to_upstream io upstream_ip =
     (if \<not> up_socket io \<or> \<not> up_sockopt io \<or> inet_pton4 upstream_ip = None \<or> \<not> up_sendto io then []
      else case up_recv io of None \<Rightarrow> [] | Some bs \<Rightarrow> take BUFFER_SIZE bs)"

subsection \<open>Start\<close>

text \<open>
  The address and port, the zones and the descriptor of the socket.  None is a process that ended
  in the parser of the configuration; a descriptor below 0 is the end with an error code.
\<close>

definition dns_start :: "nat \<Rightarrow> (string \<Rightarrow> string option) \<Rightarrow> int \<Rightarrow> bool \<Rightarrow>
    (string \<times> u16 \<times> zone_node list \<times> int) outcome option" where
  "dns_start fds fs fd bind_ok =
     (case parse_config_file fds fs ''config/dns.conf'' of
        None \<Rightarrow> None
      | Some config_root \<Rightarrow>
          let listen_ip = (case get_global_option config_root ''listen_ip'' of None \<Rightarrow> ''0.0.0.0'' | Some ip \<Rightarrow> ip);
              port = (case get_global_option config_root ''port'' of None \<Rightarrow> 53 | Some p \<Rightarrow> of_int (strtol p))
          in Some (and_then (zone_manager_init fs config_root) (\<lambda>zones.
               Returns (listen_ip, port, zones, initialize_udp_socket fd bind_ok listen_ip))))"

subsection \<open>Requests\<close>

text \<open>The cached bytes with the identification of the request.\<close>

definition cached_reply :: "u8 list \<Rightarrow> cache_entry \<Rightarrow> u8 list" where
  "cached_reply buffer e = take (length (response e)) (take 2 buffer @ drop 2 (response e))"

definition request_buffer :: "u8 list \<Rightarrow> u8 list" where
  "request_buffer pkt = pkt @ replicate (BUFFER_SIZE - length pkt) 0"

text \<open>
  One turn of the loop: the datagrams sent to the client, in order, and the cache.  \<open>recv\<close> is the
  datagram, None if the read failed: then the length becomes the greatest \<open>size_t\<close>, and the parser
  computes pointers outside the buffer.  The result of the parser is only printed.
\<close>

definition serve_request :: "nat \<Rightarrow> zone_node list \<Rightarrow> time_t \<Rightarrow> time_t \<Rightarrow> upstream_io \<Rightarrow> u8 list option \<Rightarrow> cache_entry \<Rightarrow>
    (u8 list list \<times> cache_entry) outcome" where
  "serve_request fuel zones now now2 io recv cache =
     (case recv of
        None \<Rightarrow> Undefined
      | Some dgram \<Rightarrow>
          let pkt = take BUFFER_SIZE dgram; buffer = request_buffer pkt
          in and_then (parse_dns_request fuel buffer (length pkt)) (\<lambda>(res, qname, qtype).
            let (hit, cache1) = cache_lookup cache now qname;
                cached = (case hit of None \<Rightarrow> [] | Some e \<Rightarrow> [cached_reply buffer e])
            in and_then (handle_local_zone_query zones qname qtype pkt) (\<lambda>found.
              case found of
                Some reply \<Rightarrow> Returns (cached @ [reply], cache1)
              | None \<Rightarrow>
                  let fwd = forward_to_upstream io ''8.8.8.8''
                  in if fwd \<noteq> [] then Returns (cached @ [fwd], cache_insert cache1 qname fwd now2 60)
                     else Returns (cached, cache1))))"

inductive dns_step :: "zone_node list \<Rightarrow> cache_entry \<Rightarrow> cache_entry \<Rightarrow> bool" for zones where
  serve: "serve_request fuel zones now now2 io recv cache = Returns (out, cache') \<Longrightarrow> dns_step zones cache cache'"

section \<open>Lemmas\<close>

subsection \<open>Sizes\<close>

definition cache_fits :: "cache_entry \<Rightarrow> bool" where
  "cache_fits c \<longleftrightarrow> (\<forall>k x r. cache_abs c k = Some (x, r) \<longrightarrow> 0 < length r \<and> length r \<le> BUFFER_SIZE)"

lemma cache_fits_initialize: "cache_fits cache_initialize"
  by (simp add: cache_fits_def cache_abs_initialize)

lemma cache_fits_insert: "cache_fits c \<Longrightarrow> resp \<noteq> [] \<Longrightarrow> length resp \<le> BUFFER_SIZE \<Longrightarrow>
    cache_fits (cache_insert c name resp now ttl)"
  by (auto simp: cache_fits_def cache_insert_abs spec_insert_def split: option.splits if_splits)

lemma cache_fits_lookup: "cache_fits c \<Longrightarrow> cache_fits (snd (cache_lookup c now name))"
  by (auto simp: cache_fits_def cache_lookup_abs spec_purge_def split: option.splits if_splits)

lemma cache_fits_hit:
  assumes "cache_fits c" and "cache_lookup c now name = (Some e, c')"
  shows "0 < length (response e) \<and> length (response e) \<le> BUFFER_SIZE"
proof -
  have "spec_live (cache_abs c) (of_int now) name = Some (expires_at e, response e)"
    using cache_lookup_abs(1) [of c now name] assms(2) by simp
  then obtain k where "cache_abs c k = Some (expires_at e, response e)"
    by (auto simp: spec_live_def bind_eq_Some_conv split: option.splits if_splits)
  then show ?thesis using assms(1) by (auto simp: cache_fits_def)
qed

lemma length_forward: "length (forward_to_upstream io ip) \<le> BUFFER_SIZE"
  by (simp add: forward_to_upstream_def split: option.split)

lemma length_local_reply:
  "handle_local_zone_query zones qname qtype query = Returns (Some reply) \<Longrightarrow> length reply \<le> BUFFER_SIZE"
  by (auto simp: handle_local_zone_query_def local_reply_def Let_def and_then_Returns split: if_splits option.splits)

lemma length_cached_reply: "length (cached_reply buffer e) \<le> length (response e)"
  unfolding cached_reply_def by (simp only: length_take min.cobounded2)

text \<open>The ways a request can go.\<close>

lemma serve_requestE:
  assumes "serve_request fuel zones now now2 io recv cache = Returns (out, cache')"
  obtains dgram qname qtype hit cache1 cached found where "recv = Some dgram"
    and "cache_lookup cache now qname = (hit, cache1)"
    and "cached = (case hit of None \<Rightarrow> [] | Some e \<Rightarrow> [cached_reply (request_buffer (take BUFFER_SIZE dgram)) e])"
    and "handle_local_zone_query zones qname qtype (take BUFFER_SIZE dgram) = Returns found"
    and "(\<exists>reply. found = Some reply \<and> out = cached @ [reply] \<and> cache' = cache1) \<or>
      (found = None \<and> forward_to_upstream io ''8.8.8.8'' = [] \<and> out = cached \<and> cache' = cache1) \<or>
      (found = None \<and> forward_to_upstream io ''8.8.8.8'' \<noteq> [] \<and> out = cached @ [forward_to_upstream io ''8.8.8.8''] \<and>
        cache' = cache_insert cache1 qname (forward_to_upstream io ''8.8.8.8'') now2 60)"
proof -
  obtain dgram where d: "recv = Some dgram" using assms by (cases recv) (simp_all add: serve_request_def)
  obtain res qname qtype where p: "parse_dns_request fuel (request_buffer (take BUFFER_SIZE dgram)) (length (take BUFFER_SIZE dgram)) =
      Returns (res, qname, qtype)"
    using assms d by (auto simp: serve_request_def Let_def and_then_Returns)
  obtain hit cache1 where l: "cache_lookup cache now qname = (hit, cache1)" by fastforce
  obtain found where f: "handle_local_zone_query zones qname qtype (take BUFFER_SIZE dgram) = Returns found"
    using assms d p l by (auto simp: serve_request_def Let_def and_then_Returns)
  show thesis
    by (rule that [OF d l refl f])
      (use assms d p l f in \<open>auto simp: serve_request_def Let_def split: option.splits if_splits\<close>)
qed

lemma serve_request_fits:
  assumes "serve_request fuel zones now now2 io recv cache = Returns (out, cache')" and "cache_fits cache"
  shows "cache_fits cache' \<and> (\<forall>d \<in> set out. length d \<le> BUFFER_SIZE)"
  using assms(1)
proof (cases rule: serve_requestE)
  case (1 dgram qname qtype hit cache1 cached found)
  have c1: "cache_fits cache1" using cache_fits_lookup [OF assms(2), of now qname] 1(2) by simp
  have cached: "\<forall>d \<in> set cached. length d \<le> BUFFER_SIZE"
    using cache_fits_hit [OF assms(2)] 1(2) unfolding 1(3) by (cases hit) (auto intro: order_trans [OF length_cached_reply])
  show ?thesis
    using 1(5) c1 cached length_forward [of io] length_local_reply 1(4)
    by (elim disjE) (auto intro: cache_fits_insert)
qed

interpretation dns_run: invariant_system "\<lambda>c. c = cache_initialize" "dns_step zones" cache_fits for zones
  by unfold_locales (auto simp: cache_fits_initialize elim!: dns_step.cases dest: serve_request_fits)


definition no_upstream :: upstream_io where
  "no_upstream = \<lparr>up_socket = True, up_sockopt = True, up_sendto = True, up_recv = None\<rparr>"


subsection \<open>Queries\<close>

text \<open>A query with one question.\<close>

definition query_packet :: "u8 list \<Rightarrow> string list \<Rightarrow> u16 \<Rightarrow> u8 list" where
  "query_packet header ls qtype = header @ name_bytes ls @ 0 # htons_bytes qtype @ htons_bytes 1"

lemma ntohs_bytes: "push_bit 8 (ucast (ucast (drop_bit 8 x) :: u8)) OR ucast (ucast x :: u8) = (x :: u16)"
proof (rule bit_eqI)
  fix n
  assume "possible_bit TYPE(16 word) n"
  then show "bit (push_bit 8 (ucast (ucast (drop_bit 8 x) :: u8)) OR ucast (ucast x :: u8) :: u16) n = bit x n"
    by (cases "n < 8") (auto simp: bit_simps)
qed

lemma ntohs_at_bytes: "length pre = n \<Longrightarrow> ntohs_at (pre @ htons_bytes x @ post) n = x"
  by (simp add: ntohs_at_def htons_bytes_def nth_append ntohs_bytes)

lemma parse_query:
  assumes "length header = 12" and "ls \<noteq> []" and "list_all label_ok ls" and "length (name_text ls) < 255"
    and "length ls < fuel"
  shows "parse_dns_request fuel (request_buffer (query_packet header ls qtype)) (length (query_packet header ls qtype)) =
    Returns (0, name_text ls, qtype)"
proof -
  let ?pad = "replicate (512 - length (query_packet header ls qtype)) (0 :: u8)"
  have name: "dns_binary_to_text fuel (request_buffer (query_packet header ls qtype)) 12 =
      Returns (length (name_text ls) + 2, name_text ls)"
    using dns_read_name [OF assms(2-5), of header "htons_bytes qtype @ htons_bytes 1 @ ?pad"] assms(1)
    by (simp add: request_buffer_def query_packet_def)
  have "ntohs_at ((header @ name_bytes ls @ [0]) @ htons_bytes qtype @ htons_bytes 1 @ ?pad) (14 + length (name_text ls)) = qtype"
    by (rule ntohs_at_bytes) (simp add: assms(1) length_name_bytes length_dotted [OF assms(2)])
  then have "ntohs_at (request_buffer (query_packet header ls qtype)) (14 + length (name_text ls)) = qtype"
    by (simp add: request_buffer_def query_packet_def)
  then show ?thesis
    using name assms(1)
    by (simp add: parse_dns_request_def query_packet_def request_buffer_def length_name_bytes length_dotted [OF assms(2)])
qed

text \<open>How a query for a name without local records is served.\<close>

definition foreign :: "zone_node list \<Rightarrow> string \<Rightarrow> bool" where
  "foreign zones name \<longleftrightarrow>
     list_all (\<lambda>r. rec_name r \<noteq> name \<and> rec_name r \<noteq> name @ [dot]) (concat (map records zones))"

lemma last_name_text:
  assumes "ls \<noteq> []" and "list_all label_ok ls"
  shows "name_text ls \<noteq> []" and "last (name_text ls) \<noteq> dot"
proof -
  obtain l ms where ls: "ls = ms @ [l]" using assms(1) by (cases ls rule: rev_cases) auto
  have "name_text ls = dotted ms @ l" by (simp add: name_text_def dotted_def ls butlast_append)
  moreover have "l \<noteq> []" "dot \<notin> set l" using assms(2) by (simp_all add: ls label_ok_def)
  ultimately show "name_text ls \<noteq> []" and "last (name_text ls) \<noteq> dot" by (auto dest: last_in_set)
qed

lemma handle_foreign:
  assumes "ls \<noteq> []" and "list_all label_ok ls" and "length (name_text ls) < 255" and "foreign zones (name_text ls)"
  shows "handle_local_zone_query zones (name_text ls) qtype query = Returns None"
proof -
  have "\<not> record_matches (name_text ls) qtype r" if "r \<in> set (concat (map records zones))" for r
  proof -
    have "rec_name r \<noteq> name_text ls" "rec_name r \<noteq> name_text ls @ [dot]"
      using assms(4) that unfolding foreign_def list_all_iff by blast+
    then show ?thesis using assms(3) last_name_text [OF assms(1,2)] by (auto simp: record_matches_def Let_def)
  qed
  then have "find (record_matches (name_text ls) qtype) (concat (map records zones)) = None"
    by (simp only: find_None_iff) blast
  then show ?thesis using last_name_text [OF assms(1,2)] by (simp add: handle_local_zone_query_def)
qed

lemma length_query_packet: "length header = 12 \<Longrightarrow> ls \<noteq> [] \<Longrightarrow>
    length (query_packet header ls qtype) = length (name_text ls) + 18"
  by (simp add: query_packet_def length_name_bytes length_dotted)

lemma serve_foreign:
  assumes "length header = 12" and "ls \<noteq> []" and "list_all label_ok ls" and "length (name_text ls) < 255"
    and "length ls < fuel" and "foreign zones (name_text ls)" and "forward_to_upstream io ''8.8.8.8'' = a" and "a \<noteq> []"
  shows "serve_request fuel zones now now2 io (Some (query_packet header ls qtype)) cache =
    Returns ((case fst (cache_lookup cache now (name_text ls)) of None \<Rightarrow> []
        | Some e \<Rightarrow> [take (length (response e)) (take 2 header @ drop 2 (response e))]) @ [a],
      cache_insert (snd (cache_lookup cache now (name_text ls))) (name_text ls) a now2 60)"
proof -
  have "take 512 (query_packet header ls qtype) = query_packet header ls qtype"
    using length_query_packet [OF assms(1,2)] assms(4) by simp
  moreover have "take 2 (request_buffer (query_packet header ls qtype)) = take 2 header"
    using assms(1) by (simp add: request_buffer_def query_packet_def)
  ultimately show ?thesis
    using parse_query [OF assms(1-5), of qtype] handle_foreign [OF assms(2-4,6), of qtype] assms(7,8)
    by (simp add: serve_request_def Let_def split_beta cached_reply_def split: option.split)
qed

lemma clock_before: "0 \<le> now \<Longrightarrow> now \<le> now' \<Longrightarrow> now' < now + 60 \<Longrightarrow> now + 60 < 2 ^ 32 \<Longrightarrow>
    (of_int now' :: u32) < of_int now + 60"
proof -
  assume a: "0 \<le> now" "now \<le> now'" "now' < now + 60" "now + 60 < 2 ^ 32"
  have "(of_int now + 60 :: u32) = of_int (now + 60)" by simp
  then show ?thesis using a by (simp only: word_less_def uint_word_of_int) (simp add: take_bit_int_eq_self)
qed

text \<open>
  The cache knows no types.  After a query that was answered by the upstream server, a query of any
  other type for the same name within the next 60 seconds is answered first with the old answer
  under the new identification, and then a second time with the new answer of the upstream server.
\<close>

lemma cached_answer_for_any_type:
  assumes "length header = 12" and "length header' = 12" and "ls \<noteq> []" and "list_all label_ok ls"
    and "length (name_text ls) < 255" and "length ls < fuel" and "cache_key (name_text ls) = Some k"
    and "foreign zones (name_text ls)" and "forward_to_upstream io ''8.8.8.8'' = a" and "a \<noteq> []"
    and "forward_to_upstream io' ''8.8.8.8'' = b" and "b \<noteq> []"
    and "0 \<le> now" and "now \<le> now'" and "now' < now + 60" and "now + 60 < 2 ^ 32"
  shows "\<exists>cache1 cache2.
    serve_request fuel zones now now io (Some (query_packet header ls qtype)) cache_initialize = Returns ([a], cache1) \<and>
    serve_request fuel zones now' now' io' (Some (query_packet header' ls qtype')) cache1 =
      Returns ([take (length a) (take 2 header' @ drop 2 a), b], cache2)"
proof -
  let ?name = "name_text ls"
  let ?cache1 = "cache_insert (snd (cache_lookup cache_initialize now ?name)) ?name a now 60"
  have none: "fst (cache_lookup cache_initialize now ?name) = None"
    using cache_lookup_abs(1) [of cache_initialize now ?name]
    by (simp add: cache_abs_initialize spec_live_def bind_eq_None_conv split: option.split)
  have "map_option response (fst (cache_lookup ?cache1 now' ?name)) = Some a"
    using cache_lookup_inserted [OF assms(7,7), of "snd (cache_lookup cache_initialize now ?name)" a now 60 now']
      clock_before [OF assms(13-16)] by simp
  then obtain e where e: "fst (cache_lookup ?cache1 now' ?name) = Some e" "response e = a" by auto
  show ?thesis
    using serve_foreign [OF assms(1,3-6,8-10), of now now qtype cache_initialize] none
      serve_foreign [OF assms(2-6,8,11,12), of now' now' qtype' ?cache1] e by simp
qed

lemma upstream_addr: "inet_pton4 ''8.8.8.8'' = Some [8, 8, 8, 8]"
  by code_simp

end
