(* ===== verification/Spec2Isabelle.thy ===== *)
theory Spec2Isabelle
  imports Main_V4 Client_V4 Client_V6 Dns_Server
begin

text \<open>
  A verification of the DHCPv4 server, the DHCPv6 server, their clients and the DNS server of this
  repository.  Paths below are relative to src/, those of the DHCP programs to src/DHCP_Server/.

  \<^bold>\<open>The parts and how they interact.\<close>
  The DHCPv4 server reads its configuration, loads the lease file, builds an address pool for every
  subnet, and starts an expiry timer, a queue of disk operations with its thread, a synchronisation thread
  per pool and four workers.  Its main thread receives packets and hands them to the workers, which run
  \<open>packet_processor\<close> on the lease table and the pool of the first subnet; a clean stop writes the lease
  file.  The DHCPv6 server has pools of addresses and of delegated prefixes per subnet, one lease table with
  its file, a task queue with workers and a cleanup thread.  The clients are the other ends of both
  protocols.  The DNS server answers a query from its cache, its zones or an upstream server.

  \<^bold>\<open>Conventions.\<close>
  A \<open>uintN_t\<close> is an \<open>N\<close> bit word and wraps, \<open>time_t\<close> is an integer, IPv4 addresses are words in network
  order.  An array with its count is a list, a pointer into it an index.  Strings and files are lists of
  characters, buffers and packets lists of bytes.  \<open>time(NULL)\<close> is the argument \<open>now\<close>; results of system
  calls (malloc, pthread, sockets, fopen, the ping probes, localtime, mktime) are parameters.  A call that
  may wait for ever or leave an object yields an \<open>outcome\<close>: \<open>Returns\<close>, \<open>Blocks\<close> or \<open>Undefined\<close>.
  Names are those of the sources; where two programs use the same name that of DHCPv6 has a 6 and that of
  a DHCPv4 parser a 4 in it.

  \<^bold>\<open>Shared theories.\<close>
  \<^item> Prelude: types, byte order, search in arrays, counting, \<open>outcome\<close>, and the locale \<open>invariant_system\<close>
    of step relations with an invariant, interpreted for the two servers, the pools, the worker pool, the
    I/O queue and the DNS server.
  \<^item> Bounded_Fifo, Keyed_Table, Counted_Pool: the contracts of the circular buffers (\<open>bounded_fifo\<close>:
    worker pool, I/O queue, DHCPv6 task queue), of the linear look-ups (\<open>keyed_table\<close>: lease tables and
    pools) and of the pool counters (\<open>counted_pool\<close>, \<open>saturating_counter\<close>), each interpreted on the operations
    of the components.
  \<^item> C_Text, Lease_Time: \<open>strtok\<close>, \<open>fgets\<close>, \<open>strtol\<close>, \<open>sscanf\<close>, \<open>inet_pton\<close> as far as the sources use
    them, and the times of the lease files (DHCPv4/utils/time_utils.c).

  \<^bold>\<open>The DHCPv4 server (DHCPv4/).\<close>
  \<^item> Config_V4, Config_Parse_V4 (src/config_v4.c, include/src/config_v4.h): structures, look-ups and
    the parser.  For every file it ends and stays within the arrays; an error in a host block ends the
    subnet at the brace of the host.
  \<^item> Utils_V4 (utils/string_utils.c, network_utils.c, encoding_utils.c, file_utils.c): helpers of the
    parsers; printing and parsing of addresses and client identifiers are inverse.
  \<^item> Lease_Db (src/lease_v4.c, include/src/lease_v4.h): the lease table refines a map from addresses to
    leases.
  \<^item> Lease_File_V4 (src/lease_v4.c): reading, writing and appending; loading a saved file restores the
    table up to the lease ids.
  \<^item> Lease_Io (src/lease_v4.c): timer and I/O thread; stopping the queue carries out what it accepted
    before, in order, and returns unless the queue is full.
  \<^item> Ip_Pool (src/ip_pool.c): exact counters; an allocation takes nothing from another client and fails
    exactly when nothing is available; the double lock of \<open>ip_pool_mark_conflict\<close>.
  \<^item> Dhcp_Message (src/dhcp_message.c): options that are added are found; OFFER, ACK and NAK.
  \<^item> Thread_Pool (utils/thread_pool.c): first in, first out; a graceful stop executes every task and ends.
  \<^item> Server_V4 (\<open>packet_processor\<close> of src/main.c): the invariant of the server under every sequence of
    packets and thread rounds, the exchange of four packets, who gets an ACK.
  \<^item> Main_V4 (\<open>struct dhcp_server_t\<close> of src/lease_v4.c, \<open>main\<close> of src/main.c): start with every early
    return, receive loop, signals and stop; a restart keeps the clients.

  \<^bold>\<open>The DHCPv6 server (DHCPv6/).\<close>
  \<^item> Utils_V6 (sources/utilsv6.c), Config_V6 (sources/config_v6.c, config_v6_validate.c): helpers, among
    them \<open>ipv6_in_subnet\<close> as comparison of prefixes, parser and validation.
  \<^item> Leases_V6, Lease_File_V6 (sources/leases6.c): the table refines a map from addresses and prefixes to
    leases; what a reload restores and what it loses.
  \<^item> Ip6_Pool, Pd_Pool (sources/ip6_pool.c, pd_pool.c): exact counters, disjoint prefixes, allocation.
  \<^item> Protocol_V6 (sources/protocol_v6.c): parsing inverts the encoding of messages.
  \<^item> Server_V6 (sources/server.c): the invariant of the agent, what replies announce, the addresses that
    the cleanup loses.

  \<^bold>\<open>The clients (client/).\<close>
  Client_V4 and Client_V6: arguments, packets and the state machine of the main loop, composed with
  the servers: the exchanges bind the client to an address that the server holds for it.  The property at
  the end of this theory spans the DHCPv4 parts: a client keeps its address across a restart of the server.

  \<^bold>\<open>The DNS server (DNS_Server/).\<close>
  \<^item> Dns_Name (utils/string_utils.c, sources/dns_parser.c): names are read back; a pointer to itself is
    followed for ever.
  \<^item> Dns_Cache (sources/dns_cache.c): the trie refines a map from names to answers.
  \<^item> Dns_Config (sources/dns_config.c): a printed configuration is read back.
  \<^item> Dns_Zone (sources/zone_manager.c): zone files and local answers.
  \<^item> Dns_Server (sources/dns_server.c, utils/network_utils.c): the loop; no datagram exceeds 512 bytes.

  \<^bold>\<open>Bounds and fuel.\<close>
  All loops are recursive functions with a termination proof, most on the text left to read or on
  the distance to the end of a buffer, with these exceptions.  \<open>name_loop\<close> of Dns_Name follows compression pointers
  without a bound in the code: it has fuel, \<open>Blocks\<close> stands for no fuel left, the round trip
  states how much is enough, and \<open>self_pointer_hangs\<close> that none is.  \<open>parse_file\<close> of Dns_Config is limited by the file
  descriptors that are left, as in the code.  The prefix block of the DHCPv6 lease file loops at the end of the
  file; it yields \<open>Blocks\<close> there.  The threads are step relations, and their termination is a
  bound on the number of steps.

  \<^bold>\<open>Not modelled.\<close>
  \<^item> logger/logger.c, the monitors and the functions that only print (\<open>print_config\<close>, \<open>dump_config_v6\<close>,
    the statistics): output without influence on the state.
  \<^item> Socket options, multicast membership, the shared memory, the queries for an interface and the
    commands that the clients run: system calls; where a result matters it is a parameter.
  \<^item> \<open>ip_ping_check\<close> and \<open>ip6_ping_check\<close>: they run ping, and are the parameter \<open>ping\<close>.
  \<^item> DHCPv6/sources/standalone.c: a main that calls the agent.  DNS_Cache/ holds an older copy of the
    cache that is not built.
  \<^item> Errors of reading and writing an open file, and freeing of memory, except where a freed
    object is used again.
\<close>

section \<open>A client across a restart of the server\<close>

lemma parsed_subnet:
  assumes "parse_config_file4 config_file config_zero = (0, cfg)" "subnets cfg = sub # rest"
  shows "length (dns_servers sub) \<le> 4"
proof -
  have "config4_ok (config_zero\<lparr>global := (global config_zero)\<lparr>allow_unknown_clients := True, allow_bootp := True\<rparr>\<rparr>)"
    by (simp add: config_zero_def config4_ok_def global4_ok_def)
  then have "config4_ok cfg"
    using assms(1) config_lines_ok by (auto simp: parse_config_file4_def split: option.splits)
  then show ?thesis using assms(2) by (simp add: config4_ok_def subnet4_ok_def)
qed

text \<open>
  C5: a client keeps its address across a restart of the server.  The server stops cleanly, writes its
  lease file and starts again from it and its configuration, under the conditions under which a restart
  keeps the clients; a client that owned an address before and now renews it is answered with an ACK, is
  bound to this address again, and the table holds an active lease of it for this client that ends after the
  lease time of the subnet.
\<close>

theorem renewal_after_restart:
  assumes "server_inv (context_of m)" and "lease_db (m_dhcp m) = Ptr db"
    and "timer (m_dhcp m) \<noteq> Dangling" "io_queue (m_dhcp m) = Ptr q" "count q < IO_QUEUE_SIZE"
    and "list_all (storable localtime mktime) (leases db)" "ctime_ok ctime_text" "env_ok env"
    and "parse_config_file4 config_file config_zero = (0, cfg)" "subnets cfg = sub # rest"
    and "distinct (map fixed_address (hosts sub))" "\<forall>h \<in> set (hosts sub). \<not> excluded sub (fixed_address h)"
    and "\<forall>l \<in> set (leases db). \<not> excluded sub (ip_address l)"
    and "cl_state c = STATE_V4_RENEWING" "length (cl_mac c) = 6" "cl_assigned c \<noteq> 0"
    and "map_option snd (lease_owner db (cl_assigned c)) = Some (cl_mac c)"
  shows "\<exists>m' contents m2 t c1 ack dest srv l.
    main_stop localtime ctime_text True now m = Returns (m', Some contents) \<and>
    main_start env mktime now2 config_file (Some contents) = Returns (0, m2) \<and>
    packet_processor ping now3 (task_of a t) (context_of m2) = Returns (Some (ack, dest), srv) \<and>
    client_round (Some ack) c = Returns (Some t, c1) \<and> cl_state c1 = STATE_V4_BOUND \<and> cl_assigned c1 = cl_assigned c \<and>
    lease_map (srv_db srv) (cl_assigned c) = Some l \<and> mac_address l = cl_mac c \<and> lease_state l = LEASE_STATE_ACTIVE \<and>
    end_time l = now3 + uint (default_lease_time sub)"
proof -
  obtain m' contents m2 where s: "main_stop localtime ctime_text True now m = Returns (m', Some contents)"
    "main_start env mktime now2 config_file (Some contents) = Returns (0, m2)" "server_inv (context_of m2)"
    "subnet (srv_pool (context_of m2)) = sub"
    "\<forall>ip. map_option snd (lease_owner (srv_db (context_of m2)) ip) = map_option snd (lease_owner db ip)"
    using restart_owners [OF assms(1-13), of now now2] by blast
  obtain l where l: "lease_map (srv_db (context_of m2)) (cl_assigned c) = Some l" "mac_address l = cl_mac c"
    using spec [OF s(5), of "cl_assigned c"] assms(17) by (auto simp: lease_owner_def)
  have d: "length (dns_servers (subnet (srv_pool (context_of m2)))) \<le> 4"
    using parsed_subnet [OF assms(9,10)] s(4) by simp
  have "mac_address (renewed_lease now3 n l) = cl_mac c \<and> lease_state (renewed_lease now3 n l) = LEASE_STATE_ACTIVE \<and>
      end_time (renewed_lease now3 n l) = now3 + uint n" for n
    using l(2) by (simp add: renewed_lease_def Let_def)
  then show ?thesis
    using renewal_outcome [OF s(3) assms(14-16) d, of ping now3 a] s(1,2,4) l(1) by simp blast
qed

definition renewing_client :: client_v4 where
  "renewing_client = new_client\<lparr>cl_state := STATE_V4_RENEWING, cl_mac := [2, 0, 0, 0, 0, 1], cl_assigned := 16777226\<rparr>"

theorem renewal_after_restart_witness:
  "\<exists>m' contents m2 t c1 ack dest srv.
    main_stop (\<lambda>t. Some file_tm) ''Sat Oct 26 14:30:00 2024'' True 0 sample_state = Returns (m', Some contents) \<and>
    main_start sample_env (\<lambda>f. 1729953000) 0 (Some sample_text) (Some contents) = Returns (0, m2) \<and>
    packet_processor (\<lambda>_ _. False) 50 (task_of any_addr t) (context_of m2) = Returns (Some (ack, dest), srv) \<and>
    client_round (Some ack) renewing_client = Returns (Some t, c1) \<and> cl_state c1 = STATE_V4_BOUND \<and> cl_assigned c1 = 16777226"
proof -
  obtain cfg sub where f: "parse_config_file4 (Some sample_text) config_zero = (0, cfg)" "subnets cfg = [sub]"
    "distinct (map fixed_address (hosts sub))" "\<forall>h \<in> set (hosts sub). \<not> excluded sub (fixed_address h)"
    "\<forall>l \<in> set (leases sample_db). \<not> excluded sub (ip_address l)"
    using sample_subnets by blast
  have c: "cl_state renewing_client = STATE_V4_RENEWING" "length (cl_mac renewing_client) = 6" "cl_assigned renewing_client \<noteq> 0"
    "map_option snd (lease_owner sample_db (cl_assigned renewing_client)) = Some (cl_mac renewing_client)"
    "cl_assigned renewing_client = 16777226"
    using sample_facts(9) by (simp_all add: renewing_client_def)
  show ?thesis
    using renewal_after_restart [OF sample_facts(1-8) f c(1-4), of 0 0 "\<lambda>_ _. False" 50 any_addr] unfolding c(5) by blast
qed

end
